(* ===== verification/Prelude.thy ===== *)
theory Prelude
  imports Main "HOL-Library.Word"
begin

text \<open>
  Shared vocabulary of the development: the machine integers of the C code, the byte order of
  the little-endian targets, and the arithmetic of words that the component theories use.

  The C types \<open>uint8_t\<close> / \<open>unsigned char\<close>, \<open>uint16_t\<close> and \<open>uint32_t\<close> are words of 8, 16 and
  32 bits, so that every overflow of the code is an overflow of the model. A pointer is an
  option: \<open>None\<close> is \<open>NULL\<close>.
\<close>

unbundle bit_operations_syntax

type_synonym u8 = "8 word"
type_synonym u16 = "16 word"
type_synonym u32 = "32 word"

text \<open>A pointer into \<open>alloc_buffer\<close> is the index of a four byte cell; \<open>None\<close> is \<open>NULL\<close>.\<close>
type_synonym ptr = "nat option"

named_theorems word_nat \<open>conversion of the C arithmetic on words to natural numbers\<close>

section \<open>Widening and narrowing\<close>

text \<open>The implicit conversions of C between the unsigned widths.\<close>

abbreviation u8_to_u16 :: "u8 \<Rightarrow> u16" where "u8_to_u16 \<equiv> ucast"
abbreviation u16_to_u8 :: "u16 \<Rightarrow> u8" where "u16_to_u8 \<equiv> ucast"
abbreviation u8_to_u32 :: "u8 \<Rightarrow> u32" where "u8_to_u32 \<equiv> ucast"
abbreviation u16_to_u32 :: "u16 \<Rightarrow> u32" where "u16_to_u32 \<equiv> ucast"
abbreviation u32_to_u16 :: "u32 \<Rightarrow> u16" where "u32_to_u16 \<equiv> ucast"
abbreviation u32_to_u8 :: "u32 \<Rightarrow> u8" where "u32_to_u8 \<equiv> ucast"

lemma unat_u8_lt: "unat (x :: u8) < 256"
  using unsigned_less [of x] by simp

lemma unat_u16_lt: "unat (x :: u16) < 65536"
  using unsigned_less [of x] by simp

lemma unat_u32_lt: "unat (x :: u32) < 4294967296"
  using unsigned_less [of x] by simp

lemma unat_u8_to_u16 [word_nat, simp]: "unat (u8_to_u16 x) = unat x"
proof -
  have "unat x < 65536"
    by (rule order.strict_trans [OF unat_u8_lt]) simp
  then show ?thesis by (simp add: unsigned_ucast_eq take_bit_eq_mod)
qed

lemma unat_u8_to_u32 [word_nat, simp]: "unat (u8_to_u32 x) = unat x"
proof -
  have "unat x < 4294967296"
    by (rule order.strict_trans [OF unat_u8_lt]) simp
  then show ?thesis by (simp add: unsigned_ucast_eq take_bit_eq_mod)
qed

lemma unat_u16_to_u32 [word_nat, simp]: "unat (u16_to_u32 x) = unat x"
proof -
  have "unat x < 4294967296"
    by (rule order.strict_trans [OF unat_u16_lt]) simp
  then show ?thesis by (simp add: unsigned_ucast_eq take_bit_eq_mod)
qed

lemma unat_u16_to_u8 [word_nat]: "unat (u16_to_u8 x) = unat x mod 256"
  by (simp add: unsigned_ucast_eq take_bit_eq_mod)

lemma unat_u32_to_u16 [word_nat]: "unat (u32_to_u16 x) = unat x mod 65536"
  by (simp add: unsigned_ucast_eq take_bit_eq_mod)

lemma unat_u32_to_u8 [word_nat]: "unat (u32_to_u8 x) = unat x mod 256"
  by (simp add: unsigned_ucast_eq take_bit_eq_mod)

lemma unat_high_byte [word_nat]: "unat (u16_to_u8 (drop_bit 8 x)) = unat x div 256"
proof -
  have "unat x div 256 < 256"
    using unat_u16_lt [of x] by (simp only: less_mult_imp_div_less)
  moreover have "unat (drop_bit 8 x) = drop_bit 8 (unat x)"
    by (simp only: unat_drop_bit_eq)
  ultimately show ?thesis
    by (simp only: unsigned_ucast_eq) (simp add: drop_bit_eq_div take_bit_eq_mod)
qed

text \<open>A 16-bit sum split into its low byte and the carry the code keeps.\<close>

lemma unat_split_byte:
  "unat (u16_to_u8 t) + 256 * unat (u16_to_u8 (drop_bit 8 t)) = unat t"
  using mod_mult_div_eq [of "unat t" 256] by (simp only: unat_high_byte unat_u16_to_u8 [of t])

lemma unat_add_u16 [word_nat]: "unat (x + y :: u16) = (unat x + unat y) mod 65536"
  by (simp add: unat_word_ariths)

lemma unat_add_u8 [word_nat]: "unat (x + y :: u8) = (unat x + unat y) mod 256"
  by (simp add: unat_word_ariths)

lemma unat_add_u32 [word_nat]: "unat (x + y :: u32) = (unat x + unat y) mod 4294967296"
  by (simp add: unat_word_ariths)

lemma take_bit_16_32: "take_bit 16 (take_bit 32 (a :: int)) = take_bit 16 a"
  by simp

lemma u32_to_u16_add: "u32_to_u16 (a + b) = u32_to_u16 a + u32_to_u16 b"
proof (transfer, simp)
  fix a b :: int
  show "take_bit 16 (a + b) = take_bit 16 (take_bit 32 a + take_bit 32 b)"
    by (metis take_bit_add take_bit_16_32)
qed

lemma u32_to_u16_diff: "u32_to_u16 (a - b) = u32_to_u16 a - u32_to_u16 b"
proof (transfer, simp)
  fix a b :: int
  show "take_bit 16 (a - b) = take_bit 16 (take_bit 32 a - take_bit 32 b)"
    by (metis take_bit_diff take_bit_16_32)
qed

lemma u32_to_u16_widened [simp]: "u32_to_u16 (u16_to_u32 a) = a"
  by transfer simp

lemma unat_diff_u16: "b \<le> a \<Longrightarrow> unat (a - b) = unat a - unat (b :: u16)"
  by (simp add: unat_sub_if' word_le_nat_alt)

lemma unat_u32_of_nat: "n < 4294967296 \<Longrightarrow> unat (of_nat n :: u32) = n"
  by (simp add: unat_of_nat)

section \<open>Byte order\<close>

text \<open>
  \<open>UI16(p)\<close> and \<open>UI32(p)\<close> read the bytes at \<open>p\<close> as one integer. On the little-endian targets
  the byte at \<open>p[0]\<close> is the low one.
\<close>

definition ui16 :: "u8 \<Rightarrow> u8 \<Rightarrow> u16" where
  "ui16 b0 b1 = u8_to_u16 b0 + 256 * u8_to_u16 b1"

definition ui32 :: "u8 \<Rightarrow> u8 \<Rightarrow> u8 \<Rightarrow> u8 \<Rightarrow> u32" where
  "ui32 b0 b1 b2 b3 =
     u8_to_u32 b0 + 256 * u8_to_u32 b1 + 65536 * u8_to_u32 b2 + 16777216 * u8_to_u32 b3"

definition byte_of :: "nat \<Rightarrow> u32 \<Rightarrow> u8" where
  "byte_of i x = u32_to_u8 (drop_bit (8 * i) x)"

lemma unat_ui16 [word_nat]: "unat (ui16 b0 b1) = unat b0 + 256 * unat b1"
proof -
  have "unat b0 + 256 * unat b1 < 65536"
    using unat_u8_lt [of b0] unat_u8_lt [of b1] by linarith
  then show ?thesis
    by (simp add: ui16_def unat_word_ariths)
qed

lemma unat_ui32 [word_nat]:
  "unat (ui32 b0 b1 b2 b3) = unat b0 + 256 * unat b1 + 65536 * unat b2 + 16777216 * unat b3"
proof -
  have "unat b0 + 256 * unat b1 + 65536 * unat b2 + 16777216 * unat b3 < 4294967296"
    using unat_u8_lt [of b0] unat_u8_lt [of b1] unat_u8_lt [of b2] unat_u8_lt [of b3]
    by linarith
  then show ?thesis
    by (simp add: ui32_def unat_word_ariths)
qed

lemma unat_byte_of: "unat (byte_of i x) = unat x div 2 ^ (8 * i) mod 256"
proof -
  have "unat (drop_bit (8 * i) x) = unat x div 2 ^ (8 * i)"
    by (subst unat_drop_bit_eq) (simp add: drop_bit_eq_div)
  then show ?thesis
    by (simp only: byte_of_def unsigned_ucast_eq) (simp add: take_bit_eq_mod)
qed

lemma base256_digits:
  assumes "256 * q1 + r0 = n" and "256 * q2 + r1 = q1" and "256 * q3 + r2 = q2"
  shows "r0 + 256 * r1 + 65536 * r2 + 16777216 * q3 = (n :: nat)"
  using assms by linarith

lemma nat_base256:
  "n mod 256 + 256 * (n div 256 mod 256) + 65536 * (n div 65536 mod 256)
     + 16777216 * (n div 16777216) = (n :: nat)"
proof -
  have "256 * (n div 65536) + n div 256 mod 256 = n div 256"
    using mult_div_mod_eq [of 256 "n div 256"] by (simp add: div_mult2_eq [symmetric])
  moreover have "256 * (n div 16777216) + n div 65536 mod 256 = n div 65536"
    using mult_div_mod_eq [of 256 "n div 65536"] by (simp add: div_mult2_eq [symmetric])
  ultimately show ?thesis
    using base256_digits [OF mult_div_mod_eq] by metis
qed

lemma ui32_byte_of [simp]:
  "ui32 (byte_of 0 x) (byte_of 1 x) (byte_of 2 x) (byte_of 3 x) = x"
proof -
  have "unat x div 16777216 < 256"
    using unat_u32_lt [of x] by (simp only: less_mult_imp_div_less)
  then have "unat (ui32 (byte_of 0 x) (byte_of 1 x) (byte_of 2 x) (byte_of 3 x)) = unat x"
    using nat_base256 [of "unat x"] by (simp add: unat_ui32 unat_byte_of)
  then show ?thesis by (simp only: word_unat_eq_iff)
qed

lemma byte_of_ui32:
  "byte_of 0 (ui32 b0 b1 b2 b3) = b0" "byte_of (Suc 0) (ui32 b0 b1 b2 b3) = b1"
  "byte_of 2 (ui32 b0 b1 b2 b3) = b2" "byte_of 3 (ui32 b0 b1 b2 b3) = b3"
proof -
  note lt = unat_u8_lt [of b0] unat_u8_lt [of b1] unat_u8_lt [of b2] unat_u8_lt [of b3]
  let ?x = "unat b0 + 256 * unat b1 + 65536 * unat b2 + 16777216 * unat b3"
  have d1: "?x div 256 = unat b1 + 256 * unat b2 + 65536 * unat b3"
    using lt by simp
  have d2: "?x div 65536 = unat b2 + 256 * unat b3"
  proof -
    have "?x div 65536 = ?x div 256 div 256" by (simp flip: div_mult2_eq)
    also have "\<dots> = unat b2 + 256 * unat b3" unfolding d1 using lt by simp
    finally show ?thesis .
  qed
  have d3: "?x div 16777216 = unat b3"
  proof -
    have "?x div 16777216 = ?x div 65536 div 256" by (simp flip: div_mult2_eq)
    also have "\<dots> = unat b3" unfolding d2 using lt by simp
    finally show ?thesis .
  qed
  have m0: "?x mod 256 = unat b0"
  proof -
    have "?x = unat b0 + 256 * (unat b1 + 256 * unat b2 + 65536 * unat b3)" by simp
    also have "\<dots> mod 256 = unat b0" using lt by (simp only: mod_mult_self2 mod_less)
    finally show ?thesis .
  qed
  have m1: "(unat b1 + 256 * unat b2 + 65536 * unat b3) mod 256 = unat b1"
  proof -
    have "unat b1 + 256 * unat b2 + 65536 * unat b3 = unat b1 + 256 * (unat b2 + 256 * unat b3)" by simp
    also have "\<dots> mod 256 = unat b1" using lt by (simp only: mod_mult_self2 mod_less)
    finally show ?thesis .
  qed
  show "byte_of 0 (ui32 b0 b1 b2 b3) = b0" "byte_of (Suc 0) (ui32 b0 b1 b2 b3) = b1"
    "byte_of 2 (ui32 b0 b1 b2 b3) = b2" "byte_of 3 (ui32 b0 b1 b2 b3) = b3"
    using lt m0 m1 d1 d2 d3 by (simp_all add: word_unat_eq_iff unat_byte_of unat_ui32)
qed

section \<open>Loops over a list in the option monad\<close>

text \<open>
  A step that may fail to return (or run into undefined behaviour) has an option as its result;
  \<open>fold_opt\<close> runs it over a list, as a C loop over a chain does.
\<close>

fun fold_opt :: "('a \<Rightarrow> 's \<Rightarrow> 's option) \<Rightarrow> 'a list \<Rightarrow> 's \<Rightarrow> 's option" where
  "fold_opt f [] s = Some s"
| "fold_opt f (x # xs) s = (case f x s of None \<Rightarrow> None | Some s' \<Rightarrow> fold_opt f xs s')"

lemma fold_opt_append: "fold_opt f (xs @ ys) s = Option.bind (fold_opt f xs s) (fold_opt f ys)"
  by (induction xs arbitrary: s) (auto split: option.splits)

lemma fold_opt_snoc: "fold_opt f (xs @ [x]) s = Option.bind (fold_opt f xs s) (f x)"
  by (induction xs arbitrary: s) (auto split: option.splits)

end
