(* ===== verification/Checksum.thy ===== *)
theory Checksum
  imports Prelude
begin

text \<open>
  The Internet checksum of \<open>core/checksum.inl\<close>. The code keeps the sum in two bytes, a pending
  carry and the index (0/1) of the byte the next octet is added to, so that it never needs a
  32-bit accumulator. The theory models every entry point of the file and shows that what is
  left in \<open>current_checksum\<close> after \<open>checksum_end\<close> is the one's complement sum (RFC 1071) of the
  octets that were added, whatever mixture of the byte, 16-bit and 32-bit entry points added
  them.
\<close>

section \<open>Model\<close>

text \<open>
  \<open>current_checksum[S0]\<close> is the high byte and \<open>current_checksum[S1]\<close> the low byte of the sum;
  \<open>checksum_flip\<close> is \<open>S0\<close> or \<open>S1\<close>, and \<open>at_s0\<close> says it is \<open>S0\<close>.
\<close>

record checksum =
  sum_s0 :: u8
  sum_s1 :: u8
  carry :: u8
  at_s0 :: bool

definition checksum_init :: "checksum" where
  "checksum_init = \<lparr>sum_s0 = 0, sum_s1 = 0, carry = 0, at_s0 = True\<rparr>"

text \<open>\<open>tmp_sum = current_checksum[checksum_flip] + val + checksum_carry\<close> in 16 bits.\<close>

definition checksum_add :: "u8 \<Rightarrow> checksum \<Rightarrow> checksum" where
  "checksum_add val s =
    (let cur = (if at_s0 s then sum_s0 s else sum_s1 s);
         tmp_sum = u8_to_u16 cur + u8_to_u16 val + u8_to_u16 (carry s);
         s = (if at_s0 s then s\<lparr>sum_s0 := u16_to_u8 tmp_sum\<rparr>
              else s\<lparr>sum_s1 := u16_to_u8 tmp_sum\<rparr>)
     in s\<lparr>carry := u16_to_u8 (drop_bit 8 tmp_sum), at_s0 := \<not> at_s0 s\<rparr>)"

definition checksum_add16 :: "u16 \<Rightarrow> checksum \<Rightarrow> checksum" where
  "checksum_add16 val s =
    (let tmp_sum = u8_to_u16 (sum_s0 s) + drop_bit 8 val + u8_to_u16 (carry s);
         s = s\<lparr>sum_s0 := u16_to_u8 tmp_sum, carry := u16_to_u8 (drop_bit 8 tmp_sum)\<rparr>;
         tmp_sum = u8_to_u16 (sum_s1 s) + (val AND 0xff) + u8_to_u16 (carry s)
     in s\<lparr>sum_s1 := u16_to_u8 tmp_sum, carry := u16_to_u8 (drop_bit 8 tmp_sum)\<rparr>)"

text \<open>
  \<open>checksum_add32\<close> takes an array of four bytes holding an integer in the byte order of the
  machine; \<open>val[W0]\<close> is its most significant byte and \<open>val[W3]\<close> the least significant one, so
  the argument is the integer and \<open>val[Wn]\<close> is \<open>byte_of (3 - n)\<close>.
\<close>

definition checksum_add32 :: "u32 \<Rightarrow> checksum \<Rightarrow> checksum" where
  "checksum_add32 val s =
    (let w0 = u8_to_u16 (byte_of 3 val); w1 = u8_to_u16 (byte_of 2 val);
         w2 = u8_to_u16 (byte_of 1 val); w3 = u8_to_u16 (byte_of 0 val);
         tmp_sum = u8_to_u16 (sum_s0 s) + w0 + w2 + u8_to_u16 (carry s);
         s = s\<lparr>sum_s0 := u16_to_u8 tmp_sum, carry := u16_to_u8 (drop_bit 8 tmp_sum)\<rparr>;
         tmp_sum = u8_to_u16 (sum_s1 s) + w1 + w3 + u8_to_u16 (carry s)
     in s\<lparr>sum_s1 := u16_to_u8 tmp_sum, carry := u16_to_u8 (drop_bit 8 tmp_sum)\<rparr>)"

text \<open>
  \<open>while(checksum_carry) checksum_add(0);\<close> The measure counts the carry, and, once it is one,
  the bytes that still let it ripple.
\<close>

definition ripple :: "checksum \<Rightarrow> nat" where
  "ripple s = (if sum_s0 s = 255 then 1 else 0) + (if sum_s1 s = 255 then 1 else 0)"

lemma unat_checksum_tmp [word_nat]:
  "unat (u8_to_u16 a + u8_to_u16 b + u8_to_u16 c) = unat a + unat b + unat c"
proof -
  have "unat a + unat b + unat c < 65536"
    using unat_u8_lt [of a] unat_u8_lt [of b] unat_u8_lt [of c] by linarith
  then show ?thesis by (simp add: unat_add_u16)
qed

lemma checksum_add_s0:
  assumes "at_s0 s"
  shows "at_s0 (checksum_add v s) = False"
    and "sum_s1 (checksum_add v s) = sum_s1 s"
    and "unat (sum_s0 (checksum_add v s)) + 256 * unat (carry (checksum_add v s))
       = unat (sum_s0 s) + unat v + unat (carry s)"
  using assms by (simp_all add: checksum_add_def Let_def unat_split_byte unat_checksum_tmp)

lemma checksum_add_s1:
  assumes "\<not> at_s0 s"
  shows "at_s0 (checksum_add v s) = True"
    and "sum_s0 (checksum_add v s) = sum_s0 s"
    and "unat (sum_s1 (checksum_add v s)) + 256 * unat (carry (checksum_add v s))
       = unat (sum_s1 s) + unat v + unat (carry s)"
  using assms by (simp_all add: checksum_add_def Let_def unat_split_byte unat_checksum_tmp)

lemma byte_eq_nat: "(x :: u8) = y \<longleftrightarrow> unat x = unat y"
  by (rule word_unat_eq_iff)

lemma checksum_add_zero_decreases:
  assumes "carry s \<noteq> 0"
  shows "3 * unat (carry (checksum_add 0 s)) + ripple (checksum_add 0 s)
    < 3 * unat (carry s) + ripple s"
proof -
  have "unat (carry s) < 256" by (rule unat_u8_lt)
  moreover have "1 \<le> unat (carry s)"
    using assms by (simp add: byte_eq_nat Suc_le_eq)
  ultimately have c: "1 \<le> unat (carry s)" "unat (carry s) < 256" by simp_all
  show ?thesis
  proof (cases "at_s0 s")
    case True
    with checksum_add_s0 [OF True, of 0] c unat_u8_lt [of "sum_s0 s"]
      unat_u8_lt [of "sum_s0 (checksum_add 0 s)"] show ?thesis
      by (auto simp: ripple_def byte_eq_nat)
  next
    case False
    with checksum_add_s1 [OF False, of 0] c unat_u8_lt [of "sum_s1 s"]
      unat_u8_lt [of "sum_s1 (checksum_add 0 s)"] show ?thesis
      by (auto simp: ripple_def byte_eq_nat)
  qed
qed

function checksum_end :: "checksum \<Rightarrow> checksum" where
  "checksum_end s = (if carry s \<noteq> 0 then checksum_end (checksum_add 0 s) else s)"
  by pat_completeness auto
termination
  by (relation "measure (\<lambda>s. 3 * unat (carry s) + ripple s)")
    (auto simp: checksum_add_zero_decreases)

declare checksum_end.simps [simp del]

text \<open>\<open>UI16(current_checksum)\<close>, the value the callers read.\<close>

definition current_checksum :: "checksum \<Rightarrow> u16" where
  "current_checksum s = ui16 (sum_s1 s) (sum_s0 s)"

text \<open>\<open>UI16(current_checksum) = val\<close>, as the senders preload a precalculated part.\<close>

definition checksum_preload :: "u16 \<Rightarrow> checksum \<Rightarrow> checksum" where
  "checksum_preload val s =
     s\<lparr>sum_s0 := u16_to_u8 (drop_bit 8 val), sum_s1 := u16_to_u8 val\<rparr>"

text \<open>The macro \<open>CHK_SUM\<close> of \<open>checksum.h\<close>, on 32-bit operands.\<close>

definition CHK_SUM :: "u32 \<Rightarrow> u32 \<Rightarrow> u32" where
  "CHK_SUM a b = ((a + b) AND 0x0000ffff) + drop_bit 16 ((a + b) AND 0xffff0000)"

section \<open>Specification: the one's complement sum\<close>

text \<open>
  \<open>ocs n\<close> is the one's complement reduction of \<open>n\<close> to 16 bits: zero only for zero, otherwise
  the representative of \<open>n\<close> modulo 65535 in 1..65535.
\<close>

definition ocs :: "nat \<Rightarrow> nat" where
  "ocs n = (if n = 0 then 0 else Suc ((n - 1) mod 65535))"

lemma ocs_0 [simp]: "ocs 0 = 0"
  by (simp add: ocs_def)

lemma ocs_eq_0_iff [simp]: "ocs n = 0 \<longleftrightarrow> n = 0"
  by (simp add: ocs_def)

lemma ocs_le: "ocs n \<le> 65535"
  by (auto simp: ocs_def Suc_le_eq)

lemma ocs_small: "n \<le> 65535 \<Longrightarrow> ocs n = n"
  by (cases n) (auto simp: ocs_def)

lemma ocs_mod: "ocs n mod 65535 = n mod 65535"
  by (cases n) (auto simp: ocs_def mod_Suc)

lemma ocs_cong: "m mod 65535 = n mod 65535 \<Longrightarrow> (m = 0 \<longleftrightarrow> n = 0) \<Longrightarrow> ocs m = ocs n"
  by (cases m; cases n) (auto simp: ocs_def mod_Suc split: if_splits)

lemma ocs_add_multiple: "0 < m \<Longrightarrow> ocs (m + 65535 * k) = ocs m"
  by (rule ocs_cong) auto

lemma ocs_add_left [simp]: "ocs (ocs m + n) = ocs (m + n)"
  by (rule ocs_cong) (auto simp: ocs_mod mod_add_left_eq [symmetric, of "ocs m"]
      mod_add_left_eq [symmetric, of m])

lemma ocs_add_right [simp]: "ocs (m + ocs n) = ocs (m + n)"
  using ocs_add_left [of n m] by (simp add: add.commute)

lemma ocs_complement: "ocs (n + (65535 - ocs n)) = 65535"
proof -
  have "ocs (n + (65535 - ocs n)) = ocs (ocs n + (65535 - ocs n))" by simp
  also have "ocs n + (65535 - ocs n) = 65535" using ocs_le [of n] by simp
  finally show ?thesis by (simp add: ocs_small)
qed

lemma ocs_ocs [simp]: "ocs (ocs m) = ocs m"
  using ocs_add_left [of m 0] by simp

section \<open>The code computes the one's complement sum\<close>

text \<open>
  The pending carry belongs to the byte that is added next: its weight is 256 before \<open>S0\<close>
  and 1 before \<open>S1\<close> (a carry out of the high byte has weight 65536, which is 1 modulo 65535).
\<close>

definition chk_val :: "checksum \<Rightarrow> nat" where
  "chk_val s = 256 * unat (sum_s0 s) + unat (sum_s1 s)
     + (if at_s0 s then 256 else 1) * unat (carry s)"

definition chk_abs :: "checksum \<Rightarrow> nat" where
  "chk_abs s = ocs (chk_val s)"

lemma ocs_chk_abs [simp]: "ocs (chk_abs s) = chk_abs s"
  by (simp add: chk_abs_def)

lemma chk_abs_init [simp]: "chk_abs checksum_init = 0" "at_s0 checksum_init"
  by (simp_all add: chk_abs_def chk_val_def checksum_init_def)

lemma at_s0_checksum_add [simp]: "at_s0 (checksum_add v s) \<longleftrightarrow> \<not> at_s0 s"
  by (simp add: checksum_add_def Let_def)

lemma chk_val_add_s0:
  "at_s0 s \<Longrightarrow> chk_val (checksum_add v s) + 65535 * unat (carry (checksum_add v s))
     = chk_val s + 256 * unat v"
  using checksum_add_s0 [of s v] by (simp add: chk_val_def)

lemma chk_val_add_s1:
  "\<not> at_s0 s \<Longrightarrow> chk_val (checksum_add v s) = chk_val s + unat v"
  using checksum_add_s1 [of s v] by (simp add: chk_val_def)

lemma ocs_carry_out:
  assumes "m + 65535 * k = n" and "m = 0 \<Longrightarrow> k = 0"
  shows "ocs m = ocs n"
  using assms by (cases "m = 0") (auto simp: ocs_add_multiple [symmetric])

lemma chk_abs_add:
  "chk_abs (checksum_add v s) = ocs (chk_abs s + (if at_s0 s then 256 else 1) * unat v)"
proof (cases "at_s0 s")
  case True
  have "ocs (chk_val (checksum_add v s)) = ocs (chk_val s + 256 * unat v)"
    by (rule ocs_carry_out [OF chk_val_add_s0 [OF True]]) (auto simp: chk_val_def split: if_splits)
  with True show ?thesis by (simp add: chk_abs_def)
next
  case False
  then show ?thesis by (simp add: chk_abs_def chk_val_add_s1)
qed

text \<open>The 16-bit and 32-bit entry points, on an even number of octets so far.\<close>

lemma unat_low_byte_u16: "unat (val AND 0xff :: u16) = unat val mod 256"
proof -
  have "(val AND 0xff :: u16) = take_bit 8 val"
    by (simp add: take_bit_eq_mask mask_eq_decr_exp)
  then show ?thesis
    by (simp only: unsigned_take_bit_eq) (simp add: take_bit_eq_mod)
qed

lemma unat_drop8_u16: "unat (drop_bit 8 val :: u16) = unat val div 256"
  by (subst unat_drop_bit_eq) (simp add: drop_bit_eq_div)

lemma unat_add_bounded:
  "unat x + unat y < 65536 \<Longrightarrow> unat (x + y :: u16) = unat x + unat y"
  by (simp add: unat_add_u16)

lemma unat_add16_tmp:
  assumes "unat w < 256"
  shows "unat (u8_to_u16 a + w + u8_to_u16 c) = unat a + unat w + unat c"
  using assms unat_u8_lt [of a] unat_u8_lt [of c] by (simp add: unat_add_bounded)

lemma unat_add32_tmp:
  "unat (u8_to_u16 a + u8_to_u16 x + u8_to_u16 y + u8_to_u16 c)
     = unat a + unat x + unat y + unat c"
  using unat_u8_lt [of a] unat_u8_lt [of c] unat_u8_lt [of x] unat_u8_lt [of y]
  by (simp add: unat_add_bounded)

lemma checksum_add16_parts:
  obtains c1 where
    "unat (sum_s0 (checksum_add16 v s)) + 256 * c1 = unat (sum_s0 s) + unat v div 256 + unat (carry s)"
    "unat (sum_s1 (checksum_add16 v s)) + 256 * unat (carry (checksum_add16 v s))
       = unat (sum_s1 s) + unat v mod 256 + c1"
    "at_s0 (checksum_add16 v s) = at_s0 s"
proof -
  have hi: "unat (drop_bit 8 v :: u16) < 256"
    using unat_u16_lt [of v] by (simp only: unat_drop8_u16 less_mult_imp_div_less)
  have lo: "unat (v AND 0xff :: u16) < 256"
    by (simp only: unat_low_byte_u16)
  note tmp = unat_add16_tmp [OF hi, of "sum_s0 s" "carry s"] unat_add16_tmp [OF lo]
  show thesis
    by (rule that [of "unat (u16_to_u8 (drop_bit 8
            (u8_to_u16 (sum_s0 s) + drop_bit 8 v + u8_to_u16 (carry s))))"])
      (simp_all add: checksum_add16_def Let_def unat_split_byte tmp
        unat_low_byte_u16 unat_drop8_u16 del: and_mask_bintr)
qed

lemma checksum_add32_parts:
  obtains c1 where
    "unat (sum_s0 (checksum_add32 v s)) + 256 * c1
       = unat (sum_s0 s) + (unat (byte_of 3 v) + unat (byte_of 1 v)) + unat (carry s)"
    "unat (sum_s1 (checksum_add32 v s)) + 256 * unat (carry (checksum_add32 v s))
       = unat (sum_s1 s) + (unat (byte_of 2 v) + unat (byte_of 0 v)) + c1"
    "at_s0 (checksum_add32 v s) = at_s0 s"
  by (rule that [of "unat (u16_to_u8 (drop_bit 8 (u8_to_u16 (sum_s0 s) + u8_to_u16 (byte_of 3 v)
            + u8_to_u16 (byte_of 1 v) + u8_to_u16 (carry s))))"])
    (simp_all add: checksum_add32_def Let_def unat_split_byte unat_add32_tmp)

text \<open>
  The intermediate carry \<open>c1\<close> moves from the high to the low byte, so the value changes by a
  multiple of 65535 only.
\<close>

lemma ocs_carry_through:
  assumes "h' + 256 * c1 = h + x + c" and "l' + 256 * c2 = l + y + c1"
  shows "ocs (256 * h' + l' + 256 * c2) = ocs (256 * h + l + 256 * c + (256 * x + y))"
  by (rule ocs_carry_out [of _ c1]) (use assms in auto)

lemma chk_abs_add16:
  assumes "at_s0 s"
  shows "chk_abs (checksum_add16 v s) = ocs (chk_abs s + unat v)"
proof -
  obtain c1 where
    "unat (sum_s0 (checksum_add16 v s)) + 256 * c1 = unat (sum_s0 s) + unat v div 256 + unat (carry s)"
    "unat (sum_s1 (checksum_add16 v s)) + 256 * unat (carry (checksum_add16 v s))
       = unat (sum_s1 s) + unat v mod 256 + c1"
    "at_s0 (checksum_add16 v s) = at_s0 s"
    by (rule checksum_add16_parts)
  with assms ocs_carry_through [OF this(1,2)] show ?thesis
    by (simp add: chk_abs_def chk_val_def)
qed

lemma chk_abs_add32:
  assumes "at_s0 s"
  shows "chk_abs (checksum_add32 v s) = ocs (chk_abs s
    + (256 * unat (byte_of 3 v) + unat (byte_of 2 v) + 256 * unat (byte_of 1 v) + unat (byte_of 0 v)))"
proof -
  obtain c1 where
    "unat (sum_s0 (checksum_add32 v s)) + 256 * c1
       = unat (sum_s0 s) + (unat (byte_of 3 v) + unat (byte_of 1 v)) + unat (carry s)"
    "unat (sum_s1 (checksum_add32 v s)) + 256 * unat (carry (checksum_add32 v s))
       = unat (sum_s1 s) + (unat (byte_of 2 v) + unat (byte_of 0 v)) + c1"
    "at_s0 (checksum_add32 v s) = at_s0 s"
    by (rule checksum_add32_parts)
  with assms ocs_carry_through [OF this(1,2)] show ?thesis
    by (simp only: chk_abs_def ocs_add_left) (simp add: chk_val_def algebra_simps)
qed

lemma at_s0_add16 [simp]: "at_s0 (checksum_add16 v s) = at_s0 s"
  and at_s0_add32 [simp]: "at_s0 (checksum_add32 w s) = at_s0 s"
  by (simp_all add: checksum_add16_def checksum_add32_def Let_def)

text \<open>\<open>checksum_end\<close> folds the carry in and does not change the sum.\<close>

lemma chk_abs_end [simp]: "chk_abs (checksum_end s) = chk_abs s"
proof (induction s rule: checksum_end.induct)
  case (1 s)
  then show ?case
    by (subst checksum_end.simps) (auto simp: chk_abs_add)
qed

lemma carry_end [simp]: "carry (checksum_end s) = 0"
proof (induction s rule: checksum_end.induct)
  case (1 s)
  then show ?case by (subst checksum_end.simps) auto
qed

lemma current_checksum_end: "unat (current_checksum (checksum_end s)) = chk_abs s"
proof -
  have "chk_val (checksum_end s) \<le> 65535"
    using unat_u8_lt [of "sum_s0 (checksum_end s)"] unat_u8_lt [of "sum_s1 (checksum_end s)"]
    by (simp add: chk_val_def)
  then have "chk_abs (checksum_end s) = chk_val (checksum_end s)"
    by (simp add: chk_abs_def ocs_small)
  also have "\<dots> = unat (current_checksum (checksum_end s))"
    by (simp add: chk_val_def current_checksum_def unat_ui16)
  finally show ?thesis by simp
qed

section \<open>Sequences of calls\<close>

text \<open>
  The senders and the receiver of the code interleave the three entry points. An operation
  feeds the octets \<open>octets op\<close>; the 16-bit and 32-bit ones may only be used on an even number
  of octets so far (the comment "to be used only with an even alignment" of the code), which
  \<open>aligned\<close> checks.
\<close>

datatype chk_op = Add8 u8 | Add16 u16 | Add32 u32

fun chk_step :: "chk_op \<Rightarrow> checksum \<Rightarrow> checksum" where
  "chk_step (Add8 v) s = checksum_add v s"
| "chk_step (Add16 v) s = checksum_add16 v s"
| "chk_step (Add32 v) s = checksum_add32 v s"

fun octets :: "chk_op \<Rightarrow> u8 list" where
  "octets (Add8 v) = [v]"
| "octets (Add16 v) = [u16_to_u8 (drop_bit 8 v), u16_to_u8 v]"
| "octets (Add32 v) = [byte_of 3 v, byte_of 2 v, byte_of 1 v, byte_of 0 v]"

fun aligned :: "bool \<Rightarrow> chk_op list \<Rightarrow> bool" where
  "aligned e [] = True"
| "aligned e (Add8 v # ops) = aligned (\<not> e) ops"
| "aligned e (op # ops) = (e \<and> aligned e ops)"

text \<open>The octets as the 16-bit big-endian integers of RFC 1071, summed in the naturals.\<close>

fun be_sum :: "bool \<Rightarrow> u8 list \<Rightarrow> nat" where
  "be_sum e [] = 0"
| "be_sum e (b # bs) = (if e then 256 else 1) * unat b + be_sum (\<not> e) bs"

lemma bool_flip: "(a = (\<not> b)) = ((\<not> a) = b)"
  by blast

lemma be_sum_append: "be_sum e (xs @ ys) = be_sum e xs + be_sum (even (length xs) = e) ys"
  by (induction xs arbitrary: e) (simp_all add: bool_flip)

lemma octet_sum_u16: "256 * unat (u16_to_u8 (drop_bit 8 v)) + unat (u16_to_u8 v) = unat v"
  using unat_split_byte [of v] by simp

lemma chk_abs_step:
  assumes "aligned (at_s0 s) (op # ops)"
  shows "chk_abs (chk_step op s) = ocs (chk_abs s + be_sum (at_s0 s) (octets op))"
proof (cases op)
  case (Add8 v)
  then show ?thesis by (simp add: chk_abs_add)
next
  case (Add16 v)
  with assms octet_sum_u16 [of v] show ?thesis by (simp add: chk_abs_add16)
next
  case (Add32 v)
  with assms show ?thesis by (simp add: chk_abs_add32 add.assoc)
qed

lemma at_s0_step:
  assumes "aligned (at_s0 s) (op # ops)"
  shows "at_s0 (chk_step op s) = (even (length (octets op)) = at_s0 s)"
    and "aligned (at_s0 (chk_step op s)) ops"
  using assms by (cases op; simp)+

lemma chk_abs_fold:
  assumes "aligned (at_s0 s) ops"
  shows "chk_abs (fold chk_step ops s) = ocs (chk_abs s + be_sum (at_s0 s) (concat (map octets ops)))"
  using assms
proof (induction ops arbitrary: s)
  case Nil
  then show ?case by simp
next
  case (Cons op ops)
  from Cons.IH [OF at_s0_step(2) [OF Cons.prems]] show ?case
    by (simp add: chk_abs_step [OF Cons.prems] at_s0_step(1) [OF Cons.prems] be_sum_append add.assoc)
qed

lemma checksum_fold_init:
  assumes "aligned True ops"
  shows "unat (current_checksum (checksum_end (fold chk_step ops checksum_init)))
    = ocs (be_sum True (concat (map octets ops)))"
  using chk_abs_fold [of checksum_init ops] assms by (simp add: current_checksum_end)

lemma aligned_append:
  "aligned e (xs @ ys) \<longleftrightarrow>
     aligned e xs \<and> aligned (even (length (concat (map octets xs))) = e) ys"
  by (induction e xs rule: aligned.induct) (auto simp: bool_flip)

lemma unat_not_u16: "unat (NOT x :: u16) = 65535 - unat x"
proof -
  have "unat (x + NOT x) = unat (- 1 :: u16)" by simp
  then have "(unat x + unat (NOT x)) mod 65536 = 65535"
    by (simp only: unat_add_u16) (simp add: unsigned_minus_1_eq_mask mask_eq_exp_minus_1)
  then show ?thesis
    using unat_u16_lt [of x] unat_u16_lt [of "NOT x"] by (simp add: mod_if split: if_splits)
qed

section \<open>Properties\<close>

text \<open>
  C1: for every sequence of calls of the three entry points that respects the documented
  alignment, the 16 bits left after \<open>checksum_end\<close> are the one's complement sum of all the
  octets fed, read as big-endian 16-bit integers.
\<close>

theorem checksum_is_ones_complement_sum:
  "aligned True ops \<Longrightarrow>
     unat (current_checksum (checksum_end (fold chk_step ops checksum_init)))
       = ocs (be_sum True (concat (map octets ops)))"
  by (rule checksum_fold_init)

theorem checksum_is_ones_complement_sum_witness:
  "unat (current_checksum (checksum_end
      (fold chk_step [Add8 255, Add8 254, Add16 0xF00D, Add32 0xDEADBEEF] checksum_init)))
    = ocs (be_sum True [255, 254, 0xF0, 0x0D, 0xDE, 0xAD, 0xBE, 0xEF])"
proof -
  have "aligned True [Add8 255, Add8 254, Add16 0xF00D, Add32 0xDEADBEEF]" by simp
  from checksum_is_ones_complement_sum [OF this] show ?thesis
    by (simp add: byte_of_def)
qed

text \<open>
  C2: a receiver accepts what a sender emits. If the sender sums the calls \<open>xs @ ys\<close> and puts
  the complement of the result in a 16-bit field between the two (on an even offset), then
  summing the calls with the field in place gives 0xffff, the value the receiver tests for.
\<close>

theorem complemented_checksum_verifies:
  assumes "aligned True xs" and "aligned True ys"
    and "even (length (concat (map octets xs)))"
    and "field = NOT (current_checksum (checksum_end (fold chk_step (xs @ ys) checksum_init)))"
  shows "current_checksum (checksum_end (fold chk_step (xs @ Add16 field # ys) checksum_init))
    = 0xffff"
proof -
  have al: "aligned True (xs @ ys)" "aligned True (xs @ Add16 field # ys)"
    using assms(1-3) by (simp_all add: aligned_append)
  let ?n = "be_sum True (concat (map octets (xs @ ys)))"
  have "be_sum True (concat (map octets (xs @ Add16 field # ys))) = ?n + unat field"
    using assms(3) octet_sum_u16 [of field] by (simp add: be_sum_append)
  also have "unat field = 65535 - ocs ?n"
    by (simp only: assms(4) unat_not_u16 checksum_fold_init [OF al(1)])
  finally have "unat (current_checksum (checksum_end
      (fold chk_step (xs @ Add16 field # ys) checksum_init))) = unat (0xffff :: u16)"
    by (simp only: checksum_fold_init [OF al(2)] ocs_complement) simp
  then show ?thesis by (simp only: word_unat_eq_iff)
qed

theorem complemented_checksum_verifies_witness:
  "current_checksum (checksum_end (fold chk_step
     ([Add16 0x4500] @ Add16 (NOT (current_checksum (checksum_end
        (fold chk_step ([Add16 0x4500] @ [Add32 0xC0A80001]) checksum_init))))
      # [Add32 0xC0A80001]) checksum_init)) = 0xffff"
  by (rule complemented_checksum_verifies) simp_all

end
