(* ===== verification/Memory.thy ===== *)
theory Memory
  imports Prelude "HOL-Library.Monad_Syntax"
begin

text \<open>
  The dynamic memory of the kernel, \<open>core/memory.c\<close>: one static array of 32-bit cells, the free
  blocks chained by offsets stored in the blocks themselves, no information kept about the
  allocated ones. The theory models the allocator on the array of cells and refines it to two
  operations on the list of free blocks (first fit, and insertion with merging); the free list
  is then related to the set of live blocks of the kernel.

  A function that follows the chain may loop on a corrupted one: it is a partial function and
  \<open>None\<close> is "does not return". The refinement lemmas prove that it returns on every heap that
  the operations themselves build.
\<close>

section \<open>Model\<close>

text \<open>
  \<open>struct free_bloc_s\<close>, two 16-bit halves of one cell: \<open>size\<close> is the low half and \<open>to_next\<close> the
  high half on a little-endian machine. Both count cells.
\<close>

definition bloc_size :: "u32 \<Rightarrow> u16" where
  "bloc_size c = u32_to_u16 c"

definition to_next :: "u32 \<Rightarrow> u16" where
  "to_next c = u32_to_u16 (drop_bit 16 c)"

definition mk_bloc :: "u16 \<Rightarrow> u16 \<Rightarrow> u32" where
  "mk_bloc sz nxt = u16_to_u32 sz + 65536 * u16_to_u32 nxt"

record heap =
  cells :: "nat \<Rightarrow> u32"
  first_free :: nat

abbreviation set_size :: "nat \<Rightarrow> u16 \<Rightarrow> (nat \<Rightarrow> u32) \<Rightarrow> (nat \<Rightarrow> u32)" where
  "set_size b v c \<equiv> c(b := mk_bloc v (to_next (c b)))"

abbreviation set_next :: "nat \<Rightarrow> u16 \<Rightarrow> (nat \<Rightarrow> u32) \<Rightarrow> (nat \<Rightarrow> u32)" where
  "set_next b v c \<equiv> c(b := mk_bloc (bloc_size (c b)) v)"

text \<open>\<open>curr_free + curr_free->to_next\<close>\<close>

abbreviation next_bloc :: "(nat \<Rightarrow> u32) \<Rightarrow> nat \<Rightarrow> nat" where
  "next_bloc c b \<equiv> b + unat (to_next (c b))"

text \<open>The static array is zero before \<open>mem_reset\<close>; \<open>n\<close> is \<open>ALLOC_SIZE / 4\<close>.\<close>

definition heap_static :: heap where
  "heap_static = \<lparr>cells = (\<lambda>_. 0), first_free = 0\<rparr>"

definition mem_reset :: "nat \<Rightarrow> heap \<Rightarrow> heap" where
  "mem_reset n h = h\<lparr>first_free := 0,
     cells := (cells h)(0 := push_bit 16 (of_nat n) OR of_nat n)\<rparr>"

text \<open>\<open>if(size % 4 > 0) size += 4; size >>= 2;\<close> on a \<open>uint16_t\<close>.\<close>

definition cells_of_size :: "u16 \<Rightarrow> u16" where
  "cells_of_size sz = drop_bit 2 (if sz mod 4 > 0 then sz + 4 else sz)"

partial_function (option) find_bloc ::
  "(nat \<Rightarrow> u32) \<Rightarrow> u16 \<Rightarrow> ptr \<Rightarrow> nat \<Rightarrow> (ptr \<times> nat) option" where
  "find_bloc c sz prev cur =
     (if bloc_size (c cur) \<noteq> 0 \<and> bloc_size (c cur) < sz
      then find_bloc c sz (Some cur) (next_bloc c cur)
      else Some (prev, cur))"

definition mem_alloc :: "u16 \<Rightarrow> heap \<Rightarrow> (ptr \<times> heap) option" where
  "mem_alloc bytes h =
    (let size = cells_of_size bytes; c = cells h in
     do { (prev, cur) \<leftarrow> find_bloc c size None (first_free h);
          if bloc_size (c cur) = size then
            Some (Some cur,
              case prev of
                None \<Rightarrow> h\<lparr>first_free := next_bloc c cur\<rparr>
              | Some p \<Rightarrow> h\<lparr>cells := set_next p (to_next (c p) + to_next (c cur)) c\<rparr>)
          else if bloc_size (c cur) \<ge> size then
            (let new_free = cur + unat size;
                 h1 = (case prev of
                         None \<Rightarrow> h\<lparr>first_free := new_free\<rparr>
                       | Some p \<Rightarrow> h\<lparr>cells := set_next p (to_next (c p) + size) c\<rparr>);
                 c1 = set_size new_free (bloc_size (cells h1 cur) - size) (cells h1);
                 c2 = set_next new_free (to_next (c1 cur) - size) c1
             in Some (Some cur, h1\<lparr>cells := c2\<rparr>))
          else Some (None, h) })"

definition chain_free_blocs :: "nat \<Rightarrow> nat \<Rightarrow> (nat \<Rightarrow> u32) \<Rightarrow> (nat \<Rightarrow> u32)" where
  "chain_free_blocs b1 b2 c =
    (if b1 + unat (bloc_size (c b1)) = b2 then
       (let c1 = set_next b1 (to_next (c b2) + bloc_size (c b1)) c
        in set_size b1 (bloc_size (c1 b1) + bloc_size (c1 b2)) c1)
     else set_next b1 (of_nat (b2 - b1)) c)"

partial_function (option) find_around ::
  "(nat \<Rightarrow> u32) \<Rightarrow> nat \<Rightarrow> ptr \<Rightarrow> nat \<Rightarrow> (ptr \<times> nat) option" where
  "find_around c to_free prev cur =
     (if cur < to_free then find_around c to_free (Some cur) (next_bloc c cur)
      else Some (prev, cur))"

definition mem_free :: "ptr \<Rightarrow> u16 \<Rightarrow> heap \<Rightarrow> heap option" where
  "mem_free p bytes h =
    (case p of
       None \<Rightarrow> Some h
     | Some to_free \<Rightarrow>
        if bytes = 0 then Some h
        else
         (let size = cells_of_size bytes; c = cells h in
          do { (prev, cur) \<leftarrow> find_around c to_free None (first_free h);
               let c1 = set_size to_free size c;
                   c2 = set_next to_free (of_nat (cur - to_free)) c1;
                   c3 = (if bloc_size (c2 cur) \<noteq> 0 then chain_free_blocs to_free cur c2 else c2)
               in Some (case prev of
                    Some q \<Rightarrow> h\<lparr>cells := chain_free_blocs q to_free c3\<rparr>
                  | None \<Rightarrow> h\<lparr>cells := c3, first_free := to_free\<rparr>) }))"

text \<open>The monitoring functions: the loops run while \<open>to_next\<close> is not zero.\<close>

partial_function (option) sum_free :: "(nat \<Rightarrow> u32) \<Rightarrow> nat \<Rightarrow> int \<Rightarrow> int option" where
  "sum_free c cur acc =
     (if to_next (c cur) \<noteq> 0
      then sum_free c (next_bloc c cur) (acc + int (unat (bloc_size (c cur))))
      else Some acc)"

definition get_free_mem :: "heap \<Rightarrow> int option" where
  "get_free_mem h = map_option (\<lambda>s. s * 4) (sum_free (cells h) (first_free h) 0)"

partial_function (option) max_free :: "(nat \<Rightarrow> u32) \<Rightarrow> nat \<Rightarrow> int \<Rightarrow> int option" where
  "max_free c cur acc =
     (if to_next (c cur) \<noteq> 0
      then max_free c (next_bloc c cur)
             (if int (unat (bloc_size (c cur))) > acc then int (unat (bloc_size (c cur))) else acc)
      else Some acc)"

definition get_max_free_mem :: "heap \<Rightarrow> int option" where
  "get_max_free_mem h = map_option (\<lambda>s. s * 4) (max_free (cells h) (first_free h) 0)"

text \<open>Bytes of the array, for the copy of \<open>mem_realloc\<close>: byte \<open>i\<close> from the cell \<open>p\<close> on.\<close>

definition get_byte :: "(nat \<Rightarrow> u32) \<Rightarrow> nat \<Rightarrow> nat \<Rightarrow> u8" where
  "get_byte c p i = byte_of (i mod 4) (c (p + i div 4))"

definition set_byte :: "nat \<Rightarrow> nat \<Rightarrow> u8 \<Rightarrow> (nat \<Rightarrow> u32) \<Rightarrow> (nat \<Rightarrow> u32)" where
  "set_byte p i v c =
    (let w = c (p + i div 4); b = (\<lambda>j. if j = i mod 4 then v else byte_of j w)
     in c(p + i div 4 := ui32 (b 0) (b 1) (b 2) (b 3)))"

fun copy_bytes :: "nat \<Rightarrow> nat \<Rightarrow> nat \<Rightarrow> (nat \<Rightarrow> u32) \<Rightarrow> (nat \<Rightarrow> u32)" where
  "copy_bytes new old 0 c = c"
| "copy_bytes new old (Suc i) c =
     (let c = copy_bytes new old i c in set_byte new i (get_byte c old i) c)"

text \<open>The copy reads through \<open>ptr\<close>: with bytes to copy a \<open>NULL\<close> there is undefined behaviour.\<close>

definition mem_realloc :: "ptr \<Rightarrow> u16 \<Rightarrow> u16 \<Rightarrow> heap \<Rightarrow> (ptr \<times> heap) option" where
  "mem_realloc p sz size_to_add h =
    do { (new_ptr, h) \<leftarrow> mem_alloc (sz + size_to_add) h;
         case new_ptr of
           None \<Rightarrow> do { h \<leftarrow> mem_free p sz h; Some (None, h) }
         | Some q \<Rightarrow>
             do { h \<leftarrow> (case p of
                          Some old \<Rightarrow> Some (h\<lparr>cells := copy_bytes q old (unat sz) (cells h)\<rparr>)
                        | None \<Rightarrow> if sz = 0 then Some h else None);
                  h \<leftarrow> mem_free p sz h;
                  Some (Some q, h) } }"

section \<open>Fields of a cell\<close>

lemma unat_mk_bloc: "unat (mk_bloc s n) = unat s + 65536 * unat n"
proof -
  have "unat s + 65536 * unat n < 4294967296"
    using unat_u16_lt [of s] unat_u16_lt [of n] by linarith
  then show ?thesis by (simp add: mk_bloc_def unat_word_ariths)
qed

lemma unat_bloc_size: "unat (bloc_size c) = unat c mod 65536"
  by (simp add: bloc_size_def unat_u32_to_u16)

lemma unat_to_next: "unat (to_next c) = unat c div 65536"
proof -
  have "unat (drop_bit 16 c) = unat c div 65536"
    by (subst unat_drop_bit_eq) (simp add: drop_bit_eq_div)
  moreover have "unat c div 65536 < 65536"
    using unat_u32_lt [of c] by (simp only: less_mult_imp_div_less)
  ultimately show ?thesis
    by (simp only: to_next_def unat_u32_to_u16 mod_less)
qed

lemma bloc_size_mk [simp]: "bloc_size (mk_bloc s n) = s"
  and to_next_mk [simp]: "to_next (mk_bloc s n) = n"
  using unat_u16_lt [of s] by (simp_all only: word_unat_eq_iff unat_bloc_size unat_to_next unat_mk_bloc) auto

lemma bloc_zero [simp]: "bloc_size 0 = 0" "to_next 0 = 0"
  by (simp_all add: bloc_size_def to_next_def)

lemma mem_reset_cell:
  assumes "n < 65536"
  shows "(push_bit 16 (of_nat n) OR of_nat n :: u32) = mk_bloc (of_nat n) (of_nat n)"
proof -
  have 16: "unat (of_nat n :: u16) = n"
    using assms by (simp add: unat_of_nat take_bit_nat_eq_self)
  have "push_bit 16 (of_nat n) OR of_nat n = (push_bit 16 (of_nat n) + of_nat n :: u32)"
  proof (rule disjunctive_add [symmetric])
    fix i
    have "\<not> bit n i" if "16 \<le> i"
    proof -
      have "n < 2 ^ i" using assms that power_increasing [of 16 i "2::nat"] by simp
      then show ?thesis by (simp add: bit_iff_odd)
    qed
    then show "\<not> bit (push_bit 16 (of_nat n) :: u32) i \<or> \<not> bit (of_nat n :: u32) i"
      by (auto simp: bit_push_bit_iff bit_of_nat_iff not_le)
  qed
  also have "push_bit 16 (of_nat n :: u32) = 65536 * of_nat n"
    by (simp add: push_bit_eq_mult)
  moreover have "(of_nat n :: u32) = u16_to_u32 (of_nat n)"
    using 16 assms by (simp add: word_unat_eq_iff unat_of_nat take_bit_nat_eq_self)
  ultimately show ?thesis by (simp add: mk_bloc_def)
qed

text \<open>The number of cells of an allocation of \<open>b\<close> bytes, as long as the sum does not wrap.\<close>

lemma round_up_cells: "(if x mod 4 \<noteq> 0 then x + 4 else x) div 4 = ((x :: nat) + 3) div 4"
proof -
  obtain q r where x: "x = 4 * q + r" and r: "r < 4"
    by (rule that [of "x div 4" "x mod 4"]) simp_all
  have m: "x mod 4 = r" using x r by simp
  have d: "(x + j) div 4 = q + (r + j) div 4" for j
    unfolding x add.assoc by (rule div_mult_self4) simp
  have "(r + 3) div 4 = (if r \<noteq> 0 then r + 4 else r) div 4"
  proof -
    from r consider "r = 0" | "r = 1" | "r = 2" | "r = 3" by linarith
    then show ?thesis by cases simp_all
  qed
  with m d [of 3] d [of 4] d [of 0] show ?thesis by (simp split: if_splits)
qed

lemma unat_numeral_4: "unat (4 :: u16) = 4"
  by simp

lemma mod4_pos: "(b :: u16) mod 4 > 0 \<longleftrightarrow> unat b mod 4 \<noteq> 0"
proof -
  have "b mod 4 > 0 \<longleftrightarrow> unat (b mod 4) \<noteq> 0"
    by (metis word_gt_0 unat_eq_0)
  also have "unat (b mod 4) = unat b mod 4"
    by (simp only: unat_mod unat_numeral_4)
  finally show ?thesis .
qed

lemma unat_cells_of_size:
  assumes "unat b \<le> 65532"
  shows "unat (cells_of_size b) = (unat b + 3) div 4"
proof -
  have "unat b < 65532" if "unat b mod 4 \<noteq> 0"
    using assms that by (cases "unat b = 65532") auto
  then have "unat (b + 4) = unat b + 4" if "unat b mod 4 \<noteq> 0"
    using that by (simp only: unat_add_u16 unat_numeral_4) simp
  then have "unat (if b mod 4 > 0 then b + 4 else b)
      = (if unat b mod 4 \<noteq> 0 then unat b + 4 else unat b)"
    unfolding mod4_pos by (cases "unat b mod 4 = 0") simp_all
  then have "unat (cells_of_size b) = (if unat b mod 4 \<noteq> 0 then unat b + 4 else unat b) div 4"
    unfolding cells_of_size_def by (subst unat_drop_bit_eq) (simp only: drop_bit_eq_div, simp)
  then show ?thesis by (simp only: round_up_cells)
qed

section \<open>The chain as a list of free blocks\<close>

text \<open>
  A free block is its first cell and its number of cells. \<open>seg c p bs q\<close> follows \<open>to_next\<close> from
  \<open>p\<close> to \<open>q\<close> through the blocks \<open>bs\<close>; \<open>wf_blocs\<close> says that the blocks are not empty, in
  increasing order, below the cell \<open>n\<close> and never adjacent (they are always merged).
\<close>

type_synonym bloc = "nat \<times> nat"

fun seg :: "(nat \<Rightarrow> u32) \<Rightarrow> nat \<Rightarrow> bloc list \<Rightarrow> nat \<Rightarrow> bool" where
  "seg c p [] q \<longleftrightarrow> p = q"
| "seg c p ((a, s) # bs) q \<longleftrightarrow>
     p = a \<and> unat (bloc_size (c a)) = s \<and> seg c (next_bloc c a) bs q"

fun wf_blocs :: "nat \<Rightarrow> nat \<Rightarrow> bloc list \<Rightarrow> bool" where
  "wf_blocs lo n [] \<longleftrightarrow> True"
| "wf_blocs lo n ((a, s) # bs) \<longleftrightarrow> lo \<le> a \<and> 0 < s \<and> a + s \<le> n \<and> wf_blocs (Suc (a + s)) n bs"

definition heap_inv :: "nat \<Rightarrow> heap \<Rightarrow> bloc list \<Rightarrow> bool" where
  "heap_inv n h bs \<longleftrightarrow> n < 65536 \<and> cells h n = 0 \<and> seg (cells h) (first_free h) bs n \<and> wf_blocs 0 n bs"

text \<open>The free blocks after an allocation of \<open>k\<close> cells and after freeing the block \<open>(p, k)\<close>.\<close>

definition alloc_list :: "nat \<Rightarrow> bloc list \<Rightarrow> (nat \<times> bloc list) option" where
  "alloc_list k bs =
    (let xs = takeWhile (\<lambda>b. snd b < k) bs in
     case dropWhile (\<lambda>b. snd b < k) bs of
       [] \<Rightarrow> None
     | (a, s) # ys \<Rightarrow> Some (a, xs @ (if s = k then ys else (a + k, s - k) # ys)))"

fun join_right :: "bloc \<Rightarrow> bloc list \<Rightarrow> bloc list" where
  "join_right (p, k) [] = [(p, k)]"
| "join_right (p, k) ((b, t) # ys) =
     (if p + k = b then (p, k + t) # ys else (p, k) # (b, t) # ys)"

definition free_list :: "nat \<Rightarrow> nat \<Rightarrow> bloc list \<Rightarrow> bloc list" where
  "free_list p k bs =
    (let xs = takeWhile (\<lambda>b. fst b < p) bs;
         zs = join_right (p, k) (dropWhile (\<lambda>b. fst b < p) bs)
     in if xs = [] then zs else butlast xs @ join_right (last xs) zs)"

lemma seg_append: "seg c p (xs @ ys) q \<longleftrightarrow> (\<exists>r. seg c p xs r \<and> seg c r ys q)"
  by (induction xs arbitrary: p) auto

lemma seg_frame:
  "(\<And>a s. (a, s) \<in> set bs \<Longrightarrow> c' a = c a) \<Longrightarrow> seg c' p bs q = seg c p bs q"
proof (induction bs arbitrary: p)
  case Nil
  then show ?case by simp
next
  case (Cons b bs)
  obtain a s where b: "b = (a, s)" by (cases b)
  then have "c' a = c a" by (intro Cons.prems [of a s]) simp
  moreover have "seg c' (next_bloc c a) bs q = seg c (next_bloc c a) bs q"
    by (intro Cons.IH Cons.prems) auto
  ultimately show ?case by (simp add: b)
qed

lemma wf_blocs_mono: "wf_blocs lo n bs \<Longrightarrow> lo' \<le> lo \<Longrightarrow> wf_blocs lo' n bs"
  by (cases bs) auto

lemma wf_blocs_append:
  "wf_blocs lo n (xs @ ys) \<longleftrightarrow> wf_blocs lo n xs \<and>
     wf_blocs (if xs = [] then lo else Suc (fst (last xs) + snd (last xs))) n ys"
  by (induction xs arbitrary: lo) auto

lemma wf_blocs_bounds:
  "wf_blocs lo n bs \<Longrightarrow> (a, s) \<in> set bs \<Longrightarrow> lo \<le> a \<and> 0 < s \<and> a + s \<le> n"
proof (induction bs arbitrary: lo)
  case Nil
  then show ?case by simp
next
  case (Cons b bs)
  obtain a' s' where b: "b = (a', s')" by (cases b)
  with Cons show ?case by fastforce
qed

text \<open>Before a split point the blocks end strictly below what follows.\<close>

lemma wf_blocs_last:
  "wf_blocs lo n xs \<Longrightarrow> (a, s) \<in> set xs \<Longrightarrow> a + s \<le> fst (last xs) + snd (last xs)"
proof (induction xs arbitrary: lo a s)
  case Nil
  then show ?case by simp
next
  case (Cons b xs)
  show ?case
  proof (cases "xs = []")
    case True
    with Cons show ?thesis by auto
  next
    case False
    obtain a' s' where b: "b = (a', s')" by (cases b)
    obtain a2 s2 xs' where xs: "xs = (a2, s2) # xs'" using False by (cases xs) auto
    from Cons.prems b xs have "a' + s' \<le> a2" "(a2, s2) \<in> set xs" by auto
    have tail: "wf_blocs (Suc (a' + s')) n xs" using Cons.prems(1) b by simp
    have "a + s \<le> fst (last xs) + snd (last xs)"
    proof (cases "(a, s) \<in> set xs")
      case True
      then show ?thesis by (rule Cons.IH [OF tail])
    next
      case notin: False
      with Cons.prems(2) b have "a + s \<le> a2" using \<open>a' + s' \<le> a2\<close> by simp
      with Cons.IH [OF tail \<open>(a2, s2) \<in> set xs\<close>] show ?thesis by linarith
    qed
    with False show ?thesis by simp
  qed
qed

lemma unat_of_nat_u16: "m < 65536 \<Longrightarrow> unat (of_nat m :: u16) = m"
  by (simp add: unat_of_nat take_bit_nat_eq_self)

lemma of_nat_eq_next: "unat w = m \<Longrightarrow> w = (of_nat m :: u16)"
  by (drule sym) simp

lemma seg_start:
  "seg c p bs q \<Longrightarrow> p = (case bs of [] \<Rightarrow> q | b # _ \<Rightarrow> fst b)"
  by (cases bs) auto

lemma seg_start_le: "seg c p bs n \<Longrightarrow> wf_blocs lo n bs \<Longrightarrow> p \<le> n"
  by (cases bs) auto

lemma seg_start_ge: "seg c p bs n \<Longrightarrow> wf_blocs lo n bs \<Longrightarrow> lo \<le> n \<Longrightarrow> lo \<le> p"
  by (cases bs) auto

text \<open>Writing a cell outside the headers of a segment does not change it.\<close>

lemma seg_upd_other:
  "x \<notin> fst ` set bs \<Longrightarrow> seg (c(x := v)) p bs q = seg c p bs q"
  by (rule seg_frame) (force simp: image_iff)

lemma wf_blocs_fst_ge: "wf_blocs lo n bs \<Longrightarrow> x < lo \<Longrightarrow> x \<notin> fst ` set bs"
  using wf_blocs_bounds by fastforce

lemma fst_in_image: "(a, s) \<in> A \<Longrightarrow> a \<in> fst ` A"
  by force

lemma wf_blocs_fst_butlast:
  assumes "wf_blocs lo n xs" and "xs \<noteq> []" and "fst (last xs) \<le> x"
  shows "x \<notin> fst ` set (butlast xs)"
proof -
  have "wf_blocs lo n (butlast xs @ [last xs])" using assms by simp
  then have w: "wf_blocs lo n (butlast xs)"
    "butlast xs \<noteq> [] \<Longrightarrow> fst (last (butlast xs)) + snd (last (butlast xs)) < fst (last xs)"
    by (cases "last xs"; auto simp: wf_blocs_append split: if_splits)+
  show ?thesis
  proof
    assume "x \<in> fst ` set (butlast xs)"
    then obtain t where t: "(x, t) \<in> set (butlast xs)" by force
    with wf_blocs_last [OF w(1) t] wf_blocs_bounds [OF w(1) t] w(2) assms(3) show False
      by fastforce
  qed
qed

text \<open>Redirecting the last link of a segment.\<close>

lemma seg_last:
  assumes "seg c p xs r" and "xs \<noteq> []"
  shows "seg c p (butlast xs) (fst (last xs))"
    and "unat (bloc_size (c (fst (last xs)))) = snd (last xs)"
    and "next_bloc c (fst (last xs)) = r"
proof -
  have "seg c p (butlast xs @ [last xs]) r" using assms by simp
  then show "seg c p (butlast xs) (fst (last xs))"
    and "unat (bloc_size (c (fst (last xs)))) = snd (last xs)"
    and "next_bloc c (fst (last xs)) = r"
    by (cases "last xs"; auto simp: seg_append)+
qed

lemma seg_relink:
  assumes "seg c p xs r" and "wf_blocs lo n xs" and "xs \<noteq> []"
    and "fst (last xs) \<le> r'" and "r' < 65536" and "v = of_nat (r' - fst (last xs))"
  shows "seg (set_next (fst (last xs)) v c) p xs r'"
proof -
  let ?q = "fst (last xs)"
  have "unat v = r' - ?q" using assms(5,6) by (simp add: unat_of_nat_u16)
  moreover have "seg (set_next ?q v c) p (butlast xs) ?q"
    using seg_last(1) [OF assms(1,3)] wf_blocs_fst_butlast [OF assms(2,3)]
    by (simp add: seg_upd_other)
  ultimately have "seg (set_next ?q v c) p (butlast xs @ [last xs]) r'"
    using seg_last(2) [OF assms(1,3)] assms(4)
    by (cases "last xs") (auto simp only: seg_append seg.simps fst_conv snd_conv fun_upd_same
        bloc_size_mk to_next_mk le_add_diff_inverse)
  then show ?thesis using assms(3) by simp
qed

lemma seg_last_next:
  assumes "seg c p xs r" and "xs \<noteq> []"
  shows "to_next (c (fst (last xs))) = of_nat (r - fst (last xs))"
  using seg_last(3) [OF assms] by (intro of_nat_eq_next) linarith

lemma find_bloc_seg:
  assumes "seg c p xs r" and "\<forall>b\<in>set xs. 0 < snd b \<and> snd b < unat k"
    and "bloc_size (c r) = 0 \<or> k \<le> bloc_size (c r)"
  shows "find_bloc c k prev p = Some (if xs = [] then prev else Some (fst (last xs)), r)"
  using assms
proof (induction xs arbitrary: p prev)
  case Nil
  then show ?case by (subst find_bloc.simps) (auto simp: not_less)
next
  case (Cons b xs)
  obtain s where b: "b = (p, s)" and s: "unat (bloc_size (c p)) = s" "0 < s" "s < unat k"
    and tl: "seg c (next_bloc c p) xs r"
    using Cons.prems(1,2) by (cases b) auto
  have "bloc_size (c p) \<noteq> 0 \<and> bloc_size (c p) < k"
    using s by (auto simp: word_less_nat_alt)
  moreover have "find_bloc c k (Some p) (next_bloc c p)
      = Some (if xs = [] then Some p else Some (fst (last xs)), r)"
    using Cons.prems by (intro Cons.IH [OF tl]) auto
  ultimately show ?case by (subst find_bloc.simps) (auto simp: b)
qed

lemma find_around_seg:
  assumes "seg c p xs r" and "\<forall>b\<in>set xs. fst b < x" and "x \<le> r"
  shows "find_around c x prev p = Some (if xs = [] then prev else Some (fst (last xs)), r)"
  using assms
proof (induction xs arbitrary: p prev)
  case Nil
  then show ?case by (subst find_around.simps) auto
next
  case (Cons b xs)
  obtain s where b: "b = (p, s)" and "p < x" and tl: "seg c (next_bloc c p) xs r"
    using Cons.prems(1,2) by (cases b) auto
  moreover have "find_around c x (Some p) (next_bloc c p)
      = Some (if xs = [] then Some p else Some (fst (last xs)), r)"
    using Cons.prems by (intro Cons.IH [OF tl]) auto
  ultimately show ?case by (subst find_around.simps) (auto simp: b)
qed

section \<open>Allocation refines first fit on the free list\<close>

lemma word_le_unat_u16: "(a :: u16) \<le> b \<longleftrightarrow> unat a \<le> unat b"
  by (rule word_le_nat_alt)

lemma of_nat_add_diff:
  "a \<le> b \<Longrightarrow> b \<le> d \<Longrightarrow> (of_nat (b - a) + of_nat (d - b) :: u16) = of_nat (d - a)"
  by (simp flip: of_nat_add)

lemma of_nat_diff_diff:
  "a \<le> b \<Longrightarrow> b \<le> d \<Longrightarrow> (of_nat (d - a) - of_nat (b - a) :: u16) = of_nat (d - b)"
  by (simp add: of_nat_diff)

text \<open>Where the list splits: the blocks too small for \<open>k\<close>, and the first that fits.\<close>

lemma split_fit:
  assumes "heap_inv n h bs" and "xs = takeWhile (\<lambda>b. snd b < k) bs"
    and "ys = dropWhile (\<lambda>b. snd b < k) bs"
  obtains r where "bs = xs @ ys" and "seg (cells h) (first_free h) xs r" and "seg (cells h) r ys n"
    and "wf_blocs 0 n xs" and "\<forall>b\<in>set xs. 0 < snd b \<and> snd b < k"
proof -
  have bs: "bs = xs @ ys" by (simp add: assms(2,3))
  then obtain r where "seg (cells h) (first_free h) xs r" "seg (cells h) r ys n"
    using assms(1) by (auto simp: heap_inv_def seg_append)
  moreover have "wf_blocs 0 n xs"
    using assms(1) bs by (simp add: heap_inv_def wf_blocs_append)
  moreover have "\<forall>b\<in>set xs. 0 < snd b \<and> snd b < k"
  proof
    fix b assume b: "b \<in> set xs"
    then have "snd b < k" using set_takeWhileD assms(2) by force
    moreover have "0 < snd b" using wf_blocs_bounds [OF \<open>wf_blocs 0 n xs\<close>, of "fst b" "snd b"] b by simp
    ultimately show "0 < snd b \<and> snd b < k" by simp
  qed
  ultimately show thesis using bs that by blast
qed

lemma alloc_fail:
  assumes "heap_inv n h bs" and "0 < unat (cells_of_size b)"
    and "alloc_list (unat (cells_of_size b)) bs = None"
  shows "mem_alloc b h = Some (None, h)"
proof -
  let ?k = "cells_of_size b"
  have ys: "dropWhile (\<lambda>b. snd b < unat ?k) bs = []"
    using assms(3) by (auto simp: alloc_list_def Let_def split: list.splits)
  obtain r where r: "seg (cells h) (first_free h) (takeWhile (\<lambda>b. snd b < unat ?k) bs) r"
    "\<forall>b\<in>set (takeWhile (\<lambda>b. snd b < unat ?k) bs). 0 < snd b \<and> snd b < unat ?k"
    and "seg (cells h) r (dropWhile (\<lambda>b. snd b < unat ?k) bs) n"
    by (rule split_fit [OF assms(1) refl refl])
  then have "r = n" by (simp only: ys seg.simps)
  then have 0: "bloc_size (cells h r) = 0" "?k \<noteq> 0"
    using assms(1,2) by (auto simp: heap_inv_def)
  with find_bloc_seg [OF r] assms(2) show ?thesis
    by (simp add: mem_alloc_def Let_def word_le_unat_u16)
qed

text \<open>The whole block is used: its predecessor skips it.\<close>

lemma alloc_exact:
  assumes inv: "n < 65536" "cells h n = 0"
    and xs: "seg (cells h) (first_free h) xs a" "wf_blocs 0 n (xs @ (a, s) # ys)"
    and ys: "seg (cells h) a ((a, s) # ys) n"
    and h': "h' = (case (if xs = [] then None else Some (fst (last xs))) of
                None \<Rightarrow> h\<lparr>first_free := next_bloc (cells h) a\<rparr>
              | Some p \<Rightarrow> h\<lparr>cells := set_next p (to_next (cells h p) + to_next (cells h a)) (cells h)\<rparr>)"
  shows "heap_inv n h' (xs @ ys)"
proof -
  let ?r = "next_bloc (cells h) a"
  have wys: "wf_blocs (Suc (a + s)) n ys" "0 < s" "a + s \<le> n" and wxs: "wf_blocs 0 n xs"
    and before: "xs \<noteq> [] \<Longrightarrow> fst (last xs) + snd (last xs) < a"
    using xs(2) by (auto simp: wf_blocs_append split: if_splits)
  have segys: "seg (cells h) ?r ys n" using ys by simp
  have r: "a \<le> ?r" "?r \<le> n" using seg_start_le [OF segys wys(1)] by simp_all
  have wf: "wf_blocs 0 n (xs @ ys)"
    using wxs before wys wf_blocs_mono [OF wys(1)] by (auto simp: wf_blocs_append)
  show ?thesis
  proof (cases "xs = []")
    case True
    with inv segys wf h' show ?thesis by (simp add: heap_inv_def)
  next
    case False
    let ?q = "fst (last xs)"
    have v: "to_next (cells h ?q) + to_next (cells h a) = of_nat (?r - ?q)"
      using seg_last_next [OF xs(1) False] before [OF False] r of_nat_add_diff [of ?q a ?r]
      by (simp add: of_nat_eq_next)
    have "seg (cells h') (first_free h') xs ?r"
      using seg_relink [OF xs(1) wxs False _ _ v] before [OF False] r inv False h' by simp
    moreover have "?q \<notin> fst ` set ys"
      using wf_blocs_fst_ge [OF wys(1)] before [OF False] by simp
    then have "seg (cells h') ?r ys n"
      using segys False h' by (simp add: seg_upd_other)
    moreover have "cells h' n = 0"
      using inv False h' before [OF False] wys(3) by simp
    ultimately show ?thesis using inv(1) wf by (auto simp: heap_inv_def seg_append)
  qed
qed

text \<open>Only the beginning of the block is used: its predecessor points to the remainder.\<close>

lemma alloc_split:
  assumes inv: "n < 65536" "cells h n = 0"
    and xs: "seg (cells h) (first_free h) xs a" "wf_blocs 0 n (xs @ (a, s) # ys)"
    and ys: "seg (cells h) a ((a, s) # ys) n"
    and k: "0 < unat k" "unat k < s"
    and h1: "h1 = (case (if xs = [] then None else Some (fst (last xs))) of
                None \<Rightarrow> h\<lparr>first_free := a + unat k\<rparr>
              | Some p \<Rightarrow> h\<lparr>cells := set_next p (to_next (cells h p) + k) (cells h)\<rparr>)"
    and c1: "c1 = set_size (a + unat k) (bloc_size (cells h1 a) - k) (cells h1)"
    and c2: "c2 = set_next (a + unat k) (to_next (c1 a) - k) c1"
  shows "heap_inv n (h1\<lparr>cells := c2\<rparr>) (xs @ (a + unat k, s - unat k) # ys)"
proof -
  let ?r = "next_bloc (cells h) a" and ?new = "a + unat k"
  have wys: "wf_blocs (Suc (a + s)) n ys" "0 < s" "a + s \<le> n" and wxs: "wf_blocs 0 n xs"
    and before: "xs \<noteq> [] \<Longrightarrow> fst (last xs) + snd (last xs) < a"
    using xs(2) by (auto simp: wf_blocs_append split: if_splits)
  have segys: "seg (cells h) ?r ys n" and s: "unat (bloc_size (cells h a)) = s" using ys by simp_all
  have r: "a + s \<le> ?r" "?r \<le> n"
    using seg_start_le [OF segys wys(1)] seg_start_ge [OF segys wf_blocs_mono [OF wys(1)], of "a + s"] wys
    by simp_all
  have a: "cells h1 a = cells h a" "cells h1 ?new = cells h ?new"
    using h1 before by (auto split: if_splits)
  have c2new: "bloc_size (c2 ?new) = bloc_size (cells h a) - k"
    "to_next (c2 ?new) = to_next (cells h a) - k"
    using a c1 c2 k by simp_all
  have c2: "c2 x = cells h1 x" if "x \<noteq> ?new" for x
    using that c1 c2 by simp
  have kn: "k = of_nat (?new - a)" by (simp add: of_nat_eq_next)
  have nxt: "unat (to_next (c2 ?new)) = ?r - ?new"
    using r k c2new(2) by (simp add: unat_sub word_le_unat_u16)
  have size: "unat (bloc_size (c2 ?new)) = s - unat k"
    using c2new(1) s k by (simp add: unat_sub word_le_unat_u16)
  have tail: "seg c2 ?r ys n"
  proof -
    have "seg (cells h1) ?r ys n"
      using segys h1 before wf_blocs_fst_ge [OF wys(1)] by (auto simp: seg_upd_other)
    moreover have "?new \<notin> fst ` set ys" using wf_blocs_fst_ge [OF wys(1)] k by simp
    then have "seg c2 ?r ys n = seg (cells h1) ?r ys n"
      by (intro seg_frame c2) force
    ultimately show ?thesis by simp
  qed
  then have mid: "seg c2 ?new ((?new, s - unat k) # ys) n"
    using nxt size r k by simp
  have head: "seg c2 (first_free h1) xs ?new"
  proof (cases "xs = []")
    case True
    then show ?thesis using h1 by simp
  next
    case False
    let ?q = "fst (last xs)"
    have v: "to_next (cells h ?q) + k = of_nat (?new - ?q)"
      using seg_last_next [OF xs(1) False] before [OF False] of_nat_add_diff [of ?q a ?new] kn by simp
    have "seg (cells h1) (first_free h1) xs ?new"
      using seg_relink [OF xs(1) wxs False _ _ v] before [OF False] r k inv False h1 by simp
    moreover have "?new \<notin> fst ` set xs"
      using wf_blocs_last [OF wxs] wf_blocs_bounds [OF wxs] before [OF False] by fastforce
    then have "seg c2 (first_free h1) xs ?new = seg (cells h1) (first_free h1) xs ?new"
      by (intro seg_frame c2) force
    ultimately show ?thesis by simp
  qed
  have wf: "wf_blocs 0 n (xs @ (?new, s - unat k) # ys)"
    using wxs before wys k by (auto simp: wf_blocs_append)
  have "c2 n = 0" using c2 [of n] inv h1 before wys k by (auto split: if_splits)
  with wf head mid inv show ?thesis by (auto simp: heap_inv_def seg_append)
qed

text \<open>The whole operation, on the list of free blocks.\<close>

lemma alloc_refines:
  assumes "heap_inv n h bs" and "0 < unat (cells_of_size b)"
    and "alloc_list (unat (cells_of_size b)) bs = Some (a, bs')"
  obtains h' where "mem_alloc b h = Some (Some a, h')" and "heap_inv n h' bs'"
proof -
  let ?k = "cells_of_size b" and ?xs = "takeWhile (\<lambda>b'. snd b' < unat (cells_of_size b)) bs"
  obtain s ys where dw: "dropWhile (\<lambda>b'. snd b' < unat ?k) bs = (a, s) # ys"
    and bs': "bs' = ?xs @ (if s = unat ?k then ys else (a + unat ?k, s - unat ?k) # ys)"
    using assms(3) by (auto simp: alloc_list_def Let_def split: list.splits)
  obtain r where bs: "bs = ?xs @ (a, s) # ys"
    and xs: "seg (cells h) (first_free h) ?xs r" "\<forall>b\<in>set ?xs. 0 < snd b \<and> snd b < unat ?k"
    and ys: "seg (cells h) r ((a, s) # ys) n"
    by (rule split_fit [OF assms(1) refl refl, where k = "unat ?k"]) (simp only: dw)
  have r: "r = a" and s: "unat (bloc_size (cells h a)) = s" using ys by simp_all
  have ks: "unat ?k \<le> s" using hd_dropWhile [of "\<lambda>b'. snd b' < unat ?k" bs] dw by simp
  have inv: "n < 65536" "cells h n = 0" "wf_blocs 0 n (?xs @ (a, s) # ys)"
    using assms(1) bs by (simp_all add: heap_inv_def)
  have find: "find_bloc (cells h) ?k None (first_free h)
      = Some (if ?xs = [] then None else Some (fst (last ?xs)), a)"
    using find_bloc_seg [OF xs, of None] r s ks by (simp add: word_le_unat_u16)
  have size_eq: "bloc_size (cells h a) = ?k \<longleftrightarrow> s = unat ?k"
    using s by (auto simp: word_unat_eq_iff)
  have ge: "bloc_size (cells h a) \<ge> ?k" using ks s by (simp add: word_le_unat_u16)
  show thesis
  proof (cases "s = unat ?k")
    case True
    with alloc_exact [OF inv(1,2) xs(1)[unfolded r] inv(3) ys[unfolded r] refl]
    show thesis
      by (intro that) (simp_all only: bs' mem_alloc_def Let_def find bind.bind_lunit prod.case size_eq simp_thms if_True)
  next
    case False
    then have "unat ?k < s" using ks by simp
    from alloc_split [OF inv(1,2) xs(1)[unfolded r] inv(3) ys[unfolded r] assms(2) this refl refl refl]
    show thesis
      by (intro that) (simp_all only: bs' mem_alloc_def Let_def find bind.bind_lunit prod.case size_eq ge
          False if_True if_False)
  qed
qed

section \<open>Freeing refines insertion with merging\<close>

lemma wf_blocs_hd: "wf_blocs lo n ys \<Longrightarrow> case ys of [] \<Rightarrow> True | b # _ \<Rightarrow> lo \<le> fst b"
  by (cases ys) auto

lemma wf_join_right:
  assumes "wf_blocs lo n zs" and "lo \<le> p" and "0 < k" and "p + k \<le> n"
    and "case zs of [] \<Rightarrow> True | b # _ \<Rightarrow> p + k \<le> fst b"
  shows "wf_blocs lo n (join_right (p, k) zs)"
  using assms by (cases zs) (auto simp: add.assoc intro: wf_blocs_mono)

lemma chain_free_blocs_other:
  "x \<noteq> b1 \<Longrightarrow> chain_free_blocs b1 b2 c x = c x"
  by (simp add: chain_free_blocs_def Let_def)

text \<open>Chaining a block before a segment merges them exactly when they touch.\<close>

lemma chain_free_blocs_seg:
  assumes zs: "seg c b2 zs n" "wf_blocs lo n zs" "zs \<noteq> []" and n: "n < 65536"
    and b1: "unat (bloc_size (c b1)) = k" "0 < k" "b1 + k \<le> b2"
  shows "seg (chain_free_blocs b1 b2 c) b1 (join_right (b1, k) zs) n"
proof -
  obtain t zs' where zs': "zs = (b2, t) # zs'" using zs(1,3) by (cases zs) auto
  let ?r = "next_bloc c b2"
  have t: "unat (bloc_size (c b2)) = t" "0 < t" "b2 + t \<le> n" and tl: "seg c ?r zs' n"
    and wtl: "wf_blocs (Suc (b2 + t)) n zs'"
    using zs(1,2) zs' by auto
  have r: "?r \<le> n" using seg_start_le [OF tl wtl] .
  show ?thesis
  proof (cases "b1 + k = b2")
    case True
    have "to_next (c b2) + bloc_size (c b1) = of_nat (?r - b1)"
    proof -
      have "to_next (c b2) = of_nat (?r - b2)" "bloc_size (c b1) = of_nat (b2 - b1)"
        using b1 True by (simp_all only: of_nat_eq_next add_diff_cancel_left' add_diff_cancel_right')
      then show ?thesis
        using of_nat_add_diff [of b1 b2 ?r] True by (simp only: add.commute)
    qed
    then have nxt: "unat (to_next (c b2) + bloc_size (c b1)) = ?r - b1"
      using r n by (simp add: unat_of_nat_u16)
    have sz: "unat (bloc_size (c b1) + bloc_size (c b2)) = k + t"
      using b1 t True n by (simp add: unat_add_u16)
    have "b1 \<notin> fst ` set zs'" using wf_blocs_fst_ge [OF wtl] True by simp
    then show ?thesis
      using True tl zs' nxt sz b1 by (simp add: chain_free_blocs_def Let_def seg_upd_other)
  next
    case False
    have "unat (of_nat (b2 - b1) :: u16) = b2 - b1"
      using t n by (simp add: unat_of_nat_u16)
    moreover have "b1 \<notin> fst ` set zs" using wf_blocs_fst_ge [OF wtl] zs' b1 by auto
    ultimately show ?thesis
      using False zs' b1 zs(1) by (simp add: chain_free_blocs_def seg_upd_other)
  qed
qed

lemma join_right_start: "fst (hd (join_right (p, k) zs)) = p" "join_right (p, k) zs \<noteq> []"
  by (induction "(p, k)" zs rule: join_right.induct) auto

text \<open>Where the list splits around the freed block.\<close>

lemma split_around:
  assumes inv: "heap_inv n h bs" and k: "0 < k" "p + k \<le> n"
    and disj: "\<forall>b\<in>set bs. fst b + snd b \<le> p \<or> p + k \<le> fst b"
    and "xs = takeWhile (\<lambda>b. fst b < p) bs" and "ys = dropWhile (\<lambda>b. fst b < p) bs"
  obtains r where "seg (cells h) (first_free h) xs r" and "seg (cells h) r ys n"
    and "wf_blocs 0 n xs" and "wf_blocs (p + k) n ys" and "p + k \<le> r" and "r \<le> n"
    and "\<forall>b\<in>set xs. fst b < p" and "xs \<noteq> [] \<longrightarrow> fst (last xs) + snd (last xs) \<le> p"
proof -
  have bs: "bs = xs @ ys" by (simp add: assms(5,6))
  then obtain r where segs: "seg (cells h) (first_free h) xs r" "seg (cells h) r ys n"
    using inv by (auto simp: heap_inv_def seg_append)
  have "wf_blocs 0 n (xs @ ys)" using inv bs by (simp add: heap_inv_def)
  then have wxs: "wf_blocs 0 n xs" and "\<exists>lo. wf_blocs lo n ys"
    by (auto simp: wf_blocs_append)
  then obtain lo where lo: "wf_blocs lo n ys" by blast
  have before: "\<forall>b\<in>set xs. fst b < p" using set_takeWhileD assms(5) by force
  have last: "fst (last xs) + snd (last xs) \<le> p" if "xs \<noteq> []"
    using before disj k that bs last_in_set [OF that] by fastforce
  have wys: "wf_blocs (p + k) n ys"
  proof (cases ys)
    case Nil
    then show ?thesis by simp
  next
    case (Cons b ys')
    then have "\<not> fst b < p"
      using hd_dropWhile [of "\<lambda>b. fst b < p" bs] assms(6) by (simp only: list.sel list.distinct) simp
    moreover have "fst b + snd b \<le> p \<or> p + k \<le> fst b" using disj bs Cons by simp
    moreover have "0 < snd b" using lo Cons by (cases b) simp
    ultimately have "p + k \<le> fst b" by linarith
    with lo Cons show ?thesis by (cases b) simp
  qed
  have "p + k \<le> r" "r \<le> n"
    using seg_start_ge [OF segs(2) wys] seg_start_le [OF segs(2) wys] k by simp_all
  with segs wxs wys before last that show thesis by blast
qed

text \<open>After the freed block is written and chained to what follows.\<close>

lemma free_tail:
  assumes n: "n < 65536" and k: "0 < unat k" and ys: "seg c r ys n" "wf_blocs (p + unat k) n ys"
    and r: "p + unat k \<le> r" "r \<le> n" and cn: "c n = 0"
    and c2: "c2 = set_next p (of_nat (r - p)) (set_size p k c)"
    and c3: "c3 = (if bloc_size (c2 r) \<noteq> 0 then chain_free_blocs p r c2 else c2)"
  shows "seg c3 p (join_right (p, unat k) ys) n" and "\<And>x. x \<noteq> p \<Longrightarrow> c3 x = c x"
proof -
  have other: "c2 x = c x" if "x \<noteq> p" for x using c2 that by simp
  have cp: "unat (bloc_size (c2 p)) = unat k" "unat (to_next (c2 p)) = r - p"
    using c2 r n by (simp_all add: unat_of_nat_u16 del: of_nat_diff)
  have "p \<notin> fst ` set ys" using wf_blocs_fst_ge [OF ys(2)] k by simp
  then have "seg c2 r ys n = seg c r ys n"
    by (intro seg_frame other) force
  with ys(1) have ys2: "seg c2 r ys n" by simp
  show "seg c3 p (join_right (p, unat k) ys) n"
  proof (cases "ys = []")
    case True
    then have "r = n" using ys by simp
    moreover have "n \<noteq> p" using r k by simp
    ultimately have "c3 = c2" using c3 cn other [of n] by simp
    with cp True \<open>r = n\<close> r show ?thesis by simp
  next
    case False
    then obtain t ys' where "ys = (r, t) # ys'" using ys(1) by (cases ys) auto
    then have "bloc_size (c2 r) \<noteq> 0"
      using ys2 ys(2) by auto
    then show ?thesis
      using c3 chain_free_blocs_seg [OF ys2 ys(2) False n cp(1) k r(1)] by simp
  qed
  show "c3 x = c x" if "x \<noteq> p" for x
    using that other c3 by (simp add: chain_free_blocs_other)
qed

lemma butlast_last_wf:
  assumes "wf_blocs lo n xs" and "xs \<noteq> []"
  shows "wf_blocs lo n (butlast xs)" and "0 < snd (last xs)"
    and "butlast xs \<noteq> [] \<Longrightarrow> fst (last (butlast xs)) + snd (last (butlast xs)) < fst (last xs)"
    and "lo \<le> fst (last xs)"
proof -
  have "wf_blocs lo n (butlast xs @ [last xs])" using assms by simp
  then show "wf_blocs lo n (butlast xs)" "0 < snd (last xs)"
    "butlast xs \<noteq> [] \<Longrightarrow> fst (last (butlast xs)) + snd (last (butlast xs)) < fst (last xs)"
    by (cases "last xs"; auto simp: wf_blocs_append split: if_splits)+
  show "lo \<le> fst (last xs)"
    using wf_blocs_bounds [OF assms(1), of "fst (last xs)" "snd (last xs)"] assms(2) by simp
qed

lemma free_refines:
  assumes inv: "heap_inv n h bs" and b: "b \<noteq> 0" and k: "0 < unat (cells_of_size b)"
    and fit: "p + unat (cells_of_size b) \<le> n"
    and disj: "\<forall>x\<in>set bs. fst x + snd x \<le> p \<or> p + unat (cells_of_size b) \<le> fst x"
  obtains h' where "mem_free (Some p) b h = Some h'"
    and "heap_inv n h' (free_list p (unat (cells_of_size b)) bs)"
proof -
  let ?k = "cells_of_size b" and ?c = "cells h"
  let ?xs = "takeWhile (\<lambda>b. fst b < p) bs" and ?ys = "dropWhile (\<lambda>b. fst b < p) bs"
  let ?zs = "join_right (p, unat ?k) ?ys"
  obtain r where xs1: "seg ?c (first_free h) ?xs r" and ys1: "seg ?c r ?ys n"
    and xs2: "wf_blocs 0 n ?xs" and ys2: "wf_blocs (p + unat ?k) n ?ys"
    and r: "p + unat ?k \<le> r" "r \<le> n" and xs3: "\<forall>b\<in>set ?xs. fst b < p"
    and last: "?xs \<noteq> [] \<longrightarrow> fst (last ?xs) + snd (last ?xs) \<le> p"
    by (rule split_around [OF inv k fit disj refl refl])
  note xs = xs1 xs2 xs3 and ys = ys1 ys2
  have n: "n < 65536" "?c n = 0" using inv by (simp_all add: heap_inv_def)
  obtain c2 c3 where
    c2: "c2 = set_next p (of_nat (r - p)) (set_size p ?k ?c)" and
    c3: "c3 = (if bloc_size (c2 r) \<noteq> 0 then chain_free_blocs p r c2 else c2)" by blast
  note tail = free_tail [OF n(1) k ys r n(2) c2 c3]
  have find: "find_around ?c p None (first_free h)
      = Some (if ?xs = [] then None else Some (fst (last ?xs)), r)"
    using find_around_seg [OF xs(1,3), of None] r by simp
  have wzs: "wf_blocs p n ?zs"
    by (rule wf_join_right [OF wf_blocs_mono [OF ys(2)] le_refl k fit wf_blocs_hd [OF ys(2)]]) simp
  show thesis
  proof (cases "?xs = []")
    case True
    have "heap_inv n (h\<lparr>cells := c3, first_free := p\<rparr>) ?zs"
      using tail n k fit wf_blocs_mono [OF wzs] by (simp add: heap_inv_def)
    moreover have "mem_free (Some p) b h = Some (h\<lparr>cells := c3, first_free := p\<rparr>)"
      using find True b by (simp add: mem_free_def Let_def c2 c3)
    ultimately show thesis using that True by (simp add: free_list_def Let_def)
  next
    case False
    let ?q = "fst (last ?xs)" and ?c4 = "chain_free_blocs (fst (last ?xs)) p c3"
    have q: "?q + snd (last ?xs) \<le> p" "0 < snd (last ?xs)"
      using last False butlast_last_wf [OF xs(2) False] by simp_all
    have same: "c3 x = ?c x" if "x \<noteq> p" for x using tail(2) that .
    have "unat (bloc_size (c3 ?q)) = snd (last ?xs)"
      using seg_last(2) [OF xs(1) False] same [of ?q] q by simp
    from chain_free_blocs_seg [OF tail(1) wzs join_right_start(2) n(1) this q(2,1)]
    have mid: "seg ?c4 ?q (join_right (last ?xs) ?zs) n" by simp
    have "seg ?c4 (first_free h) (butlast ?xs) ?q = seg ?c (first_free h) (butlast ?xs) ?q"
    proof (rule seg_frame)
      fix a s assume as: "(a, s) \<in> set (butlast ?xs)"
      then have "a \<noteq> ?q"
        using wf_blocs_fst_butlast [OF xs(2) False le_refl] fst_in_image by metis
      moreover have "a \<noteq> p" using xs(3) in_set_butlastD [OF as] by fastforce
      ultimately show "?c4 a = ?c a" using same by (simp add: chain_free_blocs_other)
    qed
    with seg_last(1) [OF xs(1) False] mid
    have "seg ?c4 (first_free h) (butlast ?xs @ join_right (last ?xs) ?zs) n"
      by (auto simp: seg_append)
    moreover have "wf_blocs 0 n (butlast ?xs @ join_right (last ?xs) ?zs)"
    proof -
      have "wf_blocs ?q n (join_right (?q, snd (last ?xs)) ?zs)"
        using q fit
        by (intro wf_join_right [OF wf_blocs_mono [OF wzs] le_refl q(2) _
              wf_blocs_hd [OF wf_blocs_mono [OF wzs q(1)]]]) simp_all
      then show ?thesis
        using butlast_last_wf [OF xs(2) False] wf_blocs_mono by (fastforce simp: wf_blocs_append)
    qed
    moreover have "?c4 n = 0" using same [of n] n q k fit by (simp add: chain_free_blocs_other)
    ultimately have "heap_inv n (h\<lparr>cells := ?c4\<rparr>) (free_list p (unat ?k) bs)"
      using n False by (simp add: heap_inv_def free_list_def Let_def)
    moreover have "mem_free (Some p) b h = Some (h\<lparr>cells := ?c4\<rparr>)"
      using find False b by (simp add: mem_free_def Let_def c2 c3)
    ultimately show thesis using that by blast
  qed
qed

section \<open>The set of free cells\<close>

definition bloc_cells :: "bloc \<Rightarrow> nat set" where
  "bloc_cells b = {fst b ..< fst b + snd b}"

definition free_cells :: "bloc list \<Rightarrow> nat set" where
  "free_cells bs = (\<Union>b\<in>set bs. bloc_cells b)"

lemma free_cells_simps [simp]:
  "free_cells [] = {}"
  "free_cells (b # bs) = bloc_cells b \<union> free_cells bs"
  "free_cells (xs @ ys) = free_cells xs \<union> free_cells ys"
  by (auto simp: free_cells_def)

lemma free_cells_bounds: "wf_blocs lo n bs \<Longrightarrow> x \<in> free_cells bs \<Longrightarrow> lo \<le> x \<and> x < n"
  by (fastforce simp: free_cells_def bloc_cells_def dest: wf_blocs_bounds)

lemma free_cells_take_last:
  assumes "wf_blocs lo n xs" and "xs \<noteq> []" and "x \<in> free_cells xs"
  shows "x < fst (last xs) + snd (last xs)"
  using assms wf_blocs_last [OF assms(1)]
  by (fastforce simp: free_cells_def bloc_cells_def)

text \<open>A well-formed free list is determined by its cells: blocks are maximal.\<close>

lemma wf_blocs_canonical:
  assumes "wf_blocs lo n bs" and "wf_blocs lo n bs'" and "free_cells bs = free_cells bs'"
  shows "bs = bs'"
  using assms
proof (induction bs arbitrary: lo bs')
  case Nil
  then show ?case by (cases bs') (auto simp: bloc_cells_def)
next
  case (Cons b bs)
  obtain a s where b: "b = (a, s)" by (cases b)
  then have w: "0 < s" "a + s \<le> n" "wf_blocs (Suc (a + s)) n bs" using Cons.prems(1) by auto
  from Cons.prems(3) b w have "bs' \<noteq> []" by (auto simp: bloc_cells_def)
  then obtain a' s' cs where bs': "bs' = (a', s') # cs" by (cases bs') auto
  then have w': "0 < s'" "a' + s' \<le> n" "wf_blocs (Suc (a' + s')) n cs" using Cons.prems(2) by auto
  have eq: "{a..<a + s} \<union> free_cells bs = {a'..<a' + s'} \<union> free_cells cs"
    using Cons.prems(3) b bs' by (simp add: bloc_cells_def)
  have tl: "x \<in> free_cells bs \<Longrightarrow> a + s < x" "x \<in> free_cells cs \<Longrightarrow> a' + s' < x" for x
    using free_cells_bounds [OF w(3)] free_cells_bounds [OF w'(3)] by fastforce+
  have "a \<in> {a'..<a' + s'} \<union> free_cells cs" "a' \<in> {a..<a + s} \<union> free_cells bs"
    using eq w(1) w'(1) by auto
  then have a: "a' = a" using tl w(1) w'(1) by fastforce
  have "a + s \<notin> {a..<a + s} \<union> free_cells bs" "a' + s' \<notin> {a'..<a' + s'} \<union> free_cells cs"
    using tl by fastforce+
  with eq a w(1) w'(1) have s: "s' = s"
    by (metis Un_iff atLeastLessThan_iff le_add1 nat_add_left_cancel_less nat_neq_iff)
  have "x \<in> free_cells bs \<longleftrightarrow> x \<in> free_cells cs" for x
  proof -
    have "x \<in> {a..<a + s} \<union> free_cells bs \<longleftrightarrow> x \<in> {a..<a + s} \<union> free_cells cs"
      using eq a s by simp
    with tl [of x] a s show ?thesis by auto
  qed
  then have "free_cells bs = free_cells cs" by blast
  with Cons.IH [OF w(3)] w'(3) a s b bs' show ?case by simp
qed

lemma alloc_list_Some:
  assumes "wf_blocs lo n bs" and "alloc_list k bs = Some (a, bs')" and "0 < k"
  shows "{a..<a + k} \<subseteq> free_cells bs" and "free_cells bs' = free_cells bs - {a..<a + k}"
    and "wf_blocs lo n bs'"
proof -
  let ?xs = "takeWhile (\<lambda>b. snd b < k) bs"
  obtain s ys where dw: "dropWhile (\<lambda>b. snd b < k) bs = (a, s) # ys"
    and bs': "bs' = ?xs @ (if s = k then ys else (a + k, s - k) # ys)"
    using assms(2) by (auto simp: alloc_list_def Let_def split: list.splits)
  have bs: "bs = ?xs @ (a, s) # ys" by (metis dw takeWhile_dropWhile_id)
  have ks: "k \<le> s" using hd_dropWhile [of "\<lambda>b. snd b < k" bs] dw by simp
  have w: "wf_blocs lo n ?xs" "?xs \<noteq> [] \<Longrightarrow> fst (last ?xs) + snd (last ?xs) < a"
    "wf_blocs (Suc (a + s)) n ys" "0 < s" "a + s \<le> n" "?xs = [] \<Longrightarrow> lo \<le> a"
  proof -
    have "wf_blocs lo n (?xs @ (a, s) # ys)" using assms(1) by (subst bs [symmetric])
    then show "wf_blocs lo n ?xs" "?xs \<noteq> [] \<Longrightarrow> fst (last ?xs) + snd (last ?xs) < a"
      "wf_blocs (Suc (a + s)) n ys" "0 < s" "a + s \<le> n" "?xs = [] \<Longrightarrow> lo \<le> a"
      unfolding wf_blocs_append by (simp_all split: if_splits)
  qed
  have xs: "x < a" if "x \<in> free_cells ?xs" for x
    using free_cells_take_last [OF w(1) _ that] w(2) that by (cases "?xs = []") auto
  have ys: "a + s < x" if "x \<in> free_cells ys" for x
    using free_cells_bounds [OF w(3) that] by simp
  show "{a..<a + k} \<subseteq> free_cells bs"
    using ks by (subst bs) (auto simp: bloc_cells_def)
  show "free_cells bs' = free_cells bs - {a..<a + k}"
  proof (rule set_eqI)
    fix x
    have "free_cells bs = free_cells ?xs \<union> {a..<a + s} \<union> free_cells ys"
      by (subst bs) (auto simp: bloc_cells_def)
    moreover have "free_cells bs' = free_cells ?xs \<union> {a + k..<a + s} \<union> free_cells ys"
      using ks by (auto simp: bs' bloc_cells_def)
    ultimately show "x \<in> free_cells bs' \<longleftrightarrow> x \<in> free_cells bs - {a..<a + k}"
      using xs [of x] ys [of x] ks by auto
  qed
  show "wf_blocs lo n bs'"
    using w ks assms(3) wf_blocs_mono [OF w(3)] by (auto simp: bs' wf_blocs_append)
qed

lemma alloc_list_None:
  "alloc_list k bs = None \<Longrightarrow> b \<in> set bs \<Longrightarrow> snd b < k"
  by (auto simp: alloc_list_def Let_def split: list.splits)

lemma free_cells_join_right:
  "free_cells (join_right (p, k) zs) = {p..<p + k} \<union> free_cells zs"
  by (cases zs) (auto simp: bloc_cells_def split: if_splits)

lemma free_cells_free_list:
  "free_cells (free_list p k bs) = free_cells bs \<union> {p..<p + k}"
proof -
  let ?xs = "takeWhile (\<lambda>b. fst b < p) bs" and ?ys = "dropWhile (\<lambda>b. fst b < p) bs"
  have bs: "free_cells bs = free_cells ?xs \<union> free_cells ?ys"
    by (metis free_cells_simps(3) takeWhile_dropWhile_id)
  show ?thesis
  proof (cases "?xs = []")
    case True
    with bs show ?thesis by (auto simp: free_list_def Let_def free_cells_join_right)
  next
    case False
    have "free_cells ?xs = free_cells (butlast ?xs) \<union> bloc_cells (last ?xs)"
      by (metis False append_butlast_last_id free_cells_simps(1,2,3) sup_bot.right_neutral)
    moreover have "free_cells (join_right (last ?xs) zs) = bloc_cells (last ?xs) \<union> free_cells zs" for zs
      by (metis bloc_cells_def free_cells_join_right prod.collapse)
    ultimately show ?thesis
      using bs False by (auto simp: free_list_def Let_def free_cells_join_right)
  qed
qed

text \<open>Since blocks are never adjacent, a run of free cells lies in one block.\<close>

lemma interval_in_bloc:
  assumes "wf_blocs lo n bs" and "0 < k" and "{p..<p + k} \<subseteq> free_cells bs"
  shows "\<exists>b\<in>set bs. k \<le> snd b"
  using assms(1,3)
proof (induction bs arbitrary: lo)
  case Nil
  then show ?case using assms(2) by simp
next
  case (Cons b bs)
  obtain a s where b: "b = (a, s)" by (cases b)
  have w: "wf_blocs (Suc (a + s)) n bs" using Cons.prems(1) b by simp
  have notend: "a + s \<notin> {p..<p + k}"
    using Cons.prems(2) b free_cells_bounds [OF w, of "a + s"] by (auto simp: bloc_cells_def)
  show ?case
  proof (cases "p < a + s")
    case True
    then have "p + k \<le> a + s" using notend by simp
    moreover have "p \<in> {a..<a + s} \<union> free_cells bs"
      using subsetD [OF Cons.prems(2), of p] assms(2) b by (simp add: bloc_cells_def)
    then have "a \<le> p" using True free_cells_bounds [OF w, of p] by auto
    ultimately show ?thesis using b by (intro bexI [of _ b]) simp_all
  next
    case False
    then have "{p..<p + k} \<subseteq> free_cells bs"
      using Cons.prems(2) b by (force simp: bloc_cells_def)
    from Cons.IH [OF w this] show ?thesis by auto
  qed
qed

section \<open>The kernel's use of the heap\<close>

text \<open>
  The heap together with the live blocks (address and size in bytes), as the kernel uses it:
  allocations of a positive number of cells, releases with the size of the allocation, and
  writes to the cells of live blocks.
\<close>

type_synonym live = "(nat \<times> u16) set"

definition block_cells :: "nat \<times> u16 \<Rightarrow> nat set" where
  "block_cells b = {fst b ..< fst b + unat (cells_of_size (snd b))}"

definition live_cells :: "live \<Rightarrow> nat set" where
  "live_cells L = (\<Union>b\<in>L. block_cells b)"

inductive mem_reach :: "nat \<Rightarrow> heap \<Rightarrow> live \<Rightarrow> bool" for n where
  reset: "mem_reach n (mem_reset n heap_static) {}"
| alloc: "mem_reach n h L \<Longrightarrow> 0 < unat (cells_of_size b) \<Longrightarrow> mem_alloc b h = Some (Some a, h') \<Longrightarrow>
    mem_reach n h' (insert (a, b) L)"
| full: "mem_reach n h L \<Longrightarrow> 0 < unat (cells_of_size b) \<Longrightarrow> mem_alloc b h = Some (None, h') \<Longrightarrow>
    mem_reach n h' L"
| free: "mem_reach n h L \<Longrightarrow> (a, b) \<in> L \<Longrightarrow> mem_free (Some a) b h = Some h' \<Longrightarrow>
    mem_reach n h' (L - {(a, b)})"
| store: "mem_reach n h L \<Longrightarrow> x \<in> live_cells L \<Longrightarrow>
    mem_reach n (h\<lparr>cells := (cells h)(x := v)\<rparr>) L"

inductive_simps mem_reach_init: "mem_reach n h L"

definition live_inv :: "nat \<Rightarrow> heap \<Rightarrow> live \<Rightarrow> bool" where
  "live_inv n h L \<longleftrightarrow>
     (\<exists>bs. heap_inv n h bs \<and> free_cells bs = {0..<n} - live_cells L) \<and>
     live_cells L \<subseteq> {0..<n} \<and>
     (\<forall>b\<in>L. snd b \<noteq> 0 \<and> 0 < unat (cells_of_size (snd b))) \<and>
     (\<forall>b\<in>L. \<forall>b'\<in>L. b \<noteq> b' \<longrightarrow> block_cells b \<inter> block_cells b' = {})"

lemma live_cells_simps [simp]:
  "live_cells {} = {}" "live_cells (insert b L) = block_cells b \<union> live_cells L"
  by (auto simp: live_cells_def)

lemma cells_of_size_0 [simp]: "cells_of_size 0 = 0"
  by (simp add: cells_of_size_def)

lemma heap_inv_reset:
  "0 < n \<Longrightarrow> n < 65536 \<Longrightarrow> heap_inv n (mem_reset n heap_static) [(0, n)]"
  by (simp add: heap_inv_def mem_reset_def heap_static_def mem_reset_cell unat_of_nat_u16)

lemma live_inv_reset:
  assumes "0 < n" and "n < 65536"
  shows "live_inv n (mem_reset n heap_static) {}"
proof -
  have "heap_inv n (mem_reset n heap_static) [(0, n)]"
    using assms by (rule heap_inv_reset)
  then show ?thesis
    unfolding live_inv_def by (intro conjI exI [of _ "[(0, n)]"]) (auto simp: bloc_cells_def)
qed

lemma live_inv_insert:
  assumes "live_inv n h L" and "heap_inv n h' bs'" and "0 < unat (cells_of_size (snd x))"
    and "free_cells bs' = {0..<n} - live_cells (insert x L)"
    and sub: "block_cells x \<subseteq> {0..<n} - live_cells L"
  shows "live_inv n h' (insert x L)"
proof -
  have "block_cells x \<inter> block_cells y = {}" if "y \<in> L" for y
    using sub that by (auto simp: live_cells_def)
  moreover have "snd x \<noteq> 0" using assms(3) by auto
  ultimately show ?thesis
    using assms(1,3) sub
    unfolding live_inv_def
    by (intro conjI exI [of _ bs'] assms(2,4)) (auto simp: Int_commute)
qed

lemma intervals_apart:
  "{x..<x + s} \<inter> {a..<a + k} = {} \<Longrightarrow> 0 < s \<Longrightarrow> 0 < k \<Longrightarrow> x + s \<le> a \<or> a + (k :: nat) \<le> x"
  by (metis Int_iff atLeastLessThan_iff empty_iff le_add1 less_add_same_cancel1 linorder_not_le nat_le_linear)

text \<open>An allocation returns, and what it gives is a fresh part of the free cells.\<close>

lemma live_inv_alloc:
  assumes inv: "live_inv n h L" and k: "0 < unat (cells_of_size b)"
  shows "(\<exists>a h'. mem_alloc b h = Some (Some a, h') \<and> live_inv n h' (insert (a, b) L)
            \<and> block_cells (a, b) \<subseteq> {0..<n} - live_cells L)
       \<or> (mem_alloc b h = Some (None, h)
            \<and> (\<forall>p. p + unat (cells_of_size b) \<le> n \<longrightarrow> {p..<p + unat (cells_of_size b)} \<inter> live_cells L \<noteq> {}))"
proof -
  let ?k = "unat (cells_of_size b)"
  obtain bs where bs: "heap_inv n h bs" and fc: "free_cells bs = {0..<n} - live_cells L"
    using inv by (auto simp: live_inv_def)
  have wf: "wf_blocs 0 n bs" using bs by (simp add: heap_inv_def)
  show ?thesis
  proof (cases "alloc_list ?k bs")
    case None
    have "{p..<p + ?k} \<inter> live_cells L \<noteq> {}" if "p + ?k \<le> n" for p
    proof
      assume "{p..<p + ?k} \<inter> live_cells L = {}"
      then have "{p..<p + ?k} \<subseteq> free_cells bs" using fc that by auto
      then obtain x where "x \<in> set bs" "?k \<le> snd x"
        using interval_in_bloc [OF wf k] by blast
      with alloc_list_None [OF None] show False by fastforce
    qed
    with alloc_fail [OF bs k None] show ?thesis by blast
  next
    case (Some r)
    obtain a bs' where r: "alloc_list ?k bs = Some (a, bs')" using Some by (cases r) simp
    obtain h' where h': "mem_alloc b h = Some (Some a, h')" "heap_inv n h' bs'"
      by (rule alloc_refines [OF bs k r])
    note al = alloc_list_Some [OF wf r k]
    have bc: "block_cells (a, b) = {a..<a + ?k}" by (simp add: block_cells_def)
    have sub: "block_cells (a, b) \<subseteq> {0..<n} - live_cells L" using al(1) fc bc by simp
    have "free_cells bs' = {0..<n} - live_cells (insert (a, b) L)"
      using al(2) fc bc by auto
    with live_inv_insert [OF inv h'(2)] sub k have "live_inv n h' (insert (a, b) L)" by simp
    with h'(1) sub show ?thesis by blast
  qed
qed

lemma live_inv_free:
  assumes inv: "live_inv n h L" and b: "(a, b) \<in> L"
  shows "\<exists>h'. mem_free (Some a) b h = Some h' \<and> live_inv n h' (L - {(a, b)})"
proof -
  let ?k = "unat (cells_of_size b)"
  obtain bs where bs: "heap_inv n h bs" and fc: "free_cells bs = {0..<n} - live_cells L"
    using inv by (auto simp: live_inv_def)
  have wf: "wf_blocs 0 n bs" using bs by (simp add: heap_inv_def)
  have k: "b \<noteq> 0" "0 < ?k" and sub: "live_cells L \<subseteq> {0..<n}"
    and dis: "\<forall>y\<in>L. (a, b) \<noteq> y \<longrightarrow> block_cells (a, b) \<inter> block_cells y = {}"
    using inv b by (auto simp: live_inv_def)
  have bc: "block_cells (a, b) = {a..<a + ?k}" "block_cells (a, b) \<subseteq> live_cells L"
    using b by (auto simp: block_cells_def live_cells_def)
  have "a + ?k - 1 \<in> block_cells (a, b)" using k bc(1) by auto
  then have "a + ?k - 1 \<in> {0..<n}" using sub bc(2) by blast
  then have fit: "a + ?k \<le> n" using k by simp
  have disj: "\<forall>x\<in>set bs. fst x + snd x \<le> a \<or> a + ?k \<le> fst x"
  proof
    fix x assume x: "x \<in> set bs"
    then have "{fst x..<fst x + snd x} \<subseteq> free_cells bs"
      by (auto simp: free_cells_def bloc_cells_def)
    then have "{fst x..<fst x + snd x} \<inter> {a..<a + ?k} = {}"
      using fc bc by blast
    moreover have "0 < snd x" using wf_blocs_bounds [OF wf, of "fst x" "snd x"] x by simp
    ultimately show "fst x + snd x \<le> a \<or> a + ?k \<le> fst x"
      using k by (metis Int_iff add_diff_cancel_left' atLeastLessThan_iff empty_iff le_add1
          less_add_same_cancel1 linorder_not_le nat_le_linear)
  qed
  obtain h' where h': "mem_free (Some a) b h = Some h'" "heap_inv n h' (free_list a ?k bs)"
    by (rule free_refines [OF bs k fit disj])
  have "live_cells (L - {(a, b)}) = live_cells L - block_cells (a, b)"
    using dis by (auto simp: live_cells_def)
  then have "free_cells (free_list a ?k bs) = {0..<n} - live_cells (L - {(a, b)})"
    and "live_cells (L - {(a, b)}) \<subseteq> {0..<n}"
    using fc bc sub by (auto simp: free_cells_free_list)
  with h' inv have "live_inv n h' (L - {(a, b)})"
    unfolding live_inv_def by blast
  with h' show ?thesis by blast
qed

text \<open>Writing live cells does not touch the chain.\<close>

lemma live_inv_cells:
  assumes inv: "live_inv n h L" and c: "\<And>x. x \<notin> live_cells L \<Longrightarrow> c x = cells h x"
  shows "live_inv n (h\<lparr>cells := c\<rparr>) L"
proof -
  obtain bs where bs: "heap_inv n h bs" and fc: "free_cells bs = {0..<n} - live_cells L"
    using inv by (auto simp: live_inv_def)
  have wf: "wf_blocs 0 n bs" using bs by (simp add: heap_inv_def)
  have "c a = cells h a" if "(a, t) \<in> set bs" for a t
  proof (rule c)
    have "a \<in> free_cells bs"
      using wf_blocs_bounds [OF wf that] that by (force simp: free_cells_def bloc_cells_def)
    with fc show "a \<notin> live_cells L" by simp
  qed
  then have "seg c (first_free h) bs n = seg (cells h) (first_free h) bs n"
    by (rule seg_frame)
  moreover have "c n = cells h n" using inv by (intro c) (auto simp: live_inv_def)
  ultimately have "heap_inv n (h\<lparr>cells := c\<rparr>) bs"
    using bs by (simp add: heap_inv_def)
  with inv fc show ?thesis unfolding live_inv_def by blast
qed

lemma mem_reach_inv:
  assumes "mem_reach n h L" and "0 < n" and "n < 65536"
  shows "live_inv n h L"
  using assms(1)
proof (induction rule: mem_reach.induct)
  case reset
  show ?case by (rule live_inv_reset [OF assms(2,3)])
next
  case (alloc h L b a h')
  with live_inv_alloc [of n h L b] show ?case by auto
next
  case (full h L b h')
  with live_inv_alloc [of n h L b] show ?case by auto
next
  case (free h L a b h')
  with live_inv_free [of n h L a b] show ?case by auto
next
  case (store h L x v)
  then show ?case by (intro live_inv_cells) auto
qed

text \<open>The operations write only free cells and the block that is freed.\<close>

lemma last_in_free_cells:
  assumes "wf_blocs 0 n bs" and "xs = takeWhile P bs" and "xs \<noteq> []"
  shows "fst (last xs) \<in> free_cells bs"
proof -
  have "last xs \<in> set bs" using assms(2,3) set_takeWhileD last_in_set by metis
  moreover have "0 < snd (last xs)"
    using wf_blocs_bounds [OF assms(1), of "fst (last xs)" "snd (last xs)"] calculation by simp
  ultimately show ?thesis by (force simp: free_cells_def bloc_cells_def)
qed

lemma alloc_frame:
  assumes bs: "heap_inv n h bs" and k: "0 < unat (cells_of_size b)"
    and r: "mem_alloc b h = Some (r, h')" and x: "x \<notin> free_cells bs"
  shows "cells h' x = cells h x"
proof -
  let ?k = "cells_of_size b" and ?xs = "takeWhile (\<lambda>b'. snd b' < unat (cells_of_size b)) bs"
  let ?ys = "dropWhile (\<lambda>b'. snd b' < unat ?k) bs"
  have wf: "wf_blocs 0 n bs" using bs by (simp add: heap_inv_def)
  obtain a where xs: "seg (cells h) (first_free h) ?xs a" and ys: "seg (cells h) a ?ys n"
    and sz: "\<forall>b\<in>set ?xs. 0 < snd b \<and> snd b < unat ?k"
    by (rule split_fit [OF bs refl refl])
  have q: "?xs \<noteq> [] \<Longrightarrow> fst (last ?xs) \<noteq> x"
    using last_in_free_cells [OF wf refl] x by blast
  have fits: "bloc_size (cells h a) = 0 \<or> ?k \<le> bloc_size (cells h a)"
  proof (cases "?ys")
    case Nil
    have "a = n" using ys by (simp only: Nil seg.simps)
    with bs show ?thesis by (simp add: heap_inv_def)
  next
    case (Cons y ys')
    then have "\<not> snd (hd ?ys) < unat ?k" using hd_dropWhile [of "\<lambda>b'. snd b' < unat ?k" bs] by simp
    with Cons ys show ?thesis by (cases y) (simp add: word_le_unat_u16)
  qed
  note find = find_bloc_seg [OF xs sz fits, of None]
  have new: "a + unat ?k \<noteq> x" if "bloc_size (cells h a) \<noteq> ?k" "?k \<le> bloc_size (cells h a)"
  proof -
    have lt: "unat ?k < unat (bloc_size (cells h a))"
      using that by (simp add: word_le_unat_u16 word_unat_eq_iff)
    have "?ys \<noteq> []"
    proof
      assume nil: "?ys = []"
      have "a = n" using ys by (simp only: nil seg.simps)
      with lt bs show False by (simp add: heap_inv_def)
    qed
    then obtain ys' where "?ys = (a, unat (bloc_size (cells h a))) # ys'"
      using ys by (cases ?ys) auto
    then have "(a, unat (bloc_size (cells h a))) \<in> set bs" by (metis list.set_intros(1) set_dropWhileD)
    then have "a + unat ?k \<in> free_cells bs" using lt by (force simp: free_cells_def bloc_cells_def)
    with x show ?thesis by blast
  qed
  obtain prev where prev: "find_bloc (cells h) ?k None (first_free h) = Some (prev, a)"
    and notx: "prev = Some p \<Longrightarrow> p \<noteq> x" for p
    by (rule that [OF find]) (use q in \<open>auto split: if_splits\<close>)
  consider "bloc_size (cells h a) = ?k" | "bloc_size (cells h a) \<noteq> ?k" "?k \<le> bloc_size (cells h a)"
    | "bloc_size (cells h a) \<noteq> ?k" "\<not> ?k \<le> bloc_size (cells h a)" by blast
  then show ?thesis
    using r notx new
    by cases (cases prev; simp add: mem_alloc_def Let_def prev; force)+
qed

lemma free_frame:
  assumes bs: "heap_inv n h bs" and k: "0 < unat (cells_of_size b)"
    and fit: "p + unat (cells_of_size b) \<le> n"
    and disj: "\<forall>x\<in>set bs. fst x + snd x \<le> p \<or> p + unat (cells_of_size b) \<le> fst x"
    and r: "mem_free (Some p) b h = Some h'" and x: "x \<notin> free_cells bs" "x \<noteq> p"
  shows "cells h' x = cells h x"
proof -
  let ?xs = "takeWhile (\<lambda>b. fst b < p) bs" and ?k = "cells_of_size b"
  have wf: "wf_blocs 0 n bs" using bs by (simp add: heap_inv_def)
  obtain r' where xs: "seg (cells h) (first_free h) ?xs r'" "\<forall>b\<in>set ?xs. fst b < p" "p \<le> r'"
    by (rule split_around [OF bs k fit disj refl refl]) simp
  have q: "?xs \<noteq> [] \<Longrightarrow> x \<noteq> fst (last ?xs)"
    using last_in_free_cells [OF wf refl] x by blast
  have find: "find_around (cells h) p None (first_free h)
      = Some (if ?xs = [] then None else Some (fst (last ?xs)), r')"
    by (rule find_around_seg [OF xs])
  show ?thesis
    using r q x(2) unfolding mem_free_def Let_def find option.case
    by (auto simp: chain_free_blocs_other split: if_splits)
qed

section \<open>The contract of the allocator\<close>

text \<open>
  What the rest of the kernel relies on. \<open>inv h L\<close>: the heap is sound and \<open>L\<close> are its live
  blocks; \<open>area\<close> is the memory of a block, \<open>ok\<close> the sizes that may be requested.
\<close>

locale allocator =
  fixes inv :: "'h \<Rightarrow> (nat \<times> 'b) set \<Rightarrow> bool"
    and alloc :: "'b \<Rightarrow> 'h \<Rightarrow> (ptr \<times> 'h) option"
    and free :: "ptr \<Rightarrow> 'b \<Rightarrow> 'h \<Rightarrow> 'h option"
    and area :: "nat \<times> 'b \<Rightarrow> nat set"
    and ok :: "'b \<Rightarrow> bool"
  assumes alloc_returns: "inv h L \<Longrightarrow> ok b \<Longrightarrow>
      alloc b h = Some (None, h) \<or>
      (\<exists>a h'. alloc b h = Some (Some a, h') \<and> inv h' (insert (a, b) L)
         \<and> area (a, b) \<inter> (\<Union>x\<in>L. area x) = {})"
    and free_returns: "inv h L \<Longrightarrow> (a, b) \<in> L \<Longrightarrow>
      \<exists>h'. free (Some a) b h = Some h' \<and> inv h' (L - {(a, b)})"
    and start_in_area: "ok b \<Longrightarrow> a \<in> area (a, b)"
    and live_ok: "inv h L \<Longrightarrow> (a, b) \<in> L \<Longrightarrow> ok b"
begin

lemma alloc_cases:
  assumes "inv h L" and "ok b"
  obtains (full) "alloc b h = Some (None, h)"
    | (fresh) a h' where "alloc b h = Some (Some a, h')" and "inv h' (insert (a, b) L)"
        and "a \<notin> fst ` L"
proof -
  have "a \<notin> fst ` L" if "area (a, b) \<inter> (\<Union>x\<in>L. area x) = {}" for a
  proof
    assume "a \<in> fst ` L"
    then obtain c where "(a, c) \<in> L" by force
    then have "a \<in> area (a, c)" using assms(1) live_ok start_in_area by blast
    moreover have "a \<in> area (a, b)" using assms(2) start_in_area by blast
    ultimately show False using that \<open>(a, c) \<in> L\<close> by blast
  qed
  with alloc_returns [OF assms] consider "alloc b h = Some (None, h)"
    | a h' where "alloc b h = Some (Some a, h')" "inv h' (insert (a, b) L)" "a \<notin> fst ` L"
    by metis
  then show thesis by cases (rule full, assumption, rule fresh)
qed

lemma free_all:
  assumes "inv h L" and "distinct bs" and "set bs \<subseteq> L"
  shows "\<exists>h'. fold_opt (\<lambda>(a, b). free (Some a) b) bs h = Some h' \<and> inv h' (L - set bs)"
  using assms
proof (induction bs arbitrary: h L)
  case Nil
  then show ?case by simp
next
  case (Cons x bs)
  obtain a b where x: "x = (a, b)" by (cases x)
  then obtain h' where h': "free (Some a) b h = Some h'" "inv h' (L - {x})"
    using free_returns [of h L a b] Cons.prems by auto
  moreover have "\<exists>h''. fold_opt (\<lambda>(a, b). free (Some a) b) bs h' = Some h'' \<and> inv h'' (L - {x} - set bs)"
    using Cons.prems by (intro Cons.IH [OF h'(2)]) auto
  moreover have "L - {x} - set bs = L - set (x # bs)" by auto
  ultimately show ?case using x by simp
qed

lemma alloc_then_free:
  assumes "inv h L" and "ok b" and "alloc b h = Some (Some a, h')"
  shows "\<exists>h''. free (Some a) b h' = Some h'' \<and> inv h'' L"
proof -
  have "inv h' (insert (a, b) L)" "(a, b) \<notin> L"
  proof -
    from assms(1,2) have "inv h' (insert (a, b) L) \<and> (a, b) \<notin> L"
    proof (cases rule: alloc_cases)
      case full
      with assms(3) show ?thesis by simp
    next
      case (fresh a' h2)
      with assms(3) show ?thesis by force
    qed
    then show "inv h' (insert (a, b) L)" "(a, b) \<notin> L" by simp_all
  qed
  then show ?thesis using free_returns [of h' "insert (a, b) L" a b] by simp
qed

end

text \<open>The allocator of the code fulfils the contract.\<close>

interpretation mem: allocator "live_inv n" mem_alloc mem_free block_cells
  "\<lambda>b. 0 < unat (cells_of_size b)" for n
proof (unfold_locales, goal_cases)
  case (1 h L b)
  from live_inv_alloc [OF this] show ?case by (auto simp: live_cells_def)
next
  case (2 h L a b)
  then show ?case by (rule live_inv_free)
next
  case (3 b a)
  then show ?case by (simp add: block_cells_def)
next
  case (4 h L a b)
  then show ?case by (auto simp: live_inv_def)
qed

section \<open>The monitoring functions\<close>

lemma sum_free_seg:
  assumes "seg c p bs n" and "wf_blocs lo n bs" and "c n = 0"
  shows "sum_free c p acc = Some (acc + int (sum_list (map snd bs)))"
  using assms
proof (induction bs arbitrary: p lo acc)
  case Nil
  then show ?case by (subst sum_free.simps) simp
next
  case (Cons b bs)
  obtain s where b: "b = (p, s)" and s: "unat (bloc_size (c p)) = s" "0 < s" "p + s \<le> n"
    and tl: "seg c (next_bloc c p) bs n" "wf_blocs (Suc (p + s)) n bs"
    using Cons.prems by (cases b) auto
  have "p + s \<le> next_bloc c p"
    using seg_start_ge [OF tl(1) wf_blocs_mono [OF tl(2), of "p + s"]] s by simp
  then have "to_next (c p) \<noteq> 0" using s by auto
  with Cons.IH [OF tl Cons.prems(3)] show ?case
    by (subst sum_free.simps) (simp add: b s(1))
qed

lemma max_free_seg:
  assumes "seg c p bs n" and "wf_blocs lo n bs" and "c n = 0"
  shows "max_free c p (int acc) = Some (int (foldl max acc (map snd bs)))"
  using assms
proof (induction bs arbitrary: p lo acc)
  case Nil
  then show ?case by (subst max_free.simps) simp
next
  case (Cons b bs)
  obtain s where b: "b = (p, s)" and s: "unat (bloc_size (c p)) = s" "0 < s" "p + s \<le> n"
    and tl: "seg c (next_bloc c p) bs n" "wf_blocs (Suc (p + s)) n bs"
    using Cons.prems by (cases b) auto
  have "p + s \<le> next_bloc c p"
    using seg_start_ge [OF tl(1) wf_blocs_mono [OF tl(2), of "p + s"]] s by simp
  then have "to_next (c p) \<noteq> 0" using s by auto
  moreover have "max acc s = (if acc < s then s else acc)" by simp
  note IH = Cons.IH [OF tl Cons.prems(3), of "max acc s", unfolded this]
  ultimately show ?case
    by (cases "acc < s") (use IH in \<open>subst max_free.simps, simp add: b s(1) max_absorb1 max_absorb2\<close>)+
qed

lemma finite_free_cells [simp]: "finite (free_cells bs)"
  by (simp add: free_cells_def bloc_cells_def)

lemma card_free_cells: "wf_blocs lo n bs \<Longrightarrow> card (free_cells bs) = sum_list (map snd bs)"
proof (induction bs arbitrary: lo)
  case Nil
  then show ?case by simp
next
  case (Cons b bs)
  obtain a s where b: "b = (a, s)" by (cases b)
  then have tl: "wf_blocs (Suc (a + s)) n bs" using Cons.prems by simp
  have "bloc_cells b \<inter> free_cells bs = {}"
    using free_cells_bounds [OF tl] b by (fastforce simp: bloc_cells_def)
  then have "card (free_cells (b # bs)) = card (bloc_cells b) + card (free_cells bs)"
    by (simp add: card_Un_disjoint bloc_cells_def)
  then show ?case using Cons.IH [OF tl] b by (simp add: bloc_cells_def)
qed

section \<open>Reallocation copies the data\<close>

lemma get_set_byte:
  "get_byte (set_byte p i v c) p j = (if j = i then v else get_byte c p j)"
proof (cases "i div 4 = j div 4")
  case True
  have "j mod 4 < 4" by simp
  then consider "j mod 4 = 0" | "j mod 4 = Suc 0" | "j mod 4 = 2" | "j mod 4 = 3" by linarith
  moreover have "j = i \<longleftrightarrow> j mod 4 = i mod 4"
    using True by (metis div_mult_mod_eq)
  ultimately show ?thesis
    using True by cases (simp_all add: get_byte_def set_byte_def Let_def byte_of_ui32)
next
  case False
  then show ?thesis by (auto simp: get_byte_def set_byte_def Let_def)
qed

lemma set_byte_other: "x \<noteq> p + i div 4 \<Longrightarrow> set_byte p i v c x = c x"
  by (simp add: set_byte_def Let_def)

lemma copy_bytes_other:
  "(\<And>i. i < m \<Longrightarrow> x \<noteq> new + i div 4) \<Longrightarrow> copy_bytes new old m c x = c x"
  by (induction m) (simp_all add: Let_def set_byte_other)

lemma copy_bytes_correct:
  assumes "\<And>i j. i < m \<Longrightarrow> j < m \<Longrightarrow> new + i div 4 \<noteq> old + j div 4" and "j < m"
  shows "get_byte (copy_bytes new old m c) new j = get_byte c old j"
  using assms
proof (induction m)
  case 0
  then show ?case by simp
next
  case (Suc m)
  have "copy_bytes new old m c (old + m div 4) = c (old + m div 4)"
    by (intro copy_bytes_other) (metis Suc.prems(1) less_SucI lessI)
  then have m: "get_byte (copy_bytes new old m c) old m = get_byte c old m"
    by (simp add: get_byte_def)
  show ?case
  proof (cases "j = m")
    case True
    with m show ?thesis by (simp add: Let_def get_set_byte)
  next
    case False
    with Suc.IH Suc.prems show ?thesis by (simp add: Let_def get_set_byte)
  qed
qed

section \<open>Consequences for the live data\<close>

lemma live_inv_heap:
  assumes "live_inv n h L"
  obtains bs where "heap_inv n h bs" and "wf_blocs 0 n bs" and "free_cells bs = {0..<n} - live_cells L"
  using assms by (auto simp: live_inv_def heap_inv_def)

lemma live_alloc_frame:
  assumes "live_inv n h L" and "0 < unat (cells_of_size b)"
    and "mem_alloc b h = Some (r, h')" and "x \<in> live_cells L"
  shows "cells h' x = cells h x"
proof -
  obtain bs where "heap_inv n h bs" "free_cells bs = {0..<n} - live_cells L"
    using live_inv_heap [OF assms(1)] by metis
  with alloc_frame [OF this(1) assms(2,3), of x] assms(4) show ?thesis by simp
qed

lemma live_blocks_apart:
  assumes "live_inv n h L" and "(a, b) \<in> L" and "x \<in> live_cells (L - {(a, b)})"
  shows "x \<notin> block_cells (a, b)"
proof -
  obtain y where "y \<in> L" "y \<noteq> (a, b)" "x \<in> block_cells y"
    using assms(3) by (auto simp: live_cells_def)
  moreover have "block_cells (a, b) \<inter> block_cells y = {}" if "y \<in> L" "y \<noteq> (a, b)" for y
    using assms(1,2) that unfolding live_inv_def by metis
  ultimately show ?thesis by blast
qed

lemma live_free_frame:
  assumes inv: "live_inv n h L" and b: "(a, b) \<in> L"
    and r: "mem_free (Some a) b h = Some h'" and x: "x \<in> live_cells (L - {(a, b)})"
  shows "cells h' x = cells h x"
proof -
  let ?k = "unat (cells_of_size b)"
  obtain bs where bs: "heap_inv n h bs" "wf_blocs 0 n bs" "free_cells bs = {0..<n} - live_cells L"
    by (rule live_inv_heap [OF inv])
  have k: "0 < ?k" using mem.live_ok [OF inv b] .
  have sub: "{a..<a + ?k} \<subseteq> live_cells L" using b by (auto simp: live_cells_def block_cells_def)
  then have "a + ?k - 1 \<in> live_cells L" using k by auto
  then have fit: "a + ?k \<le> n" using inv k by (auto simp: live_inv_def)
  have disj: "\<forall>y\<in>set bs. fst y + snd y \<le> a \<or> a + ?k \<le> fst y"
  proof
    fix y assume y: "y \<in> set bs"
    then have "{fst y..<fst y + snd y} \<subseteq> free_cells bs" by (auto simp: free_cells_def bloc_cells_def)
    moreover have "0 < snd y" using wf_blocs_bounds [OF bs(2), of "fst y" "snd y"] y by simp
    ultimately show "fst y + snd y \<le> a \<or> a + ?k \<le> fst y"
      using bs(3) sub k intervals_apart [of "fst y" "snd y" a ?k] by blast
  qed
  have "x \<in> live_cells L" using x by (auto simp: live_cells_def)
  moreover have "x \<noteq> a"
    using live_blocks_apart [OF inv b x] k by (auto simp: block_cells_def)
  ultimately show ?thesis
    using free_frame [OF bs(1) k fit disj r, of x] bs(3) by simp
qed

lemma live_free_total:
  assumes "live_inv n h L"
  shows "get_free_mem h = Some (4 * (int n - int (card (live_cells L))))"
proof -
  obtain bs where bs: "heap_inv n h bs" "wf_blocs 0 n bs" "free_cells bs = {0..<n} - live_cells L"
    by (rule live_inv_heap [OF assms])
  have "live_cells L \<subseteq> {0..<n}" using assms by (simp add: live_inv_def)
  then have "int (sum_list (map snd bs)) = int n - int (card (live_cells L))"
    using card_free_cells [OF bs(2)] bs(3) card_Diff_subset [of "live_cells L" "{0..<n}"]
      card_mono [of "{0..<n}" "live_cells L"] finite_subset [of "live_cells L" "{0..<n}"]
    by (simp add: of_nat_diff)
  then show ?thesis
    using bs(1) sum_free_seg [OF _ bs(2), of "cells h" "first_free h" 0]
    by (simp add: get_free_mem_def heap_inv_def)
qed

section \<open>Properties\<close>

text \<open>
  Heaps with given live blocks exist: the blocks of a list of sizes, allocated one after the
  other from the start of the array. Concrete instances of the theorems are built on them.
\<close>

fun place :: "nat \<Rightarrow> u16 list \<Rightarrow> (nat \<times> u16) list" where
  "place a [] = []"
| "place a (b # bs) = (a, b) # place (a + unat (cells_of_size b)) bs"

lemma alloc_at_start:
  assumes "heap_inv n h [(a, n - a)]" and "0 < unat (cells_of_size b)"
    and "a + unat (cells_of_size b) < n"
  shows "\<exists>h'. mem_alloc b h = Some (Some a, h') \<and>
    heap_inv n h' [(a + unat (cells_of_size b), n - (a + unat (cells_of_size b)))]"
proof -
  let ?k = "unat (cells_of_size b)"
  have "?k < n - a" using assms(3) by linarith
  then have "alloc_list ?k [(a, n - a)] = Some (a, [(a + ?k, n - (a + ?k))])"
    by (simp add: alloc_list_def)
  from alloc_refines [OF assms(1,2) this] show ?thesis by blast
qed

lemma place_extends:
  assumes "heap_inv n h [(a, n - a)]" and "live_inv n h L"
    and "\<forall>b\<in>set bs. 0 < unat (cells_of_size b)"
    and "a + sum_list (map (\<lambda>b. unat (cells_of_size b)) bs) < n"
  shows "\<exists>h'. live_inv n h' (set (place a bs) \<union> L)"
  using assms
proof (induction bs arbitrary: a h L)
  case Nil
  then show ?case by auto
next
  case (Cons b bs)
  let ?k = "unat (cells_of_size b)"
  have k: "0 < ?k" "a + ?k < n" using Cons.prems by auto
  from alloc_at_start [OF Cons.prems(1) k]
  obtain h' where h': "mem_alloc b h = Some (Some a, h')" "heap_inv n h' [(a + ?k, n - (a + ?k))]"
    by blast
  then have "live_inv n h' (insert (a, b) L)"
    using live_inv_alloc [OF Cons.prems(2) k(1)] by auto
  from Cons.IH [OF h'(2) this] Cons.prems(3,4) show ?case by (simp add: add.assoc)
qed

lemma heap_with_blocks:
  assumes "\<forall>b\<in>set bs. 0 < unat (cells_of_size b)"
    and "sum_list (map (\<lambda>b. unat (cells_of_size b)) bs) < n" and "n < 65536"
  shows "\<exists>h. live_inv n h (set (place 0 bs))"
proof -
  have n: "0 < n" using assms(2) by simp
  from place_extends [of n "mem_reset n heap_static" 0 "{}" bs] assms
    heap_inv_reset [OF n assms(3)] live_inv_reset [OF n assms(3)]
  show ?thesis by simp
qed

text \<open>
  C16: on every heap the kernel can reach, an allocation of a positive number of cells returns.
  Either it gives a block inside the array that overlaps no live block and leaves every live
  cell as it was, or it gives \<open>NULL\<close>, changes nothing, and no run of free cells is long enough.
\<close>

theorem mem_alloc_safe:
  assumes "mem_reach n h L" and "0 < n" and "n < 65536" and "0 < unat (cells_of_size b)"
  shows "\<exists>r h'. mem_alloc b h = Some (r, h') \<and>
    (case r of
       Some a \<Rightarrow> block_cells (a, b) \<subseteq> {0..<n} \<and> block_cells (a, b) \<inter> live_cells L = {} \<and>
                 (\<forall>x\<in>live_cells L. cells h' x = cells h x)
     | None \<Rightarrow> h' = h \<and>
                (\<forall>p. p + unat (cells_of_size b) \<le> n \<longrightarrow>
                   {p..<p + unat (cells_of_size b)} \<inter> live_cells L \<noteq> {}))"
proof -
  have inv: "live_inv n h L" by (rule mem_reach_inv [OF assms(1-3)])
  from live_inv_alloc [OF inv assms(4)] show ?thesis
    using live_alloc_frame [OF inv assms(4)] by (elim disjE exE conjE) auto
qed

theorem mem_alloc_safe_witness:
  "\<exists>r h'. mem_alloc 10 (mem_reset 8192 heap_static) = Some (r, h')"
proof -
  have "unat (cells_of_size 10) = 3"
    by (simp add: unat_cells_of_size)
  with mem_alloc_safe [OF mem_reach.reset, of 8192 10] show ?thesis by auto
qed

text \<open>
  C17: freeing a live block with the size it was allocated with returns, leaves every other live
  cell as it was and makes the memory of the block available again.
\<close>

theorem mem_free_safe:
  assumes "mem_reach n h L" and "0 < n" and "n < 65536" and "(a, b) \<in> L"
  shows "\<exists>h'. mem_free (Some a) b h = Some h' \<and> mem_reach n h' (L - {(a, b)}) \<and>
    (\<forall>x\<in>live_cells (L - {(a, b)}). cells h' x = cells h x) \<and>
    get_free_mem h' = Some (4 * (int n - int (card (live_cells (L - {(a, b)})))))"
proof -
  have inv: "live_inv n h L" by (rule mem_reach_inv [OF assms(1-3)])
  obtain h' where h': "mem_free (Some a) b h = Some h'" "live_inv n h' (L - {(a, b)})"
    using live_inv_free [OF inv assms(4)] by blast
  moreover have "mem_reach n h' (L - {(a, b)})"
    by (rule mem_reach.free [OF assms(1,4) h'(1)])
  ultimately show ?thesis
    using live_free_frame [OF inv assms(4) h'(1)] live_free_total by blast
qed

lemma first_alloc:
  obtains a h where "mem_alloc 10 (mem_reset 8192 heap_static) = Some (Some a, h)"
proof -
  have k: "unat (cells_of_size 10) = 3" by (simp add: unat_cells_of_size)
  have "live_inv 8192 (mem_reset 8192 heap_static) {}" by (rule live_inv_reset) simp_all
  from live_inv_alloc [OF this, of 10] k that show thesis
    by (auto dest: spec [of _ 0])
qed

theorem mem_free_safe_witness:
  "\<exists>a h h'. mem_alloc 10 (mem_reset 8192 heap_static) = Some (Some a, h) \<and> mem_free (Some a) 10 h = Some h'"
proof -
  obtain a h where h: "mem_alloc 10 (mem_reset 8192 heap_static) = Some (Some a, h)"
    by (rule first_alloc)
  have "mem_reach 8192 h {(a, 10)}"
    by (rule mem_reach.alloc [OF mem_reach.reset _ h]) (simp add: unat_cells_of_size)
  from mem_free_safe [OF this, of a 10] h show ?thesis by auto
qed

text \<open>
  C18: no leak and no fragmentation is left behind. When every block has been freed, whatever
  happened in between, the free list is the single block \<open>mem_reset\<close> starts with.
\<close>

theorem mem_all_free_is_reset:
  assumes "mem_reach n h {}" and "0 < n" and "n < 65536"
  shows "first_free h = 0 \<and> cells h 0 = cells (mem_reset n heap_static) 0 \<and> cells h n = 0
    \<and> get_free_mem h = Some (4 * int n)"
proof -
  have inv: "live_inv n h {}" by (rule mem_reach_inv [OF assms])
  obtain bs where bs: "heap_inv n h bs" "wf_blocs 0 n bs" "free_cells bs = {0..<n}"
    using live_inv_heap [OF inv] by (metis Diff_empty live_cells_simps(1))
  have "bs = [(0, n)]"
    using bs(2,3) assms(2) by (intro wf_blocs_canonical [of 0 n]) (auto simp: bloc_cells_def)
  with bs(1) have f: "first_free h = 0" "unat (bloc_size (cells h 0)) = n"
    "unat (to_next (cells h 0)) = n" "cells h n = 0"
    by (auto simp: heap_inv_def)
  have "unat (cells h 0) = unat (mk_bloc (of_nat n) (of_nat n))"
    using f(2,3) assms(3) mult_div_mod_eq [of 65536 "unat (cells h 0)"]
    by (simp add: unat_bloc_size unat_to_next unat_mk_bloc unat_of_nat_u16)
  then have "cells h 0 = mk_bloc (of_nat n) (of_nat n)" by (simp add: word_unat_eq_iff)
  with f live_free_total [OF inv] assms(3) show ?thesis
    by (simp add: mem_reset_def mem_reset_cell)
qed

theorem mem_all_free_is_reset_witness:
  "get_free_mem (mem_reset 8192 heap_static) = Some 32768"
  using mem_all_free_is_reset [OF mem_reach.reset, of 8192] by simp

text \<open>
  Freeing a block right after its allocation restores the free list exactly, split or
  merged blocks included.
\<close>

theorem mem_alloc_free_roundtrip:
  assumes "heap_inv n h bs" and "0 < unat (cells_of_size b)"
    and "mem_alloc b h = Some (Some a, h1)"
  shows "\<exists>h2. mem_free (Some a) b h1 = Some h2 \<and> heap_inv n h2 bs"
proof -
  let ?k = "unat (cells_of_size b)"
  have wf: "wf_blocs 0 n bs" using assms(1) by (simp add: heap_inv_def)
  obtain bs' where al: "alloc_list ?k bs = Some (a, bs')"
  proof (cases "alloc_list ?k bs")
    case None
    with alloc_fail [OF assms(1,2)] assms(3) show thesis by simp
  next
    case (Some r)
    then obtain a' bs' where "alloc_list ?k bs = Some (a', bs')" by (cases r) simp
    with alloc_refines [OF assms(1,2) this] assms(3) that show thesis by fastforce
  qed
  note l = alloc_list_Some [OF wf al assms(2)]
  have h1: "heap_inv n h1 bs'" using alloc_refines [OF assms(1,2) al] assms(3) by force
  have "a + ?k - 1 \<in> free_cells bs" using l(1) assms(2) by auto
  then have fit: "a + ?k \<le> n" using free_cells_bounds [OF wf] assms(2) by fastforce
  have disj: "\<forall>y\<in>set bs'. fst y + snd y \<le> a \<or> a + ?k \<le> fst y"
  proof
    fix y assume y: "y \<in> set bs'"
    then have "{fst y..<fst y + snd y} \<subseteq> free_cells bs'" by (auto simp: free_cells_def bloc_cells_def)
    moreover have "0 < snd y" using wf_blocs_bounds [OF l(3), of "fst y" "snd y"] y by simp
    ultimately show "fst y + snd y \<le> a \<or> a + ?k \<le> fst y"
      using l(2) assms(2) intervals_apart [of "fst y" "snd y" a ?k] by blast
  qed
  have "b \<noteq> 0" using assms(2) by auto
  then obtain h2 where h2: "mem_free (Some a) b h1 = Some h2" "heap_inv n h2 (free_list a ?k bs')"
    by (rule free_refines [OF h1 _ assms(2) fit disj])
  have "free_list a ?k bs' = bs"
  proof (rule wf_blocs_canonical)
    show "wf_blocs 0 n (free_list a ?k bs')" using h2(2) by (simp add: heap_inv_def)
    show "free_cells (free_list a ?k bs') = free_cells bs"
      using l(1,2) by (auto simp: free_cells_free_list)
  qed (rule wf)
  with h2 show ?thesis by auto
qed

theorem mem_alloc_free_roundtrip_witness:
  "\<exists>a h1 h2. mem_alloc 10 (mem_reset 8192 heap_static) = Some (Some a, h1)
     \<and> mem_free (Some a) 10 h1 = Some h2 \<and> heap_inv 8192 h2 [(0, 8192)]"
proof -
  obtain a h where h: "mem_alloc 10 (mem_reset 8192 heap_static) = Some (Some a, h)"
    by (rule first_alloc)
  have "heap_inv 8192 (mem_reset 8192 heap_static) [(0, 8192)]"
    by (rule heap_inv_reset) simp_all
  from mem_alloc_free_roundtrip [OF this _ h] h show ?thesis
    by (auto simp: unat_cells_of_size)
qed

text \<open>The copy of \<open>mem_realloc\<close>: the new block takes the bytes of the old one and keeps them when
  the old one is freed.\<close>

lemma realloc_moves_bytes:
  fixes sz nsz :: u16
  defines "c \<equiv> \<lambda>h1 p q. copy_bytes q p (unat sz) (cells h1)"
  assumes inv: "live_inv n h L" and pos: "0 < unat (cells_of_size nsz)"
    and al: "mem_alloc nsz h = Some (Some q, h1)" and inv1: "live_inv n h1 (insert (q, nsz) L)"
    and sub: "block_cells (q, nsz) \<subseteq> {0..<n} - live_cells L" and pL: "(p, sz) \<in> L"
    and k: "(unat sz + 3) div 4 = unat (cells_of_size sz)"
      "(unat sz + 3) div 4 \<le> unat (cells_of_size nsz)"
  shows "\<exists>h'. mem_free (Some p) sz (h1\<lparr>cells := c h1 p q\<rparr>) = Some h' \<and>
    live_inv n h' (insert (q, nsz) L - {(p, sz)}) \<and>
    (\<forall>i<unat sz. get_byte (cells h') q i = get_byte (cells h) p i)"
proof -
  let ?L = "insert (q, nsz) L" and ?c = "copy_bytes q p (unat sz) (cells h1)"
  have idx: "i div 4 < unat (cells_of_size nsz)" "i div 4 < unat (cells_of_size sz)"
    if "i < unat sz" for i
    using that k by linarith+
  have q: "q + i div 4 \<in> block_cells (q, nsz)" and p: "p + i div 4 \<in> block_cells (p, sz)"
    if "i < unat sz" for i
    using idx [OF that] by (simp_all add: block_cells_def)
  have psub: "block_cells (p, sz) \<subseteq> live_cells L" using pL by (auto simp: live_cells_def)
  have inv2: "live_inv n (h1\<lparr>cells := ?c\<rparr>) ?L"
    using q by (intro live_inv_cells [OF inv1] copy_bytes_other) auto
  have pL': "(p, sz) \<in> ?L" using pL by simp
  obtain h' where h': "mem_free (Some p) sz (h1\<lparr>cells := ?c\<rparr>) = Some h'"
    "live_inv n h' (?L - {(p, sz)})"
    using live_inv_free [OF inv2 pL'] by blast
  have "get_byte (cells h') q i = get_byte (cells h) p i" if i: "i < unat sz" for i
  proof -
    have "(q, nsz) \<noteq> (p, sz)" using sub psub p [OF i] q [OF i] by auto
    then have "q + i div 4 \<in> live_cells (?L - {(p, sz)})"
      using q [OF i] unfolding live_cells_def by blast
    then have "get_byte (cells h') q i = get_byte ?c q i"
      using live_free_frame [OF inv2 pL' h'(1)] by (simp add: get_byte_def)
    also have "\<dots> = get_byte (cells h1) p i"
    proof (rule copy_bytes_correct [OF _ i])
      fix i j assume "i < unat sz" "j < unat sz"
      then have "q + i div 4 \<notin> live_cells L" "p + j div 4 \<in> live_cells L"
        using q [of i] p [of j] sub psub by blast+
      then show "q + i div 4 \<noteq> p + j div 4" by metis
    qed
    also have "\<dots> = get_byte (cells h) p i"
      using live_alloc_frame [OF inv pos al] psub p [OF i] by (simp add: get_byte_def subset_iff)
    finally show ?thesis .
  qed
  with h' show ?thesis unfolding c_def by blast
qed

text \<open>
  A reallocation that succeeds moves the bytes: the new block holds the old contents, and
  the old block is free. One that fails has freed the old block.
\<close>

theorem mem_realloc_copies:
  assumes "mem_reach n h L" and "0 < n" and "n < 65536" and "(p, sz) \<in> L"
    and "unat sz + unat add \<le> 65532"
  shows "\<exists>r h'. mem_realloc (Some p) sz add h = Some (r, h') \<and>
    (case r of
       Some q \<Rightarrow> (\<forall>i<unat sz. get_byte (cells h') q i = get_byte (cells h) p i) \<and>
                 live_inv n h' (insert (q, sz + add) L - {(p, sz)})
     | None \<Rightarrow> live_inv n h' (L - {(p, sz)}))"
proof -
  have inv: "live_inv n h L" by (rule mem_reach_inv [OF assms(1-3)])
  have sz: "0 < unat (cells_of_size sz)" using mem.live_ok [OF inv assms(4)] .
  have sum: "unat (sz + add) = unat sz + unat add" using assms(5) by (simp add: unat_add_u16)
  have k: "unat (cells_of_size (sz + add)) = (unat sz + unat add + 3) div 4"
    using sum assms(5) by (simp add: unat_cells_of_size)
  have ks: "unat (cells_of_size sz) = (unat sz + 3) div 4"
    using assms(5) by (simp add: unat_cells_of_size)
  have "(unat sz + 3) div 4 \<le> (unat sz + unat add + 3) div 4" by (rule div_le_mono) simp
  with sz k ks have pos: "0 < unat (cells_of_size (sz + add))" by linarith
  consider "mem_alloc (sz + add) h = Some (None, h)"
    | q h1 where "mem_alloc (sz + add) h = Some (Some q, h1)"
      "live_inv n h1 (insert (q, sz + add) L)" "block_cells (q, sz + add) \<subseteq> {0..<n} - live_cells L"
    using live_inv_alloc [OF inv pos] by blast
  then show ?thesis
  proof cases
    case 1
    obtain h' where "mem_free (Some p) sz h = Some h'" "live_inv n h' (L - {(p, sz)})"
      using live_inv_free [OF inv assms(4)] by blast
    with 1 show ?thesis by (simp add: mem_realloc_def)
  next
    case 2
    let ?L = "insert (q, sz + add) L" and ?c = "copy_bytes q p (unat sz) (cells h1)"
    have "(unat sz + 3) div 4 \<le> unat (cells_of_size (sz + add))" using k by (simp add: div_le_mono)
    with realloc_moves_bytes [OF inv pos 2 assms(4) ks [symmetric]]
    show ?thesis using 2(1) by (auto simp: mem_realloc_def)
  qed
qed

theorem mem_realloc_copies_witness:
  "\<exists>a h r h'. mem_alloc 10 (mem_reset 8192 heap_static) = Some (Some a, h)
     \<and> mem_realloc (Some a) 10 10 h = Some (r, h')"
proof -
  obtain a h where h: "mem_alloc 10 (mem_reset 8192 heap_static) = Some (Some a, h)"
    by (rule first_alloc)
  have "mem_reach 8192 h {(a, 10)}"
    by (rule mem_reach.alloc [OF mem_reach.reset _ h]) (simp add: unat_cells_of_size)
  from mem_realloc_copies [OF this, of a 10 10] h show ?thesis by auto
qed

lemma int_mult4_le: "4 * int a \<le> 4 * int b \<longleftrightarrow> a \<le> b"
  by simp

lemma foldl_max_le: "k \<le> foldl max m xs \<longleftrightarrow> k \<le> m \<or> (\<exists>x\<in>set xs. k \<le> (x :: nat))"
  by (induction xs arbitrary: m) (auto simp: le_max_iff_disj)

text \<open>
  The monitoring function predicts the allocator. A request is served exactly when its
  cells fit in what \<open>get_max_free_mem\<close> reports.
\<close>

theorem get_max_free_mem_predicts:
  assumes "mem_reach n h L" and "0 < n" and "n < 65536" and "0 < unat (cells_of_size b)"
  shows "\<exists>m. get_max_free_mem h = Some m \<and>
    ((\<exists>a h'. mem_alloc b h = Some (Some a, h')) \<longleftrightarrow> 4 * int (unat (cells_of_size b)) \<le> m)"
proof -
  let ?k = "unat (cells_of_size b)"
  have inv: "live_inv n h L" by (rule mem_reach_inv [OF assms(1-3)])
  obtain bs where bs: "heap_inv n h bs" "wf_blocs 0 n bs"
    using live_inv_heap [OF inv] by metis
  have "get_max_free_mem h = Some (4 * int (foldl max 0 (map snd bs)))"
    using bs(1) max_free_seg [OF _ bs(2), of "cells h" "first_free h" 0]
    by (simp add: get_max_free_mem_def heap_inv_def)
  moreover have "(\<exists>a h'. mem_alloc b h = Some (Some a, h')) \<longleftrightarrow> (\<exists>x\<in>set bs. ?k \<le> snd x)"
  proof (cases "alloc_list ?k bs")
    case None
    with alloc_fail [OF bs(1) assms(4)] alloc_list_None [OF None] show ?thesis by fastforce
  next
    case (Some r)
    then obtain a bs' where r: "alloc_list ?k bs = Some (a, bs')" by (cases r) simp
    have "{a..<a + ?k} \<subseteq> free_cells bs" by (rule alloc_list_Some(1) [OF bs(2) r assms(4)])
    then show ?thesis
      using alloc_refines [OF bs(1) assms(4) r] interval_in_bloc [OF bs(2) assms(4)] by metis
  qed
  moreover have "4 * int ?k \<le> 4 * int (foldl max 0 (map snd bs)) \<longleftrightarrow> (\<exists>x\<in>set bs. ?k \<le> snd x)"
    using assms(4) by (simp only: int_mult4_le foldl_max_le) auto
  ultimately show ?thesis by blast
qed

theorem get_max_free_mem_predicts_witness:
  "\<exists>m. get_max_free_mem (mem_reset 8192 heap_static) = Some m \<and> 12 \<le> m"
proof -
  obtain a h where h: "mem_alloc 10 (mem_reset 8192 heap_static) = Some (Some a, h)"
    by (rule first_alloc)
  have "unat (cells_of_size 10) = 3" by (simp add: unat_cells_of_size)
  with get_max_free_mem_predicts [OF mem_reach.reset, of 8192 10] h show ?thesis by auto
qed

lemma cells_of_size_wraps:
  assumes "65533 \<le> unat b"
  shows "cells_of_size b = 0"
proof -
  have lt: "unat b < 65536" by (rule unat_u16_lt)
  with assms consider "unat b = 65533" | "unat b = 65534" | "unat b = 65535" by linarith
  then have "b = 65533 \<or> b = 65534 \<or> b = 65535"
    by cases (simp_all add: word_unat_eq_iff)
  then show ?thesis by (auto simp: cells_of_size_def)
qed

lemma mk_bloc_fields [simp]: "mk_bloc (bloc_size c) (to_next c) = c"
  using mod_mult_div_eq [of "unat c" 65536]
  by (simp add: word_unat_eq_iff unat_mk_bloc unat_bloc_size unat_to_next)

text \<open>A request of zero cells hands out the head of the free list and changes nothing.\<close>

lemma mem_alloc_zero_cells:
  assumes "heap_inv n h bs" and zero: "cells_of_size b = 0"
  shows "mem_alloc b h = Some (Some (first_free h), h)"
proof (cases bs)
  case Nil
  with assms(1) have "first_free h = n" "cells h n = 0" by (auto simp: heap_inv_def)
  then have "find_bloc (cells h) 0 None (first_free h) = Some (None, n)"
    by (subst find_bloc.simps) simp
  with \<open>first_free h = n\<close> \<open>cells h n = 0\<close> show ?thesis
    by (simp add: mem_alloc_def Let_def zero)
next
  case (Cons x xs)
  with assms(1) have "0 < unat (bloc_size (cells h (first_free h)))"
    by (cases x) (auto simp: heap_inv_def)
  then have "bloc_size (cells h (first_free h)) \<noteq> 0" by auto
  then have "find_bloc (cells h) 0 None (first_free h) = Some (None, first_free h)"
    by (subst find_bloc.simps) simp
  with \<open>bloc_size (cells h (first_free h)) \<noteq> 0\<close> show ?thesis
    by (simp add: mem_alloc_def Let_def zero)
qed

lemma live_alloc_zero: "live_inv n h L \<Longrightarrow> \<exists>a. mem_alloc 0 h = Some (Some a, h)"
  using mem_alloc_zero_cells [of n h _ 0] by (auto simp: live_inv_def)

text \<open>
  The size computation wraps. A request of 65533, 65534 or 65535 bytes is rounded up in 16
  bits to zero cells: the call succeeds, hands out the first free cell and leaves it in the free
  list.
\<close>

theorem mem_alloc_oversize:
  assumes "heap_inv n h bs" and "65533 \<le> unat b"
  shows "mem_alloc b h = Some (Some (first_free h), h)"
  by (rule mem_alloc_zero_cells [OF assms(1) cells_of_size_wraps [OF assms(2)]])

theorem mem_alloc_oversize_witness:
  "mem_alloc 65535 (mem_reset 8192 heap_static) = Some (Some 0, mem_reset 8192 heap_static)"
proof -
  have "heap_inv 8192 (mem_reset 8192 heap_static) [(0, 8192)]"
    by (rule heap_inv_reset) simp_all
  from mem_alloc_oversize [OF this, of 65535] show ?thesis by (simp add: mem_reset_def)
qed

end
