(* ===== verification/Link_Layer_Cache.thy ===== *)
theory Link_Layer_Cache
  imports Prelude
begin

text \<open>
  The cache of link layer addresses, \<open>core/link_layer_cache.c\<close>, in its IPv4 build: a table of ten
  entries, filled in order, an empty entry being one whose address is 0.0.0.0. The Ethernet
  targets add an entry for every frame and every ARP packet they receive and look an address up
  for every packet they send.

  The table refines a partial map from addresses to link layer addresses. The theory proves that
  a lookup never returns a stale address, and what an insertion into a full table loses.
\<close>

section \<open>Model\<close>

text \<open>A link layer address is the list of its bytes; \<open>LINK_LAYER_CACHE_MAX_ENTRY\<close> is 10.\<close>

record ll_entry =
  ll_ip :: u32
  ll_timestamp :: u32
  ll_addr :: "u8 list"

record ll_cache =
  ll_table :: "ll_entry list"
  ll_time :: u32

definition ll_static :: ll_cache where
  "ll_static = \<lparr>ll_table = replicate 10 \<lparr>ll_ip = 0, ll_timestamp = 0, ll_addr = []\<rparr>, ll_time = 0\<rparr>"

text \<open>\<open>NOW\<close> is the clock of the target (\<open>Some t\<close>), or a counter that each use increments.\<close>

definition NOW :: "u32 option \<Rightarrow> ll_cache \<Rightarrow> u32 \<times> ll_cache" where
  "NOW clock c =
    (case clock of
       Some t \<Rightarrow> (t, c)
     | None \<Rightarrow> (ll_time c + 1, c\<lparr>ll_time := ll_time c + 1\<rparr>))"

definition IP_EQUAL :: "u32 \<Rightarrow> u32 \<Rightarrow> bool" where
  "IP_EQUAL a b = (a = b)"

definition IP_IS_NULL :: "u32 \<Rightarrow> bool" where
  "IP_IS_NULL a = (a = 0)"

text \<open>
  The loop of \<open>add_link_layer_address\<close> over the entries from \<open>i\<close> on: \<open>Inl i\<close> is the entry it
  returns at, \<open>Inr m\<close> the entry with the least timestamp when it finds none.
\<close>

fun add_scan :: "u32 \<Rightarrow> ll_entry list \<Rightarrow> nat \<Rightarrow> nat \<Rightarrow> u32 \<Rightarrow> nat + nat" where
  "add_scan ip [] i min_time_idx min_time = Inr min_time_idx"
| "add_scan ip (e # es) i min_time_idx min_time =
    (let older = ll_timestamp e < min_time;
         min_time = (if older then ll_timestamp e else min_time);
         min_time_idx = (if older then i else min_time_idx)
     in if IP_EQUAL (ll_ip e) ip \<or> IP_IS_NULL (ll_ip e) then Inl i
        else add_scan ip es (Suc i) min_time_idx min_time)"

definition add_link_layer_address :: "u32 option \<Rightarrow> u32 \<Rightarrow> u8 list \<Rightarrow> ll_cache \<Rightarrow> ll_cache" where
  "add_link_layer_address clock ip ll c =
    (case add_scan ip (ll_table c) 0 0 (ll_timestamp (ll_table c ! 0)) of
       Inl i \<Rightarrow>
        (let (now, c) = NOW clock c;
             e = (ll_table c ! i)\<lparr>ll_addr := ll, ll_timestamp := now\<rparr>;
             e = (if IP_IS_NULL (ll_ip e) then e\<lparr>ll_ip := ip\<rparr> else e)
         in c\<lparr>ll_table := (ll_table c)[i := e]\<rparr>)
     | Inr m \<Rightarrow> c\<lparr>ll_table := (ll_table c)[m := (ll_table c ! m)\<lparr>ll_ip := ip, ll_addr := ll\<rparr>]\<rparr>)"

fun find_entry :: "u32 \<Rightarrow> ll_entry list \<Rightarrow> u8 list option" where
  "find_entry ip [] = None"
| "find_entry ip (e # es) = (if IP_EQUAL (ll_ip e) ip then Some (ll_addr e) else find_entry ip es)"

definition get_link_layer_address :: "u32 \<Rightarrow> ll_cache \<Rightarrow> u8 list option" where
  "get_link_layer_address ip c = find_entry ip (ll_table c)"

section \<open>The table as a map\<close>

text \<open>The entries in use come first and have distinct addresses.\<close>

definition ll_inv :: "ll_cache \<Rightarrow> bool" where
  "ll_inv c \<longleftrightarrow> length (ll_table c) = 10 \<and>
     sorted_wrt (\<lambda>a b. ll_ip b \<noteq> 0 \<longrightarrow> ll_ip a \<noteq> 0 \<and> ll_ip a \<noteq> ll_ip b) (ll_table c)"

abbreviation entry :: "ll_cache \<Rightarrow> nat \<Rightarrow> ll_entry" where
  "entry c i \<equiv> ll_table c ! i"

definition ll_full :: "ll_cache \<Rightarrow> bool" where
  "ll_full c \<longleftrightarrow> (\<forall>i<10. ll_ip (entry c i) \<noteq> 0)"

lemma ll_inv_length: "ll_inv c \<Longrightarrow> length (ll_table c) = 10"
  by (simp add: ll_inv_def)

lemma ll_inv_before:
  "ll_inv c \<Longrightarrow> j < i \<Longrightarrow> i < 10 \<Longrightarrow> ll_ip (entry c i) \<noteq> 0 \<Longrightarrow>
   ll_ip (entry c j) \<noteq> 0 \<and> ll_ip (entry c j) \<noteq> ll_ip (entry c i)"
  by (auto simp: ll_inv_def sorted_wrt_iff_nth_less)

lemma ll_inv_static: "ll_inv ll_static"
  by (auto simp: ll_inv_def ll_static_def sorted_wrt_iff_nth_less)

lemma find_entry_map_of: "find_entry ip es = map_of (map (\<lambda>e. (ll_ip e, ll_addr e)) es) ip"
  by (induction es) (auto simp: IP_EQUAL_def)

lemma find_entry_nth:
  "i < length es \<Longrightarrow> ll_ip (es ! i) = ip \<Longrightarrow> (\<And>j. j < i \<Longrightarrow> ll_ip (es ! j) \<noteq> ip) \<Longrightarrow>
   find_entry ip es = Some (ll_addr (es ! i))"
proof (induction es arbitrary: i)
  case (Cons e es)
  show ?case
  proof (cases i)
    case (Suc k)
    have "ll_ip e \<noteq> ip" using Cons.prems(3) [of 0] Suc by simp
    moreover have "find_entry ip es = Some (ll_addr (es ! k))"
      using Cons.prems(1,2) Cons.prems(3) [of "Suc j" for j] Suc by (intro Cons.IH) auto
    ultimately show ?thesis using Suc by (simp add: IP_EQUAL_def)
  qed (use Cons.prems in \<open>simp add: IP_EQUAL_def\<close>)
qed simp

lemma find_entry_None: "find_entry ip es = None \<longleftrightarrow> (\<forall>i<length es. ll_ip (es ! i) \<noteq> ip)"
  by (auto simp: find_entry_map_of map_of_eq_None_iff in_set_conv_nth image_iff dest: nth_mem)

lemma get_entry:
  assumes "ll_inv c" and "i < 10" and "ll_ip (entry c i) \<noteq> 0"
  shows "get_link_layer_address (ll_ip (entry c i)) c = Some (ll_addr (entry c i))"
  unfolding get_link_layer_address_def
  using assms ll_inv_before [OF assms(1) _ assms(2,3)]
  by (intro find_entry_nth) (auto simp: ll_inv_length)

lemma get_none:
  assumes "ll_inv c"
  shows "get_link_layer_address ip c = None \<longleftrightarrow> (\<forall>i<10. ll_ip (entry c i) \<noteq> ip)"
  using assms by (simp add: get_link_layer_address_def find_entry_None ll_inv_length)

section \<open>Insertion\<close>

lemma add_scan_Inl:
  "add_scan ip es i mi mt = Inl j \<Longrightarrow>
   i \<le> j \<and> j - i < length es \<and> (ll_ip (es ! (j - i)) = ip \<or> ll_ip (es ! (j - i)) = 0) \<and>
   (\<forall>k<j - i. ll_ip (es ! k) \<noteq> ip \<and> ll_ip (es ! k) \<noteq> 0)"
proof (induction ip es i mi mt rule: add_scan.induct)
  case (2 ip e es i mi mt)
  show ?case
  proof (cases "ll_ip e = ip \<or> ll_ip e = 0")
    case True
    with "2.prems" show ?thesis by (auto simp: Let_def IP_EQUAL_def IP_IS_NULL_def)
  next
    case False
    then have "Suc i \<le> j \<and> j - Suc i < length es \<and>
      (ll_ip (es ! (j - Suc i)) = ip \<or> ll_ip (es ! (j - Suc i)) = 0) \<and>
      (\<forall>k<j - Suc i. ll_ip (es ! k) \<noteq> ip \<and> ll_ip (es ! k) \<noteq> 0)"
      using "2.prems" by (intro "2.IH") (auto simp: Let_def IP_EQUAL_def IP_IS_NULL_def)
    moreover from this have "j - i = Suc (j - Suc i)" by linarith
    ultimately show ?thesis using False by (auto simp: less_Suc_eq_0_disj)
  qed
qed simp

lemma add_scan_Inr:
  "add_scan ip es i mi mt = Inr m \<Longrightarrow>
   (\<forall>e\<in>set es. ll_ip e \<noteq> ip \<and> ll_ip e \<noteq> 0) \<and>
   ((m = mi \<and> (\<forall>e\<in>set es. mt \<le> ll_timestamp e)) \<or>
    (i \<le> m \<and> m - i < length es \<and> ll_timestamp (es ! (m - i)) \<le> mt \<and>
     (\<forall>e\<in>set es. ll_timestamp (es ! (m - i)) \<le> ll_timestamp e)))"
proof (induction ip es i mi mt rule: add_scan.induct)
  case (2 ip e es i mi mt)
  let ?o = "ll_timestamp e < mt"
  let ?mt = "if ?o then ll_timestamp e else mt" and ?mi = "if ?o then i else mi"
  have ne: "ll_ip e \<noteq> ip" "ll_ip e \<noteq> 0" and "add_scan ip es (Suc i) ?mi ?mt = Inr m"
    using "2.prems" by (auto simp: Let_def IP_EQUAL_def IP_IS_NULL_def split: if_splits)
  then have ih: "(\<forall>e\<in>set es. ll_ip e \<noteq> ip \<and> ll_ip e \<noteq> 0) \<and>
     ((m = ?mi \<and> (\<forall>e\<in>set es. ?mt \<le> ll_timestamp e)) \<or>
      (Suc i \<le> m \<and> m - Suc i < length es \<and> ll_timestamp (es ! (m - Suc i)) \<le> ?mt \<and>
       (\<forall>e\<in>set es. ll_timestamp (es ! (m - Suc i)) \<le> ll_timestamp e)))"
    by (intro "2.IH") (auto simp: IP_EQUAL_def IP_IS_NULL_def)
  then consider (keep) "m = mi" "\<not> ?o" "\<forall>e\<in>set es. mt \<le> ll_timestamp e"
    | (this) "m = i" ?o "\<forall>e'\<in>set es. ll_timestamp e \<le> ll_timestamp e'"
    | (later) "Suc i \<le> m" "m - Suc i < length es" "ll_timestamp (es ! (m - Suc i)) \<le> ?mt"
        "\<forall>e\<in>set es. ll_timestamp (es ! (m - Suc i)) \<le> ll_timestamp e"
    by (cases ?o) auto
  then show ?case
  proof cases
    case keep
    with ih ne show ?thesis by auto
  next
    case this
    with ih ne show ?thesis by auto
  next
    case later
    then have "m - i = Suc (m - Suc i)" by simp
    moreover have "?mt \<le> mt" "?mt \<le> ll_timestamp e" by auto
    then have "ll_timestamp (es ! (m - Suc i)) \<le> mt"
      "ll_timestamp (es ! (m - Suc i)) \<le> ll_timestamp e"
      using later(3) order.trans by blast+
    ultimately show ?thesis using later ih ne by auto
  qed
qed simp

text \<open>
  What an insertion does, in one of three ways: it refreshes the entry of the address, takes
  the first empty entry, or replaces an entry with the least timestamp - and keeps that timestamp.
\<close>

lemma add_cases:
  assumes "ll_inv c"
  obtains (hit) i e where "i < 10" "ll_ip (entry c i) = ip" "ll_ip e = ip" "ll_addr e = ll"
      "ll_table (add_link_layer_address clock ip ll c) = (ll_table c)[i := e]"
      "\<And>j. j < i \<Longrightarrow> ll_ip (entry c j) \<noteq> ip \<and> ll_ip (entry c j) \<noteq> 0"
  | (fresh) i e where "i < 10" "ll_ip (entry c i) = 0" "ll_ip e = ip" "ll_addr e = ll"
      "ll_table (add_link_layer_address clock ip ll c) = (ll_table c)[i := e]"
      "\<And>j. j < i \<Longrightarrow> ll_ip (entry c j) \<noteq> ip \<and> ll_ip (entry c j) \<noteq> 0"
  | (evict) i e where "i < 10" "ll_ip e = ip" "ll_addr e = ll"
      "ll_timestamp e = ll_timestamp (entry c i)"
      "ll_table (add_link_layer_address clock ip ll c) = (ll_table c)[i := e]"
      "\<And>j. j < 10 \<Longrightarrow> ll_ip (entry c j) \<noteq> ip \<and> ll_ip (entry c j) \<noteq> 0"
      "\<And>j. j < 10 \<Longrightarrow> ll_timestamp (entry c i) \<le> ll_timestamp (entry c j)"
proof -
  let ?scan = "add_scan ip (ll_table c) 0 0 (ll_timestamp (entry c 0))"
  have len: "length (ll_table c) = 10" by (rule ll_inv_length [OF assms])
  show thesis
  proof (cases ?scan)
    case (Inl i)
    note at = add_scan_Inl [OF Inl, unfolded len diff_zero]
    have upd: "ll_table (add_link_layer_address clock ip ll c) = (ll_table c)[i :=
        (entry c i)\<lparr>ll_addr := ll, ll_timestamp := fst (NOW clock c),
          ll_ip := (if ll_ip (entry c i) = 0 then ip else ll_ip (entry c i))\<rparr>]"
      using Inl by (cases clock) (simp_all add: add_link_layer_address_def NOW_def IP_IS_NULL_def)
    from at consider "ll_ip (entry c i) = ip" | "ll_ip (entry c i) = 0" by auto
    then show thesis
      by cases (use at in \<open>auto intro: hit [OF _ _ _ _ upd] fresh [OF _ _ _ _ upd]\<close>)
  next
    case (Inr m)
    note at = add_scan_Inr [OF Inr, unfolded len diff_zero]
    have m: "m < 10" and least: "\<forall>e\<in>set (ll_table c). ll_timestamp (entry c m) \<le> ll_timestamp e"
      using at by auto
    have "ll_table (add_link_layer_address clock ip ll c) =
        (ll_table c)[m := (entry c m)\<lparr>ll_ip := ip, ll_addr := ll\<rparr>]"
      using Inr by (simp add: add_link_layer_address_def)
    then show thesis
      using m least at len by (intro evict [OF m, of "(entry c m)\<lparr>ll_ip := ip, ll_addr := ll\<rparr>"]) auto
  qed
qed

lemma ll_inv_add:
  assumes inv: "ll_inv c" and "ip \<noteq> 0"
  shows "ll_inv (add_link_layer_address clock ip ll c)"
proof -
  note len = ll_inv_length [OF inv] and before = ll_inv_before [OF inv]
  from inv show ?thesis
  proof (rule add_cases [of c ip ll clock])
    fix i e assume "i < 10" "ll_ip (entry c i) = ip" "ll_ip e = ip"
      "ll_table (add_link_layer_address clock ip ll c) = (ll_table c)[i := e]"
    then show ?thesis
      using before len by (auto simp: ll_inv_def sorted_wrt_iff_nth_less nth_list_update)
  next
    fix i e assume a: "i < 10" "ll_ip (entry c i) = 0" "ll_ip e = ip"
      "ll_table (add_link_layer_address clock ip ll c) = (ll_table c)[i := e]"
      "\<And>j. j < i \<Longrightarrow> ll_ip (entry c j) \<noteq> ip \<and> ll_ip (entry c j) \<noteq> 0"
    have "ll_ip (entry c j) = 0" if "i < j" "j < 10" for j
      using before [of i j] a(2) that by auto
    with a \<open>ip \<noteq> 0\<close> before len show ?thesis
      by (auto simp: ll_inv_def sorted_wrt_iff_nth_less nth_list_update)
  next
    fix i e assume "i < 10" "ll_ip e = ip"
      "ll_table (add_link_layer_address clock ip ll c) = (ll_table c)[i := e]"
      "\<And>j. j < 10 \<Longrightarrow> ll_ip (entry c j) \<noteq> ip \<and> ll_ip (entry c j) \<noteq> 0"
    moreover from this have "j < 10 \<Longrightarrow> ip \<noteq> ll_ip (entry c j)" for j by metis
    ultimately show ?thesis
      using \<open>ip \<noteq> 0\<close> before len by (simp add: ll_inv_def sorted_wrt_iff_nth_less nth_list_update)
  qed
qed

lemma get_after_add:
  assumes inv: "ll_inv c" and ip: "ip \<noteq> 0"
  shows "get_link_layer_address ip (add_link_layer_address clock ip ll c) = Some ll"
proof -
  let ?c = "add_link_layer_address clock ip ll c"
  have "\<exists>i e. i < 10 \<and> ll_ip e = ip \<and> ll_addr e = ll \<and> ll_table ?c = (ll_table c)[i := e]"
    using inv by (rule add_cases [of c ip ll clock]) blast+
  then obtain i where "i < 10" "ll_ip (entry ?c i) = ip" "ll_addr (entry ?c i) = ll"
    using ll_inv_length [OF inv] by auto
  with get_entry [OF ll_inv_add [OF inv ip, of clock ll], of i] ip show ?thesis by simp
qed

lemma get_updated:
  assumes "ll_inv c" and "ll_inv c'" and "ll_table c' = (ll_table c)[i := e]" and "i < 10"
    and "ip \<noteq> 0" and "ll_ip e \<noteq> ip"
  shows "get_link_layer_address ip c' =
    (if ll_ip (entry c i) = ip then None else get_link_layer_address ip c)"
proof (cases "\<exists>j<10. j \<noteq> i \<and> ll_ip (entry c j) = ip")
  case True
  then obtain j where j: "j < 10" "j \<noteq> i" "ll_ip (entry c j) = ip" by blast
  have same: "entry c' j = entry c j" using assms(3) j(2) by simp
  have "ll_ip (entry c i) \<noteq> ip"
  proof
    assume eq: "ll_ip (entry c i) = ip"
    have "i < j \<or> j < i" using j(2) by linarith
    then show False
    proof
      assume "i < j"
      from ll_inv_before [OF assms(1) this j(1)] show False using eq j(3) assms(5) by auto
    next
      assume "j < i"
      from ll_inv_before [OF assms(1) this assms(4)] show False using eq j(3) assms(5) by auto
    qed
  qed
  moreover have "get_link_layer_address ip c = Some (ll_addr (entry c j))"
    using get_entry [OF assms(1) j(1)] j(3) assms(5) by simp
  moreover have "get_link_layer_address ip c' = Some (ll_addr (entry c j))"
    using get_entry [OF assms(2) j(1)] j(3) same assms(5) by simp
  ultimately show ?thesis by simp
next
  case False
  have "get_link_layer_address ip c' = None"
    using False assms ll_inv_length [OF assms(1)] by (auto simp: get_none nth_list_update)
  moreover have "get_link_layer_address ip c = None" if "ll_ip (entry c i) \<noteq> ip"
    using False that assms(1) by (auto simp: get_none)
  ultimately show ?thesis by simp
qed

lemma get_other_after_add:
  assumes inv: "ll_inv c" and ip: "ip \<noteq> 0" and "ip' \<noteq> 0" and "ip' \<noteq> ip"
  shows "get_link_layer_address ip' (add_link_layer_address clock ip ll c) \<in>
    {get_link_layer_address ip' c, None}"
proof -
  let ?c = "add_link_layer_address clock ip ll c"
  have "\<exists>i e. i < 10 \<and> ll_ip e = ip \<and> ll_table ?c = (ll_table c)[i := e]"
    using inv by (rule add_cases [of c ip ll clock]) blast+
  then obtain i e where "i < 10" "ll_ip e = ip" "ll_table ?c = (ll_table c)[i := e]" by blast
  with get_updated [OF inv ll_inv_add [OF inv ip] this(3,1), of ip'] assms(3,4)
  show ?thesis by auto
qed

section \<open>The interface\<close>

text \<open>
  What the senders rely on: a cache may forget an address, and never answers with one that a
  later insertion has replaced.
\<close>

locale address_cache =
  fixes inv :: "'s \<Rightarrow> bool"
    and valid :: "'k \<Rightarrow> bool"
    and add :: "'t \<Rightarrow> 'k \<Rightarrow> 'v \<Rightarrow> 's \<Rightarrow> 's"
    and get :: "'k \<Rightarrow> 's \<Rightarrow> 'v option"
  assumes inv_add: "inv s \<Longrightarrow> valid k \<Longrightarrow> inv (add t k v s)"
    and get_add: "inv s \<Longrightarrow> valid k \<Longrightarrow> get k (add t k v s) = Some v"
    and get_add_other: "inv s \<Longrightarrow> valid k \<Longrightarrow> valid k' \<Longrightarrow> k' \<noteq> k \<Longrightarrow>
      get k' (add t k v s) \<in> {get k' s, None}"
begin

definition run :: "('t \<times> 'k \<times> 'v) list \<Rightarrow> 's \<Rightarrow> 's" where
  "run ops s = fold (\<lambda>(t, k, v). add t k v) ops s"

lemma inv_run:
  "inv s \<Longrightarrow> \<forall>(t, k, v) \<in> set ops. valid k \<Longrightarrow> inv (run ops s)"
  by (induction ops arbitrary: s) (auto simp: run_def inv_add)

lemma never_stale:
  assumes "inv s" and "\<forall>(t, k, v) \<in> set ops. valid k" and "valid k"
  shows "get k (run ops s) \<in> {case map_of (rev (map snd ops)) k of Some v \<Rightarrow> Some v | None \<Rightarrow> get k s, None}"
  using assms(2)
proof (induction ops rule: rev_induct)
  case Nil
  then show ?case by (simp add: run_def)
next
  case (snoc op ops)
  obtain t k' v where op: "op = (t, k', v)" by (cases op)
  have inv: "inv (run ops s)" using snoc.prems by (intro inv_run assms(1)) auto
  have last: "run (ops @ [op]) s = add t k' v (run ops s)" by (simp add: run_def op)
  have valid: "valid k'" using snoc.prems by (simp add: op)
  show ?case
  proof (cases "k = k'")
    case True
    then show ?thesis unfolding last using get_add [OF inv valid, of t v] by (simp add: op)
  next
    case False
    have "get k (run (ops @ [op]) s) \<in> {get k (run ops s), None}"
      unfolding last by (rule get_add_other [OF inv valid assms(3) False])
    then show ?thesis using snoc False by (auto simp: op)
  qed
qed

end

interpretation llc: address_cache ll_inv "\<lambda>ip. ip \<noteq> 0" add_link_layer_address get_link_layer_address
  by unfold_locales (auto intro: ll_inv_add get_after_add dest: get_other_after_add)

section \<open>Properties\<close>

text \<open>
  C37: The cache never answers with a stale address. After any sequence of insertions of non-null
  addresses into the static table, a lookup of an address gives the link layer address inserted
  last for it, or nothing; right after an insertion it gives that one.
\<close>

theorem link_cache_never_stale:
  fixes ops :: "(u32 option \<times> u32 \<times> u8 list) list"
  defines "c \<equiv> fold (\<lambda>(t, a, l). add_link_layer_address t a l) ops ll_static"
  assumes "\<forall>(t, a, l) \<in> set ops. a \<noteq> 0" and "ip \<noteq> 0"
  shows "get_link_layer_address ip c \<in> {map_of (rev (map snd ops)) ip, None} \<and>
    get_link_layer_address ip (add_link_layer_address clock ip ll c) = Some ll"
proof -
  have empty: "get_link_layer_address ip ll_static = None"
    using assms(3) by (simp add: get_none [OF ll_inv_static]) (simp add: ll_static_def)
  have "ll_inv c"
    using llc.inv_run [OF ll_inv_static assms(2)] by (simp add: c_def llc.run_def)
  moreover have "get_link_layer_address ip c \<in> {map_of (rev (map snd ops)) ip, None}"
    using llc.never_stale [OF ll_inv_static assms(2,3)] empty
    by (simp add: c_def llc.run_def option.case_eq_if split: if_splits)
  ultimately show ?thesis using assms(3) by (simp add: get_after_add)
qed

theorem link_cache_never_stale_witness:
  "get_link_layer_address 7
     (fold (\<lambda>(t, a, l). add_link_layer_address t a l) [(None, 7, [1]), (Some 5, 8, [2]), (None, 7, [3])]
       ll_static) \<in> {Some [3], None}"
  using link_cache_never_stale [of "[(None, 7, [1]), (Some 5, 8, [2]), (None, 7, [3])]" 7] by simp

lemma add_scan_timestamps:
  "add_scan ip es i mi mt = Inr m \<Longrightarrow> map ll_timestamp es = map ll_timestamp es' \<Longrightarrow>
   add_scan ip' es' i mi mt = Inr m' \<Longrightarrow> m = m'"
proof (induction ip es i mi mt arbitrary: es' rule: add_scan.induct)
  case (2 ip e es i mi mt)
  from "2.prems"(2) obtain e' es'' where es': "es' = e' # es''" "ll_timestamp e' = ll_timestamp e"
    "map ll_timestamp es = map ll_timestamp es''" by (cases es') auto
  show ?case
    by (rule "2.IH" [OF refl refl refl _ _ es'(3)])
      (use "2.prems"(1,3) es' in \<open>auto simp: Let_def split: if_splits\<close>)
qed simp

lemma evicted_index:
  assumes "ll_inv c" and "ll_full c" and "get_link_layer_address ip c = None"
  obtains m where "add_scan ip (ll_table c) 0 0 (ll_timestamp (entry c 0)) = Inr m" "m < 10"
    "\<And>j. j < 10 \<Longrightarrow> ll_timestamp (entry c m) \<le> ll_timestamp (entry c j)"
    "ll_table (add_link_layer_address clock ip ll c) =
      (ll_table c)[m := (entry c m)\<lparr>ll_ip := ip, ll_addr := ll\<rparr>]"
proof -
  have len: "length (ll_table c) = 10" by (rule ll_inv_length [OF assms(1)])
  have absent: "ll_ip (entry c j) \<noteq> ip \<and> ll_ip (entry c j) \<noteq> 0" if "j < 10" for j
    using assms that by (auto simp: get_none ll_full_def)
  show thesis
  proof (cases "add_scan ip (ll_table c) 0 0 (ll_timestamp (entry c 0))")
    case (Inl i)
    with add_scan_Inl [OF Inl] absent [of i] len show thesis by auto
  next
    case (Inr m)
    with add_scan_Inr [OF Inr] len that [of m] show thesis
      by (auto simp: add_link_layer_address_def)
  qed
qed

text \<open>
  Inserting a new address into a full table loses exactly one address, and one whose
  timestamp is the least of the table; every other lookup is unchanged.
\<close>

theorem link_cache_evicts_one:
  assumes "ll_inv c" and "ll_full c" and "ip \<noteq> 0" and "get_link_layer_address ip c = None"
  shows "\<exists>i<10. (\<forall>j<10. ll_timestamp (entry c i) \<le> ll_timestamp (entry c j)) \<and>
    (\<forall>ip'. ip' \<noteq> 0 \<longrightarrow> get_link_layer_address ip' (add_link_layer_address clock ip ll c) =
       (if ip' = ip then Some ll else if ip' = ll_ip (entry c i) then None
        else get_link_layer_address ip' c))"
proof -
  obtain m where m: "m < 10" "\<And>j. j < 10 \<Longrightarrow> ll_timestamp (entry c m) \<le> ll_timestamp (entry c j)"
    "ll_table (add_link_layer_address clock ip ll c) =
      (ll_table c)[m := (entry c m)\<lparr>ll_ip := ip, ll_addr := ll\<rparr>]"
    using evicted_index [OF assms(1,2,4)] by metis
  with get_updated [OF assms(1) ll_inv_add [OF assms(1,3)] m(3,1)] get_after_add [OF assms(1,3)]
  show ?thesis by (intro exI [of _ m]) auto
qed

definition full_table :: ll_cache where
  "full_table = \<lparr>ll_table = map (\<lambda>i. \<lparr>ll_ip = i, ll_timestamp = i, ll_addr = [ucast i]\<rparr>)
     [1, 2, 3, 4, 5, 6, 7, 8, 9, 10], ll_time = 10\<rparr>"

lemma full_table: "ll_inv full_table" "ll_full full_table"
  "get_link_layer_address 11 full_table = None" "get_link_layer_address 12 full_table = None"
proof -
  have "ll_full c \<longleftrightarrow> (\<forall>e\<in>set (ll_table c). ll_ip e \<noteq> 0)" if "length (ll_table c) = 10" for c
    using that by (simp add: ll_full_def all_set_conv_all_nth)
  then show "ll_full full_table" by (simp add: full_table_def)
  show "ll_inv full_table" by (simp add: ll_inv_def full_table_def)
  show "get_link_layer_address 11 full_table = None" "get_link_layer_address 12 full_table = None"
    by (simp_all add: get_link_layer_address_def full_table_def IP_EQUAL_def)
qed

theorem link_cache_evicts_one_witness:
  "\<exists>i<10. ll_timestamp (entry full_table i) \<le> ll_timestamp (entry full_table 0) \<and>
     get_link_layer_address 11 (add_link_layer_address None 11 [11] full_table) = Some [11]"
proof -
  have "(11 :: u32) \<noteq> 0" by simp
  from link_cache_evicts_one [OF full_table(1,2) this full_table(3), of None "[11]"]
  obtain i where i: "i < 10" "\<forall>j<10. ll_timestamp (entry full_table i) \<le> ll_timestamp (entry full_table j)"
    "\<forall>ip'. ip' \<noteq> 0 \<longrightarrow> get_link_layer_address ip' (add_link_layer_address None 11 [11] full_table) =
       (if ip' = 11 then Some [11] else if ip' = ll_ip (entry full_table i) then None
        else get_link_layer_address ip' full_table)" by blast
  have "get_link_layer_address 11 (add_link_layer_address None 11 [11] full_table) = Some [11]"
    using i(3) [rule_format, of 11] by simp
  moreover have "ll_timestamp (entry full_table i) \<le> ll_timestamp (entry full_table 0)"
    using i(2) by (rule allE [of _ 0]) simp
  ultimately show ?thesis using i(1) by blast
qed

text \<open>
  The insertion that replaces the oldest entry keeps its old timestamp, so in a full table the
  next new address replaces the address inserted just before it: of two new addresses in a row,
  only the second is in the cache, and all the other entries stay whatever their age.
\<close>

theorem link_cache_evicts_newest:
  assumes "ll_inv c" and "ll_full c" and "ip \<noteq> 0" and "ip2 \<noteq> 0" and "ip \<noteq> ip2"
    and "get_link_layer_address ip c = None" and "get_link_layer_address ip2 c = None"
  shows "get_link_layer_address ip (add_link_layer_address clock2 ip2 ll2
           (add_link_layer_address clock ip ll c)) = None \<and>
    (\<forall>ip'. ip' \<noteq> 0 \<longrightarrow> ip' \<noteq> ip \<longrightarrow> ip' \<noteq> ip2 \<longrightarrow>
       get_link_layer_address ip' (add_link_layer_address clock2 ip2 ll2
         (add_link_layer_address clock ip ll c)) =
       get_link_layer_address ip' (add_link_layer_address clock ip ll c))"
proof -
  let ?c = "add_link_layer_address clock ip ll c"
  have inv: "ll_inv ?c" by (rule ll_inv_add [OF assms(1,3)])
  have len: "length (ll_table c) = 10" by (rule ll_inv_length [OF assms(1)])
  obtain m where m: "add_scan ip (ll_table c) 0 0 (ll_timestamp (entry c 0)) = Inr m" "m < 10"
    "ll_table ?c = (ll_table c)[m := (entry c m)\<lparr>ll_ip := ip, ll_addr := ll\<rparr>]"
    using evicted_index [OF assms(1,2,6)] by metis
  have full: "ll_full ?c" using m len assms(2,3) by (auto simp: ll_full_def nth_list_update)
  have absent: "get_link_layer_address ip2 ?c = None"
    using get_other_after_add [OF assms(1,3,4)] assms(5,7) by auto
  obtain m2 where m2: "add_scan ip2 (ll_table ?c) 0 0 (ll_timestamp (entry ?c 0)) = Inr m2" "m2 < 10"
    "ll_table (add_link_layer_address clock2 ip2 ll2 ?c) =
      (ll_table ?c)[m2 := (entry ?c m2)\<lparr>ll_ip := ip2, ll_addr := ll2\<rparr>]"
    using evicted_index [OF inv full absent] by metis
  have ts: "map ll_timestamp (ll_table ?c) = map ll_timestamp (ll_table c)"
    using m(2,3) len by (simp add: map_update list_update_same_conv)
  then have "ll_timestamp (entry ?c 0) = ll_timestamp (entry c 0)"
    using m len by (simp add: nth_list_update)
  with m2(1) have "m2 = m" using add_scan_timestamps [OF m(1) ts [symmetric]] by metis
  then have "ll_ip (entry ?c m2) = ip" using m len by simp
  with get_updated [OF inv ll_inv_add [OF inv assms(4)] m2(3,2)] assms(3,5) show ?thesis by auto
qed

theorem link_cache_evicts_newest_witness:
  "get_link_layer_address 11 (add_link_layer_address None 12 [12]
     (add_link_layer_address None 11 [11] full_table)) = None"
  using link_cache_evicts_newest [OF full_table(1,2) _ _ _ full_table(3,4)] by simp

end
