(* ===== verification/Timers.thy ===== *)
theory Timers
  imports Memory
begin

text \<open>
  The timers of the kernel, \<open>core/timers.c\<close>: a list of periodic callbacks that the main loop polls.
  A timer has a 16-bit period and the 32-bit time of its last expiry; the elapsed time is compared
  to the period in 16 bits. The theory proves how often each callback runs, that the polling
  does not drift over any sequence of calls, when the polling loop does not return, and what the
  16-bit comparison loses.
\<close>

section \<open>Model\<close>

text \<open>
  \<open>struct timer_t\<close>; the list threaded by \<open>next\<close> is a HOL list, \<open>all_timers\<close> its head. The callback
  is a value of type \<open>'cb\<close> that a function \<open>run\<close> of the model runs on the rest of the state.
\<close>

record 'cb timer =
  callback :: 'cb
  period_millis :: u16
  last_time_millis :: u32

text \<open>\<open>sizeof_timer\<close> is \<open>sizeof(struct timer_t)\<close> on the target.\<close>

definition set_timer :: "u16 \<Rightarrow> u32 \<Rightarrow> 'cb \<Rightarrow> u16 \<Rightarrow> heap \<times> 'cb timer list
    \<Rightarrow> (u8 \<times> heap \<times> 'cb timer list) option" where
  "set_timer sizeof_timer now cb period st =
    (let (h, all_timers) = st
     in do { (new_timer, h) \<leftarrow> mem_alloc sizeof_timer h;
             if new_timer = None then Some (0, h, all_timers)
             else Some (1, h, \<lparr>callback = cb, period_millis = period, last_time_millis = now\<rparr>
                                # all_timers) })"

text \<open>The inner loop; it may run forever.\<close>

partial_function (option) fire_timer ::
  "('cb \<Rightarrow> 's \<Rightarrow> 's) \<Rightarrow> u32 \<Rightarrow> 'cb timer \<Rightarrow> 's \<Rightarrow> ('cb timer \<times> 's) option" where
  "fire_timer run now t s =
    (if u32_to_u16 (now - last_time_millis t) > period_millis t then
       fire_timer run now (t\<lparr>last_time_millis := last_time_millis t + u16_to_u32 (period_millis t)\<rparr>)
         (run (callback t) s)
     else Some (t, s))"

fun smews_timers :: "('cb \<Rightarrow> 's \<Rightarrow> 's) \<Rightarrow> u32 \<Rightarrow> 'cb timer list \<Rightarrow> 's
    \<Rightarrow> ('cb timer list \<times> 's) option" where
  "smews_timers run now [] s = Some ([], s)"
| "smews_timers run now (t # ts) s =
    do { (t, s) \<leftarrow> fire_timer run now t s;
         (ts, s) \<leftarrow> smews_timers run now ts s;
         Some (t # ts, s) }"

section \<open>The polling loop\<close>

text \<open>The elapsed time that the comparison sees.\<close>

definition elapsed :: "u32 \<Rightarrow> 'cb timer \<Rightarrow> nat" where
  "elapsed now t = unat (u32_to_u16 (now - last_time_millis t))"

lemma expired_iff:
  "period_millis t < u32_to_u16 (now - last_time_millis t) \<longleftrightarrow> unat (period_millis t) < elapsed now t"
  by (simp only: elapsed_def word_less_nat_alt)

text \<open>How many times the callback runs when \<open>e\<close> milliseconds are seen to have elapsed.\<close>

definition expiries :: "nat \<Rightarrow> nat \<Rightarrow> nat" where
  "expiries e p = (e - 1) div p"

lemma expiries_le: "0 < p \<Longrightarrow> e \<le> p \<Longrightarrow> expiries e p = 0"
  by (simp add: expiries_def)

lemma expiries_step: "0 < p \<Longrightarrow> p < e \<Longrightarrow> expiries e p = Suc (expiries (e - p) p)"
  by (simp add: expiries_def le_div_geq)

lemma expiries_rest: "0 < p \<Longrightarrow> 0 < e \<Longrightarrow> 0 < e - expiries e p * p \<and> e - expiries e p * p \<le> p"
proof -
  assume "0 < p" "0 < e"
  have "(e - 1) div p * p + (e - 1) mod p = e - 1" by simp
  moreover have "(e - 1) mod p < p" using \<open>0 < p\<close> by simp
  ultimately show ?thesis using \<open>0 < e\<close> unfolding expiries_def by linarith
qed

lemma expiries_le_elapsed: "expiries e p * p \<le> e"
  unfolding expiries_def by (metis diff_le_self div_times_less_eq_dividend le_trans)

lemma elapsed_after_expiry:
  assumes "unat (period_millis t) \<le> elapsed now t"
  shows "elapsed now (t\<lparr>last_time_millis := last_time_millis t + u16_to_u32 (period_millis t)\<rparr>) =
    elapsed now t - unat (period_millis t)"
proof -
  have "u32_to_u16 (now - last_time_millis
      (t\<lparr>last_time_millis := last_time_millis t + u16_to_u32 (period_millis t)\<rparr>)) =
      u32_to_u16 (now - last_time_millis t) - period_millis t"
    by (simp add: u32_to_u16_diff u32_to_u16_add)
  moreover have "period_millis t \<le> u32_to_u16 (now - last_time_millis t)"
    using assms by (simp only: elapsed_def word_le_nat_alt)
  ultimately show ?thesis unfolding elapsed_def by (simp only: unat_diff_u16)
qed

abbreviation advanced :: "nat \<Rightarrow> 'cb timer \<Rightarrow> 'cb timer" where
  "advanced k t \<equiv> t\<lparr>last_time_millis := last_time_millis t + of_nat (k * unat (period_millis t))\<rparr>"

abbreviation runs :: "u32 \<Rightarrow> 'cb timer \<Rightarrow> nat" where
  "runs now t \<equiv> expiries (elapsed now t) (unat (period_millis t))"

lemma fire_timer_runs:
  "0 < unat (period_millis t) \<Longrightarrow>
   fire_timer run now t s = Some (advanced (runs now t) t, (run (callback t) ^^ runs now t) s)"
proof (induction "elapsed now t" arbitrary: t s rule: less_induct)
  case less
  let ?p = "unat (period_millis t)"
  let ?t = "t\<lparr>last_time_millis := last_time_millis t + u16_to_u32 (period_millis t)\<rparr>"
  show ?case
  proof (cases "?p < elapsed now t")
    case True
    have el: "elapsed now ?t = elapsed now t - ?p" by (rule elapsed_after_expiry) (use True in simp)
    have k: "runs now t = Suc (runs now ?t)"
      using expiries_step [OF less.prems True] el by simp
    have "fire_timer run now ?t (run (callback t) s) =
      Some (advanced (runs now ?t) ?t, (run (callback ?t) ^^ runs now ?t) (run (callback t) s))"
      using el True less.prems by (intro less.hyps) auto
    moreover have "advanced (runs now ?t) ?t = advanced (runs now t) t"
      by (simp add: k algebra_simps)
    ultimately show ?thesis
      using True by (subst fire_timer.simps) (simp add: expired_iff k funpow_swap1)
  next
    case False
    then have "runs now t = 0" using less.prems by (intro expiries_le) simp_all
    with False show ?thesis by (subst fire_timer.simps) (simp add: expired_iff)
  qed
qed

text \<open>A timer of period 0 that sees any time elapsed never stops firing.\<close>

lemma fire_timer_zero_returns:
  assumes "fire_timer run now t s = Some y"
  shows "period_millis t = 0 \<longrightarrow> elapsed now t = 0"
proof (rule fire_timer.raw_induct [where P = "\<lambda>_ now t _ _. period_millis t = 0 \<longrightarrow> elapsed now t = 0",
      OF _ assms], rule impI, rule ccontr)
  fix ft and run :: "'a \<Rightarrow> 'b \<Rightarrow> 'b" and now t s y
  assume IH: "\<And>run now t s y. ft run now t s = Some y \<Longrightarrow> period_millis t = 0 \<longrightarrow> elapsed now t = 0"
    and body: "(if period_millis t < u32_to_u16 (now - last_time_millis t)
      then ft run now (t\<lparr>last_time_millis := last_time_millis t + u16_to_u32 (period_millis t)\<rparr>)
        (run (callback t) s)
      else Some (t, s)) = Some y"
    and z: "period_millis t = 0" and e: "elapsed now t \<noteq> 0"
  have "ft run now t (run (callback t) s) = Some y"
    using body e unfolding expired_iff by (simp add: z)
  from IH [OF this] z e show False by simp
qed

lemma fire_timer_zero:
  "period_millis t = 0 \<Longrightarrow> fire_timer run now t s = (if elapsed now t = 0 then Some (t, s) else None)"
  using fire_timer_zero_returns [of run now t s]
  by (cases "fire_timer run now t s") (auto simp: fire_timer.simps [of run now t s] elapsed_def word_less_nat_alt split: if_splits)

lemma smews_timers_runs:
  "\<forall>t\<in>set ts. 0 < unat (period_millis t) \<Longrightarrow>
   smews_timers run now ts s = Some (map (\<lambda>t. advanced (runs now t) t) ts,
     fold (\<lambda>t. run (callback t) ^^ runs now t) ts s)"
  by (induction ts arbitrary: s) (simp_all add: fire_timer_runs)

section \<open>Polling over time\<close>

text \<open>
  A run of the main loop: \<open>gs\<close> are the numbers of milliseconds between successive calls, from the
  time \<open>now\<close> on. The callbacks append themselves to a log.
\<close>

abbreviation log :: "'cb \<Rightarrow> 'cb list \<Rightarrow> 'cb list" where
  "log cb l \<equiv> l @ [cb]"

fun polls :: "('cb \<Rightarrow> 's \<Rightarrow> 's) \<Rightarrow> u32 \<Rightarrow> nat list \<Rightarrow> 'cb timer list \<Rightarrow> 's
    \<Rightarrow> ('cb timer list \<times> 's) option" where
  "polls run now [] ts s = Some (ts, s)"
| "polls run now (g # gs) ts s =
    do { (ts, s) \<leftarrow> smews_timers run (now + of_nat g) ts s;
         polls run (now + of_nat g) gs ts s }"

lemma log_funpow: "(log cb ^^ k) l = l @ replicate k cb"
  by (induction k arbitrary: l) (simp_all add: funpow_swap1 replicate_append_same [symmetric])

lemma log_fold:
  "fold (\<lambda>t. log (callback t) ^^ f t) ts l = l @ concat (map (\<lambda>t. replicate (f t) (callback t)) ts)"
  by (induction ts arbitrary: l) (simp_all add: log_funpow)

lemma count_replicate: "count_list (replicate k x) y = (if x = y then k else 0)"
  by (induction k) auto

lemma count_log:
  "distinct (map callback ts) \<Longrightarrow> t \<in> set ts \<Longrightarrow>
   count_list (concat (map (\<lambda>t. replicate (f t) (callback t)) ts)) (callback t) = f t"
proof (induction ts)
  case (Cons u ts)
  have none: "count_list (concat (map (\<lambda>t. replicate (f t) (callback t)) us)) c = 0"
    if "c \<notin> callback ` set us" for us c
    using that by (induction us) (auto simp: count_replicate)
  show ?case
  proof (cases "t = u")
    case True
    with Cons.prems none [of "callback u" ts] show ?thesis by (simp add: count_replicate)
  next
    case False
    with Cons.prems have t: "t \<in> set ts" and "callback u \<noteq> callback t" by auto
    with Cons show ?thesis by (simp add: count_replicate)
  qed
qed simp

lemma expiries_add:
  assumes "0 < p"
  shows "expiries (e - expiries e p * p + r) p + expiries e p = expiries (e + r) p"
proof (cases "e = 0")
  case True
  then show ?thesis by (simp add: expiries_def)
next
  case False
  then have "0 < e - expiries e p * p" using expiries_rest assms by blast
  then have "e + r - 1 = (e - expiries e p * p + r - 1) + expiries e p * p" by linarith
  then have "(e + r - 1) div p = (e - expiries e p * p + r - 1 + expiries e p * p) div p" by simp
  then show ?thesis using assms by (simp add: expiries_def)
qed

text \<open>\<open>late now t d\<close>: the timer last expired \<open>d\<close> milliseconds before \<open>now\<close>.\<close>

abbreviation late :: "u32 \<Rightarrow> 'cb timer \<Rightarrow> nat \<Rightarrow> bool" where
  "late now t d \<equiv> last_time_millis t + of_nat d = now \<and> d \<le> unat (period_millis t)"

lemma elapsed_late:
  assumes "late now t d" and "d + g < 65536"
  shows "elapsed (now + of_nat g) t = d + g"
proof -
  have "now + of_nat g - last_time_millis t = of_nat (d + g)"
    using assms(1) by (auto simp: algebra_simps)
  moreover have "unat (u32_to_u16 (of_nat (d + g) :: u32)) = d + g"
    using assms(2) unfolding unat_u32_to_u16 by (simp only: unat_u32_of_nat mod_less)
  ultimately show ?thesis by (simp only: elapsed_def)
qed

lemma late_advanced:
  assumes "late now t d" and "d + g < 65536" and "0 < unat (period_millis t)"
  defines "k \<equiv> runs (now + of_nat g) t"
  shows "late (now + of_nat g) (advanced k t) (d + g - k * unat (period_millis t))"
proof -
  let ?p = "unat (period_millis t)"
  have k: "k = expiries (d + g) ?p" unfolding k_def elapsed_late [OF assms(1,2)] ..
  have le: "k * ?p \<le> d + g" unfolding k by (rule expiries_le_elapsed)
  have "of_nat (d + g - k * ?p) = (of_nat (d + g) :: u32) - of_nat (k * ?p)"
    using le by (rule of_nat_diff)
  then have "last_time_millis (advanced k t) + of_nat (d + g - k * ?p) = now + of_nat g"
    using assms(1) by (simp del: of_nat_diff add: algebra_simps)
  moreover have "d + g - k * ?p \<le> ?p"
    using expiries_rest [OF assms(3), of "d + g"] unfolding k by (cases "d + g = 0") auto
  ultimately show ?thesis by simp
qed

lemma polls_counts:
  "distinct (map callback ts) \<Longrightarrow>
   \<forall>t\<in>set ts. 0 < p (callback t) \<and> unat (period_millis t) = p (callback t) \<and> late now t (d (callback t))
     \<and> (\<forall>g\<in>set gs. g + p (callback t) < 65536) \<Longrightarrow>
   \<exists>ts' l'. polls log now gs ts l = Some (ts', l') \<and>
     (\<forall>t\<in>set ts. count_list l' (callback t) = count_list l (callback t) +
        expiries (d (callback t) + sum_list gs) (p (callback t)))"
proof (induction gs arbitrary: now ts l d)
  case Nil
  then show ?case by (auto simp: expiries_le)
next
  case (Cons g gs)
  let ?now = "now + of_nat g"
  let ?d = "\<lambda>c. d c + g - expiries (d c + g) (p c) * p c"
  let ?ts = "map (\<lambda>t. advanced (runs ?now t) t) ts"
  let ?l = "fold (\<lambda>t. log (callback t) ^^ runs ?now t) ts l"
  have bound: "d (callback t) + g < 65536" if "t \<in> set ts" for t
    using Cons.prems(2) that by fastforce
  have late: "late now t (d (callback t))" if "t \<in> set ts" for t
    using Cons.prems(2) that by blast
  have runs: "runs ?now t = expiries (d (callback t) + g) (p (callback t))" if "t \<in> set ts" for t
    using Cons.prems(2) that elapsed_late [OF late [OF that] bound [OF that]] by simp
  have poll: "smews_timers log ?now ts l = Some (?ts, ?l)"
    using Cons.prems(2) by (intro smews_timers_runs) auto
  have "late ?now (advanced (runs ?now t) t) (?d (callback t))" if "t \<in> set ts" for t
    using late_advanced [OF late [OF that] bound [OF that]] runs [OF that] Cons.prems(2) that
    by (auto simp del: of_nat_mult)
  then have "\<forall>t\<in>set ?ts. 0 < p (callback t) \<and> unat (period_millis t) = p (callback t) \<and>
      late ?now t (?d (callback t)) \<and> (\<forall>g\<in>set gs. g + p (callback t) < 65536)"
    using Cons.prems(2) by (auto simp del: of_nat_mult)
  moreover have "distinct (map callback ?ts)" using Cons.prems(1) by (simp add: comp_def)
  ultimately obtain ts' l' where rest: "polls log ?now gs ?ts ?l = Some (ts', l')"
    "\<forall>t\<in>set ?ts. count_list l' (callback t) = count_list ?l (callback t) +
        expiries (?d (callback t) + sum_list gs) (p (callback t))"
    using Cons.IH [of ?ts ?d ?now ?l] by blast
  have "count_list l' (callback t) = count_list l (callback t) +
      expiries (d (callback t) + sum_list (g # gs)) (p (callback t))" if t: "t \<in> set ts" for t
  proof -
    have "count_list l' (callback t) = count_list ?l (callback t) +
        expiries (?d (callback t) + sum_list gs) (p (callback t))" using rest(2) t by fastforce
    moreover have "count_list ?l (callback t) = count_list l (callback t) + runs ?now t"
      using count_log [OF Cons.prems(1) t] by (simp add: log_fold)
    moreover have "expiries (?d (callback t) + sum_list gs) (p (callback t)) + runs ?now t =
        expiries (d (callback t) + g + sum_list gs) (p (callback t))"
      unfolding runs [OF t] by (rule expiries_add) (use Cons.prems(2) t in blast)
    ultimately show ?thesis by (simp add: add.assoc)
  qed
  with poll rest(1) show ?case by simp
qed

section \<open>Properties\<close>

lemma bind_total: "(\<exists>r. (m \<bind> (\<lambda>(a, b). Some (f a b))) = Some r) \<longleftrightarrow> (\<exists>r. m = Some r)"
  by (cases m) auto

lemma smews_timers_returns_spec:
  "(\<exists>r. smews_timers run now ts s = Some r) \<longleftrightarrow>
   (\<forall>t\<in>set ts. period_millis t \<noteq> 0 \<or> elapsed now t = 0)"
proof (induction ts arbitrary: s)
  case (Cons t ts)
  show ?case
  proof (cases "period_millis t = 0")
    case True
    then show ?thesis using Cons.IH [of s] by (simp add: fire_timer_zero bind_total del: split_paired_Ex)
  next
    case False
    then have "0 < unat (period_millis t)" by (simp add: unat_gt_0)
    then show ?thesis using False Cons.IH by (simp add: fire_timer_runs bind_total del: split_paired_Ex)
  qed
qed simp

text \<open>
  C31: One call of \<open>smews_timers\<close> returns if and only if no timer of period 0 sees any time elapsed.
\<close>

theorem smews_timers_returns:
  "(\<exists>r. smews_timers run now ts s = Some r) = (filter (\<lambda>t. period_millis t = 0 \<and> elapsed now t > 0) ts = [])"
  by (simp only: smews_timers_returns_spec filter_empty_conv) auto

text \<open>
  C36: Polling does not drift. Over any sequence of calls of \<open>smews_timers\<close> whose intervals leave
  room for the period in 16 bits, the callback of each timer runs as often as its period has
  been exceeded in the whole time since the timer was set, however late each call was.
\<close>

theorem timers_do_not_drift:
  assumes "distinct (map callback ts)"
    and "\<forall>t\<in>set ts. 0 < unat (period_millis t) \<and> last_time_millis t = now
          \<and> (\<forall>g\<in>set gs. g + unat (period_millis t) < 65536)"
  shows "\<exists>ts' l. polls log now gs ts [] = Some (ts', l) \<and>
    (\<forall>t\<in>set ts. count_list l (callback t) = (sum_list gs - 1) div unat (period_millis t))"
proof -
  let ?p = "\<lambda>c. the (map_of (map (\<lambda>t. (callback t, unat (period_millis t))) ts) c)"
  have p: "?p (callback t) = unat (period_millis t)" if "t \<in> set ts" for t
    using assms(1) that by (subst map_of_is_SomeI) (auto simp: comp_def)
  show ?thesis
    using polls_counts [OF assms(1), where p = ?p and now = now and d = "\<lambda>_. 0" and gs = gs and l = "[]"] assms(2) p
    by (simp add: expiries_def)
qed

theorem timers_do_not_drift_witness:
  "\<exists>ts' l. polls log 5 [400, 900, 1700, 1]
      [\<lparr>callback = True, period_millis = 1000, last_time_millis = 5\<rparr>,
       \<lparr>callback = False, period_millis = 250, last_time_millis = 5\<rparr>] [] = Some (ts', l) \<and>
    count_list l True = 3 \<and> count_list l False = 12"
  using timers_do_not_drift [of "[\<lparr>callback = True, period_millis = 1000, last_time_millis = 5\<rparr>,
       \<lparr>callback = False, period_millis = 250, last_time_millis = 5\<rparr>]" 5 "[400, 900, 1700, 1]"]
  by simp

text \<open>
  The 16-bit comparison loses whole multiples of 65536 milliseconds: however long the main loop
  was stalled, one call runs a callback fewer than 65536 divided by its period times, and exactly as
  often as after a stall that is \<open>k\<close> times 65536 milliseconds shorter.
\<close>

theorem timers_stall_loses_time:
  assumes "\<forall>t\<in>set ts. period_millis t \<noteq> 0"
  shows "\<exists>ts' ts'' s'. smews_timers run (now + of_nat (65536 * k)) ts s = Some (ts', s') \<and>
    smews_timers run now ts s = Some (ts'', s') \<and>
    s' = fold (\<lambda>t. run (callback t) ^^ ((elapsed now t - 1) div unat (period_millis t))) ts s \<and>
    (\<forall>t\<in>set ts. elapsed now t < 65536)"
proof -
  have "u32_to_u16 (of_nat (65536 * k)) = 0"
    by (simp only: word_unat_eq_iff unat_u32_to_u16 unat_of_nat) (simp add: mod_mod_cancel)
  then have "elapsed (now + of_nat (65536 * k)) t = elapsed now t" for t :: "'a timer"
    unfolding elapsed_def by (simp only: u32_to_u16_diff u32_to_u16_add) simp
  moreover have "\<forall>t\<in>set ts. 0 < unat (period_millis t)" using assms by (simp add: unat_gt_0)
  moreover have "elapsed now t < 65536" for t :: "'a timer"
    unfolding elapsed_def by (rule unat_u16_lt)
  ultimately show ?thesis by (simp add: smews_timers_runs expiries_def)
qed

theorem timers_stall_loses_time_witness:
  "\<exists>ts'. smews_timers log (100 + of_nat (65536 * 3)) [\<lparr>callback = (), period_millis = 10, last_time_millis = 75\<rparr>] []
     = Some (ts', [(), ()])"
proof -
  let ?t = "\<lparr>callback = (), period_millis = 10, last_time_millis = 75\<rparr> :: unit timer"
  have e: "elapsed 100 ?t = 25" by (simp add: elapsed_def)
  obtain ts' s' where "smews_timers log (100 + of_nat (65536 * 3)) [?t] [] = Some (ts', s')"
    and s': "s' = fold (\<lambda>t. log (callback t) ^^ ((elapsed 100 t - 1) div unat (period_millis t))) [?t] []"
    using timers_stall_loses_time [of "[?t]" log 100 3 "[]"] by auto
  moreover have "s' = [(), ()]" unfolding s' by (simp add: e log_funpow) (simp add: numeral_2_eq_2)
  ultimately show ?thesis by simp
qed

text \<open>
  On a consistent heap \<open>set_timer\<close> either returns 0 and changes nothing, or returns 1, and the
  timer list has the new timer, started now, in a fresh block in front of the old ones.
\<close>

theorem set_timer_adds:
  assumes "live_inv n h L" and "0 < unat (cells_of_size sz)"
  shows "set_timer sz now cb period (h, ts) = Some (0, h, ts) \<or>
    (\<exists>a h'. set_timer sz now cb period (h, ts) = Some (1, h',
        \<lparr>callback = cb, period_millis = period, last_time_millis = now\<rparr> # ts) \<and>
      a \<notin> fst ` L \<and> live_inv n h' (insert (a, sz) L))"
  using assms
proof (cases rule: mem.alloc_cases)
  case full
  then show ?thesis by (simp add: set_timer_def)
next
  case (fresh a h')
  then show ?thesis by (auto simp: set_timer_def)
qed

end
