(* ===== verification/Handlers.thy ===== *)
theory Handlers
  imports Prelude
begin

text \<open>
  The output handlers, \<open>core/handlers.h\<close> and \<open>core/handlers.c\<close>: what the server can send on a
  connection - one of the four constant TCP control packets, a static file with its precomputed
  checksums, or the output of a generator function of an application.

  Handlers are constants of the program image. The code compares them by address, so a pointer to
  a handler is a value of \<open>handler_ref\<close>: one of the named constants of the kernel, or the entry of
  the table of resources that the build generates. That table, the handlers and the blobs it
  refers to are the record \<open>site\<close>, a parameter of the model.
\<close>

section \<open>Data\<close>

text \<open>A C function pointer of an application; \<open>None\<close> is \<open>NULL\<close>.\<close>
type_synonym fptr = "nat option"

datatype res_prop = prop_persistent | prop_idempotent | prop_volatile

text \<open>The union \<open>handlers_u\<close>.\<close>

datatype handlers_u =
    Get_handlers fptr fptr
  | Post_handlers fptr fptr
  | Gp_ip_handlers u8 fptr fptr

record dynamic_resource =
  gen_init :: fptr
  gen_handlers :: handlers_u
  gen_prop :: res_prop

record static_resource =
  file_length :: u32
  file_chk :: "u16 list"
  file_data :: "u8 list"

record tcp_control =
  control_length :: u8
  control_flags :: u8

datatype arg_type = arg_str | arg_ui8 | arg_ui16

record arg_ref =
  arg_type :: arg_type
  arg_size :: u8
  arg_offset :: u8

datatype handler_type = type_control | type_file | type_generator | type_general_ip_handler

datatype handler_data =
    Control tcp_control
  | File static_resource
  | Generator dynamic_resource

record output_handler =
  handler_type :: handler_type
  handler_comet :: bool
  handler_stream :: bool
  handler_data :: handler_data
  args_tree :: nat
  args_index :: "arg_ref list"
  args_size :: u16
  mimes_index :: "u8 list"
  mimes_size :: u8

datatype handler_ref =
    Ref_synack | Ref_ack | Ref_finack | Ref_rst
  | Http_404 | Http_505
  | Resource nat

text \<open>
  What the build generates from the applications. \<open>blobs\<close> has the trees that the parser walks, as
  addresses in the constant memory that \<open>rom\<close> reads (\<open>CONST_READ_UI8\<close>), together with the constant
  \<open>blob_http_header_end\<close> of the parser itself (13, 10, 13, 128), and the numbers that
  \<open>defines.h\<close> gives to the requests, attributes and content types that the kernel knows by name.
\<close>

record blobs =
  rom :: "nat \<Rightarrow> u8"
  blob_http_rqt :: nat
  blob_http_header_content :: nat
  blob_http_header_end :: nat
  mimes_tree :: nat
  urls_tree :: nat
  REQUEST_POST :: u8
  ATTRIBUT_CONTENT_TYPE :: u8
  ATTRIBUT_CONTENT_LENGTH :: u8
  ATTRIBUT_FILENAME :: u8
  ATTRIBUT_BOUNDARY :: u8
  CONTENT_TYPE_MULTIPART :: u8
  CONTENT_TYPE_URLENCODED :: u8

record site =
  resource :: "nat \<Rightarrow> output_handler"
  http_404 :: output_handler
  http_505 :: output_handler
  resources_index :: "handler_ref list"
  blobs :: blobs

section \<open>Constants and accessors\<close>

definition TCP_FIN :: u8 where "TCP_FIN = 0x01"
definition TCP_SYN :: u8 where "TCP_SYN = 0x02"
definition TCP_RST :: u8 where "TCP_RST = 0x04"
definition TCP_PSH :: u8 where "TCP_PSH = 0x08"
definition TCP_ACK :: u8 where "TCP_ACK = 0x10"

lemmas TCP_flags = TCP_FIN_def TCP_SYN_def TCP_RST_def TCP_PSH_def TCP_ACK_def

definition control_handler :: "u8 \<Rightarrow> u8 \<Rightarrow> output_handler" where
  "control_handler len flgs =
    \<lparr>handler_type = type_control, handler_comet = False, handler_stream = False,
     handler_data = Control \<lparr>control_length = len, control_flags = flgs\<rparr>,
     args_tree = 0, args_index = [], args_size = 0, mimes_index = [], mimes_size = 0\<rparr>"

definition ref_synack :: output_handler where
  "ref_synack = control_handler 4 (TCP_SYN OR TCP_ACK)"

definition ref_ack :: output_handler where
  "ref_ack = control_handler 0 TCP_ACK"

definition ref_finack :: output_handler where
  "ref_finack = control_handler 0 (TCP_ACK OR TCP_FIN)"

definition ref_rst :: output_handler where
  "ref_rst = control_handler 0 (TCP_RST OR TCP_ACK)"

text \<open>Dereference of a handler pointer.\<close>

fun handler :: "site \<Rightarrow> handler_ref \<Rightarrow> output_handler" where
  "handler st Ref_synack = ref_synack"
| "handler st Ref_ack = ref_ack"
| "handler st Ref_finack = ref_finack"
| "handler st Ref_rst = ref_rst"
| "handler st Http_404 = http_404 st"
| "handler st Http_505 = http_505 st"
| "handler st (Resource i) = resource st i"

definition IS_GPIP_HANDLER :: "site \<Rightarrow> handler_ref option \<Rightarrow> bool" where
  "IS_GPIP_HANDLER st r =
    (case r of None \<Rightarrow> False | Some r \<Rightarrow> handler_type (handler st r) = type_general_ip_handler)"

fun GET_CONTROL :: "output_handler \<Rightarrow> tcp_control" where
  "GET_CONTROL h = (case handler_data h of Control c \<Rightarrow> c | _ \<Rightarrow> \<lparr>control_length = 0, control_flags = 0\<rparr>)"

fun GET_FILE :: "output_handler \<Rightarrow> static_resource" where
  "GET_FILE h = (case handler_data h of File f \<Rightarrow> f
     | _ \<Rightarrow> \<lparr>file_length = 0, file_chk = [], file_data = []\<rparr>)"

fun GET_GENERATOR :: "output_handler \<Rightarrow> dynamic_resource" where
  "GET_GENERATOR h = (case handler_data h of Generator g \<Rightarrow> g
     | _ \<Rightarrow> \<lparr>gen_init = None, gen_handlers = Get_handlers None None, gen_prop = prop_volatile\<rparr>)"

definition GET_FLAGS :: "output_handler \<Rightarrow> u8" where
  "GET_FLAGS h = (if handler_type h = type_control then control_flags (GET_CONTROL h)
     else TCP_ACK OR TCP_PSH)"

text \<open>The members of the union share their places: \<open>initget\<close> with \<open>dopostin\<close>, \<open>doget\<close> with \<open>dopostout\<close>.\<close>

fun initget :: "handlers_u \<Rightarrow> fptr" where
  "initget (Get_handlers a b) = a"
| "initget (Post_handlers a b) = a"
| "initget (Gp_ip_handlers p a b) = None"

fun doget :: "handlers_u \<Rightarrow> fptr" where
  "doget (Get_handlers a b) = b"
| "doget (Post_handlers a b) = b"
| "doget (Gp_ip_handlers p a b) = a"

abbreviation "dopostin \<equiv> initget"
abbreviation "dopostout \<equiv> doget"

fun dopacketin :: "handlers_u \<Rightarrow> fptr" where
  "dopacketin (Gp_ip_handlers p a b) = a"
| "dopacketin u = None"

fun dopacketout :: "handlers_u \<Rightarrow> fptr" where
  "dopacketout (Gp_ip_handlers p a b) = b"
| "dopacketout u = None"

fun gp_ip_protocol :: "handlers_u \<Rightarrow> u8" where
  "gp_ip_protocol (Gp_ip_handlers p a b) = p"
| "gp_ip_protocol u = 0"

text \<open>
  \<open>smews_gpip_get_output_handler\<close> walks the null-terminated table with an index of 8 bits, so
  an entry past the 255th is never reached: \<open>fuel\<close> counts the steps of the loop, and a table with
  more than 255 entries and no match makes the index wrap and the walk start over.
\<close>

fun gpip_search :: "site \<Rightarrow> u8 \<Rightarrow> nat \<Rightarrow> u8 \<Rightarrow> handler_ref option option" where
  "gpip_search st protocol 0 i = None"
| "gpip_search st protocol (Suc fuel) i =
    (if length (resources_index st) \<le> unat i then Some None
     else
      (let r = resources_index st ! unat i
       in if \<not> IS_GPIP_HANDLER st (Some r) then gpip_search st protocol fuel (i + 1)
          else if gp_ip_protocol (gen_handlers (GET_GENERATOR (handler st r))) = protocol then Some (Some r)
          else gpip_search st protocol fuel (i + 1)))"

definition smews_gpip_get_output_handler :: "site \<Rightarrow> u8 \<Rightarrow> handler_ref option option" where
  "smews_gpip_get_output_handler st protocol = gpip_search st protocol 256 0"

end
