(* ===== verification/Kernel.thy ===== *)
theory Kernel
  imports Handlers Memory Checksum
begin

text \<open>
  The state of the kernel: the structures of \<open>core/connections.h\<close> and \<open>core/coroutines.h\<close>, the
  static variables of the core, and the blocks that the core allocates.

  A block of \<open>alloc_buffer\<close> that holds a structure is modelled twice: the allocator (\<open>Memory\<close>)
  knows the cells of the block, and a typed store maps its address to the structure. The stores
  are total functions; which addresses are allocated is the business of the allocator. A
  sequence number, an address or a port that the code keeps as an array of bytes in the byte
  order of the machine is a word.
\<close>

section \<open>The target\<close>

text \<open>
  The constants that a target defines: the sizes of the structures, of the output buffer and of
  the shared stack, the MTU of the device, \<open>CHUNCKS_NBITS\<close> and the local address. The default
  build uses \<open>OUTPUT_BUFFER_SIZE\<close> 1500, \<open>CHUNCKS_NBITS\<close> 5 and, on Linux, \<open>DEV_MTU\<close> 1500.
\<close>

record target =
  sizeof_connection :: u16
  sizeof_generator_service :: u16
  sizeof_in_flight_infos :: u16
  sizeof_cr_context :: u16
  sizeof_post_data :: u16
  sizeof_boundary :: u16
  OUTPUT_BUFFER_SIZE :: u16
  STACK_SIZE :: nat
  DEV_MTU :: u16
  CHUNCKS_NBITS :: nat
  local_ip_addr :: u32

section \<open>Coroutines and services\<close>

datatype cr_status = cr_ready | cr_active | cr_terminated

text \<open>\<open>sp\<close> is an offset in the shared stack; \<open>stack_size\<close> is a bit field of 14 bits.\<close>

record cr_context =
  sp :: nat
  stack :: ptr
  stack_size :: "14 word"
  status :: cr_status

datatype cr_params =
    Get_args ptr
  | Post_in u8 u8 ptr ptr
  | Post_out u8 ptr

record coroutine =
  cr_func :: fptr
  cr_params :: cr_params
  curr_context :: cr_context

datatype coroutine_type = cor_type_get | cor_type_post_in | cor_type_post_out

datatype service_header = header_none | header_standard | header_chunks

text \<open>\<open>infos\<close> is the union of two pointers, to a context or to a data buffer.\<close>

record in_flight =
  if_outseqno :: u32
  if_checksum :: u16
  infos :: ptr
  if_next :: ptr
  if_header :: service_header

record generator_service =
  curr_outseqno :: u32
  coroutine :: coroutine
  in_flight_infos :: ptr
  service_header :: service_header
  is_persistent :: bool

text \<open>A coroutine is a member of a service or of the data of a POST request.\<close>

datatype cr_ref = Service_cr nat | Post_cr nat

section \<open>Connections\<close>

text \<open>\<open>boundary_ref\<close> points to a block of the heap or to the literal \<open>"\r\n\r\n"\<close>.\<close>

datatype text_ref = Text_null | Text_crlf | Text_block nat

record boundary =
  boundary_ref :: text_ref
  boundary_buffer :: ptr
  boundary_size :: u8
  boundary_index :: u8
  ready_to_count :: bool
  multi_part_counter :: u8

record post_data =
  content_length :: u16
  post_boundary :: ptr
  post_coroutine :: coroutine
  filename :: ptr
  post_app_data :: ptr
  content_type :: u8

datatype tcp_state = tcp_listen | tcp_syn_rcvd | tcp_established | tcp_closing | tcp_last_ack

datatype parsing_state =
    parsing_out | parsing_cmd | parsing_url | parsing_end
  | parsing_post_attributes | parsing_post_end | parsing_post_content_type | parsing_post_args
  | parsing_post_data | parsing_boundary | parsing_init_buffer

text \<open>\<open>blob\<close> is an address in the constant memory, \<open>curr_arg\<close> an offset in the arguments.\<close>

record http_connection =
  tcp_mss :: "12 word"
  ready_to_send :: bool
  tcp_state :: tcp_state
  next_outseqno :: u32
  final_outseqno :: u32
  current_inseqno :: u32
  port :: u16
  cwnd :: u16
  inflight :: u16
  blob :: nat
  generator_service :: ptr
  args :: ptr
  curr_arg :: nat
  arg_ref_index :: u8
  transmission_time :: u8
  parsing_state :: parsing_state
  post_url_detected :: bool
  post_data :: ptr
  comet_passive :: bool
  comet_send_ack :: bool
  comet_streaming :: bool

record gp_ip_connection =
  payload_size :: u16
  gp_protocol :: u8
  want_to_send :: u8

text \<open>
  The members of the union \<open>protocol\<close> are two fields: the code reads the one its last write
  selected, according to the type of the output handler.
\<close>

record connection =
  ip_addr :: u32
  output_handler :: "handler_ref option"
  gpip :: gp_ip_connection
  http :: http_connection
  conn_next :: nat
  conn_prev :: nat

record http_rst_connection =
  rst_ip_addr :: u32
  rst_current_inseqno :: u32
  rst_next_outseqno :: u32
  rst_port :: u16

text \<open>The buffer of the current output: a block of the heap, or the static buffer of the packet handlers.\<close>

datatype buffer_ref = Buffer_null | Buffer_block nat | Buffer_gpip

record curr_output =
  out_service :: ptr
  out_buffer :: buffer_ref
  out_checksum :: u16
  out_content_length :: u16
  out_max_bytes :: u16
  out_next_outseqno :: u32
  out_header :: service_header

text \<open>
  \<open>curr_input.connection\<close> points to a local copy of a connection of which \<open>in\<close> reads the field
  \<open>post_data\<close> only: \<open>None\<close> is no connection, \<open>Some p\<close> a connection whose field is \<open>p\<close>.
\<close>

record curr_input =
  in_connection :: "ptr option"
  in_length :: u16

datatype coroutine_state = cor_in | cor_out

section \<open>The kernel\<close>

text \<open>
  A packet given to the device: the length announced to \<open>DEV_PREPARE_OUTPUT\<close>, in the 16 bits that the
  targets take it in, the address that \<open>get_current_remote_ip\<close> returns at \<open>DEV_OUTPUT_DONE\<close>, from
  which the Ethernet targets take the link layer destination, and the octets.
\<close>

record packet =
  prepared :: u16
  link_ip :: "u32 option"
  octets_out :: "u8 list"

text \<open>
  \<open>dev_in\<close> are the bytes of the current packet that the device has not delivered yet, \<open>dev_out\<close> the
  packets given to the device. \<open>bytes\<close> holds the contents of the blocks used as arrays of bytes (stacks, output buffers,
  arguments, file names, boundaries).
\<close>

record kernel =
  heap :: heap
  connections :: "nat \<Rightarrow> connection"
  services :: "nat \<Rightarrow> generator_service"
  in_flights :: "nat \<Rightarrow> in_flight"
  contexts :: "nat \<Rightarrow> cr_context"
  post_datas :: "nat \<Rightarrow> post_data"
  boundaries :: "nat \<Rightarrow> boundary"
  bytes :: "nat \<Rightarrow> u8 list"
  all_connections :: ptr
  rst_connection :: http_rst_connection
  curr_output :: curr_output
  shared_stack :: "u8 list"
  cr_in_stack :: "cr_ref option"
  last_transmission_time :: u8
  chk :: checksum
  gpip_output_buffer :: "u8 list"
  curr_input :: curr_input
  coroutine_state :: coroutine_state
  dev_in :: "u8 list"
  dev_out :: "packet list"

text \<open>Allocation and release in the kernel.\<close>

definition k_alloc :: "u16 \<Rightarrow> kernel \<Rightarrow> (ptr \<times> kernel) option" where
  "k_alloc sz k = do { (p, h) \<leftarrow> mem_alloc sz (heap k); Some (p, k\<lparr>heap := h\<rparr>) }"

definition k_free :: "ptr \<Rightarrow> u16 \<Rightarrow> kernel \<Rightarrow> kernel option" where
  "k_free p sz k = do { h \<leftarrow> mem_free p sz (heap k); Some (k\<lparr>heap := h\<rparr>) }"

abbreviation upd_service :: "nat \<Rightarrow> (generator_service \<Rightarrow> generator_service) \<Rightarrow> kernel \<Rightarrow> kernel" where
  "upd_service a f k \<equiv> k\<lparr>services := (services k)(a := f (services k a))\<rparr>"

abbreviation upd_in_flight :: "nat \<Rightarrow> (in_flight \<Rightarrow> in_flight) \<Rightarrow> kernel \<Rightarrow> kernel" where
  "upd_in_flight a f k \<equiv> k\<lparr>in_flights := (in_flights k)(a := f (in_flights k a))\<rparr>"

abbreviation upd_connection :: "nat \<Rightarrow> (connection \<Rightarrow> connection) \<Rightarrow> kernel \<Rightarrow> kernel" where
  "upd_connection a f k \<equiv> k\<lparr>connections := (connections k)(a := f (connections k a))\<rparr>"

abbreviation upd_post_data :: "nat \<Rightarrow> (post_data \<Rightarrow> post_data) \<Rightarrow> kernel \<Rightarrow> kernel" where
  "upd_post_data a f k \<equiv> k\<lparr>post_datas := (post_datas k)(a := f (post_datas k a))\<rparr>"

abbreviation upd_boundary :: "nat \<Rightarrow> (boundary \<Rightarrow> boundary) \<Rightarrow> kernel \<Rightarrow> kernel" where
  "upd_boundary a f k \<equiv> k\<lparr>boundaries := (boundaries k)(a := f (boundaries k a))\<rparr>"

abbreviation upd_http :: "(http_connection \<Rightarrow> http_connection) \<Rightarrow> connection \<Rightarrow> connection" where
  "upd_http f c \<equiv> c\<lparr>http := f (http c)\<rparr>"

end
