(* ===== verification/Service.thy ===== *)
theory Service
  imports Kernel
begin

text \<open>
  The release of acknowledged segments, \<open>core/service.c\<close>. A service keeps the list of its in-flight
  segments, newest first; an acknowledgement frees the end of the list. The theory proves that
  \<open>clean_service\<close> frees each block of the acknowledged segments exactly once and nothing else,
  and shows what the comparison of sequence numbers does when they wrap around.
\<close>

section \<open>Model\<close>

text \<open>The search for the first segment to free, from \<open>p\<close> on: the last one kept, and that one.\<close>

partial_function (option) skip_unacked ::
  "(nat \<Rightarrow> in_flight) \<Rightarrow> u32 \<Rightarrow> ptr \<Rightarrow> ptr \<Rightarrow> (ptr \<times> ptr) option" where
  "skip_unacked ifs inack last_if_ok first_if_out =
     (if first_if_out \<noteq> None \<and> if_outseqno (ifs (the first_if_out)) \<ge> inack
      then skip_unacked ifs inack first_if_out (if_next (ifs (the first_if_out)))
      else Some (last_if_ok, first_if_out))"

text \<open>One turn of the loop that frees; a segment without context is a null dereference.\<close>

definition free_in_flight :: "target \<Rightarrow> bool \<Rightarrow> nat \<Rightarrow> kernel \<Rightarrow> kernel option" where
  "free_in_flight tg persistent a k =
    do { k \<leftarrow> (if persistent then k_free (infos (in_flights k a)) (OUTPUT_BUFFER_SIZE tg) k
               else (case infos (in_flights k a) of
                       None \<Rightarrow> None
                     | Some c \<Rightarrow>
                        do { k \<leftarrow> k_free (stack (contexts k c)) (ucast (stack_size (contexts k c))) k;
                             k_free (Some c) (sizeof_cr_context tg) k }));
         k_free (Some a) (sizeof_in_flight_infos tg) k }"

partial_function (option) free_chain :: "target \<Rightarrow> bool \<Rightarrow> ptr \<Rightarrow> kernel \<Rightarrow> kernel option" where
  "free_chain tg persistent first_if_out k =
     (if first_if_out = None then Some k
      else do { k' \<leftarrow> free_in_flight tg persistent (the first_if_out) k;
                free_chain tg persistent (if_next (in_flights k (the first_if_out))) k' })"

definition clean_service :: "target \<Rightarrow> nat \<Rightarrow> u32 option \<Rightarrow> kernel \<Rightarrow> kernel option" where
  "clean_service tg s inack k =
    (let p = in_flight_infos (services k s)
     in if p = None then Some k
        else
          do { (last_if_ok, first_if_out) \<leftarrow>
                 (case inack of
                    None \<Rightarrow> Some (None, p)
                  | Some seq \<Rightarrow> skip_unacked (in_flights k) seq None p);
               let k = (case last_if_ok of
                          Some l \<Rightarrow> upd_in_flight l (\<lambda>i. i\<lparr>if_next := None\<rparr>) k
                        | None \<Rightarrow> upd_service s (\<lambda>v. v\<lparr>in_flight_infos := None\<rparr>) k);
               free_chain tg (is_persistent (services k s)) first_if_out k })"

section \<open>The list of in-flight segments\<close>

fun chain :: "(nat \<Rightarrow> in_flight) \<Rightarrow> ptr \<Rightarrow> nat list \<Rightarrow> bool" where
  "chain ifs p [] = (p = None)"
| "chain ifs p (a # xs) = (p = Some a \<and> chain ifs (if_next (ifs a)) xs)"

text \<open>The blocks that a segment owns, in the order they are freed.\<close>

definition if_blocks :: "target \<Rightarrow> bool \<Rightarrow> kernel \<Rightarrow> nat \<Rightarrow> (nat \<times> u16) list" where
  "if_blocks tg persistent k a =
    (if persistent then
       (case infos (in_flights k a) of None \<Rightarrow> [] | Some b \<Rightarrow> [(b, OUTPUT_BUFFER_SIZE tg)])
     else
       (case infos (in_flights k a) of
          None \<Rightarrow> []
        | Some c \<Rightarrow>
           (case stack (contexts k c) of
              None \<Rightarrow> []
            | Some st \<Rightarrow> (if stack_size (contexts k c) = 0 then []
                          else [(st, ucast (stack_size (contexts k c)))]))
           @ [(c, sizeof_cr_context tg)]))
    @ [(a, sizeof_in_flight_infos tg)]"

definition service_blocks :: "target \<Rightarrow> bool \<Rightarrow> kernel \<Rightarrow> nat list \<Rightarrow> (nat \<times> u16) list" where
  "service_blocks tg persistent k xs = concat (map (if_blocks tg persistent k) xs)"

text \<open>
  A service of address \<open>s\<close> whose in-flight segments are \<open>xs\<close>: every segment that must have a
  context has one, and their blocks are live and all different.
\<close>

definition service_inv :: "target \<Rightarrow> nat \<Rightarrow> kernel \<Rightarrow> live \<Rightarrow> nat \<Rightarrow> nat list \<Rightarrow> bool" where
  "service_inv tg n k L s xs \<longleftrightarrow>
     live_inv n (heap k) L \<and>
     chain (in_flights k) (in_flight_infos (services k s)) xs \<and>
     (\<not> is_persistent (services k s) \<longrightarrow> (\<forall>a\<in>set xs. infos (in_flights k a) \<noteq> None)) \<and>
     distinct (service_blocks tg (is_persistent (services k s)) k xs) \<and>
     set (service_blocks tg (is_persistent (services k s)) k xs) \<subseteq> L"

lemma service_blocks_Cons:
  "service_blocks tg p k (a # xs) = if_blocks tg p k a @ service_blocks tg p k xs"
  by (simp add: service_blocks_def)

lemma service_blocks_append:
  "service_blocks tg p k (xs @ ys) = service_blocks tg p k xs @ service_blocks tg p k ys"
  by (simp add: service_blocks_def)

text \<open>The blocks of a segment depend on its \<open>infos\<close> and on the context only.\<close>

lemma if_blocks_cong:
  "infos (in_flights k' a) = infos (in_flights k a) \<Longrightarrow> contexts k' = contexts k \<Longrightarrow>
   if_blocks tg p k' a = if_blocks tg p k a"
  unfolding if_blocks_def by (simp only:)

lemma service_blocks_cong:
  "\<forall>a\<in>set xs. infos (in_flights k' a) = infos (in_flights k a) \<Longrightarrow> contexts k' = contexts k \<Longrightarrow>
   service_blocks tg p k' xs = service_blocks tg p k xs"
  unfolding service_blocks_def by (metis (mono_tags, lifting) if_blocks_cong map_eq_conv)

lemma in_flight_block: "a \<in> set xs \<Longrightarrow> (a, sizeof_in_flight_infos tg) \<in> set (service_blocks tg p k xs)"
  by (auto simp: service_blocks_def if_blocks_def)

lemma chain_distinct:
  "distinct (service_blocks tg p k xs) \<Longrightarrow> distinct xs"
proof (induction xs)
  case (Cons a xs)
  then have "a \<notin> set xs"
    using in_flight_block [of a xs tg p k] by (auto simp: service_blocks_Cons if_blocks_def)
  with Cons show ?case by (simp add: service_blocks_Cons)
qed simp

lemma service_inv_distinct: "service_inv tg n k L s xs \<Longrightarrow> distinct xs"
  unfolding service_inv_def using chain_distinct by blast

lemma chain_nonempty: "chain ifs p xs \<Longrightarrow> xs \<noteq> [] \<Longrightarrow> p \<noteq> None"
  by (cases xs) auto

lemma chain_frame: "chain ifs p xs \<Longrightarrow> \<forall>a\<in>set xs. if_next (ifs' a) = if_next (ifs a) \<Longrightarrow> chain ifs' p xs"
  by (induction xs arbitrary: p) auto

lemma chain_cut:
  assumes "chain ifs p (xs @ [l] @ ys)" and "distinct (xs @ [l] @ ys)"
  shows "chain (ifs(l := (ifs l)\<lparr>if_next := None\<rparr>)) p (xs @ [l])"
  using assms by (induction xs arbitrary: p) (auto intro: chain_frame)

section \<open>What the loops do\<close>

lemma k_free_skip [simp]: "k_free None sz k = Some k" "k_free p 0 k = Some k"
  by (simp_all add: k_free_def mem_free_def split: option.split)

text \<open>Freeing a list of blocks.\<close>

definition k_frees :: "(nat \<times> u16) list \<Rightarrow> kernel \<Rightarrow> kernel option" where
  "k_frees bs k = do { h \<leftarrow> fold_opt (\<lambda>(p, sz). mem_free (Some p) sz) bs (heap k);
                       Some (k\<lparr>heap := h\<rparr>) }"

lemma k_frees_Nil [simp]: "k_frees [] k = Some k"
  by (simp add: k_frees_def)

lemma k_frees_Cons [simp]: "k_frees ((p, sz) # bs) k = do { k \<leftarrow> k_free (Some p) sz k; k_frees bs k }"
  by (cases "mem_free (Some p) sz (heap k)") (simp_all add: k_frees_def k_free_def)

lemma k_free_live:
  assumes "live_inv n (heap k) L" and "(p, sz) \<in> L"
  shows "\<exists>h. k_free (Some p) sz k = Some (k\<lparr>heap := h\<rparr>) \<and> live_inv n h (L - {(p, sz)})"
  using live_inv_free [OF assms] by (auto simp: k_free_def)

lemma bind_k_free: "(k_free p sz k \<bind> f) =
    (case mem_free p sz (heap k) of None \<Rightarrow> None | Some h \<Rightarrow> f (k\<lparr>heap := h\<rparr>))"
  by (simp add: k_free_def split: option.split)

lemma k_frees_append: "k_frees (bs @ cs) k = do { k \<leftarrow> k_frees bs k; k_frees cs k }"
  by (induction bs arbitrary: k) (auto simp: bind_k_free split: option.split)

lemma k_frees_heap: "k_frees bs k = Some k' \<Longrightarrow> \<exists>h. k' = k\<lparr>heap := h\<rparr>"
  by (cases "fold_opt (\<lambda>(p, sz). mem_free (Some p) sz) bs (heap k)") (auto simp: k_frees_def)

lemma k_frees_live:
  assumes "live_inv n (heap k) L" and "distinct bs" and "set bs \<subseteq> L"
  shows "\<exists>h. k_frees bs k = Some (k\<lparr>heap := h\<rparr>) \<and> live_inv n h (L - set bs)"
  using mem.free_all [OF assms] by (auto simp: k_frees_def)

lemma stack_size_u16: "(ucast (s :: 14 word) :: u16) = 0 \<longleftrightarrow> s = 0"
  by transfer simp

lemma free_in_flight_blocks:
  "free_in_flight tg persistent a k =
    (if \<not> persistent \<and> infos (in_flights k a) = None then None
     else k_frees (if_blocks tg persistent k a) k)"
proof (cases "infos (in_flights k a)")
  case None
  then show ?thesis by (cases persistent) (simp_all add: free_in_flight_def if_blocks_def)
next
  case (Some c)
  show ?thesis
  proof (cases "stack (contexts k c) = None \<or> stack_size (contexts k c) = 0")
    case True
    then have "k_free (stack (contexts k c)) (ucast (stack_size (contexts k c))) k = Some k" by auto
    with Some True show ?thesis
      by (auto simp: free_in_flight_def if_blocks_def bind_k_free split: option.split)
  next
    case False
    then obtain st where "stack (contexts k c) = Some st" "stack_size (contexts k c) \<noteq> 0" by auto
    with Some show ?thesis
      by (auto simp: free_in_flight_def if_blocks_def bind_k_free split: option.split)
  qed
qed

lemma free_chain_blocks:
  "chain (in_flights k) p xs \<Longrightarrow> \<not> persistent \<longrightarrow> (\<forall>a\<in>set xs. infos (in_flights k a) \<noteq> None) \<Longrightarrow>
   free_chain tg persistent p k = k_frees (service_blocks tg persistent k xs) k"
proof (induction xs arbitrary: p k)
  case Nil
  then show ?case by (subst free_chain.simps) (simp add: service_blocks_def)
next
  case (Cons a xs)
  have "free_chain tg persistent (if_next (in_flights k a)) k' =
      k_frees (service_blocks tg persistent k xs) k'" if "k' = k\<lparr>heap := h\<rparr>" for k' h
  proof -
    have "service_blocks tg persistent k' xs = service_blocks tg persistent k xs"
      unfolding that by (rule service_blocks_cong) simp_all
    with Cons.IH [of k' "if_next (in_flights k a)"] Cons.prems show ?thesis by (simp add: that)
  qed
  then have "(k_frees (if_blocks tg persistent k a) k \<bind>
        free_chain tg persistent (if_next (in_flights k a))) =
      (k_frees (if_blocks tg persistent k a) k \<bind> k_frees (service_blocks tg persistent k xs))"
    using k_frees_heap [of "if_blocks tg persistent k a" k]
    by (cases "k_frees (if_blocks tg persistent k a) k") auto
  with Cons.prems show ?case
    by (subst free_chain.simps)
      (auto simp: free_in_flight_blocks service_blocks_Cons k_frees_append)
qed

section \<open>Properties\<close>

abbreviation unacked :: "kernel \<Rightarrow> u32 option \<Rightarrow> nat \<Rightarrow> bool" where
  "unacked k inack a \<equiv> (case inack of None \<Rightarrow> False | Some seq \<Rightarrow> seq \<le> if_outseqno (in_flights k a))"

lemma skip_unacked_chain:
  "chain ifs p xs \<Longrightarrow>
   skip_unacked ifs inack q p =
     (let kept = takeWhile (\<lambda>a. inack \<le> if_outseqno (ifs a)) xs;
          rest = dropWhile (\<lambda>a. inack \<le> if_outseqno (ifs a)) xs
      in Some (if kept = [] then q else Some (last kept), if rest = [] then None else Some (hd rest)))"
proof (induction xs arbitrary: p q)
  case Nil
  then show ?case by (subst skip_unacked.simps) simp
next
  case (Cons a xs)
  then show ?case by (subst skip_unacked.simps) (auto simp: Let_def)
qed

lemma chain_suffix:
  "chain ifs p (xs @ ys) \<Longrightarrow> chain ifs (if ys = [] then None else Some (hd ys)) ys"
  by (induction xs arbitrary: p) (cases ys, auto)

definition shortened :: "nat \<Rightarrow> nat list \<Rightarrow> kernel \<Rightarrow> kernel" where
  "shortened s kept k = (if kept = [] then upd_service s (\<lambda>v. v\<lparr>in_flight_infos := None\<rparr>) k
     else upd_in_flight (last kept) (\<lambda>i. i\<lparr>if_next := None\<rparr>) k)"

lemma clean_service_eq:
  assumes "service_inv tg n k L s xs"
  shows "clean_service tg s inack k =
    k_frees (service_blocks tg (is_persistent (services k s)) k (dropWhile (unacked k inack) xs))
      (if xs = [] then k else shortened s (takeWhile (unacked k inack) xs) k)"
proof (cases "xs = []")
  case True
  with assms show ?thesis by (simp add: service_inv_def clean_service_def service_blocks_def)
next
  case False
  let ?p = "in_flight_infos (services k s)" and ?pers = "is_persistent (services k s)"
  let ?kept = "takeWhile (unacked k inack) xs" and ?rest = "dropWhile (unacked k inack) xs"
  let ?k = "shortened s ?kept k"
  let ?q = "if ?rest = [] then None else Some (hd ?rest)"
  have ch: "chain (in_flights k) ?p (?kept @ ?rest)" and dist: "distinct (?kept @ ?rest)"
    using assms service_inv_distinct [OF assms] by (simp_all add: service_inv_def)
  have apart: "?kept \<noteq> [] \<Longrightarrow> last ?kept \<notin> set ?rest"
    using dist last_in_set [of ?kept] unfolding distinct_append by blast
  have "?p \<noteq> None" by (rule chain_nonempty [OF ch]) (use False in simp)
  moreover have "(case inack of None \<Rightarrow> Some (None, ?p)
      | Some seq \<Rightarrow> skip_unacked (in_flights k) seq None ?p) =
    Some (if ?kept = [] then None else Some (last ?kept), ?q)"
    using ch False by (cases inack) (cases xs, auto simp: skip_unacked_chain Let_def)
  ultimately have "clean_service tg s inack k = free_chain tg ?pers ?q ?k"
    by (auto simp: clean_service_def shortened_def Let_def)
  also have "\<dots> = k_frees (service_blocks tg ?pers ?k ?rest) ?k"
  proof (rule free_chain_blocks)
    have "chain (in_flights k) ?q ?rest" using ch by (rule chain_suffix)
    then show "chain (in_flights ?k) ?q ?rest"
      by (rule chain_frame) (use apart in \<open>auto simp: shortened_def\<close>)
    have "infos (in_flights ?k a) = infos (in_flights k a)" for a by (simp add: shortened_def)
    then show "\<not> ?pers \<longrightarrow> (\<forall>a\<in>set ?rest. infos (in_flights ?k a) \<noteq> None)"
      using assms by (auto simp: service_inv_def dest: set_dropWhileD)
  qed
  also have "service_blocks tg ?pers ?k ?rest = service_blocks tg ?pers k ?rest"
    by (rule service_blocks_cong) (simp_all add: shortened_def)
  finally show ?thesis using False by simp
qed

lemma service_inv_shortened:
  assumes inv: "service_inv tg n k L s (kept @ rest)" and "kept @ rest \<noteq> []"
    and "live_inv n h (L - set (service_blocks tg (is_persistent (services k s)) k rest))"
  shows "service_inv tg n ((shortened s kept k)\<lparr>heap := h\<rparr>)
    (L - set (service_blocks tg (is_persistent (services k s)) k rest)) s kept"
proof -
  let ?k = "(shortened s kept k)\<lparr>heap := h\<rparr>"
  have dist: "distinct (kept @ rest)" by (rule service_inv_distinct [OF inv])
  have same: "is_persistent (services (shortened s kept k) s) = is_persistent (services k s)"
    "infos (in_flights (shortened s kept k) a) = infos (in_flights k a)" for a
    by (simp_all add: shortened_def)
  have blocks: "service_blocks tg p ?k kept = service_blocks tg p k kept" for p
    by (rule service_blocks_cong) (simp_all add: shortened_def)
  have "chain (in_flights ?k) (in_flight_infos (services ?k s)) kept"
  proof (cases "kept = []")
    case False
    then obtain ks l where kept: "kept = ks @ [l]" by (cases kept rule: rev_cases) auto
    have "chain (in_flights k) (in_flight_infos (services k s)) (ks @ [l] @ rest)"
      using inv by (simp add: service_inv_def kept)
    from chain_cut [OF this] dist show ?thesis by (simp add: shortened_def kept)
  qed (simp add: shortened_def)
  with inv assms(3) show ?thesis
    by (auto simp: service_inv_def same blocks service_blocks_append)
qed

lemma filter_takeWhile_sorted:
  "sorted_wrt (\<lambda>a b. f b \<le> f a) xs \<Longrightarrow> takeWhile (\<lambda>a. c \<le> f a) xs = filter (\<lambda>a. c \<le> (f a :: u32)) xs"
proof (induction xs)
  case (Cons a xs)
  have "\<not> c \<le> f x" if "\<not> c \<le> f a" "x \<in> set xs" for x
    using Cons.prems that by (meson order.trans sorted_wrt.simps(2))
  with Cons show ?case by auto
qed simp

text \<open>The state after \<open>clean_service\<close>.\<close>

lemma clean_service_spec:
  assumes "service_inv tg n k L s xs"
  shows "\<exists>k'. clean_service tg s inack k = Some k' \<and>
    service_inv tg n k' (L - set (service_blocks tg (is_persistent (services k s)) k
      (dropWhile (unacked k inack) xs))) s (takeWhile (unacked k inack) xs) \<and>
    (\<exists>h. k' = (if xs = [] then k else shortened s (takeWhile (unacked k inack) xs) k)\<lparr>heap := h\<rparr>)"
proof -
  let ?kept = "takeWhile (unacked k inack) xs" and ?rest = "dropWhile (unacked k inack) xs"
  let ?blocks = "service_blocks tg (is_persistent (services k s)) k ?rest"
  let ?k = "if xs = [] then k else shortened s ?kept k"
  have split: "xs = ?kept @ ?rest" by simp
  have "distinct (service_blocks tg (is_persistent (services k s)) k (?kept @ ?rest))"
    "set (service_blocks tg (is_persistent (services k s)) k (?kept @ ?rest)) \<subseteq> L"
    using assms by (simp_all add: service_inv_def)
  then have "distinct ?blocks" "set ?blocks \<subseteq> L" unfolding service_blocks_append by simp_all
  moreover have "live_inv n (heap ?k) L" using assms by (simp add: service_inv_def shortened_def)
  ultimately obtain h where h: "k_frees ?blocks ?k = Some (?k\<lparr>heap := h\<rparr>)" "live_inv n h (L - set ?blocks)"
    using k_frees_live by blast
  have "service_inv tg n (?k\<lparr>heap := h\<rparr>) (L - set ?blocks) s ?kept"
  proof (cases "xs = []")
    case True
    with assms h show ?thesis by (simp add: service_inv_def service_blocks_def)
  next
    case False
    with service_inv_shortened [of tg n k L s ?kept ?rest h] assms h(2) show ?thesis by simp
  qed
  then show ?thesis using clean_service_eq [OF assms] h(1) by auto
qed

text \<open>
  C22: \<open>clean_service\<close> returns, keeps exactly the segments in front of the first acknowledged one,
  and frees every block of the others once: on a list sorted newest first, the kept segments are
  those whose sequence number is at least the acknowledged one.
\<close>

theorem clean_service_frees_acked:
  assumes "service_inv tg n k L s xs"
  shows "\<exists>k'. clean_service tg s inack k = Some k' \<and>
    service_inv tg n k' (L - set (service_blocks tg (is_persistent (services k s)) k
      (dropWhile (unacked k inack) xs))) s (takeWhile (unacked k inack) xs) \<and>
    (sorted_wrt (\<lambda>a b. if_outseqno (in_flights k b) \<le> if_outseqno (in_flights k a)) xs \<longrightarrow>
      takeWhile (unacked k inack) xs = filter (unacked k inack) xs)"
proof -
  have "takeWhile (unacked k inack) xs = filter (unacked k inack) xs"
    if "sorted_wrt (\<lambda>a b. if_outseqno (in_flights k b) \<le> if_outseqno (in_flights k a)) xs"
    using filter_takeWhile_sorted [OF that] by (cases inack) (simp_all add: takeWhile_eq_Nil_iff)
  with clean_service_spec [OF assms, of inack] show ?thesis by blast
qed

text \<open>An example: a persistent service with three segments in flight.\<close>

definition example_target :: target where
  "example_target = \<lparr>sizeof_connection = 84, sizeof_generator_service = 64,
     sizeof_in_flight_infos = 20, sizeof_cr_context = 16, sizeof_post_data = 60,
     sizeof_boundary = 12, OUTPUT_BUFFER_SIZE = 1500, STACK_SIZE = 4096, DEV_MTU = 1500,
     CHUNCKS_NBITS = 5, local_ip_addr = 0xC0A80104\<rparr>"

definition example_segment :: "u32 \<Rightarrow> nat \<Rightarrow> ptr \<Rightarrow> in_flight" where
  "example_segment seq buf nxt = \<lparr>if_outseqno = seq, if_checksum = 0, infos = Some buf,
     if_next = nxt, if_header = header_none\<rparr>"

definition example_kernel :: "u32 \<Rightarrow> u32 \<Rightarrow> heap \<Rightarrow> kernel" where
  "example_kernel newer older h = undefined\<lparr>heap := h,
    in_flights := (\<lambda>_. undefined)(380 := example_segment newer 385 (Some 0),
      0 := example_segment older 5 None),
    services := (\<lambda>_. undefined\<lparr>in_flight_infos := Some 380, is_persistent := True\<rparr>)\<rparr>"

abbreviation example_live :: live where
  "example_live \<equiv> {(0, 20), (5, 1500), (380, 20), (385, 1500)}"

lemma example_heap: "\<exists>h. live_inv 8192 h example_live"
  using heap_with_blocks [of "[20, 1500, 20, 1500]" 8192] by (simp add: unat_cells_of_size)

lemma example_inv:
  "live_inv 8192 h example_live \<Longrightarrow>
   service_inv example_target 8192 (example_kernel newer older h) example_live 7 [380, 0]"
  by (simp add: service_inv_def example_kernel_def example_segment_def service_blocks_def
      if_blocks_def example_target_def)

lemmas example_simps = example_kernel_def example_segment_def service_blocks_def if_blocks_def
  example_target_def

theorem clean_service_frees_acked_witness:
  "\<exists>h k'. clean_service example_target 7 (Some 3000) (example_kernel 3000 1000 h) = Some k' \<and>
     service_inv example_target 8192 k' (example_live - {(5, 1500), (0, 20)}) 7 [380]"
proof -
  obtain h where h: "live_inv 8192 h example_live" using example_heap by blast
  from clean_service_frees_acked [OF example_inv [OF h, of 3000 1000], of "Some 3000"]
  show ?thesis by (intro exI [of _ h]) (simp add: example_simps)
qed

text \<open>
  The comparison of sequence numbers ignores their wrap-around. When the newest segment was
  sent after the sequence number wrapped, an acknowledgement that precedes it in sequence space and
  is greater as an integer frees the whole list, unacknowledged segments included.
\<close>

theorem clean_service_ignores_wrap:
  assumes inv: "service_inv tg n k L s (a # xs)"
    and "unat (if_outseqno (in_flights k a) - inack) < 2 ^ 31"
    and wrapped: "if_outseqno (in_flights k a) < inack"
  shows "\<exists>k'. clean_service tg s (Some inack) k = Some k' \<and>
    service_inv tg n k' (L - set (service_blocks tg (is_persistent (services k s)) k (a # xs))) s []"
proof -
  have "takeWhile (unacked k (Some inack)) (a # xs) = []"
    "dropWhile (unacked k (Some inack)) (a # xs) = a # xs"
    using wrapped by (simp_all add: linorder_not_le)
  with clean_service_spec [OF inv, of "Some inack"] show ?thesis by metis
qed

theorem clean_service_ignores_wrap_witness:
  "\<exists>h k'. clean_service example_target 7 (Some 0xFFFFFFF0) (example_kernel 16 0xFFFFFFF0 h) = Some k' \<and>
     service_inv example_target 8192 k' {} 7 []"
proof -
  obtain h where h: "live_inv 8192 h example_live" using example_heap by blast
  from clean_service_ignores_wrap [OF example_inv [OF h, of 16 "0xFFFFFFF0"], of "0xFFFFFFF0"]
  show ?thesis by (intro exI [of _ h]) (simp add: example_simps)
qed

end
