(* ===== verification/Coroutines.thy ===== *)
theory Coroutines
  imports Service
begin

text \<open>
  The coroutines that run the generators of the applications, \<open>core/coroutines.c\<close>. All of them
  execute on one shared stack; a suspended coroutine keeps its part of the stack, from its stack
  pointer up, either in place or in a block of exactly that size. The context that a service
  has before it generates a segment is saved with the segment, so that the segment can be
  generated again.

  A stack pointer is an offset in the shared stack, and the part of the stack in use is the
  list of its bytes. What a coroutine executes is a parameter of \<open>cr_run\<close>: the context
  switch itself (the macros \<open>BACKUP_CTX\<close> and \<open>RESTORE_CTX\<close> of the target) is the exchange of the
  stack pointer.
\<close>

section \<open>Model\<close>

fun get_cr :: "kernel \<Rightarrow> cr_ref \<Rightarrow> coroutine" where
  "get_cr k (Service_cr s) = coroutine (services k s)"
| "get_cr k (Post_cr p) = post_coroutine (post_datas k p)"

fun set_cr :: "cr_ref \<Rightarrow> coroutine \<Rightarrow> kernel \<Rightarrow> kernel" where
  "set_cr (Service_cr s) c k = upd_service s (\<lambda>v. v\<lparr>coroutine := c\<rparr>) k"
| "set_cr (Post_cr p) c k = upd_post_data p (\<lambda>v. v\<lparr>post_coroutine := c\<rparr>) k"

definition get_ctx :: "kernel \<Rightarrow> cr_ref \<Rightarrow> cr_context" where
  "get_ctx k r = curr_context (get_cr k r)"

definition upd_ctx :: "cr_ref \<Rightarrow> (cr_context \<Rightarrow> cr_context) \<Rightarrow> kernel \<Rightarrow> kernel" where
  "upd_ctx r f k = set_cr r ((get_cr k r)\<lparr>curr_context := f (get_ctx k r)\<rparr>) k"

text \<open>\<open>memcpy\<close> to the shared stack at an offset.\<close>

definition overwrite :: "'a list \<Rightarrow> nat \<Rightarrow> 'a list \<Rightarrow> 'a list" where
  "overwrite xs off ys = take off xs @ ys @ drop (off + length ys) xs"

definition cr_init :: "target \<Rightarrow> cr_ref \<Rightarrow> kernel \<Rightarrow> kernel" where
  "cr_init tg r = upd_ctx r (\<lambda>x. x\<lparr>status := cr_ready, stack := None, stack_size := 0,
     sp := STACK_SIZE tg\<rparr>)"

text \<open>
  \<open>cr_run\<close> enters a coroutine that is ready at its start and another one where it was suspended.
  \<open>body\<close> executes it until it leaves: by a nested \<open>cr_run(NULL)\<close>, with the used part of the stack,
  or by its return.
\<close>

datatype cr_entry = Start | Resume "u8 list"
datatype cr_exit = Suspended "u8 list" | Returned

definition cr_run :: "(coroutine \<Rightarrow> cr_entry \<Rightarrow> kernel \<Rightarrow> (cr_exit \<times> kernel) option)
    \<Rightarrow> target \<Rightarrow> cr_ref \<Rightarrow> kernel \<Rightarrow> kernel option" where
  "cr_run body tg r k =
    (let ready = (status (get_ctx k r) = cr_ready);
         entry = (if ready then Start else Resume (drop (sp (get_ctx k r)) (shared_stack k)));
         k = (if ready then upd_ctx r (\<lambda>x. x\<lparr>status := cr_active\<rparr>) k else k)
     in do { (e, k) \<leftarrow> body (get_cr k r) entry k;
             Some (case e of
                Suspended img \<Rightarrow>
                  (let sp' = STACK_SIZE tg - length img
                   in upd_ctx r (\<lambda>x. x\<lparr>sp := sp'\<rparr>)
                        (k\<lparr>shared_stack := overwrite (shared_stack k) sp' img\<rparr>))
              | Returned \<Rightarrow> upd_ctx r (\<lambda>x. x\<lparr>status := cr_terminated\<rparr>) k) })"

text \<open>The first half of \<open>cr_prepare\<close>: saving the stack of the coroutine that uses it.\<close>

definition cr_save :: "target \<Rightarrow> cr_ref \<Rightarrow> kernel \<Rightarrow> (bool \<times> kernel) option" where
  "cr_save tg q k =
    (let s = sp (get_ctx k q); size = (of_nat (STACK_SIZE tg - s) :: u16)
     in do { (p, k) \<leftarrow> k_alloc size k;
             let k = upd_ctx q (\<lambda>x. x\<lparr>stack := p\<rparr>) k;
             (case p of
                None \<Rightarrow> Some (False, k)
              | Some a \<Rightarrow>
                 (let k = upd_ctx q (\<lambda>x. x\<lparr>stack_size := ucast size\<rparr>) k
                  in Some (True, k\<lparr>bytes := (bytes k)(a := overwrite (bytes k a) 0
                                    (take (unat size) (drop s (shared_stack k))))\<rparr>))) })"

definition cr_load :: "cr_ref \<Rightarrow> kernel \<Rightarrow> kernel option" where
  "cr_load r k =
    (let x = get_ctx k r
     in case stack x of
          None \<Rightarrow> Some k
        | Some a \<Rightarrow>
            (let k = k\<lparr>shared_stack := overwrite (shared_stack k) (sp x)
                         (take (unat (stack_size x)) (bytes k a))\<rparr>
             in do { k \<leftarrow> k_free (Some a) (ucast (stack_size x)) k;
                     Some (upd_ctx r (\<lambda>x. x\<lparr>stack := None\<rparr>) k) }))"

text \<open>\<open>False\<close> is the result \<open>NULL\<close>.\<close>

definition cr_prepare :: "target \<Rightarrow> cr_ref \<Rightarrow> kernel \<Rightarrow> (bool \<times> kernel) option" where
  "cr_prepare tg r k =
    (if cr_in_stack k = Some r then Some (True, k)
     else do { (ok, k) \<leftarrow> (case cr_in_stack k of None \<Rightarrow> Some (True, k) | Some q \<Rightarrow> cr_save tg q k);
               if \<not> ok then Some (False, k)
               else do { k \<leftarrow> cr_load r k; Some (True, k\<lparr>cr_in_stack := Some r\<rparr>) } })"

definition cr_clean :: "cr_ref \<Rightarrow> kernel \<Rightarrow> kernel option" where
  "cr_clean r k =
    (let k = (if cr_in_stack k = Some r then k\<lparr>cr_in_stack := None\<rparr> else k)
     in k_free (stack (get_ctx k r)) (ucast (stack_size (get_ctx k r))) k)"

partial_function (option) select_in_flight :: "(nat \<Rightarrow> in_flight) \<Rightarrow> u32 \<Rightarrow> ptr \<Rightarrow> ptr option" where
  "select_in_flight ifs seq p =
     (if p \<noteq> None \<and> if_outseqno (ifs (the p)) \<noteq> seq
      then select_in_flight ifs seq (if_next (ifs (the p)))
      else Some p)"

definition if_select :: "nat \<Rightarrow> u32 \<Rightarrow> kernel \<Rightarrow> ptr option" where
  "if_select s seq k = select_in_flight (in_flights k) seq (in_flight_infos (services k s))"

definition context_backup :: "target \<Rightarrow> nat \<Rightarrow> u32 \<Rightarrow> nat \<Rightarrow> kernel \<Rightarrow> (ptr \<times> kernel) option" where
  "context_backup tg s seq new_if k =
    (let x = get_ctx k (Service_cr s); size = (of_nat (STACK_SIZE tg - sp x) :: u16)
     in do { (c, k) \<leftarrow> k_alloc (sizeof_cr_context tg) k;
             case c of
               None \<Rightarrow> Some (None, k)
             | Some c \<Rightarrow>
                do { (st, k) \<leftarrow> (if size \<noteq> 0 then k_alloc size k else Some (None, k));
                     if size \<noteq> 0 \<and> st = None then
                       do { k \<leftarrow> k_free (Some c) (sizeof_cr_context tg) k; Some (None, k) }
                     else
                      (let x = x\<lparr>stack_size := ucast size, stack := (if (ucast size :: 14 word) \<noteq> 0 then st else None)\<rparr>;
                           k = k\<lparr>contexts := (contexts k)(c := x)\<rparr>;
                           k = (case stack x of None \<Rightarrow> k
                                | Some a \<Rightarrow> k\<lparr>bytes := (bytes k)(a := overwrite (bytes k a) 0
                                               (take (unat size) (drop (sp x) (shared_stack k))))\<rparr>);
                           k = upd_in_flight new_if (\<lambda>i. i\<lparr>if_outseqno := seq, infos := Some c,
                                 if_next := in_flight_infos (services k s)\<rparr>) k
                       in Some (Some c, upd_service s (\<lambda>v. v\<lparr>in_flight_infos := Some new_if\<rparr>) k)) } })"

definition context_restore :: "nat \<Rightarrow> u32 \<Rightarrow> kernel \<Rightarrow> (ptr \<times> kernel) option" where
  "context_restore s seq k =
    do { p \<leftarrow> if_select s seq k;
         case p of
           None \<Rightarrow> Some (None, k)
         | Some i \<Rightarrow>
            (case infos (in_flights k i) of
               None \<Rightarrow> None
             | Some c \<Rightarrow>
                (let x = contexts k c;
                     k = upd_ctx (Service_cr s) (\<lambda>_. x) k;
                     k = (case stack x of None \<Rightarrow> k
                          | Some a \<Rightarrow> k\<lparr>shared_stack := overwrite (shared_stack k) (sp x)
                              (take (unat (stack_size x)) (bytes k a))\<rparr>)
                 in Some (Some i, k))) }"

section \<open>The contexts of all coroutines\<close>

lemma get_ctx_upd [simp]:
  "get_ctx (upd_ctx r f k) q = (if q = r then f (get_ctx k r) else get_ctx k q)"
  by (cases r; cases q) (auto simp: upd_ctx_def get_ctx_def)

lemma upd_ctx_frame [simp]:
  "heap (upd_ctx r f k) = heap k" "shared_stack (upd_ctx r f k) = shared_stack k"
  "bytes (upd_ctx r f k) = bytes k" "cr_in_stack (upd_ctx r f k) = cr_in_stack k"
  "contexts (upd_ctx r f k) = contexts k" "in_flights (upd_ctx r f k) = in_flights k"
  by (cases r; simp add: upd_ctx_def)+

lemma get_cr_frame [simp]:
  "get_cr (k\<lparr>heap := h\<rparr>) q = get_cr k q" "get_cr (k\<lparr>shared_stack := s\<rparr>) q = get_cr k q"
  "get_cr (k\<lparr>bytes := b\<rparr>) q = get_cr k q" "get_cr (k\<lparr>cr_in_stack := r\<rparr>) q = get_cr k q"
  by (cases q; simp)+

lemma get_ctx_frame [simp]:
  "get_ctx (k\<lparr>heap := h\<rparr>) q = get_ctx k q" "get_ctx (k\<lparr>shared_stack := s\<rparr>) q = get_ctx k q"
  "get_ctx (k\<lparr>bytes := b\<rparr>) q = get_ctx k q" "get_ctx (k\<lparr>cr_in_stack := r\<rparr>) q = get_ctx k q"
  by (simp_all add: get_ctx_def)

lemma upd_ctx_id: "f (get_ctx k r) = get_ctx k r \<Longrightarrow> upd_ctx r f k = k"
  by (cases r) (simp_all add: upd_ctx_def get_ctx_def)

lemma upd_ctx_twice: "upd_ctx r f (upd_ctx r g k) = upd_ctx r (\<lambda>x. f (g x)) k"
  by (cases r) (simp_all add: upd_ctx_def get_ctx_def)

lemma upd_ctx_heap: "upd_ctx r f (k\<lparr>heap := h\<rparr>) = (upd_ctx r f k)\<lparr>heap := h\<rparr>"
  by (cases r) (simp_all add: upd_ctx_def get_ctx_def)

lemma upd_ctx_bytes: "upd_ctx r f (k\<lparr>bytes := b\<rparr>) = (upd_ctx r f k)\<lparr>bytes := b\<rparr>"
  by (cases r) (simp_all add: upd_ctx_def get_ctx_def)

lemma k_alloc_cases:
  assumes "live_inv n (heap k) L"
  obtains (zero) a where "sz = 0" and "k_alloc sz k = Some (Some a, k)"
    | (full) "k_alloc sz k = Some (None, k)"
    | (fresh) a h where "k_alloc sz k = Some (Some a, k\<lparr>heap := h\<rparr>)"
        and "live_inv n h (insert (a, sz) L)" and "a \<notin> fst ` L"
    | (wrap) "sz \<noteq> 0" and "cells_of_size sz = 0"
proof (cases "sz = 0")
  case True
  then show ?thesis using live_alloc_zero [OF assms] that(1) by (auto simp: k_alloc_def)
next
  case False
  show ?thesis
  proof (cases "cells_of_size sz = 0")
    case True
    then show ?thesis using False that(4) by blast
  next
    case pos: False
    then have "0 < unat (cells_of_size sz)" by (simp add: unat_gt_0)
    with assms show ?thesis
    proof (cases rule: mem.alloc_cases)
      case full
      then show ?thesis using that(2) by (simp add: k_alloc_def)
    next
      case (fresh a h)
      then show ?thesis using that(3) by (simp add: k_alloc_def)
    qed
  qed
qed

lemma overwrite_length: "off + length ys \<le> length xs \<Longrightarrow> length (overwrite xs off ys) = length xs"
  by (simp add: overwrite_def)

lemma drop_overwrite: "off + length ys = length xs \<Longrightarrow> drop off (overwrite xs off ys) = ys"
  by (simp add: overwrite_def)

lemma take_overwrite_0: "take (length ys) (overwrite xs 0 ys) = ys"
  by (simp add: overwrite_def)

text \<open>The used part of the stack of a coroutine, wherever it is.\<close>

definition stack_image :: "kernel \<Rightarrow> cr_ref \<Rightarrow> u8 list" where
  "stack_image k r =
    (if cr_in_stack k = Some r then drop (sp (get_ctx k r)) (shared_stack k)
     else (case stack (get_ctx k r) of
             None \<Rightarrow> []
           | Some a \<Rightarrow> take (unat (stack_size (get_ctx k r))) (bytes k a)))"

text \<open>The block that holds the stack of a coroutine that is not in the shared stack.\<close>

definition cr_block :: "kernel \<Rightarrow> cr_ref \<Rightarrow> (nat \<times> u16) set" where
  "cr_block k r =
    (if cr_in_stack k = Some r then {}
     else (case stack (get_ctx k r) of
             None \<Rightarrow> {}
           | Some a \<Rightarrow> (if stack_size (get_ctx k r) = 0 then {}
                        else {(a, ucast (stack_size (get_ctx k r)))})))"

text \<open>
  Every coroutine of the set \<open>R\<close> has its whole stack, in place or in a block of its own; the one
  in the shared stack owns no block.
\<close>

definition cr_inv :: "target \<Rightarrow> nat \<Rightarrow> cr_ref set \<Rightarrow> kernel \<Rightarrow> live \<Rightarrow> bool" where
  "cr_inv tg n R k L \<longleftrightarrow>
     live_inv n (heap k) L \<and> length (shared_stack k) = STACK_SIZE tg \<and> STACK_SIZE tg < 16384 \<and>
     set_option (cr_in_stack k) \<subseteq> R \<and>
     (\<forall>r\<in>R. sp (get_ctx k r) \<le> STACK_SIZE tg \<and>
        length (stack_image k r) = STACK_SIZE tg - sp (get_ctx k r) \<and>
        cr_block k r \<subseteq> L \<and>
        (cr_in_stack k = Some r \<longrightarrow> stack (get_ctx k r) = None) \<and>
        (cr_in_stack k \<noteq> Some r \<longrightarrow> stack (get_ctx k r) \<noteq> None \<longrightarrow>
           unat (stack_size (get_ctx k r)) = STACK_SIZE tg - sp (get_ctx k r))) \<and>
     (\<forall>q\<in>R. \<forall>r\<in>R. q \<noteq> r \<longrightarrow> fst ` cr_block k q \<inter> fst ` cr_block k r = {})"

lemma cr_invD:
  assumes "cr_inv tg n R k L"
  shows "live_inv n (heap k) L" "length (shared_stack k) = STACK_SIZE tg" "STACK_SIZE tg < 16384"
    "set_option (cr_in_stack k) \<subseteq> R"
    "r \<in> R \<Longrightarrow> sp (get_ctx k r) \<le> STACK_SIZE tg"
    "r \<in> R \<Longrightarrow> length (stack_image k r) = STACK_SIZE tg - sp (get_ctx k r)"
    "r \<in> R \<Longrightarrow> cr_block k r \<subseteq> L"
    "r \<in> R \<Longrightarrow> cr_in_stack k = Some r \<Longrightarrow> stack (get_ctx k r) = None"
    "r \<in> R \<Longrightarrow> cr_in_stack k \<noteq> Some r \<Longrightarrow> stack (get_ctx k r) = Some a \<Longrightarrow>
       unat (stack_size (get_ctx k r)) = STACK_SIZE tg - sp (get_ctx k r)"
    "q \<in> R \<Longrightarrow> r \<in> R \<Longrightarrow> q \<noteq> r \<Longrightarrow> fst ` cr_block k q \<inter> fst ` cr_block k r = {}"
  using assms unfolding cr_inv_def by blast+

lemma unat_stack_bytes: "m < 16384 \<Longrightarrow> unat (of_nat m :: u16) = m"
  by (simp add: unat_of_nat)

lemma unat_stack_size: "m < 16384 \<Longrightarrow> unat (ucast (of_nat m :: u16) :: 14 word) = m"
  by (simp add: unsigned_ucast_eq unat_of_nat take_bit_eq_mod)

lemma stack_size_of_nat: "m < 16384 \<Longrightarrow> (ucast (of_nat m :: u16) :: 14 word) = of_nat m"
  by (simp add: word_unat_eq_iff unat_stack_size unat_of_nat)

lemma stack_size_back: "(ucast (ucast (of_nat m :: u16) :: 14 word) :: u16) = of_nat m" if "m < 16384"
  using that by (simp add: word_unat_eq_iff stack_size_of_nat unsigned_ucast_eq unat_of_nat take_bit_eq_mod)

lemma cells_of_small:
  assumes "0 < m" and "m < 16384"
  shows "0 < unat (cells_of_size (of_nat m))"
  using assms by (simp add: unat_cells_of_size unat_stack_bytes)

lemma stack_image_upd_other:
  assumes "cr_in_stack k' = cr_in_stack k" and "shared_stack k' = shared_stack k"
    and "get_ctx k' r = get_ctx k r" and "\<And>a. stack (get_ctx k r) = Some a \<Longrightarrow> bytes k' a = bytes k a"
  shows "stack_image k' r = stack_image k r"
  using assms by (auto simp: stack_image_def split: option.split)

lemma cr_save_spec:
  assumes inv: "cr_inv tg n R k L" and q: "cr_in_stack k = Some q"
  obtains (full) k' where "cr_save tg q k = Some (False, k')" "cr_inv tg n R k' L"
      "\<forall>r\<in>R. stack_image k' r = stack_image k r" "cr_in_stack k' = Some q"
  | (saved) k' L' where "cr_save tg q k = Some (True, k')"
      "cr_inv tg n R (k'\<lparr>cr_in_stack := None\<rparr>) L'"
      "\<forall>r\<in>R. stack_image (k'\<lparr>cr_in_stack := None\<rparr>) r = stack_image k r"
proof -
  note D = cr_invD [OF inv]
  have qR: "q \<in> R" using D(4) q by simp
  let ?s = "sp (get_ctx k q)" and ?m = "STACK_SIZE tg - sp (get_ctx k q)"
  have m: "?m < 16384" using D(3) by linarith
  have none: "stack (get_ctx k q) = None" by (rule D(8) [OF qR q])
  have img: "take ?m (drop ?s (shared_stack k)) = stack_image k q" using D(6) [OF qR] q by (simp add: stack_image_def)
  from D(1) show thesis
  proof (cases rule: k_alloc_cases [where sz = "of_nat ?m"])
    case full
    have "upd_ctx q (\<lambda>x. x\<lparr>stack := None\<rparr>) k = k" using none by (simp add: upd_ctx_id)
    then show thesis using that(1) [of k] full inv q by (simp add: cr_save_def Let_def)
  next
    case wrap
    with m cells_of_small [of ?m] show thesis by (cases "?m = 0") auto
  next
    case (zero a)
    then have m0: "?m = 0" using unat_stack_bytes [OF m] by (metis unsigned_0)
    let ?k = "upd_ctx q (\<lambda>x. x\<lparr>stack := Some a, stack_size := 0\<rparr>) k"
    have ctx: "get_ctx ?k r = (if r = q then (get_ctx k q)\<lparr>stack := Some a, stack_size := 0\<rparr> else get_ctx k r)" for r
      by simp
    have img': "stack_image (?k\<lparr>cr_in_stack := None\<rparr>) r = stack_image k r" if "r \<in> R" for r
      using that q D(6) [OF qR] m0 by (auto simp: stack_image_def split: option.split)
    have blk: "cr_block (?k\<lparr>cr_in_stack := None\<rparr>) r = cr_block k r" for r
      using q D(8) [OF qR] by (auto simp: cr_block_def split: option.split)
    have "cr_inv tg n R (?k\<lparr>cr_in_stack := None\<rparr>) L"
      using inv img' q m0 D(8) D(9) unfolding cr_inv_def blk by auto
    moreover have "cr_save tg q k = Some (True, ?k)"
      using zero m0 by (simp add: cr_save_def Let_def upd_ctx_twice overwrite_def)
    ultimately show thesis using that(2) [of ?k L] img' by blast
  next
    case (fresh a h)
    let ?size = "of_nat ?m :: u16" and ?ss = "of_nat ?m :: 14 word"
    have sz: "unat ?ss = ?m" "unat ?size = ?m" "(ucast ?size :: 14 word) = ?ss" "(ucast ?ss :: u16) = ?size"
      using m stack_size_of_nat [OF m] stack_size_back [OF m] by (simp_all add: unat_of_nat)
    have m0: "?m \<noteq> 0" using mem.live_ok [OF fresh(2), of a ?size] by (cases "?m = 0") auto
    let ?img = "stack_image k q"
    let ?k = "upd_ctx q (\<lambda>x. x\<lparr>stack := Some a, stack_size := ?ss\<rparr>)
      (k\<lparr>heap := h, bytes := (bytes k)(a := overwrite (bytes k a) 0 ?img)\<rparr>)"
    let ?kn = "?k\<lparr>cr_in_stack := None\<rparr>" and ?L = "insert (a, ?size) L"
    have save: "cr_save tg q k = Some (True, ?k)"
      using fresh(1) img sz by (simp add: cr_save_def Let_def upd_ctx_twice upd_ctx_heap upd_ctx_bytes)
    have other: "a \<notin> fst ` cr_block k r" if "r \<in> R" for r
      using D(7) [OF that] fresh(3) by blast
    have img': "stack_image ?kn r = stack_image k r" if "r \<in> R" for r
    proof (cases "r = q")
      case True
      then show ?thesis using D(6) [OF qR] sz by (simp add: stack_image_def [of ?kn]) (metis take_overwrite_0)
    next
      case False
      then show ?thesis
        using q other [OF that] by (auto simp: stack_image_def cr_block_def split: option.splits if_splits)
    qed
    have blk: "cr_block ?kn r = (if r = q then {(a, ?size)} else cr_block k r)" for r
      using q sz m0 by (auto simp: cr_block_def split: option.split)
    have "cr_inv tg n R ?kn ?L"
      unfolding cr_inv_def blk
    proof (intro conjI ballI impI)
      show "live_inv n (heap ?kn) ?L" using fresh(2) by simp
    next
      fix r assume r: "r \<in> R"
      show "length (stack_image ?kn r) = STACK_SIZE tg - sp (get_ctx ?kn r)"
        using img' [OF r] D(6) [OF r] by simp
    next
      fix r assume r: "r \<in> R" "stack (get_ctx ?kn r) \<noteq> None"
      then show "unat (stack_size (get_ctx ?kn r)) = STACK_SIZE tg - sp (get_ctx ?kn r)"
        using D(9) [OF r(1)] q sz by (cases "r = q") auto
    next
      fix r assume r: "r \<in> R"
      show "(if r = q then {(a, ?size)} else cr_block k r) \<subseteq> ?L" using D(7) [OF r] by auto
    qed (use D other in auto)
    then show thesis using that(2) save img' by blast
  qed
qed

lemma cr_load_in_stack:
  "cr_load r (k\<lparr>cr_in_stack := x\<rparr>) = map_option (\<lambda>k. k\<lparr>cr_in_stack := x\<rparr>) (cr_load r k)"
  by (cases r) (auto simp: cr_load_def Let_def k_free_def upd_ctx_def get_ctx_def bind_eq_None_conv
      split: option.split bind_splits)

lemma cr_load_spec:
  assumes inv: "cr_inv tg n R k L" and none: "cr_in_stack k = None" and r: "r \<in> R"
  obtains k' L' where "cr_load r k = Some k'" "cr_inv tg n R (k'\<lparr>cr_in_stack := Some r\<rparr>) L'"
    "\<forall>q\<in>R. stack_image (k'\<lparr>cr_in_stack := Some r\<rparr>) q = stack_image k q"
proof (cases "stack (get_ctx k r)")
  case None
  note D = cr_invD [OF inv]
  have img: "stack_image (k\<lparr>cr_in_stack := Some r\<rparr>) q = stack_image k q" if "q \<in> R" for q
    using D(2) D(6) [OF that] None none by (auto simp: stack_image_def split: option.split)
  have blk: "cr_block (k\<lparr>cr_in_stack := Some r\<rparr>) q = cr_block k q" for q
    using None none by (auto simp: cr_block_def split: option.split)
  have "cr_inv tg n R (k\<lparr>cr_in_stack := Some r\<rparr>) L"
    unfolding cr_inv_def blk using D r None none img by (auto simp: cr_inv_def)
  with that [of k L] img None show thesis by (simp add: cr_load_def)
next
  case (Some a)
  note D = cr_invD [OF inv]
  let ?x = "get_ctx k r" and ?img = "stack_image k r"
  have img: "take (unat (stack_size ?x)) (bytes k a) = ?img"
    using Some none by (simp add: stack_image_def)
  have len: "sp ?x + length ?img = length (shared_stack k)"
    using D(2) D(5) [OF r] D(6) [OF r] by simp
  let ?k = "\<lambda>h. upd_ctx r (\<lambda>x. x\<lparr>stack := None\<rparr>)
    (k\<lparr>shared_stack := overwrite (shared_stack k) (sp ?x) ?img, heap := h\<rparr>)"
  obtain h where h: "mem_free (Some a) (ucast (stack_size ?x)) (heap k) = Some h"
    "live_inv n h (L - cr_block k r)"
  proof (cases "stack_size ?x = 0")
    case True
    with that [of "heap k"] D(1) Some none show thesis by (simp add: mem_free_def cr_block_def)
  next
    case False
    with live_inv_free [OF D(1), of a "ucast (stack_size ?x)"] D(7) [OF r] Some none that show thesis
      by (auto simp: cr_block_def)
  qed
  have load: "cr_load r k = Some (?k h)"
    using Some h(1) img by (simp add: cr_load_def Let_def k_free_def)
  let ?kn = "(?k h)\<lparr>cr_in_stack := Some r\<rparr>"
  have img': "stack_image ?kn q = stack_image k q" if "q \<in> R" for q
    using none drop_overwrite [OF len] by (auto simp: stack_image_def [of ?kn] stack_image_def [of k q]
        split: option.split)
  have blk: "cr_block ?kn q = (if q = r then {} else cr_block k q)" for q
    using none by (auto simp: cr_block_def split: option.split)
  have "cr_inv tg n R ?kn (L - cr_block k r)"
    unfolding cr_inv_def blk
  proof (intro conjI ballI impI)
    show "live_inv n (heap ?kn) (L - cr_block k r)" using h(2) by simp
    show "length (shared_stack ?kn) = STACK_SIZE tg" using len D(2) by (simp add: overwrite_length)
  next
    fix q assume q: "q \<in> R"
    show "length (stack_image ?kn q) = STACK_SIZE tg - sp (get_ctx ?kn q)"
      using img' [OF q] D(6) [OF q] by simp
    show "(if q = r then {} else cr_block k q) \<subseteq> L - cr_block k r"
      using D(7) [OF q] D(10) [OF q r] by (cases "q = r") auto
    show "cr_in_stack ?kn = Some q \<Longrightarrow> stack (get_ctx ?kn q) = None" by simp
    show "cr_in_stack ?kn \<noteq> Some q \<Longrightarrow> stack (get_ctx ?kn q) \<noteq> None \<Longrightarrow>
      unat (stack_size (get_ctx ?kn q)) = STACK_SIZE tg - sp (get_ctx ?kn q)"
      using D(9) [OF q] none by auto
  qed (use D r in auto)
  with that load img' show thesis by blast
qed

section \<open>Properties\<close>

text \<open>
  C19: \<open>cr_prepare\<close> returns and preserves the stack of every coroutine. When it succeeds the
  coroutine it was called for is the one in the shared stack; when it fails, because the stack of
  the other one does not fit in memory, the shared stack has not changed hands.
\<close>

theorem cr_prepare_keeps_stacks:
  assumes inv: "cr_inv tg n R k L" and r: "r \<in> R"
  shows "\<exists>ok k' L'. cr_prepare tg r k = Some (ok, k') \<and> cr_inv tg n R k' L' \<and>
    (\<forall>q\<in>R. stack_image k' q = stack_image k q) \<and>
    cr_in_stack k' = (if ok then Some r else cr_in_stack k)"
proof (cases "cr_in_stack k = Some r")
  case True
  with inv show ?thesis by (auto simp: cr_prepare_def)
next
  case False
  show ?thesis
  proof (cases "cr_in_stack k")
    case None
    obtain k' L' where "cr_load r k = Some k'" "cr_inv tg n R (k'\<lparr>cr_in_stack := Some r\<rparr>) L'"
      "\<forall>q\<in>R. stack_image (k'\<lparr>cr_in_stack := Some r\<rparr>) q = stack_image k q"
      by (rule cr_load_spec [OF inv None r])
    then show ?thesis
      by (intro exI [of _ True] exI [of _ "k'\<lparr>cr_in_stack := Some r\<rparr>"] exI [of _ L'])
        (simp add: cr_prepare_def None)
  next
    case (Some q)
    from inv Some show ?thesis
    proof (cases rule: cr_save_spec)
      case (full k')
      with False Some show ?thesis
        by (intro exI [of _ False] exI [of _ k'] exI [of _ L]) (simp add: cr_prepare_def)
    next
      case (saved k1 L1)
      obtain k2 L2 where k2: "cr_load r (k1\<lparr>cr_in_stack := None\<rparr>) = Some k2"
        "cr_inv tg n R (k2\<lparr>cr_in_stack := Some r\<rparr>) L2"
        "\<forall>q\<in>R. stack_image (k2\<lparr>cr_in_stack := Some r\<rparr>) q = stack_image (k1\<lparr>cr_in_stack := None\<rparr>) q"
        by (rule cr_load_spec [OF saved(2) _ r]) simp
      from k2(1) obtain k3 where "cr_load r k1 = Some k3" "k2 = k3\<lparr>cr_in_stack := None\<rparr>"
        by (auto simp: cr_load_in_stack)
      with False Some saved(1,3) k2(2,3) show ?thesis
        by (intro exI [of _ True] exI [of _ "k3\<lparr>cr_in_stack := Some r\<rparr>"] exI [of _ L2])
          (simp add: cr_prepare_def)
    qed
  qed
qed

definition two_coroutines :: "heap \<Rightarrow> kernel" where
  "two_coroutines h = undefined\<lparr>heap := h, shared_stack := replicate 4096 0, cr_in_stack := Some (Service_cr 1),
     services := (\<lambda>s. undefined\<lparr>coroutine := undefined\<lparr>curr_context :=
       \<lparr>sp = (if s = 1 then 3996 else 4096), stack = None, stack_size = 0, status = cr_active\<rparr>\<rparr>\<rparr>)\<rparr>"

theorem cr_prepare_keeps_stacks_witness:
  "\<exists>h ok k' L'. cr_prepare example_target (Service_cr 2) (two_coroutines h) = Some (ok, k') \<and>
     cr_inv example_target 8192 {Service_cr 1, Service_cr 2} k' L' \<and>
     stack_image k' (Service_cr 1) = replicate 100 0"
proof -
  let ?k = "two_coroutines (mem_reset 8192 heap_static)"
  have "live_inv 8192 (mem_reset 8192 heap_static) {}" by (rule live_inv_reset) simp_all
  then have "cr_inv example_target 8192 {Service_cr 1, Service_cr 2} ?k {}"
    by (auto simp: cr_inv_def two_coroutines_def example_target_def stack_image_def cr_block_def get_ctx_def)
  from cr_prepare_keeps_stacks [OF this, of "Service_cr 2"]
  show ?thesis by (fastforce simp: two_coroutines_def stack_image_def get_ctx_def)
qed

lemma context_backup_result:
  assumes "context_backup tg s seq i k = Some (Some c, k1)"
    and "sp (get_ctx k (Service_cr s)) \<le> STACK_SIZE tg" and "STACK_SIZE tg < 16384"
    and "length (shared_stack k) = STACK_SIZE tg"
  shows "if_outseqno (in_flights k1 i) = seq \<and> infos (in_flights k1 i) = Some c \<and>
    sp (contexts k1 c) = sp (get_ctx k (Service_cr s)) \<and>
    status (contexts k1 c) = status (get_ctx k (Service_cr s)) \<and>
    (case stack (contexts k1 c) of
       None \<Rightarrow> sp (get_ctx k (Service_cr s)) = STACK_SIZE tg
     | Some a \<Rightarrow> take (unat (stack_size (contexts k1 c))) (bytes k1 a) =
                 drop (sp (get_ctx k (Service_cr s))) (shared_stack k))"
proof -
  let ?x = "get_ctx k (Service_cr s)" and ?m = "STACK_SIZE tg - sp (get_ctx k (Service_cr s))"
  have m: "?m < 16384" using assms(3) by linarith
  note w = unat_stack_bytes [OF m] unat_stack_size [OF m]
  have len: "length (drop (sp ?x) (shared_stack k)) = ?m" using assms(4) by simp
  obtain h1 where a1: "k_alloc (sizeof_cr_context tg) k = Some (Some c, k\<lparr>heap := h1\<rparr>)"
    using assms(1) unfolding context_backup_def Let_def
    by (auto simp: bind_eq_Some_conv k_alloc_def split: option.splits if_splits)
  show ?thesis
  proof (cases "?m = 0")
    case True
    then have "(of_nat ?m :: u16) = 0" by simp
    with assms(1) a1 True have k1: "k1 = upd_service s (\<lambda>v. v\<lparr>in_flight_infos := Some i\<rparr>)
        (upd_in_flight i (\<lambda>f. f\<lparr>if_outseqno := seq, infos := Some c, if_next := in_flight_infos (services k s)\<rparr>)
          (k\<lparr>heap := h1, contexts := (contexts k)(c := ?x\<lparr>stack_size := 0, stack := None\<rparr>)\<rparr>))"
      by (simp add: context_backup_def Let_def)
    show ?thesis using True assms(2) by (simp add: k1)
  next
    case False
    then have nz: "(of_nat ?m :: u16) \<noteq> 0" "(ucast (of_nat ?m :: u16) :: 14 word) \<noteq> 0"
      using w by (metis unsigned_0)+
    obtain st h2 where a2: "k_alloc (of_nat ?m) (k\<lparr>heap := h1\<rparr>) = Some (Some st, k\<lparr>heap := h2\<rparr>)"
    proof (cases "k_alloc (of_nat ?m) (k\<lparr>heap := h1\<rparr>)")
      case None
      with assms(1) a1 nz show thesis by (simp add: context_backup_def Let_def del: of_nat_diff)
    next
      case (Some r)
      obtain p k' where r: "r = (p, k')" by (cases r)
      then have "k' = k\<lparr>heap := heap k'\<rparr>"
        using Some by (auto simp: k_alloc_def bind_eq_Some_conv)
      moreover have "p \<noteq> None"
      proof
        assume "p = None"
        with assms(1) a1 nz Some r show False
          by (simp add: context_backup_def Let_def bind_eq_Some_conv del: of_nat_diff)
      qed
      ultimately show thesis using that Some r by auto
    qed
    let ?ss = "ucast (of_nat ?m :: u16) :: 14 word"
    let ?img = "drop (sp ?x) (shared_stack k)"
    have img: "take ?m ?img = ?img" using len by simp
    have k1: "k1 = upd_service s (\<lambda>v. v\<lparr>in_flight_infos := Some i\<rparr>)
        (upd_in_flight i (\<lambda>f. f\<lparr>if_outseqno := seq, infos := Some c, if_next := in_flight_infos (services k s)\<rparr>)
          (k\<lparr>heap := h2, contexts := (contexts k)(c := ?x\<lparr>stack_size := ?ss, stack := Some st\<rparr>),
             bytes := (bytes k)(st := overwrite (bytes k st) 0 ?img)\<rparr>))"
      using assms(1) a1 a2 nz by (simp add: context_backup_def Let_def w(1) img del: take_drop of_nat_diff)
    have "contexts k1 c = ?x\<lparr>stack_size := ?ss, stack := Some st\<rparr>"
      "bytes k1 st = overwrite (bytes k st) 0 ?img" "if_outseqno (in_flights k1 i) = seq"
      "infos (in_flights k1 i) = Some c"
      unfolding k1 by simp_all
    moreover have "take (unat ?ss) (overwrite (bytes k st) 0 ?img) = ?img"
      using take_overwrite_0 [of ?img "bytes k st"] unfolding w(2) len .
    ultimately show ?thesis by simp
  qed
qed

lemma select_first:
  "p = Some i \<Longrightarrow> if_outseqno (ifs i) = seq \<Longrightarrow> select_in_flight ifs seq p = Some (Some i)"
  by (subst select_in_flight.simps) simp

text \<open>
  A context that is saved with a segment is what \<open>context_restore\<close> gives back for its sequence
  number, however the coroutine and the shared stack have changed in between: the same stack
  pointer and status, and the same bytes from there to the end of the shared stack.
\<close>

theorem context_restore_restores:
  assumes backup: "context_backup tg s seq i k = Some (Some c, k1)"
    and small: "sp (get_ctx k (Service_cr s)) \<le> STACK_SIZE tg" "STACK_SIZE tg < 16384"
      "length (shared_stack k) = STACK_SIZE tg" "length (shared_stack k2) = STACK_SIZE tg"
    and kept: "in_flight_infos (services k2 s) = Some i" "in_flights k2 i = in_flights k1 i"
      "contexts k2 c = contexts k1 c" "\<And>a. stack (contexts k1 c) = Some a \<Longrightarrow> bytes k2 a = bytes k1 a"
  shows "\<exists>k3. context_restore s seq k2 = Some (Some i, k3) \<and>
    sp (get_ctx k3 (Service_cr s)) = sp (get_ctx k (Service_cr s)) \<and>
    status (get_ctx k3 (Service_cr s)) = status (get_ctx k (Service_cr s)) \<and>
    drop (sp (get_ctx k (Service_cr s))) (shared_stack k3) =
      drop (sp (get_ctx k (Service_cr s))) (shared_stack k)"
proof -
  note res = context_backup_result [OF backup small(1-3)]
  have sel: "if_select s seq k2 = Some (Some i)"
    unfolding if_select_def using res kept(1,2) by (intro select_first) auto
  show ?thesis
  proof (cases "stack (contexts k1 c)")
    case None
    with sel res kept small show ?thesis by (simp add: context_restore_def Let_def)
  next
    case (Some a)
    let ?img = "drop (sp (get_ctx k (Service_cr s))) (shared_stack k)"
    have "sp (get_ctx k (Service_cr s)) + length ?img = length (shared_stack k2)"
      using small by simp
    from drop_overwrite [OF this] sel res kept Some show ?thesis
      by (simp add: context_restore_def Let_def)
  qed
qed

theorem context_restore_restores_witness:
  "\<exists>h c k1 k3. context_backup example_target 1 77 50 (two_coroutines h) = Some (Some c, k1) \<and>
     context_restore 1 77 (k1\<lparr>shared_stack := replicate 4096 255\<rparr>) = Some (Some 50, k3) \<and>
     drop 3996 (shared_stack k3) = replicate 100 0"
proof -
  let ?h = "mem_reset 8192 heap_static" and ?s = "Service_cr 1"
  let ?k = "two_coroutines ?h"
  have "heap_inv 8192 ?h [(0, 8192)]" by (rule heap_inv_reset) simp_all
  then obtain h1 h2 where h: "mem_alloc 16 ?h = Some (Some 0, h1)" "mem_alloc 100 h1 = Some (Some 4, h2)"
    using alloc_at_start [of 8192 ?h 0 16] alloc_at_start [of 8192 _ 4 100]
    by (fastforce simp: unat_cells_of_size)
  have "\<exists>k1. context_backup example_target 1 77 50 ?k = Some (Some 0, k1) \<and>
      in_flight_infos (services k1 1) = Some 50"
    using h by (simp add: context_backup_def two_coroutines_def example_target_def get_ctx_def k_alloc_def)
  then obtain k1 where k1: "context_backup example_target 1 77 50 ?k = Some (Some 0, k1)"
    "in_flight_infos (services k1 1) = Some 50" by blast
  have "sp (get_ctx ?k ?s) = 3996" by (simp add: two_coroutines_def get_ctx_def)
  with context_restore_restores [OF k1(1), of "k1\<lparr>shared_stack := replicate 4096 255\<rparr>"] k1 show ?thesis
    by (fastforce simp: example_target_def two_coroutines_def)
qed

lemma upd_ctx_service [simp]:
  "in_flight_infos (services (upd_ctx r f k) s) = in_flight_infos (services k s)"
  "is_persistent (services (upd_ctx r f k) s) = is_persistent (services k s)"
  by (cases r; simp add: upd_ctx_def)+

lemma restored_stack:
  assumes "context_restore s seq k = Some (Some i, k')" and "infos (in_flights k i) = Some c"
  shows "get_ctx k' (Service_cr s) = contexts k c" "in_flights k' = in_flights k"
    "contexts k' = contexts k" "heap k' = heap k"
    "in_flight_infos (services k' s) = in_flight_infos (services k s)"
    "is_persistent (services k' s) = is_persistent (services k s)"
proof -
  obtain p where p: "if_select s seq k = Some p"
    using assms(1) by (cases "if_select s seq k") (auto simp: context_restore_def)
  then have "p = Some i"
    using assms(1) by (auto simp: context_restore_def Let_def split: option.splits)
  with p assms have "k' = upd_ctx (Service_cr s) (\<lambda>_. contexts k c) k \<or>
      (\<exists>x. k' = (upd_ctx (Service_cr s) (\<lambda>_. contexts k c) k)\<lparr>shared_stack := x\<rparr>)"
    by (auto simp: context_restore_def Let_def split: option.splits)
  then show "get_ctx k' (Service_cr s) = contexts k c" "in_flights k' = in_flights k"
    "contexts k' = contexts k" "heap k' = heap k"
    "in_flight_infos (services k' s) = in_flight_infos (services k s)"
    "is_persistent (services k' s) = is_persistent (services k s)"
    by auto
qed

lemma get_ctx_shortened [simp]: "get_ctx (shortened s xs k) r = get_ctx k r"
  by (cases r) (simp_all add: shortened_def get_ctx_def)

text \<open>
  After a retransmission the coroutine of the service and the in-flight segment share a
  block. \<open>context_restore\<close> copies the pointer to the saved stack with the context; when the
  segment is then acknowledged, \<open>clean_service\<close> frees that block, and \<open>cr_clean\<close>, which the receiver
  calls next when the service is over, frees it a second time.
\<close>

theorem retransmission_double_free:
  assumes inv: "service_inv tg n k L s (i # xs)" and "\<not> is_persistent (services k s)"
    and restored: "context_restore s seq k = Some (Some i, k2)"
    and c: "infos (in_flights k i) = Some c" "stack (contexts k c) = Some a"
      "stack_size (contexts k c) \<noteq> 0"
    and acked: "if_outseqno (in_flights k i) < inack"
  shows "\<exists>k3 L3. clean_service tg s (Some inack) k2 = Some k3 \<and> service_inv tg n k3 L3 s [] \<and>
    (a, ucast (stack_size (contexts k c))) \<in> L - L3 \<and>
    cr_clean (Service_cr s) k3 =
      k_free (Some a) (ucast (stack_size (contexts k c)))
        (if cr_in_stack k3 = Some (Service_cr s) then k3\<lparr>cr_in_stack := None\<rparr> else k3)"
proof -
  note res = restored_stack [OF restored c(1)]
  have blocks: "service_blocks tg p k2 ys = service_blocks tg p k ys" for p ys
    by (rule service_blocks_cong) (simp_all add: res)
  have inv2: "service_inv tg n k2 L s (i # xs)"
    using inv unfolding service_inv_def res blocks by simp
  have whole: "takeWhile (unacked k2 (Some inack)) (i # xs) = []"
    "dropWhile (unacked k2 (Some inack)) (i # xs) = i # xs"
    using acked by (simp_all add: res linorder_not_le)
  let ?B = "set (service_blocks tg False k (i # xs))"
  obtain k3 where k3: "clean_service tg s (Some inack) k2 = Some k3" "service_inv tg n k3 (L - ?B) s []"
    "get_ctx k3 (Service_cr s) = contexts k c"
  proof -
    from clean_service_spec [OF inv2, of "Some inack"] obtain k3 h where
      "clean_service tg s (Some inack) k2 = Some k3" "service_inv tg n k3 (L - ?B) s []"
      "k3 = (shortened s [] k2)\<lparr>heap := h\<rparr>"
      unfolding whole unfolding res blocks using assms(2) by auto
    with that res(1) show thesis by simp
  qed
  have mem: "(a, ucast (stack_size (contexts k c))) \<in> ?B"
    using c assms(2) by (simp add: service_blocks_Cons if_blocks_def)
  moreover have "?B \<subseteq> L" using inv assms(2) by (simp add: service_inv_def)
  ultimately have "(a, ucast (stack_size (contexts k c))) \<in> L - (L - ?B)" by blast
  moreover have "cr_clean (Service_cr s) k3 = k_free (Some a) (ucast (stack_size (contexts k c)))
      (if cr_in_stack k3 = Some (Service_cr s) then k3\<lparr>cr_in_stack := None\<rparr> else k3)"
    using k3(3) c(2) by (simp add: cr_clean_def Let_def)
  ultimately show ?thesis using k3(1,2) by blast
qed

definition retransmitting :: "heap \<Rightarrow> kernel" where
  "retransmitting h = undefined\<lparr>heap := h, shared_stack := replicate 4096 0,
     services := (\<lambda>_. undefined\<lparr>in_flight_infos := Some 0, is_persistent := False\<rparr>),
     in_flights := (\<lambda>_. example_segment 1000 5 None),
     contexts := (\<lambda>_. \<lparr>sp = 3996, stack = Some 9, stack_size = 100, status = cr_active\<rparr>),
     bytes := (\<lambda>_. replicate 100 1)\<rparr>"

theorem retransmission_double_free_witness:
  "\<exists>h k2 k3 L3. context_restore 1 1000 (retransmitting h) = Some (Some 0, k2) \<and>
     clean_service example_target 1 (Some 3000) k2 = Some k3 \<and>
     service_inv example_target 8192 k3 L3 1 [] \<and> (9, 100) \<notin> L3"
proof -
  let ?L = "{(0, 20), (5, 16), (9, 100)} :: live"
  obtain h where h: "live_inv 8192 h ?L"
    using heap_with_blocks [of "[20, 16, 100]" 8192] by (auto simp: unat_cells_of_size)
  let ?k = "retransmitting h"
  have inv: "service_inv example_target 8192 ?k ?L 1 [0]"
    using h by (simp add: service_inv_def retransmitting_def example_segment_def service_blocks_def
        if_blocks_def example_target_def)
  have "if_select 1 1000 ?k = Some (Some 0)"
    unfolding if_select_def by (rule select_first) (simp_all add: retransmitting_def example_segment_def)
  then have "\<exists>k2. context_restore 1 1000 ?k = Some (Some 0, k2)"
    by (simp add: context_restore_def retransmitting_def example_segment_def Let_def)
  then obtain k2 where k2: "context_restore 1 1000 ?k = Some (Some 0, k2)" by blast
  from retransmission_double_free [OF inv _ k2, of 5 9 3000] k2 show ?thesis
    by (fastforce simp: retransmitting_def example_segment_def)
qed

end
