(* ===== verification/Connections.thy ===== *)
theory Connections
  imports Coroutines
begin

text \<open>
  The connections, \<open>core/connections.c\<close>: a circular doubly linked list of the structures that the
  allocator gives, in the order in which they take their turn to send. The theory refines it to a
  queue (a HOL list whose head is \<open>all_connections\<close>): an insertion appends, a removal takes an
  element out and rotates the queue behind it, the scheduler picks the first element that can
  send and rotates behind it.
\<close>

section \<open>Model\<close>

definition IS_GPIP :: "site \<Rightarrow> connection \<Rightarrow> bool" where
  "IS_GPIP st c = IS_GPIP_HANDLER st (output_handler c)"

abbreviation "IS_HTTP st c \<equiv> \<not> IS_GPIP st c"

definition something_to_send :: "site \<Rightarrow> connection \<Rightarrow> u8" where
  "something_to_send st c =
    (if IS_GPIP st c then want_to_send (gpip c)
     else case output_handler c of
            None \<Rightarrow> 0
          | Some r \<Rightarrow>
              if handler_type (handler st r) = type_control \<or> comet_send_ack (http c) then 1
              else if tcp_state (http c) = tcp_established
                      \<and> next_outseqno (http c) \<noteq> final_outseqno (http c) then 1 else 0)"

text \<open>A copy of \<open>from\<close>; with \<open>from = NULL\<close> the structure keeps what its memory held.\<close>

definition add_connection :: "target \<Rightarrow> connection option \<Rightarrow> kernel \<Rightarrow> (ptr \<times> kernel) option" where
  "add_connection tg from k =
    do { (p, k) \<leftarrow> k_alloc (sizeof_connection tg) k;
         case p of
           None \<Rightarrow> Some (None, k)
         | Some c \<Rightarrow>
            (let k = (case from of None \<Rightarrow> k | Some f \<Rightarrow> upd_connection c (\<lambda>_. f) k)
             in case all_connections k of
                  None \<Rightarrow>
                    Some (Some c, (upd_connection c (\<lambda>x. x\<lparr>conn_next := c, conn_prev := c\<rparr>) k)
                                    \<lparr>all_connections := Some c\<rparr>)
                | Some a \<Rightarrow>
                    (let p = conn_prev (connections k a);
                         k = upd_connection c (\<lambda>x. x\<lparr>conn_prev := p\<rparr>) k;
                         k = upd_connection p (\<lambda>x. x\<lparr>conn_next := c\<rparr>) k;
                         k = upd_connection c (\<lambda>x. x\<lparr>conn_next := a\<rparr>) k
                     in Some (Some c, upd_connection a (\<lambda>x. x\<lparr>conn_prev := c\<rparr>) k))) }"

text \<open>The list operations of \<open>free_connection\<close>.\<close>

definition unlink :: "nat \<Rightarrow> kernel \<Rightarrow> kernel" where
  "unlink c k =
    (let nxt = conn_next (connections k c);
         k = upd_connection (conn_prev (connections k c)) (\<lambda>x. x\<lparr>conn_next := nxt\<rparr>) k;
         k = upd_connection (conn_next (connections k c))
               (\<lambda>x. x\<lparr>conn_prev := conn_prev (connections k c)\<rparr>) k
     in k\<lparr>all_connections := (if c = conn_next (connections k c) then None
                              else Some (conn_next (connections k c)))\<rparr>)"

definition free_content :: "target \<Rightarrow> site \<Rightarrow> connection \<Rightarrow> kernel \<Rightarrow> kernel option" where
  "free_content tg st conn k =
    (if IS_HTTP st conn then
       do { k \<leftarrow> (case output_handler conn of
                    None \<Rightarrow> Some k
                  | Some r \<Rightarrow>
                     if args (http conn) \<noteq> None
                     then k_free (args (http conn)) (args_size (handler st r)) k else Some k);
            case generator_service (http conn) of
              None \<Rightarrow> Some k
            | Some s \<Rightarrow>
                do { k \<leftarrow> clean_service tg s None k;
                     k_free (Some s) (sizeof_generator_service tg) k } }
     else Some k)"

definition free_connection :: "target \<Rightarrow> site \<Rightarrow> nat \<Rightarrow> kernel \<Rightarrow> kernel option" where
  "free_connection tg st c k =
    (let k = unlink c k
     in do { k \<leftarrow> free_content tg st (connections k c) k;
             k_free (Some c) (sizeof_connection tg) k })"

definition get_local_ip :: "target \<Rightarrow> u32" where
  "get_local_ip tg = local_ip_addr tg"

definition get_remote_ip :: "kernel \<Rightarrow> nat \<Rightarrow> u32" where
  "get_remote_ip k c = ip_addr (connections k c)"

definition get_current_remote_ip :: "kernel \<Rightarrow> u32 option" where
  "get_current_remote_ip k =
    (case all_connections k of
       None \<Rightarrow> None
     | Some a \<Rightarrow> Some (get_remote_ip k (conn_prev (connections k a))))"

definition get_payload_size :: "site \<Rightarrow> connection \<Rightarrow> u16" where
  "get_payload_size st c = (if IS_GPIP st c then payload_size (gpip c) else 0)"

definition get_protocol :: "site \<Rightarrow> connection \<Rightarrow> u16" where
  "get_protocol st c = (if IS_GPIP st c then u8_to_u16 (gp_protocol (gpip c)) else 0)"

definition get_send_code :: "site \<Rightarrow> connection \<Rightarrow> u8" where
  "get_send_code st c = (if IS_GPIP st c then want_to_send (gpip c) else 0)"

text \<open>\<open>local\<close> is the indeterminate content of the local variable that the function copies.\<close>

definition request_packet_out_call ::
  "target \<Rightarrow> site \<Rightarrow> connection \<Rightarrow> u8 \<Rightarrow> u32 \<Rightarrow> kernel \<Rightarrow> (ptr \<times> kernel) option" where
  "request_packet_out_call tg st local protocol dst_ip k =
    do { r \<leftarrow> smews_gpip_get_output_handler st protocol;
         if r = None then Some (None, k)
         else do { (p, k) \<leftarrow> add_connection tg
                     (Some (local\<lparr>output_handler := r, gpip := (gpip local)\<lparr>gp_protocol := protocol\<rparr>\<rparr>)) k;
                   case p of
                     None \<Rightarrow> Some (None, k)
                   | Some c \<Rightarrow>
                       Some (Some c, upd_connection c (\<lambda>x. x\<lparr>ip_addr := dst_ip,
                         gpip := (gpip x)\<lparr>payload_size := 0, want_to_send := 1\<rparr>\<rparr>) k) } }"

text \<open>
  The two uses of \<open>FOR_EACH_CONN\<close>: searching the first connection that satisfies a condition, and
  updating every connection. Both follow \<open>next\<close> from \<open>all_connections\<close> until it comes back.
\<close>

partial_function (option) find_from ::
  "(nat \<Rightarrow> bool) \<Rightarrow> (nat \<Rightarrow> connection) \<Rightarrow> nat \<Rightarrow> nat \<Rightarrow> ptr option" where
  "find_from P conns start c =
     (if P c then Some (Some c)
      else if conn_next (conns c) = start then Some None
      else find_from P conns start (conn_next (conns c)))"

definition find_conn :: "(nat \<Rightarrow> bool) \<Rightarrow> kernel \<Rightarrow> ptr option" where
  "find_conn P k = (case all_connections k of None \<Rightarrow> Some None | Some a \<Rightarrow> find_from P (connections k) a a)"

partial_function (option) each_from :: "(nat \<Rightarrow> kernel \<Rightarrow> kernel option) \<Rightarrow> nat \<Rightarrow> kernel \<Rightarrow> kernel option" where
  "each_from f c k =
     do { k \<leftarrow> f c k;
          if Some (conn_next (connections k c)) = all_connections k then Some k
          else each_from f (conn_next (connections k c)) k }"

definition each_conn :: "(nat \<Rightarrow> kernel \<Rightarrow> kernel option) \<Rightarrow> kernel \<Rightarrow> kernel option" where
  "each_conn f k = (case all_connections k of None \<Rightarrow> Some k | Some a \<Rightarrow> each_from f a k)"

section \<open>The ring\<close>

abbreviation linked :: "(nat \<Rightarrow> connection) \<Rightarrow> nat \<Rightarrow> nat \<Rightarrow> bool" where
  "linked conns a b \<equiv> conn_next (conns a) = b \<and> conn_prev (conns b) = a"

definition ring :: "kernel \<Rightarrow> nat list \<Rightarrow> bool" where
  "ring k cs \<longleftrightarrow> distinct cs \<and>
     (if cs = [] then all_connections k = None
      else all_connections k = Some (hd cs) \<and> successively (linked (connections k)) (cs @ [hd cs]))"

lemma ring_Nil: "ring k [] \<longleftrightarrow> all_connections k = None"
  by (simp add: ring_def)

lemma ring_Cons:
  "ring k (c # cs) \<longleftrightarrow> distinct (c # cs) \<and> all_connections k = Some c \<and>
     successively (linked (connections k)) (c # cs @ [c])"
  by (simp add: ring_def)

lemma successively_rotate:
  "successively P (xs @ ys @ [hd (xs @ ys)]) \<Longrightarrow> successively P (ys @ xs @ [hd (ys @ xs)])"
  by (cases xs; cases ys; cases "tl ys") (auto simp: successively_append_iff successively_Cons hd_append)

lemma ring_rotate:
  "ring k (xs @ ys) \<Longrightarrow> ys \<noteq> [] \<Longrightarrow> ring (k\<lparr>all_connections := Some (hd ys)\<rparr>) (ys @ xs)"
  using successively_rotate [of "linked (connections k)" xs ys] by (auto simp: ring_def split: if_splits)

lemma ring_links:
  assumes "ring k (xs @ c # ys)"
  shows "conn_next (connections k c) = hd (ys @ xs @ [c])" "conn_prev (connections k c) = last (c # ys @ xs)"
proof -
  have *: "successively (linked (connections k)) ((c # ys @ xs) @ [c])"
    using successively_rotate [of "linked (connections k)" xs "c # ys"] assms
    by (simp add: ring_def split: if_splits)
  show "conn_next (connections k c) = hd (ys @ xs @ [c])"
    using * by (simp add: successively_Cons)
  from * show "conn_prev (connections k c) = last (c # ys @ xs)"
    unfolding successively_append_iff by (simp split: if_splits)
qed

lemma successively_linked_cong:
  "successively (linked f) xs \<Longrightarrow> \<forall>x\<in>set (butlast xs). conn_next (g x) = conn_next (f x) \<Longrightarrow>
   \<forall>y\<in>set (tl xs). conn_prev (g y) = conn_prev (f y) \<Longrightarrow> successively (linked g) xs"
proof (induction xs rule: induct_list012)
  case (3 x y zs)
  then show ?case by (cases zs) (auto simp: successively_Cons)
qed simp_all

lemma ring_cong:
  "ring k cs \<Longrightarrow> all_connections k' = all_connections k \<Longrightarrow>
   \<forall>c\<in>set cs. conn_next (connections k' c) = conn_next (connections k c) \<and>
     conn_prev (connections k' c) = conn_prev (connections k c) \<Longrightarrow> ring k' cs"
  by (cases cs) (auto simp: ring_def dest!: in_set_butlastD split: if_splits
      intro!: successively_linked_cong [of "connections k" _ "connections k'"])

lemma successively_ConsD: "successively P (c # zs) \<Longrightarrow> successively P zs"
  by (cases zs) simp_all

lemma set_tl: "y \<in> set (tl xs) \<Longrightarrow> distinct xs \<Longrightarrow> y \<in> set xs \<and> y \<noteq> hd xs"
  by (cases xs) auto

lemma set_butlast: "x \<in> set (butlast xs) \<Longrightarrow> distinct xs \<Longrightarrow> x \<in> set xs \<and> x \<noteq> last xs"
  by (cases xs rule: rev_cases) auto

text \<open>The list operations of an insertion, and its effect.\<close>

definition link_last :: "nat \<Rightarrow> kernel \<Rightarrow> kernel" where
  "link_last c k =
    (case all_connections k of
       None \<Rightarrow> (upd_connection c (\<lambda>x. x\<lparr>conn_next := c, conn_prev := c\<rparr>) k)\<lparr>all_connections := Some c\<rparr>
     | Some a \<Rightarrow>
        (let p = conn_prev (connections k a);
             k = upd_connection c (\<lambda>x. x\<lparr>conn_prev := p\<rparr>) k;
             k = upd_connection p (\<lambda>x. x\<lparr>conn_next := c\<rparr>) k;
             k = upd_connection c (\<lambda>x. x\<lparr>conn_next := a\<rparr>) k
         in upd_connection a (\<lambda>x. x\<lparr>conn_prev := c\<rparr>) k))"

lemma add_connection_eq:
  "add_connection tg from k =
    do { (p, k) \<leftarrow> k_alloc (sizeof_connection tg) k;
         case p of
           None \<Rightarrow> Some (None, k)
         | Some c \<Rightarrow> Some (Some c, link_last c
             (case from of None \<Rightarrow> k | Some f \<Rightarrow> upd_connection c (\<lambda>_. f) k)) }"
  by (auto simp: add_connection_def link_last_def Let_def split: option.split intro!: Option.bind_cong)

lemma ring_link_last:
  assumes "ring k cs" and "c \<notin> set cs"
  shows "ring (link_last c k) (cs @ [c])"
proof (cases cs)
  case Nil
  with assms show ?thesis by (simp add: ring_def link_last_def)
next
  case (Cons a rest)
  let ?g = "connections (link_last c k)"
  have a: "all_connections k = Some a" using assms(1) Cons by (simp add: ring_def)
  have p: "conn_prev (connections k a) = last cs"
    using ring_links(2) [of k "[]" a rest] assms(1) Cons by simp
  have d: "distinct cs" "cs \<noteq> []" using assms(1) Cons by (auto simp: ring_def)
  have ac: "a \<noteq> c" "last cs \<noteq> c" using assms(2) Cons d(2) last_in_set [of cs] by auto
  have "successively (linked (connections k)) cs"
    using assms(1) Cons by (simp add: ring_def successively_append_iff del: append_Cons)
  then have "successively (linked ?g) cs"
  proof (rule successively_linked_cong)
    show "\<forall>x\<in>set (butlast cs). conn_next (?g x) = conn_next (connections k x)"
      using set_butlast [OF _ d(1)] assms(2) by (auto simp: link_last_def a p Let_def)
    show "\<forall>y\<in>set (tl cs). conn_prev (?g y) = conn_prev (connections k y)"
      using set_tl [OF _ d(1)] assms(2) Cons by (auto simp: link_last_def a p Let_def)
  qed
  moreover have "linked ?g (last cs) c" "linked ?g c a"
    using ac by (auto simp: link_last_def a p Let_def)
  ultimately have "successively (linked ?g) (cs @ [c, a])"
    unfolding successively_append_iff by simp
  moreover have "all_connections (link_last c k) = Some a" by (simp add: link_last_def a Let_def)
  ultimately show ?thesis
    using d assms(2) Cons by (simp add: ring_def)
qed

lemma unlink_spec:
  assumes "ring k (xs @ c # ys)"
  shows "ring (unlink c k) (ys @ xs)"
proof (cases "ys @ xs")
  case Nil
  then have "conn_next (connections k c) = c" "conn_prev (connections k c) = c"
    using ring_links [OF assms] by auto
  with Nil show ?thesis by (simp add: ring_def unlink_def Let_def)
next
  case (Cons n rest)
  let ?zs = "ys @ xs" and ?g = "connections (unlink c k)"
  have nxt: "conn_next (connections k c) = n" "conn_prev (connections k c) = last ?zs"
  proof -
    have e: "ys @ xs @ [c] = n # rest @ [c]" using Cons by (metis append_Cons append_assoc)
    show "conn_next (connections k c) = n" "conn_prev (connections k c) = last ?zs"
      using ring_links [OF assms] Cons unfolding e by simp_all
  qed
  have d: "distinct ?zs" "c \<notin> set ?zs" using assms by (auto simp: ring_def)
  have nc: "n \<noteq> c" "last ?zs \<noteq> c" "n = hd ?zs"
    using d(2) Cons last_in_set [of ?zs] by auto
  have "successively (linked (connections k)) ((c # ?zs) @ [c])"
    using successively_rotate [of "linked (connections k)" xs "c # ys"] assms
    by (simp add: ring_def split: if_splits)
  then have "successively (linked (connections k)) (c # ?zs)"
    unfolding successively_append_iff by blast
  then have "successively (linked (connections k)) ?zs" by (rule successively_ConsD)
  then have "successively (linked ?g) ?zs"
  proof (rule successively_linked_cong)
    show "\<forall>x\<in>set (butlast ?zs). conn_next (?g x) = conn_next (connections k x)"
      using set_butlast [OF _ d(1)] nc by (auto simp: unlink_def nxt Let_def)
    show "\<forall>y\<in>set (tl ?zs). conn_prev (?g y) = conn_prev (connections k y)"
      using set_tl [OF _ d(1)] nc by (auto simp: unlink_def nxt Let_def)
  qed
  moreover have "linked ?g (last ?zs) n" using nc by (auto simp: unlink_def nxt Let_def)
  moreover have "all_connections (unlink c k) = Some n" using nc by (simp add: unlink_def nxt Let_def)
  ultimately have "successively (linked ?g) (?zs @ [hd ?zs])" "all_connections (unlink c k) = Some (hd ?zs)"
    unfolding successively_append_iff nc(3) by simp_all
  then show ?thesis unfolding ring_def using d(1) Cons by simp
qed

text \<open>The loops over the connections are traversals of the queue.\<close>

lemma find_from_ring:
  "ring k (pre @ c # post) \<Longrightarrow>
   find_from P (connections k) (hd (pre @ [c])) c = Some (find P (c # post))"
proof (induction post arbitrary: pre c)
  case Nil
  then show ?case
    using ring_links(1) [of k pre c "[]"] by (subst find_from.simps) (auto simp: hd_append)
next
  case (Cons d post)
  have e: "hd ((pre @ [c]) @ [d]) = hd (pre @ [c])" by (cases pre) simp_all
  have "conn_next (connections k c) = d" using ring_links(1) [OF Cons.prems] by simp
  moreover have "d \<noteq> hd (pre @ [c])" using Cons.prems by (cases pre) (auto simp: ring_def)
  moreover have "find_from P (connections k) (hd (pre @ [c])) d = Some (find P (d # post))"
    using Cons.IH [of "pre @ [c]" d] Cons.prems unfolding e by simp
  ultimately show ?case by (subst find_from.simps) simp
qed

lemma find_conn_ring: "ring k cs \<Longrightarrow> find_conn P k = Some (find P cs)"
proof (cases cs)
  case (Cons c post)
  assume "ring k cs"
  with find_from_ring [of k "[]" c post P] Cons show ?thesis by (simp add: find_conn_def ring_def)
qed (simp add: find_conn_def ring_def)

lemma each_from_ring:
  assumes "\<And>c k. ring k cs \<Longrightarrow> c \<in> set cs \<Longrightarrow> \<exists>k'. f c k = Some k' \<and> ring k' cs"
  shows "ring k cs \<Longrightarrow> cs = pre @ c # post \<Longrightarrow> each_from f c k = fold_opt f (c # post) k"
proof (induction post arbitrary: pre c k)
  case Nil
  then obtain k' where k': "f c k = Some k'" "ring k' cs" using assms [OF Nil(1), of c] by auto
  then have "conn_next (connections k' c) = hd cs"
    using ring_links(1) [of k' pre c "[]"] Nil(2) by (auto simp: hd_append)
  moreover have "all_connections k' = Some (hd cs)" using k'(2) Nil(2) by (simp add: ring_def)
  ultimately show ?case using k' by (subst each_from.simps) simp
next
  case (Cons d post)
  then obtain k' where k': "f c k = Some k'" "ring k' cs" using assms [OF Cons.prems(1), of c] by auto
  then have "conn_next (connections k' c) = d"
    using ring_links(1) [of k' pre c "d # post"] Cons.prems(2) by simp
  moreover have "all_connections k' \<noteq> Some d"
    using k'(2) Cons.prems(2) by (cases pre) (auto simp: ring_def)
  moreover have "each_from f d k' = fold_opt f (d # post) k'"
    using Cons.prems(2) k'(2) by (intro Cons.IH [of _ "pre @ [c]"]) simp_all
  ultimately show ?case using k' by (subst each_from.simps) simp
qed

lemma each_conn_ring:
  assumes "\<And>c k. ring k cs \<Longrightarrow> c \<in> set cs \<Longrightarrow> \<exists>k'. f c k = Some k' \<and> ring k' cs" and "ring k cs"
  shows "each_conn f k = fold_opt f cs k"
proof (cases cs)
  case Nil
  with assms(2) show ?thesis by (simp add: each_conn_def ring_def)
next
  case (Cons c post)
  have "each_from f c k = fold_opt f (c # post) k"
    using assms Cons by (intro each_from_ring [of cs f k "[]"]) auto
  with assms(2) Cons show ?thesis by (simp add: each_conn_def ring_def)
qed

lemma each_conn_update:
  assumes ring: "ring k cs"
    and f: "\<And>x. conn_next (f x) = conn_next x \<and> conn_prev (f x) = conn_prev x"
  shows "each_conn (\<lambda>c k. Some (if Q (connections k c) then upd_connection c f k else k)) k =
    Some (k\<lparr>connections := \<lambda>x. if x \<in> set cs \<and> Q (connections k x) then f (connections k x)
                                else connections k x\<rparr>)"
proof -
  let ?f = "\<lambda>c k. Some (if Q (connections k c) then upd_connection c f k else k)"
  have "each_conn ?f k = fold_opt ?f cs k"
    by (rule each_conn_ring [OF _ ring]) (auto intro: ring_cong simp: f)
  moreover have "distinct cs \<Longrightarrow> fold_opt ?f cs k =
      Some (k\<lparr>connections := \<lambda>x. if x \<in> set cs \<and> Q (connections k x) then f (connections k x)
                                else connections k x\<rparr>)"
  proof (induction cs arbitrary: k)
    case (Cons c cs)
    let ?k = "if Q (connections k c) then upd_connection c f k else k"
    have "fold_opt ?f (c # cs) k = fold_opt ?f cs ?k" by simp
    also have "\<dots> = Some (?k\<lparr>connections := \<lambda>x. if x \<in> set cs \<and> Q (connections ?k x)
        then f (connections ?k x) else connections ?k x\<rparr>)"
      using Cons by simp
    also have "?k\<lparr>connections := \<lambda>x. if x \<in> set cs \<and> Q (connections ?k x)
        then f (connections ?k x) else connections ?k x\<rparr> =
      k\<lparr>connections := \<lambda>x. if x \<in> set (c # cs) \<and> Q (connections k x) then f (connections k x)
                                else connections k x\<rparr>"
    proof -
      have "(\<lambda>x. if x \<in> set cs \<and> Q (connections ?k x) then f (connections ?k x) else connections ?k x) =
        (\<lambda>x. if x \<in> set (c # cs) \<and> Q (connections k x) then f (connections k x) else connections k x)"
        using Cons.prems by (auto simp: fun_eq_iff)
      then show ?thesis by (simp only:) simp
    qed
    finally show ?case .
  qed simp
  ultimately show ?thesis using ring by (simp add: ring_def split: if_splits)
qed

section \<open>Allocation and release\<close>

lemma link_last_heap [simp]: "heap (link_last c k) = heap k"
  by (simp add: link_last_def Let_def split: option.split)

text \<open>A connection up to its place in the ring.\<close>

abbreviation content :: "connection \<Rightarrow> connection" where
  "content x \<equiv> x\<lparr>conn_next := 0, conn_prev := 0\<rparr>"

lemma link_last_content: "content (connections (link_last c k) x) = content (connections k x)"
  by (simp add: link_last_def Let_def split: option.split)

lemma unlink_content: "content (connections (unlink c k) x) = content (connections k x)"
  by (simp add: unlink_def Let_def)

lemma unlink_frame [simp]:
  "heap (unlink c k) = heap k" "services (unlink c k) = services k"
  "in_flights (unlink c k) = in_flights k" "contexts (unlink c k) = contexts k"
  "cr_in_stack (unlink c k) = cr_in_stack k"
  by (simp_all add: unlink_def Let_def)

lemma content_fields:
  "content x = content y \<Longrightarrow> ip_addr x = ip_addr y \<and> output_handler x = output_handler y \<and>
    gpip x = gpip y \<and> http x = http y"
  by (cases x; cases y) simp

definition arg_blocks :: "('r \<Rightarrow> u16) \<Rightarrow> 'r option \<Rightarrow> ptr \<Rightarrow> (nat \<times> u16) list" where
  "arg_blocks sz r a =
    (if r \<noteq> None \<and> a \<noteq> None \<and> sz (the r) \<noteq> 0 then [(the a, sz (the r))] else [])"

text \<open>The blocks that a connection owns, in the order they are freed; \<open>xs\<close> are its segments.\<close>

definition conn_blocks :: "target \<Rightarrow> site \<Rightarrow> kernel \<Rightarrow> nat \<Rightarrow> nat list \<Rightarrow> (nat \<times> u16) list" where
  "conn_blocks tg st k c xs =
    (let conn = connections k c
     in (if IS_HTTP st conn then
           arg_blocks (\<lambda>r. args_size (handler st r)) (output_handler conn) (args (http conn)) @
           (case generator_service (http conn) of
              None \<Rightarrow> []
            | Some s \<Rightarrow> service_blocks tg (is_persistent (services k s)) k xs
                        @ [(s, sizeof_generator_service tg)])
         else []) @ [(c, sizeof_connection tg)])"

definition conn_inv :: "target \<Rightarrow> site \<Rightarrow> nat \<Rightarrow> kernel \<Rightarrow> live \<Rightarrow> nat \<Rightarrow> nat list \<Rightarrow> bool" where
  "conn_inv tg st n k L c xs \<longleftrightarrow>
     live_inv n (heap k) L \<and>
     (\<forall>s. IS_HTTP st (connections k c) \<longrightarrow> generator_service (http (connections k c)) = Some s \<longrightarrow>
        service_inv tg n k L s xs) \<and>
     distinct (conn_blocks tg st k c xs) \<and> set (conn_blocks tg st k c xs) \<subseteq> L"

lemma shortened_frame [simp]:
  "connections (shortened s ks k) = connections k" "heap (shortened s ks k) = heap k"
  "all_connections (shortened s ks k) = all_connections k" "cr_in_stack (shortened s ks k) = cr_in_stack k"
  by (simp_all add: shortened_def)

lemma service_inv_heap:
  assumes "service_inv tg n k L s xs" and "live_inv n h L'" and "L' \<subseteq> L"
    and "set (service_blocks tg (is_persistent (services k s)) k xs) \<inter> (L - L') = {}"
    and "k' = k\<lparr>heap := h\<rparr> \<or> k' = k\<lparr>all_connections := a, connections := cs, heap := h\<rparr>"
  shows "service_inv tg n k' L' s xs"
proof -
  have blocks: "service_blocks tg p k' xs = service_blocks tg p k xs" for p
    using assms(5) by (intro service_blocks_cong) auto
  have "set (service_blocks tg (is_persistent (services k s)) k xs) \<subseteq> L'"
    using assms(1,4) unfolding service_inv_def by blast
  with assms(1,2,5) show ?thesis unfolding service_inv_def blocks by auto
qed

text \<open>What \<open>free_connection\<close> frees of a service.\<close>

lemma free_service:
  assumes "service_inv tg n k L s xs" and "(s, sizeof_generator_service tg) \<in> L"
    and "(s, sizeof_generator_service tg) \<notin> set (service_blocks tg (is_persistent (services k s)) k xs)"
  shows "\<exists>k'. do { k \<leftarrow> clean_service tg s None k; k_free (Some s) (sizeof_generator_service tg) k } = Some k' \<and>
    live_inv n (heap k') (L - set (service_blocks tg (is_persistent (services k s)) k xs)
      - {(s, sizeof_generator_service tg)}) \<and>
    connections k' = connections k \<and> all_connections k' = all_connections k \<and> cr_in_stack k' = cr_in_stack k"
proof -
  let ?B = "set (service_blocks tg (is_persistent (services k s)) k xs)"
  have all: "dropWhile (unacked k None) xs = xs" "takeWhile (unacked k None) xs = []"
    by (cases xs; simp)+
  obtain k1 h where k1: "clean_service tg s None k = Some k1" "service_inv tg n k1 (L - ?B) s []"
    "k1 = (if xs = [] then k else shortened s [] k)\<lparr>heap := h\<rparr>"
    using clean_service_spec [OF assms(1), of None] unfolding all by blast
  have "live_inv n (heap k1) (L - ?B)" using k1(2) by (simp add: service_inv_def)
  from k_free_live [OF this, of s "sizeof_generator_service tg"] assms(2,3) obtain h' where
    "k_free (Some s) (sizeof_generator_service tg) k1 = Some (k1\<lparr>heap := h'\<rparr>)"
    "live_inv n h' (L - ?B - {(s, sizeof_generator_service tg)})" by auto
  with k1 show ?thesis by auto
qed

lemma k_free_args:
  assumes "live_inv n (heap k) L" and "set (arg_blocks sz r a) \<subseteq> L"
  shows "\<exists>h. (case r of None \<Rightarrow> Some k | Some r \<Rightarrow> if a \<noteq> None then k_free a (sz r) k else Some k) =
      Some (k\<lparr>heap := h\<rparr>) \<and> live_inv n h (L - set (arg_blocks sz r a))"
proof (cases "r \<noteq> None \<and> a \<noteq> None \<and> sz (the r) \<noteq> 0")
  case True
  then obtain r' a' where "r = Some r'" "a = Some a'" "sz r' \<noteq> 0" by auto
  with k_free_live [OF assms(1), of a' "sz r'"] assms(2) show ?thesis by (auto simp: arg_blocks_def)
next
  case False
  then have "(case r of None \<Rightarrow> Some k | Some r \<Rightarrow> if a \<noteq> None then k_free a (sz r) k else Some k) =
      Some (k\<lparr>heap := heap k\<rparr>)" "arg_blocks sz r a = []"
    by (auto simp: arg_blocks_def split: option.split)
  with assms(1) show ?thesis by (metis Diff_empty list.set(1))
qed

lemma free_content_cong:
  "output_handler x = output_handler y \<Longrightarrow> http x = http y \<Longrightarrow> free_content tg st x k = free_content tg st y k"
  unfolding free_content_def IS_GPIP_def by (simp only:)

lemma free_connection_spec:
  assumes ring: "ring k (pre @ c # post)" and inv: "conn_inv tg st n k L c xs"
  shows "\<exists>k'. free_connection tg st c k = Some k' \<and> ring k' (post @ pre) \<and>
    live_inv n (heap k') (L - set (conn_blocks tg st k c xs)) \<and> cr_in_stack k' = cr_in_stack k \<and>
    connections k' = connections (unlink c k)"
proof -
  let ?k = "unlink c k" and ?conn = "connections k c"
  have ring': "ring ?k (post @ pre)" by (rule unlink_spec [OF ring])
  have same: "output_handler (connections ?k c) = output_handler ?conn"
    "http (connections ?k c) = http ?conn"
    using content_fields [OF unlink_content [of c k c]] by simp_all
  have eq: "free_connection tg st c k =
      do { k \<leftarrow> free_content tg st ?conn ?k; k_free (Some c) (sizeof_connection tg) k }"
    using free_content_cong [OF same] by (simp add: free_connection_def Let_def)
  have ringk: "ring k' (post @ pre)" if "connections k' = connections ?k" "all_connections k' = all_connections ?k" for k'
    using ring' that by (intro ring_cong [OF ring']) auto
  have live: "live_inv n (heap ?k) L" using inv by (simp add: conn_inv_def)
  let ?B = "set (conn_blocks tg st k c xs)"
  show ?thesis
  proof (cases "IS_GPIP st ?conn")
    case True
    then have B: "?B = {(c, sizeof_connection tg)}" by (simp add: conn_blocks_def Let_def)
    then have "(c, sizeof_connection tg) \<in> L" using inv by (simp add: conn_inv_def)
    from k_free_live [OF live this] True B ringk show ?thesis
      by (auto simp: eq free_content_def)
  next
    case False
    let ?sz = "\<lambda>r. args_size (handler st r)"
    let ?args = "arg_blocks ?sz (output_handler ?conn) (args (http ?conn))"
    have sub: "set ?args \<subseteq> L" and dist: "distinct (conn_blocks tg st k c xs)"
      using inv False by (auto simp: conn_inv_def conn_blocks_def Let_def)
    obtain h where h: "(case output_handler ?conn of None \<Rightarrow> Some ?k
          | Some r \<Rightarrow> if args (http ?conn) \<noteq> None then k_free (args (http ?conn)) (?sz r) ?k else Some ?k) =
        Some (?k\<lparr>heap := h\<rparr>)" "live_inv n h (L - set ?args)"
      using k_free_args [OF live sub] by blast
    show ?thesis
    proof (cases "generator_service (http ?conn)")
      case None
      have B: "?B = set ?args \<union> {(c, sizeof_connection tg)}" and "(c, sizeof_connection tg) \<notin> set ?args"
        "(c, sizeof_connection tg) \<in> L"
        using inv False None by (auto simp: conn_inv_def conn_blocks_def Let_def)
      then have "(c, sizeof_connection tg) \<in> L - set ?args" by simp
      from k_free_live [of n "?k\<lparr>heap := h\<rparr>", simplified, OF h(2) this]
      obtain h' where "k_free (Some c) (sizeof_connection tg) (?k\<lparr>heap := h\<rparr>) = Some (?k\<lparr>heap := h'\<rparr>)"
        "live_inv n h' (L - set ?args - {(c, sizeof_connection tg)})" by auto
      moreover have "L - set ?args - {(c, sizeof_connection tg)} = L - ?B" unfolding B by blast
      ultimately show ?thesis
        using False None h(1) ringk by (auto simp: eq free_content_def)
    next
      case (Some s)
      let ?S = "set (service_blocks tg (is_persistent (services k s)) k xs)"
      let ?k1 = "?k\<lparr>heap := h\<rparr>"
      have S: "service_blocks tg p ?k1 xs = service_blocks tg p k xs" for p
        by (rule service_blocks_cong) simp_all
      have B: "?B = set ?args \<union> ?S \<union> {(s, sizeof_generator_service tg)} \<union> {(c, sizeof_connection tg)}"
        using False Some by (auto simp: conn_blocks_def Let_def)
      have D: "set ?args \<inter> ?S = {}" "(s, sizeof_generator_service tg) \<notin> set ?args \<union> ?S"
        "(c, sizeof_connection tg) \<notin> set ?args \<union> ?S \<union> {(s, sizeof_generator_service tg)}"
        using dist False Some by (auto simp: conn_blocks_def Let_def)
      have BL: "?B \<subseteq> L" using inv by (simp add: conn_inv_def)
      have "service_inv tg n k L s xs" using inv False Some by (simp add: conn_inv_def)
      then have inv1: "service_inv tg n ?k1 (L - set ?args) s xs"
        unfolding service_inv_def S using h(2) BL D(1) unfolding B by auto
      have "(s, sizeof_generator_service tg) \<in> L - set ?args" using BL D(2) unfolding B by blast
      moreover have "(s, sizeof_generator_service tg) \<notin> set (service_blocks tg (is_persistent (services ?k1 s)) ?k1 xs)"
        using D(2) unfolding S by simp
      ultimately obtain k2 where k2: "do { k \<leftarrow> clean_service tg s None ?k1; k_free (Some s) (sizeof_generator_service tg) k } = Some k2"
        "live_inv n (heap k2) (L - set ?args - ?S - {(s, sizeof_generator_service tg)})"
        "connections k2 = connections ?k" "all_connections k2 = all_connections ?k" "cr_in_stack k2 = cr_in_stack ?k"
        using free_service [OF inv1] unfolding S by auto
      have "(c, sizeof_connection tg) \<in> L - set ?args - ?S - {(s, sizeof_generator_service tg)}"
        using BL D(3) unfolding B by blast
      from k_free_live [OF k2(2) this] obtain h' where
        "k_free (Some c) (sizeof_connection tg) k2 = Some (k2\<lparr>heap := h'\<rparr>)"
        "live_inv n h' (L - set ?args - ?S - {(s, sizeof_generator_service tg)} - {(c, sizeof_connection tg)})" by auto
      moreover have "L - set ?args - ?S - {(s, sizeof_generator_service tg)} - {(c, sizeof_connection tg)} = L - ?B"
        unfolding B by blast
      ultimately show ?thesis
        using False Some h(1) k2 ringk by (auto simp: eq free_content_def)
    qed
  qed
qed

lemma link_last_other:
  "x \<noteq> c \<Longrightarrow> content (connections (link_last c (upd_connection c f k)) x) = content (connections k x)"
  by (simp add: link_last_content)

lemma ring_upd: "ring k cs \<Longrightarrow> c \<notin> set cs \<Longrightarrow> ring (upd_connection c f k) cs"
  by (rule ring_cong) auto

lemma add_connection_spec:
  assumes ring: "ring k cs" and live: "live_inv n (heap k) L"
    and owned: "\<forall>c\<in>set cs. (c, sizeof_connection tg) \<in> L" and sz: "0 < unat (cells_of_size (sizeof_connection tg))"
  obtains (full) "add_connection tg (Some f) k = Some (None, k)"
    | (added) c k' where "add_connection tg (Some f) k = Some (Some c, k')" "c \<notin> set cs" "ring k' (cs @ [c])"
        "live_inv n (heap k') (insert (c, sizeof_connection tg) L)"
        "content (connections k' c) = content f"
        "\<forall>x. x \<noteq> c \<longrightarrow> content (connections k' x) = content (connections k x)"
proof -
  from live sz show thesis
  proof (cases rule: mem.alloc_cases)
    case full
    with that(1) show thesis by (simp add: add_connection_eq k_alloc_def)
  next
    case (fresh c h)
    let ?k = "upd_connection c (\<lambda>_. f) (k\<lparr>heap := h\<rparr>)"
    have c: "c \<notin> set cs" using owned fresh(3) by (metis fst_conv image_eqI)
    have "ring (k\<lparr>heap := h\<rparr>) cs" by (rule ring_cong [OF ring]) simp_all
    then have "ring ?k cs" by (rule ring_upd) (rule c)
    then have "ring (link_last c ?k) (cs @ [c])" by (rule ring_link_last) (rule c)
    moreover have "add_connection tg (Some f) k = Some (Some c, link_last c ?k)"
      using fresh(1) by (simp add: add_connection_eq k_alloc_def)
    ultimately show thesis
      using that(2) [of c "link_last c ?k"] c fresh(2) by (simp add: link_last_content)
  qed
qed

section \<open>The scheduler\<close>

text \<open>
  What the sender needs of the queue: picking finds the first element that satisfies a condition,
  and \<open>behind c\<close> makes the element behind \<open>c\<close> the first one. Any element that can always be picked is
  then picked within as many turns as there are elements in front of it, whatever happens to
  the condition of the others.
\<close>

locale round_robin =
  fixes queue :: "'s \<Rightarrow> 'c list \<Rightarrow> bool"
    and pick :: "('c \<Rightarrow> bool) \<Rightarrow> 's \<Rightarrow> 'c option option"
    and behind :: "'c \<Rightarrow> 's \<Rightarrow> 's"
  assumes pick_first: "queue s cs \<Longrightarrow> pick P s = Some (find P cs)"
    and behind_rotates: "queue s (xs @ c # ys) \<Longrightarrow> queue (behind c s) (ys @ xs @ [c])"
begin

fun turns :: "('c \<Rightarrow> bool) list \<Rightarrow> 's \<Rightarrow> 'c list" where
  "turns [] s = []"
| "turns (P # Ps) s =
    (case pick P s of Some (Some c) \<Rightarrow> c # turns Ps (behind c s) | _ \<Rightarrow> turns Ps s)"

lemma turn:
  assumes "queue s (xs @ c # ys)" and "P c"
  obtains (now) "pick P s = Some (Some c)"
    | (closer) d ys' xs' where "pick P s = Some (Some d)" "queue (behind d s) (xs' @ c # ys')"
        "length xs' < length xs"
proof -
  let ?d = "the (find P (xs @ c # ys))"
  have pick: "pick P s = Some (find P (xs @ c # ys))" by (rule pick_first [OF assms(1)])
  show thesis
  proof (cases "find P xs")
    case None
    then have "find P (xs @ c # ys) = Some c" using assms(2) by (induction xs) (auto split: if_splits)
    with pick now show thesis by simp
  next
    case (Some d)
    then have f: "find P (xs @ c # ys) = Some d" by (induction xs) (auto split: if_splits)
    from Some have "d \<in> set xs" by (auto simp: find_Some_iff)
    then obtain x1 x2 where x: "xs = x1 @ d # x2" by (meson split_list)
    have "queue (behind d s) ((x2 @ c # ys) @ x1 @ [d])"
      using behind_rotates [of s x1 d "x2 @ c # ys"] assms(1) x by simp
    then show thesis using closer [of d x2 "ys @ x1 @ [d]"] pick f x by simp
  qed
qed

lemma served:
  assumes "queue s (xs @ c # ys)" and "length xs < length Ps" and "\<forall>P\<in>set Ps. P c"
  shows "c \<in> set (turns (take (Suc (length xs)) Ps) s)"
  using assms
proof (induction "length xs" arbitrary: s xs ys Ps rule: less_induct)
  case less
  then obtain P Qs where Ps: "Ps = P # Qs" by (cases Ps) auto
  from less.prems have "queue s (xs @ c # ys)" "P c" by (auto simp: Ps)
  then show ?case
  proof (cases rule: turn)
    case now
    then show ?thesis by (simp add: Ps)
  next
    case (closer d ys' xs')
    have "c \<in> set (turns (take (Suc (length xs')) Qs) (behind d s))"
      using less.prems closer by (intro less.hyps) (auto simp: Ps)
    moreover have "set (turns (take (Suc (length xs')) Qs) t) \<subseteq> set (turns (take (length xs) Qs) t)" for t
    proof -
      have mono: "set (turns (take i Rs) t) \<subseteq> set (turns (take j Rs) t)" if "i \<le> j" for i j Rs t
        using that
      proof (induction Rs arbitrary: i j t)
        case (Cons R Rs)
        then show ?case by (cases i; cases j) (auto split: option.split dest!: subsetD)
      qed simp
      show ?thesis using closer(3) by (intro mono) simp
    qed
    ultimately show ?thesis using closer(1) by (auto simp: Ps)
  qed
qed

end

text \<open>The assignment of \<open>smews_send\<close>: \<open>all_connections = active_connection->next\<close>.\<close>

definition rotate_behind :: "nat \<Rightarrow> kernel \<Rightarrow> kernel" where
  "rotate_behind c k = k\<lparr>all_connections := Some (conn_next (connections k c))\<rparr>"

lemma ring_rotate_behind: "ring k (xs @ c # ys) \<Longrightarrow> ring (rotate_behind c k) (ys @ xs @ [c])"
proof -
  assume ring: "ring k (xs @ c # ys)"
  have "ring (k\<lparr>all_connections := Some (hd (ys @ xs @ [c]))\<rparr>) (ys @ xs @ [c])"
  proof (cases ys)
    case Nil
    then have "ring k (xs @ [c])" "all_connections k = Some (hd (xs @ [c]))"
      using ring by (auto simp: ring_def split: if_splits)
    then show ?thesis using Nil by (auto intro: ring_cong)
  next
    case (Cons y zs)
    with ring_rotate [of k "xs @ [c]" ys] ring show ?thesis by simp
  qed
  then show ?thesis using ring_links(1) [OF ring] by (simp add: rotate_behind_def)
qed

interpretation conns: round_robin ring find_conn rotate_behind
  by unfold_locales (auto intro: find_conn_ring ring_rotate_behind)

section \<open>Properties\<close>

definition example_site :: site where
  "example_site = \<lparr>resource = (\<lambda>_. control_handler 0 0), http_404 = control_handler 0 0,
     http_505 = control_handler 0 0, resources_index = [], blobs = undefined\<rparr>"

definition idle_connection :: "nat \<Rightarrow> nat \<Rightarrow> ptr \<Rightarrow> connection" where
  "idle_connection nxt prv s = undefined\<lparr>output_handler := None,
     http := undefined\<lparr>args := None, generator_service := s\<rparr>, conn_next := nxt, conn_prev := prv\<rparr>"

text \<open>Two connections, the second with a service without segments, whose coroutine is in the shared stack.\<close>

definition two_connections :: "heap \<Rightarrow> kernel" where
  "two_connections h = undefined\<lparr>heap := h, all_connections := Some 0,
     connections := (\<lambda>_. undefined)(0 := idle_connection 21 21 None, 21 := idle_connection 0 0 (Some 42)),
     services := (\<lambda>_. undefined\<lparr>in_flight_infos := None, is_persistent := False\<rparr>),
     cr_in_stack := Some (Service_cr 42)\<rparr>"

lemma two_connections_heap: "\<exists>h. live_inv 8192 h {(0, 84), (21, 84), (42, 64)}"
  using heap_with_blocks [of "[84, 84, 64]" 8192] by (auto simp: unat_cells_of_size)

lemma two_connections_ring: "ring (two_connections h) [0, 21]"
  by (simp add: ring_def two_connections_def idle_connection_def)

lemma two_connections_inv:
  "live_inv 8192 h {(0, 84), (21, 84), (42, 64)} \<Longrightarrow>
   conn_inv example_target st 8192 (two_connections h) {(0, 84), (21, 84), (42, 64)} 21 []"
  by (simp add: conn_inv_def two_connections_def idle_connection_def conn_blocks_def Let_def
      arg_blocks_def service_inv_def service_blocks_def example_target_def)

text \<open>
  \<open>add_connection\<close> either finds no memory and changes nothing, or appends one fresh connection,
  a copy of its argument, at the end of the ring: every other connection keeps its content and its
  turn.
\<close>

theorem add_connection_appends:
  assumes "ring k cs" and "live_inv n (heap k) L" and "\<forall>c\<in>set cs. (c, sizeof_connection tg) \<in> L"
    and "0 < unat (cells_of_size (sizeof_connection tg))"
  shows "add_connection tg (Some f) k = Some (None, k) \<or>
    (\<exists>c k'. add_connection tg (Some f) k = Some (Some c, k') \<and> c \<notin> set cs \<and> ring k' (cs @ [c]) \<and>
      live_inv n (heap k') (insert (c, sizeof_connection tg) L) \<and>
      content (connections k' c) = content f \<and>
      (\<forall>x. x \<noteq> c \<longrightarrow> content (connections k' x) = content (connections k x)))"
  using assms by (rule add_connection_spec [where f = f]) blast+

theorem add_connection_appends_witness:
  "\<exists>h. add_connection example_target (Some (idle_connection 1 2 None)) (two_connections h) = Some (None, two_connections h) \<or>
    (\<exists>c k'. add_connection example_target (Some (idle_connection 1 2 None)) (two_connections h) = Some (Some c, k') \<and> ring k' [0, 21, c])"
proof -
  obtain h where h: "live_inv 8192 h {(0, 84), (21, 84), (42, 64)}" using two_connections_heap by blast
  then have "live_inv 8192 (heap (two_connections h)) {(0, 84), (21, 84), (42, 64)}"
    by (simp add: two_connections_def)
  from add_connection_appends [OF two_connections_ring this, of example_target "idle_connection 1 2 None"] show ?thesis
    by (fastforce simp: example_target_def unat_cells_of_size)
qed



text \<open>
  C21: The round robin is fair. While a connection of the queue satisfies the condition of every
  turn, it is picked within as many turns as it has connections in front of it plus one, for any
  conditions that the turns test on the other connections.
\<close>

theorem scheduler_is_fair:
  assumes "ring k (pre @ c # post)" and "length pre < length Ps" and "\<forall>P\<in>set Ps. P c"
  shows "c \<in> set (conns.turns (take (Suc (length pre)) Ps) k)"
  using assms by (rule conns.served)

theorem scheduler_is_fair_witness:
  "\<exists>h. 21 \<in> set (conns.turns [\<lambda>_. True, \<lambda>c. c = 21] (two_connections h))"
  using scheduler_is_fair [of "two_connections undefined" "[0]" 21 "[]" "[\<lambda>_. True, \<lambda>c. c = 21]"]
    two_connections_ring [of undefined] by auto

text \<open>
  Freeing a connection while the coroutine of its service uses the shared stack leaves
  \<open>cr_in_stack\<close> on the freed service: \<open>free_connection\<close> does not call \<open>cr_clean\<close>, so the next
  \<open>cr_prepare\<close> saves a stack into the coroutine of a block that is no longer allocated.
\<close>

theorem freed_service_stays_in_stack:
  assumes "ring k (pre @ c # post)" and "conn_inv tg st n k L c xs" and "IS_HTTP st (connections k c)"
    and "generator_service (http (connections k c)) = Some s" and "cr_in_stack k = Some (Service_cr s)"
  shows "\<exists>k' L'. free_connection tg st c k = Some k' \<and> live_inv n (heap k') L' \<and>
    (s, sizeof_generator_service tg) \<in> L - L' \<and> cr_in_stack k' = Some (Service_cr s)"
proof -
  have "(s, sizeof_generator_service tg) \<in> set (conn_blocks tg st k c xs)"
    using assms(3,4) by (simp add: conn_blocks_def Let_def)
  moreover have "set (conn_blocks tg st k c xs) \<subseteq> L" using assms(2) by (simp add: conn_inv_def)
  ultimately have "(s, sizeof_generator_service tg) \<in> L - (L - set (conn_blocks tg st k c xs))" by blast
  with free_connection_spec [OF assms(1,2)] assms(5) show ?thesis by metis
qed

theorem freed_service_stays_in_stack_witness:
  "\<exists>h k' L'. free_connection example_target example_site 21 (two_connections h) = Some k' \<and>
     live_inv 8192 (heap k') L' \<and> (42, 64) \<notin> L' \<and> cr_in_stack k' = Some (Service_cr 42)"
proof -
  obtain h where h: "live_inv 8192 h {(0, 84), (21, 84), (42, 64)}" using two_connections_heap by blast
  have "IS_HTTP example_site (connections (two_connections h) 21)"
    "generator_service (http (connections (two_connections h) 21)) = Some 42"
    "cr_in_stack (two_connections h) = Some (Service_cr 42)"
    by (simp_all add: two_connections_def idle_connection_def IS_GPIP_def IS_GPIP_HANDLER_def)
  from freed_service_stays_in_stack [of "two_connections h" "[0]" 21 "[]", OF _ two_connections_inv [OF h] this]
    two_connections_ring [of h] show ?thesis by (fastforce simp: example_target_def)
qed

end
