(* ===== verification/Generators.thy ===== *)
theory Generators
  imports Connections
begin

text \<open>
  The output of the applications: \<open>out_c\<close> of \<open>core/output.c\<close>, the functions built on it and
  \<open>server_push\<close>, of \<open>core/generators.c\<close>, and the execution of a generator as a coroutine.

  A generator is C code of an application. The kernel sees it through its calls of \<open>out_c\<close>: between
  two of them it is a function from the used part of its stack to the next one (the record
  \<open>app\<close>). The theory proves that a generator that is cut into segments by the output buffer sends
  exactly the characters it produces, each once and in order.
\<close>

section \<open>Model\<close>

text \<open>
  \<open>app_step f ps e\<close> runs a generator function from an entry point to its next call of \<open>out_c\<close>, of
  which \<open>Call_out\<close> gives the stack at the call, or to its return; \<open>out_char\<close> reads the argument of
  the call in that stack. A \<open>dopostin\<close> function calls \<open>in\<close> instead: \<open>app_in\<close> runs it to its next call, or to
  its return with the value it leaves in \<open>*post_data\<close>, and \<open>in_value\<close> is the stack with the value that
  the call returns. The callbacks that are not coroutines are functions on the kernel.
\<close>

datatype app_event = Call_out "u8 list" | App_return
datatype in_event = Call_in "u8 list" | In_return ptr

record app =
  app_step :: "fptr \<Rightarrow> cr_params \<Rightarrow> cr_entry \<Rightarrow> app_event"
  out_char :: "u8 list \<Rightarrow> u8"
  app_in :: "fptr \<Rightarrow> cr_params \<Rightarrow> cr_entry \<Rightarrow> in_event"
  in_value :: "u8 list \<Rightarrow> u16 \<Rightarrow> u8 list"
  app_initget :: "fptr \<Rightarrow> ptr \<Rightarrow> kernel \<Rightarrow> kernel option"
  app_packet_in :: "fptr \<Rightarrow> nat \<Rightarrow> kernel \<Rightarrow> (u8 \<times> kernel) option"
  app_packet_out :: "fptr \<Rightarrow> nat \<Rightarrow> kernel \<Rightarrow> kernel option"

abbreviation upd_output :: "(curr_output \<Rightarrow> curr_output) \<Rightarrow> kernel \<Rightarrow> kernel" where
  "upd_output f k \<equiv> k\<lparr>curr_output := f (curr_output k)\<rparr>"

fun buffer_bytes :: "kernel \<Rightarrow> buffer_ref \<Rightarrow> u8 list" where
  "buffer_bytes k Buffer_null = []"
| "buffer_bytes k (Buffer_block a) = bytes k a"
| "buffer_bytes k Buffer_gpip = gpip_output_buffer k"

fun set_buffer :: "buffer_ref \<Rightarrow> nat \<Rightarrow> u8 \<Rightarrow> kernel \<Rightarrow> kernel" where
  "set_buffer Buffer_null i c k = k"
| "set_buffer (Buffer_block a) i c k = k\<lparr>bytes := (bytes k)(a := (bytes k a)[i := c])\<rparr>"
| "set_buffer Buffer_gpip i c k = k\<lparr>gpip_output_buffer := (gpip_output_buffer k)[i := c]\<rparr>"

text \<open>
  The end of \<open>out_c\<close>, also when it continues after a context switch. A write behind the end of
  the buffer, or through a null pointer, has no defined result.
\<close>

definition put_c :: "u8 \<Rightarrow> kernel \<Rightarrow> kernel option" where
  "put_c c k =
    (let o' = curr_output k; i = unat (out_content_length o')
     in if length (buffer_bytes k (out_buffer o')) \<le> i then None
        else Some (upd_output (\<lambda>x. x\<lparr>out_content_length := out_content_length x + 1\<rparr>)
          (set_buffer (out_buffer o') i c
            (if out_service o' \<noteq> None then k\<lparr>chk := checksum_add c (chk k)\<rparr> else k))))"

text \<open>
  \<open>out_c\<close>: the character is refused (a packet handler with a full buffer), or the coroutine is
  suspended in the call (a generator with a full segment), or the character is stored.
\<close>

datatype out_result = Out_refused | Out_switch | Out_done

definition out_c :: "u8 \<Rightarrow> kernel \<Rightarrow> (out_result \<times> kernel) option" where
  "out_c c k =
    (let o' = curr_output k
     in if out_content_length o' = out_max_bytes o' then
          Some (if out_service o' = None then Out_refused else Out_switch, k)
        else do { k \<leftarrow> put_c c k; Some (Out_done, k) })"

text \<open>The digits of \<open>out_uint\<close>, which it writes backwards into its buffer, and the string of \<open>out_str\<close>.\<close>

function uint_digits :: "u16 \<Rightarrow> u8 list \<Rightarrow> u8 list" where
  "uint_digits i acc =
    (let acc = (u16_to_u8 (i mod 10) + 48) # acc; i = i div 10
     in if i = 0 then acc else uint_digits i acc)"
  by pat_completeness auto
termination
proof (relation "measure (\<lambda>(i, acc). unat i)")
  fix i :: u16 and acc acc' :: "u8 list" and j
  assume "acc' = (u16_to_u8 (i mod 10) + 48) # acc" and j: "j = i div 10" and "j \<noteq> 0"
  then have "0 < unat i" by (auto simp: unat_gt_0)
  then have "unat i div 10 < unat i" by simp
  then show "((j, acc'), i, acc) \<in> measure (\<lambda>(i, acc). unat i)" by (simp add: j unat_div)
qed simp

declare uint_digits.simps [simp del]

definition out_uint :: "u16 \<Rightarrow> kernel \<Rightarrow> u8 list" where
  "out_uint i k = (if coroutine_state k = cor_in then [] else uint_digits i [])"

definition out_str :: "u8 list \<Rightarrow> kernel \<Rightarrow> u8 list" where
  "out_str str k = (if coroutine_state k = cor_in then [] else takeWhile (\<lambda>c. c \<noteq> 0) str)"

text \<open>The characters of a packet handler, which runs on the stack of the kernel.\<close>

fun out_all :: "u8 list \<Rightarrow> kernel \<Rightarrow> kernel option" where
  "out_all [] k = Some k"
| "out_all (c # cs) k = do { (r, k) \<leftarrow> out_c c k; out_all cs k }"

definition server_push :: "site \<Rightarrow> handler_ref \<Rightarrow> kernel \<Rightarrow> (u8 \<times> kernel) option" where
  "server_push st r k =
    (if handler_comet (handler st r) then
       do { k \<leftarrow> each_conn (\<lambda>c k. Some (
                    if IS_HTTP st (connections k c) \<and> output_handler (connections k c) = Some r
                    then upd_connection c (upd_http (\<lambda>x. x\<lparr>comet_send_ack := False,
                           final_outseqno := next_outseqno x - 1\<rparr>)) k
                    else k)) k;
            Some (1, k) }
     else Some (0, k))"

text \<open>The execution of a generator between two context switches, the \<open>body\<close> of \<open>cr_run\<close>.\<close>

partial_function (option) run_generator :: "app \<Rightarrow> coroutine \<Rightarrow> cr_entry \<Rightarrow> kernel \<Rightarrow> (cr_exit \<times> kernel) option" where
  "run_generator ap c e k =
    (let ev = app_step ap (cr_func c) (cr_params c) e
     in if ev = App_return then Some (Returned, k)
        else let img = (case ev of Call_out img \<Rightarrow> img | App_return \<Rightarrow> [])
             in do { (r, k) \<leftarrow> out_c (out_char ap img) k;
                     if r = Out_switch then Some (Suspended img, k)
                     else run_generator ap c (Resume img) k })"

definition generator_body :: "app \<Rightarrow> coroutine \<Rightarrow> cr_entry \<Rightarrow> kernel \<Rightarrow> (cr_exit \<times> kernel) option" where
  "generator_body ap c e k =
    (case e of
       Start \<Rightarrow> run_generator ap c Start k
     | Resume img \<Rightarrow> do { k \<leftarrow> put_c (out_char ap img) k; run_generator ap c (Resume img) k })"

section \<open>Decimal numbers\<close>

definition decimal :: "u8 list \<Rightarrow> nat" where
  "decimal ds = foldl (\<lambda>v d. 10 * v + (unat d - 48)) 0 ds"

lemma decimal_snoc: "decimal (ds @ [d]) = 10 * decimal ds + (unat d - 48)"
  by (simp add: decimal_def)

lemma digit_char: "unat (u16_to_u8 (i mod 10) + 48) = unat i mod 10 + 48"
proof -
  have "unat (u16_to_u8 (i mod 10)) = unat i mod 10"
  proof -
    have "unat i mod 10 < 256" by (rule order.strict_trans [of _ 10]) simp_all
    then show ?thesis by (simp add: unat_u16_to_u8 unat_mod)
  qed
  moreover have "unat i mod 10 < 10" by simp
  ultimately show ?thesis by (simp add: unat_add_u8)
qed

lemma uint_digits_spec:
  "\<exists>ds. uint_digits i acc = ds @ acc \<and> decimal ds = unat i \<and> ds \<noteq> [] \<and>
     (\<forall>d\<in>set ds. 48 \<le> unat d \<and> unat d < 58) \<and> (i \<noteq> 0 \<longrightarrow> unat (hd ds) \<noteq> 48) \<and>
     10 ^ (length ds - 1) \<le> max 1 (unat i)"
proof (induction i acc rule: uint_digits.induct)
  case (1 i acc)
  let ?d = "u16_to_u8 (i mod 10) + 48"
  note d = digit_char [of i]
  show ?case
  proof (cases "i div 10 = 0")
    case True
    then have "unat (i div 10) = 0" by simp
    then have "unat i div 10 = 0" by (simp only: unat_div) simp
    then have "unat i < 10" by (simp add: div_eq_0_iff)
    with True d show ?thesis
      by (subst uint_digits.simps, intro exI [of _ "[?d]"]) (auto simp: decimal_def unat_eq_0)
  next
    case False
    from "1.IH" [OF refl refl False] obtain ds where ds: "uint_digits (i div 10) (?d # acc) = ds @ ?d # acc"
      "decimal ds = unat (i div 10)" "ds \<noteq> []" "\<forall>d\<in>set ds. 48 \<le> unat d \<and> unat d < 58"
      "unat (hd ds) \<noteq> 48" "10 ^ (length ds - 1) \<le> max 1 (unat (i div 10))"
      using False by auto
    have p: "0 < unat (i div 10)" using False by (simp add: unat_gt_0)
    have "10 ^ length ds = 10 * 10 ^ (length ds - 1)" using ds(3) by (cases ds) simp_all
    also have "\<dots> \<le> 10 * (unat i div 10)" using ds(6) p by (simp add: unat_div)
    also have "\<dots> \<le> unat i" by simp
    finally have len: "10 ^ length ds \<le> unat i" .
    have "10 * (unat i div 10) + unat i mod 10 = unat i" by simp
    with ds d False len show ?thesis
      by (subst uint_digits.simps, intro exI [of _ "ds @ [?d]"])
        (auto simp: decimal_snoc unat_div Let_def max_def)
  qed
qed

section \<open>Cutting the output into segments\<close>

text \<open>\<open>produces ap c e xs\<close>: from the entry \<open>e\<close> on, the generator outputs the characters \<open>xs\<close> and returns.\<close>

fun produces :: "app \<Rightarrow> coroutine \<Rightarrow> cr_entry \<Rightarrow> u8 list \<Rightarrow> bool" where
  "produces ap c e [] = (app_step ap (cr_func c) (cr_params c) e = App_return)"
| "produces ap c e (x # xs) =
    (case app_step ap (cr_func c) (cr_params c) e of
       App_return \<Rightarrow> False
     | Call_out img \<Rightarrow> out_char ap img = x \<and> produces ap c (Resume img) xs)"

text \<open>The same for a coroutine that \<open>cr_run\<close> enters: a suspended one is inside a call of \<open>out_c\<close>.\<close>

definition pending :: "app \<Rightarrow> coroutine \<Rightarrow> cr_entry \<Rightarrow> u8 list \<Rightarrow> bool" where
  "pending ap c e xs =
    (case e of
       Start \<Rightarrow> produces ap c Start xs
     | Resume img \<Rightarrow> xs \<noteq> [] \<and> out_char ap img = hd xs \<and> produces ap c (Resume img) (tl xs))"

text \<open>The output buffer is the block \<open>a\<close> and has room for \<open>n\<close> more characters.\<close>

definition room :: "nat \<Rightarrow> nat \<Rightarrow> kernel \<Rightarrow> bool" where
  "room a n k \<longleftrightarrow>
    out_service (curr_output k) \<noteq> None \<and> out_buffer (curr_output k) = Buffer_block a \<and>
    unat (out_content_length (curr_output k)) + n = unat (out_max_bytes (curr_output k)) \<and>
    unat (out_max_bytes (curr_output k)) \<le> length (bytes k a)"

text \<open>The state after a character, and after several.\<close>

definition store :: "nat \<Rightarrow> u8 \<Rightarrow> kernel \<Rightarrow> kernel" where
  "store a c k = upd_output (\<lambda>x. x\<lparr>out_content_length := out_content_length x + 1\<rparr>)
    (k\<lparr>chk := checksum_add c (chk k),
       bytes := (bytes k)(a := (bytes k a)[unat (out_content_length (curr_output k)) := c])\<rparr>)"

lemma room_store:
  assumes "room a (Suc n) k"
  shows "put_c c k = Some (store a c k)" "room a n (store a c k)"
    "unat (out_content_length (curr_output (store a c k))) = Suc (unat (out_content_length (curr_output k)))"
proof -
  let ?i = "unat (out_content_length (curr_output k))"
  have "?i < unat (out_max_bytes (curr_output k))" using assms by (simp add: room_def)
  then have "Suc ?i < 65536" using unat_u16_lt [of "out_max_bytes (curr_output k)"] by linarith
  then show i: "unat (out_content_length (curr_output (store a c k))) = Suc ?i"
    by (simp add: store_def unat_add_u16)
  from assms show "put_c c k = Some (store a c k)"
    by (auto simp: put_c_def store_def room_def Let_def)
  from assms i show "room a n (store a c k)"
    unfolding room_def by (simp add: store_def)
qed

lemma room_full: "room a n k \<Longrightarrow> out_content_length (curr_output k) = out_max_bytes (curr_output k) \<longleftrightarrow> n = 0"
  by (auto simp: room_def word_unat_eq_iff)

definition exit_of :: "app \<Rightarrow> coroutine \<Rightarrow> cr_exit \<Rightarrow> u8 list \<Rightarrow> bool" where
  "exit_of ap c x rest =
    (case x of Returned \<Rightarrow> rest = [] | Suspended img \<Rightarrow> rest \<noteq> [] \<and> pending ap c (Resume img) rest)"

lemma run_generator_segment:
  "produces ap c e xs \<Longrightarrow> room a n k \<Longrightarrow>
   \<exists>x. run_generator ap c e k = Some (x, fold (store a) (take n xs) k) \<and> exit_of ap c x (drop n xs)"
proof (induction xs arbitrary: e n k)
  case Nil
  then show ?case by (subst run_generator.simps) (simp add: exit_of_def)
next
  case (Cons y ys)
  then obtain img where img: "app_step ap (cr_func c) (cr_params c) e = Call_out img" "out_char ap img = y"
    "produces ap c (Resume img) ys" by (auto split: app_event.splits)
  show ?case
  proof (cases n)
    case 0
    then have "out_c y k = Some (Out_switch, k)"
      using Cons.prems(2) room_full [OF Cons.prems(2)] by (simp add: out_c_def Let_def room_def)
    with img 0 show ?thesis
      by (subst run_generator.simps) (auto simp: exit_of_def pending_def)
  next
    case (Suc m)
    note st = room_store [OF Cons.prems(2) [unfolded Suc]]
    have "out_c y k = Some (Out_done, store a y k)"
      using room_full [OF Cons.prems(2)] st(1) Suc by (simp add: out_c_def Let_def)
    moreover obtain x where "run_generator ap c (Resume img) (store a y k) =
        Some (x, fold (store a) (take m ys) (store a y k))" "exit_of ap c x (drop m ys)"
      using Cons.IH [OF img(3) st(2)] by blast
    ultimately show ?thesis using img(1,2) Suc by (subst run_generator.simps) simp
  qed
qed

lemma generator_segment:
  assumes "pending ap c e xs" and "room a n k" and "0 < n"
  shows "\<exists>x. generator_body ap c e k = Some (x, fold (store a) (take n xs) k) \<and> exit_of ap c x (drop n xs)"
proof (cases e)
  case Start
  with run_generator_segment [OF _ assms(2)] assms(1) show ?thesis
    by (simp add: generator_body_def pending_def)
next
  case (Resume img)
  then obtain ys where xs: "xs = out_char ap img # ys" "produces ap c (Resume img) ys"
    using assms(1) by (cases xs) (auto simp: pending_def)
  obtain m where n: "n = Suc m" using assms(3) by (cases n) auto
  note st = room_store [OF assms(2) [unfolded n]]
  from run_generator_segment [OF xs(2) st(2)] st(1) Resume xs n show ?thesis
    by (simp add: generator_body_def)
qed

text \<open>What the characters leave in the buffer and in the checksum.\<close>

lemma store_list:
  "room a n k \<Longrightarrow> length xs \<le> n \<Longrightarrow>
   unat (out_content_length (curr_output (fold (store a) xs k))) = unat (out_content_length (curr_output k)) + length xs \<and>
   room a (n - length xs) (fold (store a) xs k) \<and>
   take (unat (out_content_length (curr_output k)) + length xs) (bytes (fold (store a) xs k) a) =
     take (unat (out_content_length (curr_output k))) (bytes k a) @ xs \<and>
   chk (fold (store a) xs k) = fold checksum_add xs (chk k)"
proof (induction xs arbitrary: n k)
  case (Cons y ys)
  then obtain m where n: "n = Suc m" by (cases n) auto
  note st = room_store [OF Cons.prems(1) [unfolded n], of y]
  let ?i = "unat (out_content_length (curr_output k))"
  have i: "?i < length (bytes k a)" using Cons.prems(1) n by (auto simp: room_def)
  have "take (Suc ?i) (bytes (store a y k) a) = take ?i (bytes k a) @ [y]"
    using i by (simp add: store_def take_Suc_conv_app_nth)
  moreover have "chk (store a y k) = checksum_add y (chk k)" by (simp add: store_def)
  ultimately show ?case using Cons.IH [OF st(2)] Cons.prems(2) n st(3) by simp
qed simp

text \<open>
  A generator served in segments of at most the given sizes: each segment starts with an empty
  buffer, and the coroutine goes on where it was suspended.
\<close>

fun serve :: "app \<Rightarrow> coroutine \<Rightarrow> nat \<Rightarrow> cr_entry \<Rightarrow> u16 list \<Rightarrow> kernel \<Rightarrow> u8 list list option" where
  "serve ap c a e [] k = Some []"
| "serve ap c a e (m # ms) k =
    do { (x, k) \<leftarrow> generator_body ap c e
           (upd_output (\<lambda>o'. o'\<lparr>out_content_length := 0, out_max_bytes := m\<rparr>) k);
         (let seg = take (unat (out_content_length (curr_output k))) (bytes k a)
          in case x of
               Returned \<Rightarrow> Some [seg]
             | Suspended img \<Rightarrow> do { segs \<leftarrow> serve ap c a (Resume img) ms k; Some (seg # segs) }) }"

section \<open>Properties\<close>

text \<open>
  \<open>out_uint\<close> prints the decimal representation of its argument: its characters are digits, as
  a decimal number they are the argument, there is no leading zero but that of 0 itself, and
  they fit the five places of its local buffer.
\<close>

theorem out_uint_prints_decimal:
  "out_uint i k = (if coroutine_state k = cor_in then [] else uint_digits i []) \<and>
   decimal (uint_digits i []) = unat i \<and> list_all (\<lambda>d. 48 \<le> unat d \<and> unat d \<le> 57) (uint_digits i []) \<and>
   (unat (hd (uint_digits i [])) = 48) = (i = 0) \<and> length (uint_digits i []) \<in> {1..5}"
proof -
  obtain ds where ds: "uint_digits i [] = ds" "decimal ds = unat i" "ds \<noteq> []"
    "\<forall>d\<in>set ds. 48 \<le> unat d \<and> unat d < 58" "i \<noteq> 0 \<longrightarrow> unat (hd ds) \<noteq> 48"
    "10 ^ (length ds - 1) \<le> max 1 (unat i)"
    using uint_digits_spec [of i "[]"] by auto
  have "max 1 (unat i) < 10 ^ 5" using unat_u16_lt [of i] by simp
  with ds(6) have "(10 :: nat) ^ (length ds - 1) < 10 ^ 5" by linarith
  then have "length ds - 1 < 5" by (rule power_less_imp_less_exp [rotated]) simp
  then have "length ds \<in> {1..5}" using ds(3) by (cases ds) auto
  moreover have "i = 0 \<Longrightarrow> ds = [48]" using ds(1) by (simp add: uint_digits.simps)
  ultimately show ?thesis using ds
    by (cases "i = 0") (auto simp: out_uint_def list_all_iff)
qed

text \<open>
  C23: A generator that is suspended whenever its segment is full sends exactly what it produces:
  for any sizes of the segments that hold its output altogether, the contents of the segments,
  one after the other, are the characters it produces, and no segment exceeds its size.
\<close>

theorem generator_output_in_order:
  assumes "produces ap c Start xs" and "\<forall>m\<in>set ms. 0 < unat m \<and> unat m \<le> length (bytes k a)"
    and "length xs \<le> sum_list (map unat ms)" and "ms \<noteq> []"
    and "out_service (curr_output k) \<noteq> None" and "out_buffer (curr_output k) = Buffer_block a"
  shows "\<exists>segs. serve ap c a Start ms k = Some segs \<and> concat segs = xs \<and>
    list_all2 (\<lambda>seg m. length seg \<le> unat m) segs (take (length segs) ms)"
proof -
  have "pending ap c e xs \<Longrightarrow> \<forall>m\<in>set ms. 0 < unat m \<and> unat m \<le> length (bytes k a) \<Longrightarrow>
    length xs \<le> sum_list (map unat ms) \<Longrightarrow> ms \<noteq> [] \<or> xs \<noteq> [] \<Longrightarrow> out_service (curr_output k) \<noteq> None \<Longrightarrow>
    out_buffer (curr_output k) = Buffer_block a \<Longrightarrow>
    \<exists>segs. serve ap c a e ms k = Some segs \<and> concat segs = xs \<and> length segs \<le> length ms \<and>
      list_all2 (\<lambda>seg m. length seg \<le> unat m) segs (take (length segs) ms)" for e
  proof (induction ms arbitrary: e xs k)
    case (Cons m ms)
    let ?k = "upd_output (\<lambda>o'. o'\<lparr>out_content_length := 0, out_max_bytes := m\<rparr>) k"
    let ?n = "unat m"
    have room: "room a ?n ?k" and n: "0 < ?n" using Cons.prems by (simp_all add: room_def)
    obtain x where x: "generator_body ap c e ?k = Some (x, fold (store a) (take ?n xs) ?k)"
      "exit_of ap c x (drop ?n xs)"
      using generator_segment [OF Cons.prems(1) room n] by blast
    let ?k2 = "fold (store a) (take ?n xs) ?k"
    have st: "unat (out_content_length (curr_output ?k2)) = length (take ?n xs)"
      "take (length (take ?n xs)) (bytes ?k2 a) = take ?n xs"
      using store_list [OF room, of "take ?n xs"] by simp_all
    have frame: "length (bytes (fold (store a) ys k) a) = length (bytes k a) \<and>
        out_service (curr_output (fold (store a) ys k)) = out_service (curr_output k) \<and>
        out_buffer (curr_output (fold (store a) ys k)) = out_buffer (curr_output k)" for ys k
      by (induction ys arbitrary: k) (auto simp: store_def)
    show ?case
    proof (cases x)
      case Returned
      then have "drop ?n xs = []" using x(2) by (simp add: exit_of_def)
      then have "take ?n xs = xs" by simp
      with Returned x(1) st show ?thesis by (simp add: Let_def)
    next
      case (Suspended img)
      then have p: "pending ap c (Resume img) (drop ?n xs)" "drop ?n xs \<noteq> []"
        using x(2) by (auto simp: exit_of_def)
      have "length (drop ?n xs) \<le> sum_list (map unat ms)" using Cons.prems(3) by simp
      then obtain segs where segs: "serve ap c a (Resume img) ms ?k2 = Some segs"
        "concat segs = drop ?n xs" "length segs \<le> length ms"
        "list_all2 (\<lambda>seg m. length seg \<le> unat m) segs (take (length segs) ms)"
        using Cons.IH [OF p(1), of ?k2] Cons.prems(2,5,6) p(2) frame [of "take ?n xs" ?k] by auto
      with Suspended x(1) st show ?thesis by (simp add: Let_def)
    qed
  qed simp
  from this [of Start] assms show ?thesis by (auto simp: pending_def)
qed

text \<open>A generator that counts down from 2, with its counter on its stack.\<close>

definition countdown :: app where
  "countdown = \<lparr>
     app_step = (\<lambda>f ps e. case e of
         Start \<Rightarrow> Call_out [2]
       | Resume img \<Rightarrow> (if hd img = 0 then App_return else Call_out [hd img - 1])),
     out_char = hd, app_in = (\<lambda>f ps e. In_return None), in_value = (\<lambda>img v. img),
     app_initget = (\<lambda>f p k. Some k), app_packet_in = (\<lambda>f c k. Some (0, k)),
     app_packet_out = (\<lambda>f c k. Some k)\<rparr>"

theorem generator_output_in_order_witness:
  "\<exists>k segs. serve countdown undefined 5 Start [2, 2] k = Some segs \<and> concat segs = [2, 1, 0]"
proof -
  let ?k = "(undefined :: kernel)\<lparr>bytes := (\<lambda>_. [0, 0]),
    curr_output := undefined\<lparr>out_service := Some 3, out_buffer := Buffer_block 5\<rparr>\<rparr>"
  have "produces countdown undefined Start [2, 1, 0]" by (simp add: countdown_def)
  from generator_output_in_order [OF this, of "[2, 2]" ?k 5]
  have "\<exists>segs. serve countdown undefined 5 Start [2, 2] ?k = Some segs \<and> concat segs = [2, 1, 0] \<and>
    list_all2 (\<lambda>seg m. length seg \<le> unat m) segs (take (length segs) [2, 2 :: u16])"
    by (simp del: serve.simps)
  then show ?thesis by blast
qed

text \<open>
  Pushing a Comet resource wakes every client that waits for it: after \<open>server_push\<close> each
  established connection of the ring whose handler is the resource has something to send, and
  all the other connections are unchanged. A resource that is not a Comet one is refused.
\<close>

theorem server_push_wakes_listeners:
  assumes "ring k cs" and "handler_type (handler st r) = type_generator"
  shows "if handler_comet (handler st r) then
    (\<exists>k'. server_push st r k = Some (1, k') \<and> ring k' cs \<and>
      (\<forall>c\<in>set cs. output_handler (connections k c) = Some r \<longrightarrow>
         tcp_state (http (connections k c)) = tcp_established \<longrightarrow>
         something_to_send st (connections k' c) = 1) \<and>
      (\<forall>c. output_handler (connections k c) \<noteq> Some r \<longrightarrow> connections k' c = connections k c))
   else server_push st r k = Some (0, k)"
proof (cases "handler_comet (handler st r)")
  case True
  let ?Q = "\<lambda>x. IS_HTTP st x \<and> output_handler x = Some r"
  let ?f = "upd_http (\<lambda>x. x\<lparr>comet_send_ack := False, final_outseqno := next_outseqno x - 1\<rparr>)"
  let ?k = "k\<lparr>connections := \<lambda>x. if x \<in> set cs \<and> ?Q (connections k x) then ?f (connections k x)
    else connections k x\<rparr>"
  have "server_push st r k = Some (1, ?k)"
    using True each_conn_update [OF assms(1), of ?f ?Q] by (simp add: server_push_def)
  moreover have "ring ?k cs" by (rule ring_cong [OF assms(1)]) auto
  moreover have "IS_HTTP st x" if "output_handler x = Some r" for x
    using that assms(2) by (simp add: IS_GPIP_def IS_GPIP_HANDLER_def)
  then have "something_to_send st (connections ?k c) = 1"
    if "c \<in> set cs" "output_handler (connections k c) = Some r"
      "tcp_state (http (connections k c)) = tcp_established" for c
    using that assms(2) by (simp add: something_to_send_def IS_GPIP_def IS_GPIP_HANDLER_def)
  ultimately show ?thesis using True by auto
qed (simp add: server_push_def)

definition comet_site :: site where
  "comet_site = \<lparr>resource = (\<lambda>_. \<lparr>handler_type = type_generator, handler_comet = True, handler_stream = False,
      handler_data = Generator \<lparr>gen_init = None, gen_handlers = Get_handlers None (Some 1), gen_prop = prop_volatile\<rparr>,
      args_tree = 0, args_index = [], args_size = 0, mimes_index = [], mimes_size = 0\<rparr>),
    http_404 = control_handler 0 0, http_505 = control_handler 0 0, resources_index = [Resource 0], blobs = undefined\<rparr>"

theorem server_push_wakes_listeners_witness:
  "\<exists>h k'. server_push comet_site (Resource 0) (two_connections h) = Some (1, k') \<and> ring k' [0, 21]"
  using server_push_wakes_listeners [OF two_connections_ring, of comet_site "Resource 0"]
  by (fastforce simp: comet_site_def)

end
