(* ===== verification/Packet.thy ===== *)
theory Packet
  imports Generators
begin

text \<open>
  The construction of a packet, \<open>smews_send_packet\<close> of \<open>core/output.c\<close>: the IP header, the TCP header
  with a checksum that is put together from precalculated parts, the HTTP header and the contents.
  The theory proves that what is sent is a well-formed packet whatever is sent: both checksums
  verify, the announced lengths are the length of the packet, and the sequence number advances
  by the number of octets of the segment.

  The build is the default one for IPv4: timers, arguments, coroutines, POST, Comet and the handlers
  of other protocols are enabled.
\<close>

section \<open>Model\<close>

definition IP_VHL_TOS :: u16 where "IP_VHL_TOS = 0x4500"
definition IP_ID :: u16 where "IP_ID = 0"
definition IP_OFFSET :: u16 where "IP_OFFSET = 0"
definition IP_TTL_PROTOCOL :: u16 where "IP_TTL_PROTOCOL = 0x4006"
definition TCP_SRC_PORT :: u16 where "TCP_SRC_PORT = 0x50"
definition TCP_WINDOW :: u16 where "TCP_WINDOW = 0x1000"
definition TCP_URGP :: u16 where "TCP_URGP = 0"
definition MSS_OPT :: u16 where "MSS_OPT = 0x0204"
definition BASIC_IP_CHK :: u16 where "BASIC_IP_CHK = 0x8506"
definition BASIC_TCP_CHK :: u16 where "BASIC_TCP_CHK = 0x1056"
definition IP_HEADER_SIZE :: u16 where "IP_HEADER_SIZE = 20"
definition TCP_HEADER_SIZE :: u16 where "TCP_HEADER_SIZE = 20"
definition SERVICE_HTTP_HEADER_CHK :: u16 where "SERVICE_HTTP_HEADER_CHK = 0x1871"
definition SERVICE_HTTP_HEADER_CHUNKED_CHK :: u16 where "SERVICE_HTTP_HEADER_CHUNKED_CHK = 0x2876"
definition CONTENT_LENGTH_SIZE :: nat where "CONTENT_LENGTH_SIZE = 6"
definition CHUNK_LENGTH_SIZE :: nat where "CHUNK_LENGTH_SIZE = 4"

lemmas output_constants = IP_VHL_TOS_def IP_ID_def IP_OFFSET_def IP_TTL_PROTOCOL_def TCP_SRC_PORT_def
  TCP_WINDOW_def TCP_URGP_def MSS_OPT_def BASIC_IP_CHK_def BASIC_TCP_CHK_def IP_HEADER_SIZE_def
  TCP_HEADER_SIZE_def SERVICE_HTTP_HEADER_CHK_def SERVICE_HTTP_HEADER_CHUNKED_CHK_def
  CONTENT_LENGTH_SIZE_def CHUNK_LENGTH_SIZE_def

definition ascii :: "string \<Rightarrow> u8 list" where
  "ascii s = map of_char s"

definition crlf :: "u8 list" where
  "crlf = [13, 10]"

definition serviceHttpHeader :: "u8 list" where
  "serviceHttpHeader = ascii ''HTTP/1.1 200 OK'' @ crlf @ ascii ''Content-Length:''"

definition serviceHttpHeaderPart2 :: "u8 list" where
  "serviceHttpHeaderPart2 = crlf @ ascii ''Content-Type: text/plain'' @ crlf @ crlf"

definition serviceHttpHeaderChunked :: "u8 list" where
  "serviceHttpHeaderChunked = ascii ''HTTP/1.1 200 OK'' @ crlf @ ascii ''Content-Type: text/plain'' @ crlf
     @ ascii ''Transfer-Encoding:chunked'' @ crlf @ crlf"

text \<open>The chunks of a static file, whose sums the build has computed; sizes are C integers.\<close>

definition MAX_OUT_SIZE :: "target \<Rightarrow> 12 word \<Rightarrow> nat" where
  "MAX_OUT_SIZE tg mss = push_bit (CHUNCKS_NBITS tg) (drop_bit (CHUNCKS_NBITS tg) (unat mss))"

definition DIV_BY_CHUNCKS_SIZE :: "target \<Rightarrow> nat \<Rightarrow> nat" where
  "DIV_BY_CHUNCKS_SIZE tg l = drop_bit (CHUNCKS_NBITS tg) l"

definition MODULO_CHUNCKS_SIZE :: "target \<Rightarrow> nat \<Rightarrow> nat" where
  "MODULO_CHUNCKS_SIZE tg l = take_bit (CHUNCKS_NBITS tg) l"

definition GET_NB_BLOCKS :: "target \<Rightarrow> nat \<Rightarrow> nat" where
  "GET_NB_BLOCKS tg l = DIV_BY_CHUNCKS_SIZE tg l + (if MODULO_CHUNCKS_SIZE tg l \<noteq> 0 then 1 else 0)"

text \<open>The octets of \<open>DEV_PUT16\<close> and \<open>DEV_PUT32\<close>: the most significant one first.\<close>

definition dev_put16 :: "u16 \<Rightarrow> u8 list" where
  "dev_put16 w = [u16_to_u8 (drop_bit 8 w), u16_to_u8 w]"

definition dev_put32 :: "u32 \<Rightarrow> u8 list" where
  "dev_put32 w = [byte_of 3 w, byte_of 2 w, byte_of 1 w, byte_of 0 w]"

definition service_headers_size :: "service_header \<Rightarrow> u8" where
  "service_headers_size h =
    (case h of
       header_standard \<Rightarrow> of_nat (length serviceHttpHeader + length serviceHttpHeaderPart2 + CONTENT_LENGTH_SIZE)
     | header_chunks \<Rightarrow> of_nat (length serviceHttpHeaderChunked) + of_nat (CHUNK_LENGTH_SIZE + 4)
     | header_none \<Rightarrow> of_nat (CHUNK_LENGTH_SIZE + 4))"

text \<open>
  The address, port, sequence numbers and handler that a packet is built from: those of the
  connection, or those of the pseudo connection of a reset. For a handler of another protocol the
  last three numbers are indeterminate, and not used.
\<close>

record packet_source =
  src_ip :: u32
  src_port :: u16
  src_outseqno :: u32
  src_inseqno :: u32
  src_handler :: "handler_ref option"

definition packet_source :: "kernel \<Rightarrow> ptr \<Rightarrow> packet_source" where
  "packet_source k c =
    (case c of
       Some c \<Rightarrow> (let x = connections k c
                  in \<lparr>src_ip = ip_addr x, src_port = port (http x), src_outseqno = next_outseqno (http x),
                      src_inseqno = current_inseqno (http x), src_handler = output_handler x\<rparr>)
     | None \<Rightarrow> (let r = rst_connection k
                in \<lparr>src_ip = rst_ip_addr r, src_port = rst_port r, src_outseqno = rst_next_outseqno r,
                    src_inseqno = rst_current_inseqno r, src_handler = Some Ref_rst\<rparr>))"

text \<open>\<open>segment_length\<close>, and the index in a static file; \<open>x\<close> is the connection, unused for a reset.\<close>

definition segment_length :: "target \<Rightarrow> output_handler \<Rightarrow> http_connection \<Rightarrow> kernel \<Rightarrow> u16 \<times> u32" where
  "segment_length tg oh x k =
    (case handler_type oh of
       type_control \<Rightarrow> (u8_to_u16 (control_length (GET_CONTROL oh)), 0)
     | type_file \<Rightarrow>
        (let max_out_size = (of_nat (MAX_OUT_SIZE tg (tcp_mss x)) :: u16);
             file_remaining_bytes = final_outseqno x - next_outseqno x
         in (if file_remaining_bytes > u16_to_u32 max_out_size then max_out_size
             else u32_to_u16 file_remaining_bytes,
             file_length (GET_FILE oh) - file_remaining_bytes))
     | type_generator \<Rightarrow>
        (out_content_length (curr_output k) + u8_to_u16 (service_headers_size (out_header (curr_output k))), 0)
     | type_general_ip_handler \<Rightarrow> (out_content_length (curr_output k) - TCP_HEADER_SIZE, 0))"

text \<open>The IP header, and the checksum state it leaves; \<open>gp\<close> is the protocol of a packet handler.\<close>

definition send_ip_header :: "target \<Rightarrow> u8 option \<Rightarrow> u32 \<Rightarrow> u16 \<Rightarrow> u8 list \<times> checksum" where
  "send_ip_header tg gp ip len =
    (let total = len + IP_HEADER_SIZE + TCP_HEADER_SIZE;
         ttl_proto = (case gp of Some p \<Rightarrow> 0xFF00 OR u8_to_u16 p | None \<Rightarrow> IP_TTL_PROTOCOL);
         s = checksum_init;
         s = (case gp of
                Some p \<Rightarrow> checksum_add16 (0xFF00 OR u8_to_u16 p)
                  (checksum_add16 IP_OFFSET (checksum_add16 IP_ID (checksum_add16 IP_VHL_TOS s)))
              | None \<Rightarrow> checksum_preload BASIC_IP_CHK s);
         s = checksum_add32 (local_ip_addr tg) s;
         s = checksum_add16 total s;
         s = checksum_add32 ip s;
         s = checksum_end s
     in (dev_put16 IP_VHL_TOS @ dev_put16 total @ dev_put16 IP_ID @ dev_put16 IP_OFFSET @ dev_put16 ttl_proto
           @ dev_put16 (NOT (current_checksum s)) @ dev_put32 (local_ip_addr tg) @ dev_put32 ip, s))"

text \<open>
  The loops that write the length of the contents, in decimal or in hexadecimal, from the last
  digit to the first, and sum the digits as they come.
\<close>

fun decimal_digits :: "nat \<Rightarrow> u16 \<Rightarrow> u8 list \<Rightarrow> checksum \<Rightarrow> u8 list \<times> checksum" where
  "decimal_digits 0 len buf s = (buf, s)"
| "decimal_digits (Suc i) len buf s =
    (let c = u16_to_u8 (len mod 10) + 48
     in decimal_digits i (len div 10) (c # buf) (checksum_add c s))"

fun hex_digits :: "nat \<Rightarrow> u16 \<Rightarrow> u8 list \<Rightarrow> checksum \<Rightarrow> u8 list \<times> checksum" where
  "hex_digits 0 len buf s = (buf, s)"
| "hex_digits (Suc i) len buf s =
    (let c = u16_to_u8 (len AND 0x0f) + 48; c = (if c > 57 then c - 48 + 97 - 10 else c)
     in hex_digits i (drop_bit 4 len) (c # buf) (checksum_add c s))"

text \<open>The contribution of the generated contents to the checksum, and \<open>content_length_buffer\<close>.\<close>

definition generator_sum :: "curr_output \<Rightarrow> checksum \<Rightarrow> u8 list \<times> checksum" where
  "generator_sum o' s =
    (let s = checksum_add16 (out_checksum o') s
     in if out_header o' = header_standard then
          (let s = checksum_add16 SERVICE_HTTP_HEADER_CHK s;
               (buf, s) = decimal_digits CONTENT_LENGTH_SIZE (out_content_length o') [] (checksum_add 0 s)
           in (buf, checksum_add 0 s))
        else
          (let s = (if out_header o' = header_chunks then checksum_add16 SERVICE_HTTP_HEADER_CHUNKED_CHK s else s);
               (buf, s) = hex_digits CHUNK_LENGTH_SIZE (out_content_length o') [] (checksum_add 0 s);
               s = checksum_add 0 s;
               s = checksum_add16 0x0d0a s
           in (buf, if odd (unat (out_content_length o')) then checksum_add16 0x0a0d s
                    else checksum_add16 0x0d0a s)))"

text \<open>The precomputed sums of the blocks of a file, added in 32 bits; reading past the table is undefined.\<close>

definition file_sum :: "target \<Rightarrow> static_resource \<Rightarrow> u32 \<Rightarrow> u16 \<Rightarrow> checksum \<Rightarrow> checksum option" where
  "file_sum tg f index_in_file len s =
    (let b = DIV_BY_CHUNCKS_SIZE tg (unat index_in_file); n = GET_NB_BLOCKS tg (unat len)
     in if length (file_chk f) < b + n then None
        else Some (checksum_add32 (fold (\<lambda>c t. t + u16_to_u32 c) (take n (drop b (file_chk f))) 0) s))"

text \<open>The sum over the pseudo header, the TCP header and the contents.\<close>

definition tcp_sum :: "target \<Rightarrow> output_handler \<Rightarrow> packet_source \<Rightarrow> http_connection \<Rightarrow> curr_output \<Rightarrow> u16 \<Rightarrow> u32
    \<Rightarrow> (u8 list \<times> checksum) option" where
  "tcp_sum tg oh src x o' len index_in_file =
    (let s = checksum_preload BASIC_TCP_CHK checksum_init;
         s = checksum_add32 (local_ip_addr tg) s;
         s = checksum_add16 (len + 20) s;
         s = checksum_add32 (src_outseqno src) s;
         s = checksum_add (if GET_FLAGS oh AND TCP_SYN \<noteq> 0 then 0x60 else 0x50) s;
         s = checksum_add (GET_FLAGS oh) s;
         s = checksum_add32 (src_ip src) s;
         s = checksum_add16 (src_port src) s;
         s = checksum_add32 (src_inseqno src) s
     in case handler_type oh of
          type_generator \<Rightarrow> Some (generator_sum o' s)
        | type_control \<Rightarrow>
            Some ([], if GET_FLAGS oh AND TCP_SYN \<noteq> 0
                      then checksum_add16 (ucast (tcp_mss x)) (checksum_add16 MSS_OPT s) else s)
        | type_file \<Rightarrow> map_option (Pair []) (file_sum tg (GET_FILE oh) index_in_file len s)
        | type_general_ip_handler \<Rightarrow> None)"

definition send_tcp_header :: "output_handler \<Rightarrow> packet_source \<Rightarrow> checksum \<Rightarrow> u8 list" where
  "send_tcp_header oh src s =
     dev_put16 TCP_SRC_PORT @ dev_put16 (src_port src) @ dev_put32 (src_outseqno src) @ dev_put32 (src_inseqno src)
       @ [if GET_FLAGS oh AND TCP_SYN \<noteq> 0 then 0x60 else 0x50, GET_FLAGS oh] @ dev_put16 TCP_WINDOW
       @ dev_put16 (NOT (current_checksum s)) @ dev_put16 TCP_URGP"

text \<open>\<open>DEV_PUTN\<close>: reading past the end of the array is undefined.\<close>

definition dev_putn :: "u8 list \<Rightarrow> nat \<Rightarrow> u8 list option" where
  "dev_putn xs n = (if length xs < n then None else Some (take n xs))"

definition send_contents :: "output_handler \<Rightarrow> http_connection \<Rightarrow> u8 list \<Rightarrow> u8 list \<Rightarrow> curr_output \<Rightarrow> u16 \<Rightarrow> u32
    \<Rightarrow> u8 list option" where
  "send_contents oh x clb data o' len index_in_file =
    (case handler_type oh of
       type_generator \<Rightarrow>
         do { body \<leftarrow> dev_putn data (unat (out_content_length o'));
              Some ((if out_header o' = header_standard
                     then serviceHttpHeader @ clb @ serviceHttpHeaderPart2
                     else (if out_header o' = header_chunks then serviceHttpHeaderChunked else [])
                            @ clb @ dev_put16 0x0d0a)
                    @ body @ (if out_header o' \<noteq> header_standard then dev_put16 0x0d0a else [])) }
     | type_control \<Rightarrow>
         Some (if GET_FLAGS oh AND TCP_SYN \<noteq> 0 then dev_put16 MSS_OPT @ dev_put16 (ucast (tcp_mss x)) else [])
     | type_file \<Rightarrow> dev_putn (drop (unat index_in_file) (file_data (GET_FILE oh))) (unat len)
     | type_general_ip_handler \<Rightarrow> None)"

text \<open>The update of the sequence numbers after a packet.\<close>

definition account_segment :: "output_handler \<Rightarrow> curr_output \<Rightarrow> u16 \<Rightarrow> http_connection \<Rightarrow> http_connection" where
  "account_segment oh o' len x =
    (if GET_FLAGS oh AND TCP_SYN \<noteq> 0 then x\<lparr>next_outseqno := next_outseqno x + 1\<rparr>
     else
      (let x = x\<lparr>next_outseqno := next_outseqno x + u16_to_u32 len, inflight := inflight x + len\<rparr>
       in if handler_type oh = type_generator
             \<and> (out_header o' = header_standard \<or> out_content_length o' = 0)
          then x\<lparr>final_outseqno := next_outseqno x\<rparr> else x))"

text \<open>The end of a packet: the device has all of it.\<close>

definition dev_output :: "u16 \<Rightarrow> u8 list \<Rightarrow> kernel \<Rightarrow> kernel" where
  "dev_output len os k =
     k\<lparr>dev_out := dev_out k @ [\<lparr>prepared = len, link_ip = get_current_remote_ip k, octets_out = os\<rparr>]\<rparr>"

definition smews_send_packet :: "target \<Rightarrow> site \<Rightarrow> ptr \<Rightarrow> kernel \<Rightarrow> kernel option" where
  "smews_send_packet tg st c k =
    (let k = (case c of
                Some a \<Rightarrow> upd_connection a (upd_http (\<lambda>x. x\<lparr>transmission_time := last_transmission_time k\<rparr>)) k
              | None \<Rightarrow> k);
         src = packet_source k c
     in case src_handler src of
          None \<Rightarrow> None
        | Some r \<Rightarrow>
           (let oh = handler st r;
                x = http (connections k (the c));
                (len, index_in_file) = segment_length tg oh x k;
                total = len + IP_HEADER_SIZE + TCP_HEADER_SIZE;
                gp = (case c of Some a \<Rightarrow> if IS_GPIP st (connections k a)
                                          then Some (gp_protocol (gpip (connections k a))) else None
                      | None \<Rightarrow> None);
                (ip, s) = send_ip_header tg gp (src_ip src) len
            in if IS_GPIP_HANDLER st (Some r) then
                 do { body \<leftarrow> dev_putn (buffer_bytes k (out_buffer (curr_output k)))
                                (unat (out_content_length (curr_output k)));
                      Some (dev_output total (ip @ body) (k\<lparr>chk := s\<rparr>)) }
               else
                 do { (clb, s) \<leftarrow> tcp_sum tg oh src x (curr_output k) len index_in_file;
                      let s = checksum_end s;
                      body \<leftarrow> send_contents oh x clb (buffer_bytes k (out_buffer (curr_output k)))
                                (curr_output k) len index_in_file;
                      let k = k\<lparr>chk := s\<rparr>;
                      let k = (case c of
                                 Some a \<Rightarrow> upd_connection a (upd_http (account_segment oh (curr_output k) len)) k
                               | None \<Rightarrow> k);
                      Some (dev_output total (ip @ send_tcp_header oh src s @ body) k) }))"

section \<open>Sums of octets\<close>

lemma be_sum_put16 [simp]: "be_sum True (dev_put16 v @ xs) = unat v + be_sum True xs"
  using octet_sum_u16 [of v] by (simp add: dev_put16_def)

lemma be_sum_put32: "be_sum True (dev_put32 v @ xs) = be_sum True (dev_put32 v) + be_sum True xs"
  by (simp add: dev_put32_def)

lemma length_put [simp]: "length (dev_put16 v) = 2" "length (dev_put32 w) = 4"
  by (simp_all add: dev_put16_def dev_put32_def)

lemma be_sum_even:
  "even (length xs) \<Longrightarrow> be_sum True (xs @ ys) = be_sum True xs + be_sum True ys"
  by (simp add: be_sum_append)

lemma be_sum_rev: "be_sum e (rev xs) = be_sum (even (length xs) \<noteq> e) xs"
  by (induction xs arbitrary: e) (auto simp: be_sum_append)

lemma chk_abs_preload [simp]: "chk_abs (checksum_preload v checksum_init) = unat v"
  and at_s0_preload [simp]: "at_s0 (checksum_preload v s) = at_s0 s"
proof -
  have "chk_val (checksum_preload v checksum_init) = unat v"
    using octet_sum_u16 [of v] by (simp add: chk_val_def checksum_preload_def checksum_init_def)
  then show "chk_abs (checksum_preload v checksum_init) = unat v"
    using unat_u16_lt [of v] by (simp add: chk_abs_def ocs_small)
qed (simp add: checksum_preload_def)

lemma chk_abs_put32:
  "at_s0 s \<Longrightarrow> chk_abs (checksum_add32 v s) = ocs (chk_abs s + be_sum True (dev_put32 v))"
  by (simp add: chk_abs_add32 dev_put32_def add.assoc)

lemma chk_abs_add8s:
  "chk_abs (fold checksum_add ds s) = ocs (chk_abs s + be_sum (at_s0 s) ds)"
  by (induction ds arbitrary: s) (simp_all add: chk_abs_add add.assoc)

lemma at_s0_add8s [simp]: "at_s0 (fold checksum_add ds s) = (even (length ds) = at_s0 s)"
  by (induction ds arbitrary: s) (auto simp: bool_flip)

lemmas chk_sums = chk_abs_add chk_abs_add16 chk_abs_put32 chk_abs_add8s

text \<open>
  A field that holds the complement of the sum makes the octets verify; the sum may have been put
  together from other numbers, as long as they are congruent.
\<close>

lemma complement_verifies:
  fixes c :: u16
  assumes "unat c = ocs n" and "n mod 65535 = m mod 65535" and "0 < m"
  shows "ocs (m + unat (NOT c)) = 65535"
proof -
  have "unat (NOT c) = 65535 - ocs n" by (simp only: unat_not_u16 assms(1))
  moreover have "(m + (65535 - ocs n)) mod 65535 = 0"
  proof -
    have "(m + (65535 - ocs n)) mod 65535 = (m mod 65535 + (65535 - ocs n)) mod 65535"
      by (simp add: mod_add_left_eq)
    also have "\<dots> = (ocs n mod 65535 + (65535 - ocs n)) mod 65535"
      using assms(2) by (simp add: ocs_mod)
    also have "\<dots> = (ocs n + (65535 - ocs n)) mod 65535" by (simp add: mod_add_left_eq)
    also have "ocs n + (65535 - ocs n) = 65535" using ocs_le [of n] by simp
    finally show ?thesis by simp
  qed
  ultimately have "ocs (m + unat (NOT c)) = ocs 65535"
    using assms(3) by (intro ocs_cong) auto
  then show ?thesis by (simp add: ocs_small)
qed

lemma put32_mod: "be_sum True (dev_put32 v) mod 65535 = unat v mod 65535"
proof -
  let ?b = "\<lambda>i. unat (byte_of i v)"
  have "unat v div 16777216 < 256" using unat_u32_lt [of v] by (simp only: less_mult_imp_div_less)
  then have "?b 0 + 256 * ?b 1 + 65536 * ?b 2 + 16777216 * ?b 3 = unat v"
    using nat_base256 [of "unat v"] by (simp add: unat_byte_of)
  then have "unat v = be_sum True (dev_put32 v) + 65535 * (?b 2 + 256 * ?b 3)"
    by (simp add: dev_put32_def)
  then show ?thesis by (metis mod_mult_self2)
qed

section \<open>The headers\<close>

lemma unat_output_constants [simp]:
  "unat IP_VHL_TOS = 17664" "unat IP_ID = 0" "unat IP_OFFSET = 0" "unat IP_TTL_PROTOCOL = 16390"
  "unat TCP_SRC_PORT = 80" "unat TCP_WINDOW = 4096" "unat TCP_URGP = 0" "unat MSS_OPT = 516"
  "unat BASIC_IP_CHK = 34054" "unat BASIC_TCP_CHK = 4182"
  "unat SERVICE_HTTP_HEADER_CHK = 6257" "unat SERVICE_HTTP_HEADER_CHUNKED_CHK = 10358"
  by (simp_all add: output_constants)

text \<open>The IP header sums to 0xffff.\<close>

lemma send_ip_header_verifies:
  "ocs (be_sum True (fst (send_ip_header tg gp ip len))) = 65535"
proof -
  let ?total = "len + IP_HEADER_SIZE + TCP_HEADER_SIZE"
  let ?tp = "case gp of Some p \<Rightarrow> 0xFF00 OR u8_to_u16 p | None \<Rightarrow> IP_TTL_PROTOCOL"
  let ?s = "snd (send_ip_header tg gp ip len)"
  let ?m = "unat IP_VHL_TOS + unat ?total + unat IP_ID + unat IP_OFFSET + unat ?tp
    + be_sum True (dev_put32 (local_ip_addr tg)) + be_sum True (dev_put32 ip)"
  have "unat (current_checksum ?s) = ocs ?m"
    by (cases gp) (simp_all add: send_ip_header_def Let_def current_checksum_end chk_sums ac_simps)
  then have "ocs (?m + unat (NOT (current_checksum ?s))) = 65535"
    by (rule complement_verifies) simp_all
  then show ?thesis
    using be_sum_put32 [of _ "dev_put32 ip"]
    by (simp add: send_ip_header_def Let_def ac_simps)
qed

lemma length_send_ip_header [simp]: "length (fst (send_ip_header tg gp ip len)) = 20"
  by (simp add: send_ip_header_def Let_def)

lemma length_send_tcp_header [simp]: "length (send_tcp_header oh src s) = 20"
  by (simp add: send_tcp_header_def)

text \<open>The digit loops are lists of digits, summed backwards.\<close>

primrec decimals :: "nat \<Rightarrow> u16 \<Rightarrow> u8 list" where
  "decimals 0 len = []"
| "decimals (Suc i) len = decimals i (len div 10) @ [u16_to_u8 (len mod 10) + 48]"

primrec hexes :: "nat \<Rightarrow> u16 \<Rightarrow> u8 list" where
  "hexes 0 len = []"
| "hexes (Suc i) len = hexes i (drop_bit 4 len)
     @ [let c = u16_to_u8 (len AND 0x0f) + 48 in if c > 57 then c - 48 + 97 - 10 else c]"

lemma decimal_digits_eq:
  "decimal_digits i len buf s = (decimals i len @ buf, fold checksum_add (rev (decimals i len)) s)"
  by (induction i arbitrary: len buf s) (simp_all add: Let_def)

lemma hex_digits_eq:
  "hex_digits i len buf s = (hexes i len @ buf, fold checksum_add (rev (hexes i len)) s)"
  by (induction i arbitrary: len buf s) (simp_all add: Let_def)

lemma length_digits [simp]: "length (decimals i len) = i" "length (hexes i len) = i"
  by (induction i arbitrary: len) simp_all

lemma decimals_value: "unat len < 10 ^ i \<Longrightarrow> decimal (decimals i len) = unat len"
proof (induction i arbitrary: len)
  case (Suc i)
  have "unat (len div 10) < 10 ^ i" using Suc.prems by (simp add: unat_div less_mult_imp_div_less)
  then have "decimal (decimals i (len div 10)) = unat len div 10" by (simp add: Suc.IH unat_div)
  moreover note digit_char [of len]
  ultimately show ?case by (simp add: decimal_snoc)
qed (simp add: decimal_def)

section \<open>The contents\<close>

text \<open>A sum state is an even number of octets that sum to \<open>n\<close> modulo 65535.\<close>

definition sums_to :: "checksum \<Rightarrow> nat \<Rightarrow> bool" where
  "sums_to s n = (at_s0 s \<and> (\<exists>m. chk_abs s = ocs m \<and> m mod 65535 = n mod 65535))"

lemma sums_toI: "at_s0 s \<Longrightarrow> chk_abs s = ocs m \<Longrightarrow> m mod 65535 = n mod 65535 \<Longrightarrow> sums_to s n"
  by (auto simp: sums_to_def)

lemma sums_to_verifies:
  "sums_to s n \<Longrightarrow> 0 < n \<Longrightarrow> ocs (n + unat (NOT (current_checksum (checksum_end s)))) = 65535"
  by (auto simp: sums_to_def intro!: complement_verifies simp del: unsigned_not_eq simp: current_checksum_end)

lemma sums_to_add:
  assumes "sums_to s n" and "at_s0 s'" and "chk_abs s' = ocs (chk_abs s + x)" and "x mod 65535 = y mod 65535"
  shows "sums_to s' (n + y)"
proof -
  obtain m where m: "chk_abs s = ocs m" "m mod 65535 = n mod 65535" using assms(1) by (auto simp: sums_to_def)
  have "(m + x) mod 65535 = (n + y) mod 65535" using m(2) assms(4) by (metis mod_add_cong)
  then show ?thesis using assms(2,3) m(1) by (auto intro!: sums_toI [of _ "m + x"])
qed

lemma sums_to_add16: "sums_to s n \<Longrightarrow> sums_to (checksum_add16 v s) (n + unat v)"
  and sums_to_add32: "sums_to s n \<Longrightarrow> sums_to (checksum_add32 w s) (n + be_sum True (dev_put32 w))"
  and sums_to_add8_8: "sums_to s n \<Longrightarrow> sums_to (checksum_add b (checksum_add a s)) (n + (256 * unat a + unat b))"
proof -
  assume s: "sums_to s n"
  then have at: "at_s0 s" by (simp add: sums_to_def)
  show "sums_to (checksum_add16 v s) (n + unat v)"
    by (rule sums_to_add [OF s]) (simp_all add: at chk_abs_add16)
  show "sums_to (checksum_add32 w s) (n + be_sum True (dev_put32 w))"
    by (rule sums_to_add [OF s]) (simp_all add: at chk_abs_put32)
  show "sums_to (checksum_add b (checksum_add a s)) (n + (256 * unat a + unat b))"
    by (rule sums_to_add [OF s]) (simp_all add: at chk_abs_add add.assoc)
qed

lemma sums_to_cong: "sums_to s n \<Longrightarrow> n mod 65535 = m mod 65535 \<Longrightarrow> sums_to s m"
  by (auto simp: sums_to_def)

lemma sums_to_shift: "sums_to s n \<Longrightarrow> n + 65535 * k = m \<Longrightarrow> sums_to s m"
  by (erule sums_to_cong) auto

text \<open>The digits, summed backwards between two zero octets, count as written forwards.\<close>

lemma sums_to_digits:
  assumes "sums_to s n" and "even (length ds)"
  shows "sums_to (checksum_add 0 (fold checksum_add (rev ds) (checksum_add 0 s))) (n + be_sum True ds)"
proof -
  have at: "at_s0 s" using assms(1) by (simp add: sums_to_def)
  show ?thesis
    by (rule sums_to_add [OF assms(1)]) (simp_all add: at assms(2) chk_abs_add chk_abs_add8s be_sum_rev)
qed

lemma http_header_sums:
  "be_sum True serviceHttpHeader + be_sum True serviceHttpHeaderPart2 = 6257 + 65535 * 9"
  "be_sum True serviceHttpHeaderChunked = 10358 + 65535 * 11"
  "length serviceHttpHeader = 32" "length serviceHttpHeaderPart2 = 30" "length serviceHttpHeaderChunked = 72"
  by (simp_all add: serviceHttpHeader_def serviceHttpHeaderPart2_def serviceHttpHeaderChunked_def ascii_def crlf_def)

text \<open>What a generator segment contains, and its sum.\<close>

definition length_digits :: "curr_output \<Rightarrow> u8 list" where
  "length_digits o' = (if out_header o' = header_standard then decimals 6 (out_content_length o')
     else hexes 4 (out_content_length o'))"

definition generated :: "curr_output \<Rightarrow> u8 list \<Rightarrow> u8 list" where
  "generated o' body =
    (case out_header o' of
       header_standard \<Rightarrow> serviceHttpHeader @ length_digits o' @ serviceHttpHeaderPart2 @ body
     | header_chunks \<Rightarrow> serviceHttpHeaderChunked @ length_digits o' @ crlf @ body @ crlf
     | header_none \<Rightarrow> length_digits o' @ crlf @ body @ crlf)"

lemma dev_put_crlf: "dev_put16 0x0d0a = crlf"
  by (simp add: dev_put16_def crlf_def)

lemma length_crlf [simp]: "length crlf = 2"
  by (simp add: crlf_def)

lemma be_sum_chunk_end:
  "be_sum True (body @ crlf) = be_sum True body + unat (if odd (length body) then 0x0a0d else 0x0d0a :: u16)"
  by (simp add: be_sum_append crlf_def)

lemma length_length_digits [simp]: "length (length_digits o') = (if out_header o' = header_standard then 6 else 4)"
  by (simp add: length_digits_def)

lemma length_generated:
  "length body = unat (out_content_length o') \<Longrightarrow> length (generated o' body) =
     unat (out_content_length o') + unat (service_headers_size (out_header o'))"
  by (simp add: generated_def service_headers_size_def http_header_sums output_constants split: service_header.split)

lemma generator_sum_digits: "fst (generator_sum o' s) = length_digits o'"
  by (simp add: generator_sum_def Let_def decimal_digits_eq hex_digits_eq length_digits_def output_constants)

lemma generator_sum_sums:
  assumes "sums_to s n" and "unat (out_checksum o') = ocs (be_sum True body)"
    and "length body = unat (out_content_length o')"
  shows "sums_to (snd (generator_sum o' s)) (n + be_sum True (generated o' body))"
proof -
  have body: "unat (out_checksum o') mod 65535 = be_sum True body mod 65535"
    using assms(2) by (simp add: ocs_mod)
  have c: "sums_to (checksum_add16 (out_checksum o') s) (n + be_sum True body)"
    by (rule sums_to_cong [OF sums_to_add16 [OF assms(1)]]) (use body in \<open>metis mod_add_right_eq\<close>)
  show ?thesis
  proof (cases "out_header o'")
    case header_standard
    have "sums_to (snd (generator_sum o' s))
        (n + be_sum True body + unat SERVICE_HTTP_HEADER_CHK + be_sum True (length_digits o'))"
      using sums_to_digits [OF sums_to_add16 [OF c, of SERVICE_HTTP_HEADER_CHK], of "length_digits o'"]
      by (simp add: header_standard generator_sum_def Let_def decimal_digits_eq output_constants length_digits_def)
    moreover have "be_sum True (generated o' body) =
        be_sum True serviceHttpHeader + be_sum True (length_digits o') + be_sum True serviceHttpHeaderPart2 + be_sum True body"
      by (simp add: generated_def header_standard be_sum_even http_header_sums)
    ultimately show ?thesis using http_header_sums(1) unat_output_constants(11)
      by (elim sums_to_shift [of _ _ 9]) linarith
  next
    case header_chunks
    have "sums_to (snd (generator_sum o' s)) (n + be_sum True body + unat SERVICE_HTTP_HEADER_CHUNKED_CHK
        + be_sum True (length_digits o') + unat (0x0d0a :: u16)
        + unat (if odd (length body) then 0x0a0d else 0x0d0a :: u16))"
      using sums_to_add16 [OF sums_to_add16 [OF sums_to_digits [OF sums_to_add16 [OF c, of SERVICE_HTTP_HEADER_CHUNKED_CHK],
        of "length_digits o'"], of "0x0d0a"], of "if odd (length body) then 0x0a0d else 0x0d0a"]
      by (simp add: header_chunks generator_sum_def Let_def hex_digits_eq output_constants length_digits_def
          assms(3) if_distrib [of "\<lambda>v. checksum_add16 v _"] cong: if_cong)
    moreover have "be_sum True (generated o' body) = be_sum True serviceHttpHeaderChunked
        + be_sum True (length_digits o') + unat (0x0d0a :: u16) + be_sum True (body @ crlf)"
      by (simp add: generated_def header_chunks be_sum_even http_header_sums dev_put_crlf [symmetric])
    ultimately show ?thesis unfolding be_sum_chunk_end using http_header_sums(2) unat_output_constants(12)
      by (elim sums_to_shift [of _ _ 11]) linarith
  next
    case header_none
    have "sums_to (snd (generator_sum o' s)) (n + be_sum True body
        + be_sum True (length_digits o') + unat (0x0d0a :: u16)
        + unat (if odd (length body) then 0x0a0d else 0x0d0a :: u16))"
      using sums_to_add16 [OF sums_to_add16 [OF sums_to_digits [OF c, of "length_digits o'"], of "0x0d0a"],
        of "if odd (length body) then 0x0a0d else 0x0d0a"]
      by (simp add: header_none generator_sum_def Let_def hex_digits_eq output_constants length_digits_def
          assms(3) if_distrib [of "\<lambda>v. checksum_add16 v _"] cong: if_cong)
    moreover have "be_sum True (generated o' body) =
        be_sum True (length_digits o') + unat (0x0d0a :: u16) + be_sum True (body @ crlf)"
      by (simp add: generated_def header_none be_sum_even dev_put_crlf [symmetric])
    ultimately show ?thesis unfolding be_sum_chunk_end
      by (elim sums_to_shift [of _ _ 0]) linarith
  qed
qed

text \<open>
  The tables that the build generates for a static file: the one's complement sum of each block of
  \<open>2 ^ CHUNCKS_NBITS\<close> octets, the last one possibly shorter.
\<close>

definition file_block :: "target \<Rightarrow> static_resource \<Rightarrow> nat \<Rightarrow> u8 list" where
  "file_block tg f i = take (2 ^ CHUNCKS_NBITS tg) (drop (i * 2 ^ CHUNCKS_NBITS tg) (file_data f))"

definition file_ok :: "target \<Rightarrow> static_resource \<Rightarrow> bool" where
  "file_ok tg f = (0 < CHUNCKS_NBITS tg \<and> length (file_data f) = unat (file_length f) \<and>
     length (file_chk f) = GET_NB_BLOCKS tg (length (file_data f)) \<and>
     (\<forall>i<length (file_chk f). unat (file_chk f ! i) = ocs (be_sum True (file_block tg f i))))"

definition nb_blocks :: "nat \<Rightarrow> nat \<Rightarrow> nat" where
  "nb_blocks c l = (l + (c - 1)) div c"

lemma nb_blocks_simps:
  assumes "0 < c"
  shows "nb_blocks c 0 = 0" and "nb_blocks c (c + l) = Suc (nb_blocks c l)"
    and "0 < l \<Longrightarrow> l \<le> c \<Longrightarrow> nb_blocks c l = 1" and "l \<le> m \<Longrightarrow> nb_blocks c l \<le> nb_blocks c m"
proof -
  show "nb_blocks c 0 = 0" using assms by (simp add: nb_blocks_def)
  show add: "nb_blocks c (c + l) = Suc (nb_blocks c l)" for l
    using div_add_self1 [of c "l + (c - 1)"] assms by (simp only: nb_blocks_def add.assoc)
  show "l \<le> m \<Longrightarrow> nb_blocks c l \<le> nb_blocks c m" by (simp add: nb_blocks_def div_le_mono)
  assume "0 < l" "l \<le> c"
  then have "l + (c - 1) = c + (l - 1)" "l - 1 < c" by auto
  then show "nb_blocks c l = 1"
    using div_add_self1 [of c "l - 1"] assms by (simp only: nb_blocks_def) simp
qed

lemma nb_blocks_add: "0 < c \<Longrightarrow> nb_blocks c (b * c + l) = b + nb_blocks c l"
  by (induction b) (simp_all add: nb_blocks_simps(2) add.assoc)

lemma GET_NB_BLOCKS_eq: "GET_NB_BLOCKS tg l = nb_blocks (2 ^ CHUNCKS_NBITS tg) l"
proof -
  define c :: nat where "c = 2 ^ CHUNCKS_NBITS tg"
  have c: "0 < c" by (simp add: c_def)
  have "l mod c < c" using c by simp
  then have "nb_blocks c (l mod c) = (if l mod c \<noteq> 0 then 1 else 0)"
    using nb_blocks_simps(1,3) [OF c] by simp
  moreover have "nb_blocks c l = l div c + nb_blocks c (l mod c)"
    using nb_blocks_add [OF c, of "l div c" "l mod c"] by simp
  ultimately show ?thesis
    by (simp add: GET_NB_BLOCKS_def DIV_BY_CHUNCKS_SIZE_def MODULO_CHUNCKS_SIZE_def drop_bit_eq_div
        take_bit_eq_mod flip: c_def)
qed

text \<open>
  A segment that starts at a block and ends at a block or at the end of the file has the sum of its
  blocks.
\<close>

lemma blocks_sum:
  assumes "0 < c" and "even c" and "len \<le> length xs" and "c dvd len \<or> len = length xs"
    and "nb_blocks c (length xs) \<le> length (ck :: u16 list)"
    and "\<forall>i<nb_blocks c (length xs). unat (ck ! i) mod 65535 = be_sum True (take c (drop (i * c) xs)) mod 65535"
  shows "sum_list (map unat (take (nb_blocks c len) ck)) mod 65535 = be_sum True (take len xs) mod 65535"
  using assms(3-6)
proof (induction len arbitrary: xs ck rule: less_induct)
  case (less len)
  note nb = nb_blocks_simps [OF assms(1)]
  show ?case
  proof (cases "len = 0")
    case False
    have n1: "1 \<le> nb_blocks c (length xs)"
      using nb(4) [of "min c (length xs)" "length xs"] nb(3) [of "min c (length xs)"] False less.prems(1) assms(1)
      by (cases xs) auto
    then obtain x ck' where ck: "ck = x # ck'" using less.prems(3) by (cases ck) auto
    have x: "unat x mod 65535 = be_sum True (take c xs) mod 65535"
      using less.prems(4) n1 ck by (auto dest!: spec [of _ 0])
    show ?thesis
    proof (cases "c < len")
      case True
      then obtain l where l: "len = c + l" "0 < l" by (metis less_imp_add_positive)
      let ?ys = "drop c xs"
      have len: "length xs = c + length ?ys" using True less.prems(1) by simp
      have nys: "nb_blocks c (length xs) = Suc (nb_blocks c (length ?ys))"
        by (subst len) (rule nb(2))
      have "sum_list (map unat (take (nb_blocks c l) ck')) mod 65535 = be_sum True (take l ?ys) mod 65535"
      proof (rule less.IH)
        show "l < len" using l assms(1) by simp
        show "l \<le> length ?ys" using l less.prems(1) by simp
        show "c dvd l \<or> l = length ?ys" using less.prems(2) l len by (metis add_left_cancel dvd_add_triv_left_iff)
        show "nb_blocks c (length ?ys) \<le> length ck'" using less.prems(3) nys ck by simp
        show "\<forall>i<nb_blocks c (length ?ys). unat (ck' ! i) mod 65535 =
            be_sum True (take c (drop (i * c) ?ys)) mod 65535"
        proof (intro allI impI)
          fix i assume "i < nb_blocks c (length ?ys)"
          with less.prems(4) nys have "unat (ck ! Suc i) mod 65535 =
              be_sum True (take c (drop (Suc i * c) xs)) mod 65535" by auto
          then show "unat (ck' ! i) mod 65535 = be_sum True (take c (drop (i * c) ?ys)) mod 65535"
            by (simp add: ck add.commute)
        qed
      qed
      moreover have "take len xs = take c xs @ take l ?ys" using l by (simp add: take_add)
      moreover have "length (take c xs) = c" using len by simp
      ultimately show ?thesis using x assms(2)
        by (simp add: ck l nb(2) be_sum_even) (metis mod_add_cong)
    next
      case False
      with \<open>len \<noteq> 0\<close> have "nb_blocks c len = 1" by (intro nb(3)) auto
      moreover have "take c xs = take len xs"
      proof (cases "c dvd len")
        case True
        with \<open>len \<noteq> 0\<close> have "c \<le> len" by (simp add: dvd_imp_le)
        with False have "len = c" by simp
        then show ?thesis by simp
      qed (use less.prems False in auto)
      ultimately show ?thesis using x ck by simp
    qed
  qed (simp add: nb)
qed

lemma unat_sum_u16:
  "unat t + sum_list (map unat xs) < 4294967296 \<Longrightarrow>
   unat (fold (\<lambda>c t. t + u16_to_u32 c) xs t) = unat t + sum_list (map unat xs)"
proof (induction xs arbitrary: t)
  case (Cons x xs)
  then have "unat (t + u16_to_u32 x) = unat t + unat x" by (simp add: unat_word_ariths)
  with Cons show ?case by simp
qed simp

lemma sum_list_u16_le: "sum_list (map unat (xs :: u16 list)) \<le> 65535 * length xs"
proof (induction xs)
  case (Cons x xs)
  then show ?case using unat_u16_lt [of x] by simp
qed simp

lemma file_sum_sums:
  assumes "sums_to s n" and "file_ok tg f" and "2 ^ CHUNCKS_NBITS tg dvd unat index"
    and "unat index + unat len \<le> length (file_data f)"
    and "2 ^ CHUNCKS_NBITS tg dvd unat len \<or> unat index + unat len = length (file_data f)"
  shows "\<exists>s'. file_sum tg f index len s = Some s' \<and>
    sums_to s' (n + be_sum True (take (unat len) (drop (unat index) (file_data f))))"
proof -
  define c :: nat where "c = 2 ^ CHUNCKS_NBITS tg"
  have c: "0 < c" "even c" using assms(2) by (auto simp: c_def file_ok_def)
  obtain b where b: "unat index = b * c" using assms(3) by (metis c_def dvdE mult.commute)
  let ?xs = "drop (unat index) (file_data f)" and ?ck = "drop b (file_chk f)"
  let ?nb = "nb_blocks c (unat len)" and ?nx = "nb_blocks c (length ?xs)"
  have "length (file_data f) = b * c + length ?xs" using assms(4) b by simp
  then have chk: "length (file_chk f) = b + ?nx"
    using assms(2) nb_blocks_add [OF c(1), of b "length ?xs"] by (simp add: file_ok_def GET_NB_BLOCKS_eq flip: c_def)
  have le: "unat len \<le> length ?xs" using assms(4) by simp
  have sum: "sum_list (map unat (take ?nb ?ck)) mod 65535 = be_sum True (take (unat len) ?xs) mod 65535"
  proof (rule blocks_sum [OF c le])
    show "c dvd unat len \<or> unat len = length ?xs" using assms(4,5) by (auto simp: c_def)
    show "?nx \<le> length ?ck" by (simp add: chk)
    show "\<forall>i<?nx. unat (?ck ! i) mod 65535 = be_sum True (take c (drop (i * c) ?xs)) mod 65535"
      using assms(2) by (simp add: file_ok_def file_block_def chk ocs_mod b add_mult_distrib2 add.commute
          mult.commute flip: c_def)
  qed
  have nb: "?nb \<le> ?nx" by (rule nb_blocks_simps(4) [OF c(1) le])
  have "?nb \<le> nb_blocks c 65536"
    using unat_u16_lt [of len] by (intro nb_blocks_simps(4) [OF c(1)]) simp
  also have "\<dots> \<le> 65536"
  proof -
    have "65536 + (c - 1) \<le> 65536 * c" using c(1) by (cases c) auto
    then have "(65536 + (c - 1)) div c \<le> 65536 * c div c" by (rule div_le_mono)
    then show ?thesis using c(1) by (simp add: nb_blocks_def)
  qed
  finally have few: "?nb \<le> 65536" .
  let ?t = "fold (\<lambda>c t. t + u16_to_u32 c) (take ?nb ?ck) 0"
  have "unat ?t = sum_list (map unat (take ?nb ?ck))"
    using unat_sum_u16 [of 0 "take ?nb ?ck"] sum_list_u16_le [of "take ?nb ?ck"] few by simp
  then have t: "be_sum True (dev_put32 ?t) mod 65535 = be_sum True (take (unat len) ?xs) mod 65535"
    using sum put32_mod [of ?t] by simp
  have "sums_to (checksum_add32 ?t s) (n + be_sum True (take (unat len) ?xs))"
    by (rule sums_to_cong [OF sums_to_add32 [OF assms(1)]]) (use t in \<open>metis mod_add_right_eq\<close>)
  moreover have "file_sum tg f index len s = Some (checksum_add32 ?t s)"
    using nb chk c b by (simp add: file_sum_def GET_NB_BLOCKS_eq DIV_BY_CHUNCKS_SIZE_def drop_bit_eq_div flip: c_def)
  ultimately show ?thesis by blast
qed

section \<open>The packet\<close>

definition IS_SYN :: "output_handler \<Rightarrow> bool" where
  "IS_SYN oh = (GET_FLAGS oh AND TCP_SYN \<noteq> 0)"

text \<open>
  What a sender relies on: a control handler announces the length of its options; the data of a
  generator are in the buffer and summed; a file has its tables and resumes at the start of a block.
  The buffers of the targets are far below the 65000 octets that keep the lengths in 16 bits.
\<close>

definition sendable :: "target \<Rightarrow> site \<Rightarrow> ptr \<Rightarrow> kernel \<Rightarrow> bool" where
  "sendable tg st c k =
    (case src_handler (packet_source k c) of
       None \<Rightarrow> False
     | Some r \<Rightarrow>
        (let oh = handler st r; x = http (connections k (the c)); o' = curr_output k;
             data = buffer_bytes k (out_buffer o'); n = unat (out_content_length o')
         in case handler_type oh of
              type_control \<Rightarrow> (c = None \<longrightarrow> \<not> IS_SYN oh) \<and> control_length (GET_CONTROL oh) = (if IS_SYN oh then 4 else 0)
            | type_generator \<Rightarrow> c \<noteq> None \<and> n \<le> length data \<and> n \<le> 65000
                \<and> unat (out_checksum o') = ocs (be_sum True (take n data))
            | type_file \<Rightarrow>
               (let f = GET_FILE oh; remaining = final_outseqno x - next_outseqno x
                in c \<noteq> None \<and> file_ok tg f \<and> remaining \<le> file_length f
                   \<and> 2 ^ CHUNCKS_NBITS tg dvd unat (file_length f) - unat remaining)
            | type_general_ip_handler \<Rightarrow> c \<noteq> None \<and> n \<le> length data \<and> n \<le> 65000
                \<and> gp_protocol (gpip (connections k (the c))) \<noteq> 6))"

definition contents :: "output_handler \<Rightarrow> http_connection \<Rightarrow> curr_output \<Rightarrow> u8 list \<Rightarrow> u16 \<Rightarrow> u32 \<Rightarrow> u8 list" where
  "contents oh x o' data len index =
    (case handler_type oh of
       type_control \<Rightarrow> if IS_SYN oh then dev_put16 MSS_OPT @ dev_put16 (ucast (tcp_mss x)) else []
     | type_generator \<Rightarrow> generated o' (take (unat (out_content_length o')) data)
     | type_file \<Rightarrow> take (unat len) (drop (unat index) (file_data (GET_FILE oh)))
     | type_general_ip_handler \<Rightarrow> take (unat (out_content_length o')) data)"

lemma GET_FLAGS_SYN: "handler_type oh \<noteq> type_control \<Longrightarrow> \<not> IS_SYN oh"
  by (simp add: IS_SYN_def GET_FLAGS_def TCP_flags)

lemma MAX_OUT_SIZE_bound: "MAX_OUT_SIZE tg mss \<le> 4095" "unat (of_nat (MAX_OUT_SIZE tg mss) :: u16) = MAX_OUT_SIZE tg mss"
proof -
  have "unat mss < 4096" using unsigned_less [of mss] by simp
  moreover have "MAX_OUT_SIZE tg mss \<le> unat mss" by (simp add: MAX_OUT_SIZE_def push_bit_eq_mult drop_bit_eq_div)
  ultimately show "MAX_OUT_SIZE tg mss \<le> 4095" by simp
  then show "unat (of_nat (MAX_OUT_SIZE tg mss) :: u16) = MAX_OUT_SIZE tg mss" by (simp add: unat_of_nat take_bit_nat_eq_self_iff)
qed

text \<open>The segment of a file ends at a block or at the end of the file.\<close>

lemma file_segment:
  assumes "handler_type oh = type_file" and "segment_length tg oh x k = (len, index)"
    and "final_outseqno x - next_outseqno x \<le> file_length (GET_FILE oh)"
  shows "unat index = unat (file_length (GET_FILE oh)) - unat (final_outseqno x - next_outseqno x)"
    and "unat index + unat len \<le> unat (file_length (GET_FILE oh))"
    and "2 ^ CHUNCKS_NBITS tg dvd unat len \<or> unat index + unat len = unat (file_length (GET_FILE oh))"
    and "unat len \<le> 4095"
proof -
  let ?r = "final_outseqno x - next_outseqno x" and ?l = "file_length (GET_FILE oh)"
  let ?m = "MAX_OUT_SIZE tg (tcp_mss x)"
  have eq: "len = (if ?r > u16_to_u32 (of_nat ?m) then of_nat ?m else u32_to_u16 ?r)" "index = ?l - ?r"
    using assms(1,2) by (simp_all add: segment_length_def Let_def)
  show idx: "unat index = unat ?l - unat ?r" using assms(3) by (simp add: eq unat_sub)
  have le: "unat ?r \<le> unat ?l" using assms(3) by (simp add: word_le_nat_alt)
  have m: "?m \<le> 4095" and um: "unat (of_nat ?m :: u16) = ?m" by (rule MAX_OUT_SIZE_bound)+
  have dv: "2 ^ CHUNCKS_NBITS tg dvd ?m" by (simp add: MAX_OUT_SIZE_def push_bit_eq_mult)
  have "unat len \<le> 4095 \<and> unat index + unat len \<le> unat ?l \<and>
      (2 ^ CHUNCKS_NBITS tg dvd unat len \<or> unat index + unat len = unat ?l)"
  proof (cases "?m < unat ?r")
    case True
    then have "len = of_nat ?m" using um by (simp add: eq word_less_nat_alt)
    then show ?thesis using True um m dv le idx by simp
  next
    case False
    then have "len = u32_to_u16 ?r" using um by (simp add: eq word_less_nat_alt)
    moreover have "unat ?r mod 65536 = unat ?r" using False m by simp
    ultimately have "unat len = unat ?r" by (simp add: unat_u32_to_u16)
    then show ?thesis using False m le idx by simp
  qed
  then show "unat index + unat len \<le> unat ?l" "unat len \<le> 4095"
    "2 ^ CHUNCKS_NBITS tg dvd unat len \<or> unat index + unat len = unat ?l"
    by simp_all
qed

definition tcp_base :: "target \<Rightarrow> output_handler \<Rightarrow> packet_source \<Rightarrow> u16 \<Rightarrow> nat" where
  "tcp_base tg oh src len = unat BASIC_TCP_CHK + be_sum True (dev_put32 (local_ip_addr tg)) + unat (len + 20)
     + be_sum True (dev_put32 (src_outseqno src)) + (256 * unat (if IS_SYN oh then 0x60 else 0x50 :: u8) + unat (GET_FLAGS oh))
     + be_sum True (dev_put32 (src_ip src)) + unat (src_port src) + be_sum True (dev_put32 (src_inseqno src))"

definition base_sum :: "target \<Rightarrow> output_handler \<Rightarrow> packet_source \<Rightarrow> u16 \<Rightarrow> checksum" where
  "base_sum tg oh src len = checksum_add32 (src_inseqno src) (checksum_add16 (src_port src) (checksum_add32 (src_ip src)
     (checksum_add (GET_FLAGS oh) (checksum_add (if IS_SYN oh then 0x60 else 0x50) (checksum_add32 (src_outseqno src)
       (checksum_add16 (len + 20) (checksum_add32 (local_ip_addr tg) (checksum_preload BASIC_TCP_CHK checksum_init))))))))"

lemma base_sum_sums: "sums_to (base_sum tg oh src len) (tcp_base tg oh src len)"
proof -
  have "sums_to (checksum_preload BASIC_TCP_CHK checksum_init) (unat BASIC_TCP_CHK)"
    by (rule sums_toI [of _ "unat BASIC_TCP_CHK"]) (simp_all add: ocs_small)
  then show ?thesis unfolding base_sum_def tcp_base_def
    by (intro sums_to_add32 sums_to_add16 sums_to_add8_8)
qed

lemma tcp_sum_eq:
  "tcp_sum tg oh src x o' len index =
    (let s = base_sum tg oh src len
     in case handler_type oh of
          type_generator \<Rightarrow> Some (generator_sum o' s)
        | type_control \<Rightarrow> Some ([], if IS_SYN oh then checksum_add16 (ucast (tcp_mss x)) (checksum_add16 MSS_OPT s) else s)
        | type_file \<Rightarrow> map_option (Pair []) (file_sum tg (GET_FILE oh) index len s)
        | type_general_ip_handler \<Rightarrow> None)"
  unfolding tcp_sum_def base_sum_def IS_SYN_def Let_def by (rule refl)

lemma sendable_tcp:
  assumes "sendable tg st c k" and "src_handler (packet_source k c) = Some r"
    and "handler_type (handler st r) \<noteq> type_general_ip_handler"
    and "segment_length tg (handler st r) x k = (len, index)" and "x = http (connections k (the c))"
  defines "oh \<equiv> handler st r" and "o' \<equiv> curr_output k" and "data \<equiv> buffer_bytes k (out_buffer (curr_output k))"
  shows "\<exists>clb s. tcp_sum tg oh src x o' len index = Some (clb, s) \<and>
    send_contents oh x clb data o' len index = Some (contents oh x o' data len index) \<and>
    sums_to s (tcp_base tg oh src len + be_sum True (contents oh x o' data len index)) \<and>
    length (contents oh x o' data len index) = unat len \<and> unat len \<le> 65100"
proof -
  note base = base_sum_sums [of tg oh src len]
  show ?thesis
  proof (cases "handler_type oh")
    case type_control
    have len: "unat len = (if IS_SYN oh then 4 else 0)"
      using assms(1,2,4) type_control by (auto simp: sendable_def segment_length_def oh_def Let_def)
    have "sums_to (if IS_SYN oh then checksum_add16 (ucast (tcp_mss x)) (checksum_add16 MSS_OPT (base_sum tg oh src len))
        else base_sum tg oh src len) (tcp_base tg oh src len + be_sum True (contents oh x o' data len index))"
      using sums_to_add16 [OF sums_to_add16 [OF base, of MSS_OPT], of "ucast (tcp_mss x)"] base
        be_sum_put16 [of "ucast (tcp_mss x)" "[]"]
      by (simp add: contents_def type_control add.assoc)
    then show ?thesis
      using len by (cases "IS_SYN oh")
        (simp_all add: tcp_sum_eq type_control send_contents_def contents_def IS_SYN_def [symmetric])
  next
    case type_file
    let ?f = "GET_FILE oh"
    have ok: "file_ok tg ?f" "final_outseqno x - next_outseqno x \<le> file_length ?f"
      "2 ^ CHUNCKS_NBITS tg dvd unat (file_length ?f) - unat (final_outseqno x - next_outseqno x)"
      using assms(1,2,5) type_file by (auto simp: sendable_def oh_def Let_def)
    note seg = file_segment [OF type_file assms(4) [folded oh_def] ok(2)]
    have len: "length (file_data ?f) = unat (file_length ?f)" using ok(1) by (simp add: file_ok_def)
    obtain s where "file_sum tg ?f index len (base_sum tg oh src len) = Some s"
      "sums_to s (tcp_base tg oh src len + be_sum True (take (unat len) (drop (unat index) (file_data ?f))))"
      using file_sum_sums [OF base ok(1), of index len] seg ok(3) len by auto
    with seg len show ?thesis
      by (auto simp: tcp_sum_eq type_file send_contents_def contents_def dev_putn_def)
  next
    case type_generator
    let ?n = "unat (out_content_length o')"
    have ok: "?n \<le> length data" "?n \<le> 65000" "unat (out_checksum o') = ocs (be_sum True (take ?n data))"
      using assms(1,2) type_generator by (auto simp: sendable_def oh_def o'_def data_def Let_def)
    have h: "unat (service_headers_size h) \<le> 80" for h
      by (simp add: service_headers_size_def http_header_sums output_constants split: service_header.split)
    have "len = out_content_length o' + u8_to_u16 (service_headers_size (out_header o'))"
      using assms(4) type_generator by (simp add: segment_length_def oh_def o'_def)
    then have "unat len = ?n + unat (service_headers_size (out_header o'))"
      using ok(2) h [of "out_header o'"] by (simp add: unat_add_u16)
    moreover have "length (generated o' (take ?n data)) = ?n + unat (service_headers_size (out_header o'))"
      using ok(1) by (intro length_generated) simp
    moreover have "send_contents oh x (length_digits o') data o' len index = Some (generated o' (take ?n data))"
      using ok(1) by (simp add: send_contents_def type_generator dev_putn_def generated_def dev_put_crlf
          split: service_header.split)
    moreover have "tcp_sum tg oh src x o' len index = Some (length_digits o', snd (generator_sum o' (base_sum tg oh src len)))"
      by (simp add: tcp_sum_eq type_generator generator_sum_digits prod_eq_iff)
    ultimately show ?thesis
      using generator_sum_sums [OF base ok(3)] ok h [of "out_header o'"]
      by (simp add: contents_def type_generator)
  qed (use assms(3) in \<open>simp add: oh_def\<close>)
qed

text \<open>
  A packet as a receiver reads it: the announced length, the length field and the number of octets
  agree, the IP header sums to 0xffff, and for TCP the pseudo header with the segment too.
\<close>

definition well_formed :: "packet \<Rightarrow> bool" where
  "well_formed p =
    (let os = octets_out p
     in 20 \<le> length os \<and> unat (prepared p) = length os \<and> take 2 (drop 2 os) = dev_put16 (prepared p)
        \<and> ocs (be_sum True (take 20 os)) = 65535
        \<and> (os ! 9 = 6 \<longrightarrow> 40 \<le> length os
             \<and> ocs (be_sum True (take 8 (drop 12 os) @ [0, 6] @ dev_put16 (of_nat (length os - 20)) @ drop 20 os)) = 65535))"

lemma tcp_segment_verifies:
  assumes "sums_to s (tcp_base tg oh src len + be_sum True body)"
  shows "ocs (be_sum True (dev_put32 (local_ip_addr tg) @ dev_put32 (src_ip src) @ [0, 6] @ dev_put16 (len + 20)
    @ send_tcp_header oh src (checksum_end s) @ body)) = 65535"
proof -
  let ?f = "current_checksum (checksum_end s)"
  let ?n = "tcp_base tg oh src len + be_sum True body"
  have "0 < ?n" by (simp add: tcp_base_def)
  from sums_to_verifies [OF assms this] have "ocs (?n + unat (NOT ?f)) = 65535" .
  moreover have "be_sum True (dev_put32 (local_ip_addr tg) @ dev_put32 (src_ip src) @ [0, 6] @ dev_put16 (len + 20)
      @ send_tcp_header oh src (checksum_end s) @ body) = ?n + unat (NOT ?f)"
    by (simp add: send_tcp_header_def tcp_base_def be_sum_put32 [of _ "_ @ _"] be_sum_put32 [of _ "_ # _"] IS_SYN_def)
  ultimately show ?thesis by simp
qed

lemma send_ip_header_fields:
  shows "take 2 (drop 2 (fst (send_ip_header tg gp ip len) @ xs)) = dev_put16 (len + IP_HEADER_SIZE + TCP_HEADER_SIZE)"
    and "(fst (send_ip_header tg gp ip len) @ xs) ! 9 = (case gp of None \<Rightarrow> 6 | Some p \<Rightarrow> p)"
    and "take 8 (drop 12 (fst (send_ip_header tg gp ip len) @ xs)) = dev_put32 (local_ip_addr tg) @ dev_put32 ip"
    and "take 4 (drop 16 (fst (send_ip_header tg gp ip len) @ xs)) = dev_put32 ip"
proof -
  have "u16_to_u8 (0xFF00 OR u8_to_u16 p) = p" for p
    by (rule bit_word_eqI) (auto simp: bit_simps numeral_eq_Suc less_Suc_eq)
  then show "(fst (send_ip_header tg gp ip len) @ xs) ! 9 = (case gp of None \<Rightarrow> 6 | Some p \<Rightarrow> p)"
    by (simp add: send_ip_header_def Let_def dev_put16_def IP_TTL_PROTOCOL_def split: option.split)
qed (simp_all add: send_ip_header_def Let_def dev_put16_def dev_put32_def)

text \<open>The whole function: what it needs, what it gives to the device and how it updates the connection.\<close>

abbreviation stamped :: "ptr \<Rightarrow> kernel \<Rightarrow> kernel" where
  "stamped c k \<equiv> (case c of
     Some a \<Rightarrow> upd_connection a (upd_http (\<lambda>x. x\<lparr>transmission_time := last_transmission_time k\<rparr>)) k
   | None \<Rightarrow> k)"

lemma buffer_bytes_connections [simp]: "buffer_bytes (k\<lparr>connections := x\<rparr>) b = buffer_bytes k b"
  by (cases b) simp_all

lemma stamped_simps [simp]:
  "curr_output (stamped c k) = curr_output k" "dev_out (stamped c k) = dev_out k"
  "buffer_bytes (stamped c k) b = buffer_bytes k b"
  by (cases c; simp)+

lemma stamped_connection [simp]:
  "ip_addr (connections (stamped c k) x) = ip_addr (connections k x)"
  "conn_prev (connections (stamped c k) x) = conn_prev (connections k x)"
  "all_connections (stamped c k) = all_connections k"
  by (cases c; simp)+

lemma stamped_source [simp]:
  "packet_source (stamped c k) c = packet_source k c"
  by (cases c) (simp_all add: packet_source_def Let_def)

lemma stamped_remote [simp]: "get_current_remote_ip (stamped c k) = get_current_remote_ip k"
  unfolding get_current_remote_ip_def get_remote_ip_def stamped_connection by (rule refl)

lemma get_current_remote_ip_cong:
  assumes "all_connections k' = all_connections k" and "\<And>x. ip_addr (connections k' x) = ip_addr (connections k x)"
    and "\<And>x. conn_prev (connections k' x) = conn_prev (connections k x)"
  shows "get_current_remote_ip k' = get_current_remote_ip k"
  unfolding get_current_remote_ip_def get_remote_ip_def assms by (rule refl)

lemma stamped_some: "stamped (Some a) k = upd_connection a (upd_http (\<lambda>x. x\<lparr>transmission_time := last_transmission_time k\<rparr>)) k"
  by simp

lemma sendable_stamped: "sendable tg st c (stamped c k) = sendable tg st c k"
  by (cases c) (simp_all add: sendable_def Let_def packet_source_def split: option.split handler_type.split)

lemma well_formedI:
  assumes "unat tot = 20 + length body" and "tot = len + IP_HEADER_SIZE + TCP_HEADER_SIZE"
    and "case gp of Some p \<Rightarrow> p \<noteq> 6 | None \<Rightarrow> 20 \<le> length body \<and>
      ocs (be_sum True (dev_put32 (local_ip_addr tg) @ dev_put32 ip @ [0, 6] @ dev_put16 (len + 20) @ body)) = 65535"
  shows "well_formed \<lparr>prepared = tot, link_ip = l, octets_out = fst (send_ip_header tg gp ip len) @ body\<rparr>"
proof -
  have "len + 20 = of_nat (length body)"
  proof -
    have "len + 20 + 20 = of_nat (length body) + 20"
      using assms(1,2) word_of_nat_eq_iff
      by (metis IP_HEADER_SIZE_def TCP_HEADER_SIZE_def add.commute of_nat_add of_nat_numeral of_nat_unat ucast_id)
    then show ?thesis by (simp add: add.commute)
  qed
  then have "of_nat (length body) = len + 20" by (rule sym)
  then show ?thesis
    using assms send_ip_header_verifies [of tg gp ip len] send_ip_header_fields [of tg gp ip len body]
    by (cases gp) (simp_all add: well_formed_def Let_def)
qed

lemma smews_send_packet_spec:
  assumes "sendable tg st c k"
  obtains r k' p len index s where "src_handler (packet_source k c) = Some r" and "smews_send_packet tg st c k = Some k'"
    and "dev_out k' = dev_out k @ [p]" and "well_formed p" and "link_ip p = get_current_remote_ip k"
    and "take 4 (drop 16 (octets_out p)) = dev_put32 (src_ip (packet_source k c))"
    and "handler_type (handler st r) = type_general_ip_handler \<Longrightarrow>
       k' = (stamped c k)\<lparr>chk := chk k', dev_out := dev_out k'\<rparr>"
    and "handler_type (handler st r) \<noteq> type_general_ip_handler \<Longrightarrow>
       length (octets_out p) = unat len + 40 \<and> k' = (case c of None \<Rightarrow> stamped c k
         | Some a \<Rightarrow> upd_connection a (upd_http (account_segment (handler st r) (curr_output k) len)) (stamped c k))
       \<lparr>chk := chk k', dev_out := dev_out k'\<rparr>"
    and "handler_type (handler st r) \<noteq> type_general_ip_handler \<Longrightarrow>
       segment_length tg (handler st r) (http (connections (stamped c k) (the c))) (stamped c k) = (len, index)
     \<and> drop 20 (octets_out p) = send_tcp_header (handler st r) (packet_source k c) s
         @ contents (handler st r) (http (connections (stamped c k) (the c))) (curr_output k)
             (buffer_bytes k (out_buffer (curr_output k))) len index"
proof -
  define K where "K = stamped c k"
  have K: "curr_output K = curr_output k" "dev_out K = dev_out k" "packet_source K c = packet_source k c"
    "get_current_remote_ip K = get_current_remote_ip k" "sendable tg st c K"
    using assms by (simp_all only: K_def stamped_simps stamped_source stamped_remote sendable_stamped)
  obtain r where r: "src_handler (packet_source k c) = Some r"
    using assms by (auto simp: sendable_def split: option.splits)
  let ?oh = "handler st r" and ?x = "http (connections K (the c))" and ?src = "packet_source k c" and ?o = "curr_output k"
  obtain len index where seg: "segment_length tg ?oh ?x K = (len, index)" by fastforce
  let ?total = "len + IP_HEADER_SIZE + TCP_HEADER_SIZE" and ?data = "buffer_bytes K (out_buffer ?o)"
  have unfolded: "smews_send_packet tg st c k =
    (let gp = (case c of Some a \<Rightarrow> if IS_GPIP st (connections K a) then Some (gp_protocol (gpip (connections K a))) else None
                      | None \<Rightarrow> None);
         (ip, s) = send_ip_header tg gp (src_ip ?src) len
     in if IS_GPIP_HANDLER st (Some r) then
          do { body \<leftarrow> dev_putn ?data (unat (out_content_length ?o));
               Some (dev_output ?total (ip @ body) (K\<lparr>chk := s\<rparr>)) }
        else
          do { (clb, s) \<leftarrow> tcp_sum tg ?oh ?src ?x ?o len index;
               let s = checksum_end s;
               body \<leftarrow> send_contents ?oh ?x clb ?data ?o len index;
               let k = K\<lparr>chk := s\<rparr>;
               let k = (case c of Some a \<Rightarrow> upd_connection a (upd_http (account_segment ?oh (curr_output k) len)) k
                        | None \<Rightarrow> k);
               Some (dev_output ?total (ip @ send_tcp_header ?oh ?src s @ body) k) })"
    unfolding smews_send_packet_def Let_def K_def [symmetric] K r option.case seg prod.case by (rule refl)
  have out: "dev_out (dev_output l os k') = dev_out k' @ [\<lparr>prepared = l, link_ip = get_current_remote_ip k', octets_out = os\<rparr>]"
    "dev_output l os k' = k'\<lparr>dev_out := dev_out (dev_output l os k')\<rparr>" for l os k'
    by (simp_all add: dev_output_def)
  show thesis
  proof (cases "handler_type ?oh = type_general_ip_handler")
    case True
    let ?n = "unat (out_content_length ?o)"
    obtain a where a: "c = Some a" "?n \<le> length ?data" "?n \<le> 65000" "gp_protocol (gpip (connections K a)) \<noteq> 6"
      using K(5) r True by (auto simp: sendable_def Let_def K)
    have oh: "output_handler (connections K a) = Some r" using r a(1) by (simp add: K_def packet_source_def Let_def)
    have gp: "IS_GPIP st (connections K a)" "IS_GPIP_HANDLER st (Some r)"
      using oh True by (simp_all add: IS_GPIP_def IS_GPIP_HANDLER_def)
    let ?h = "send_ip_header tg (Some (gp_protocol (gpip (connections K a)))) (src_ip ?src) len"
    let ?k' = "dev_output ?total (fst ?h @ take ?n ?data) (K\<lparr>chk := snd ?h\<rparr>)"
    have len: "len = out_content_length ?o - TCP_HEADER_SIZE"
      using seg True by (simp add: segment_length_def K)
    have wf: "well_formed \<lparr>prepared = ?total, link_ip = get_current_remote_ip k, octets_out = fst ?h @ take ?n ?data\<rparr>"
    proof (rule well_formedI)
      show "unat ?total = 20 + length (take ?n ?data)"
        using a(2,3) by (simp add: len IP_HEADER_SIZE_def unat_add_u16)
    qed (use a(4) in simp_all)
    have "smews_send_packet tg st c k = Some ?k'"
      by (subst unfolded) (use a(2) in \<open>simp add: a(1) gp dev_putn_def split_beta Let_def not_less\<close>)
    then show thesis
      by (rule that [OF r _ _ wf, of ?k' 0])
        (use True K send_ip_header_fields(4) [where xs = "take ?n ?data"] get_current_remote_ip_cong [of "K\<lparr>chk := snd ?h\<rparr>" K] in \<open>simp_all add: dev_output_def K_def [symmetric]\<close>)
  next
    case False
    have notgp: "\<not> IS_GPIP_HANDLER st (Some r)" using False by (simp add: IS_GPIP_HANDLER_def)
    have "output_handler (connections K a) = Some r" if "c = Some a" for a
      using r that by (simp add: K_def packet_source_def Let_def)
    then have gp: "(case c of Some a \<Rightarrow> if IS_GPIP st (connections K a) then Some (gp_protocol (gpip (connections K a)))
        else None | None \<Rightarrow> None) = None"
      using notgp by (simp add: IS_GPIP_def split: option.split)
    have rK: "src_handler (packet_source K c) = Some r" using r K(3) by simp
    obtain clb s where tcp: "tcp_sum tg ?oh ?src ?x ?o len index = Some (clb, s)"
      "send_contents ?oh ?x clb ?data ?o len index = Some (contents ?oh ?x ?o ?data len index)"
      "sums_to s (tcp_base tg ?oh ?src len + be_sum True (contents ?oh ?x ?o ?data len index))"
      "length (contents ?oh ?x ?o ?data len index) = unat len" "unat len \<le> 65100"
      using sendable_tcp [OF K(5) rK False seg refl, of ?src] unfolding K(1) by blast
    let ?h = "send_ip_header tg None (src_ip ?src) len"
    let ?body = "send_tcp_header ?oh ?src (checksum_end s) @ contents ?oh ?x ?o ?data len index"
    let ?k1 = "K\<lparr>chk := checksum_end s\<rparr>"
    let ?k2 = "case c of Some a \<Rightarrow> upd_connection a (upd_http (account_segment ?oh (curr_output ?k1) len)) ?k1 | None \<Rightarrow> ?k1"
    let ?k' = "dev_output ?total (fst ?h @ ?body) ?k2"
    have tot: "unat ?total = 20 + length ?body"
      using tcp(4,5) by (simp add: IP_HEADER_SIZE_def TCP_HEADER_SIZE_def unat_add_u16)
    have wf: "well_formed \<lparr>prepared = ?total, link_ip = get_current_remote_ip k, octets_out = fst ?h @ ?body\<rparr>"
      using tcp_segment_verifies [OF tcp(3)] by (intro well_formedI [OF tot]) simp_all
    have sent: "smews_send_packet tg st c k = Some ?k'"
      by (subst unfolded) (simp add: gp notgp tcp(1,2) split_beta Let_def)
    have "get_current_remote_ip ?k2 = get_current_remote_ip K"
      by (rule get_current_remote_ip_cong; cases c) simp_all
    moreover have "dev_out ?k2 = dev_out K" by (cases c) simp_all
    ultimately have k2: "dev_out ?k2 = dev_out k" "get_current_remote_ip ?k2 = get_current_remote_ip k"
      by (simp_all only: K(2,4))
    have eta: "dev_output l os (v\<lparr>chk := x\<rparr>) = v\<lparr>chk := chk (dev_output l os (v\<lparr>chk := x\<rparr>)),
        dev_out := dev_out (dev_output l os (v\<lparr>chk := x\<rparr>))\<rparr>" for l os v x
      by (simp add: dev_output_def)
    have "?k2 = (case c of None \<Rightarrow> K | Some a \<Rightarrow> upd_connection a (upd_http (account_segment ?oh ?o len)) K)
        \<lparr>chk := checksum_end s\<rparr>"
      by (cases c) (simp_all add: K(1))
    then have final: "?k' = (case c of None \<Rightarrow> K | Some a \<Rightarrow> upd_connection a (upd_http (account_segment ?oh ?o len)) K)
        \<lparr>chk := chk ?k', dev_out := dev_out ?k'\<rparr>"
      by (simp only: eta [symmetric])
    have len: "length (octets_out \<lparr>prepared = ?total, link_ip = get_current_remote_ip k, octets_out = fst ?h @ ?body\<rparr>)
        = unat len + 40"
      using tcp(4) by simp
    show thesis
    proof (rule that [OF r sent _ wf])
      show "dev_out ?k' = dev_out k @ [\<lparr>prepared = ?total, link_ip = get_current_remote_ip k, octets_out = fst ?h @ ?body\<rparr>]"
        by (simp only: out(1) k2)
      show "link_ip \<lparr>prepared = ?total, link_ip = get_current_remote_ip k, octets_out = fst ?h @ ?body\<rparr> = get_current_remote_ip k"
        by simp
      show "take 4 (drop 16 (octets_out \<lparr>prepared = ?total, link_ip = get_current_remote_ip k, octets_out = fst ?h @ ?body\<rparr>))
          = dev_put32 (src_ip ?src)"
        by (simp only: packet.select_convs send_ip_header_fields(4))
      show "handler_type ?oh = type_general_ip_handler \<Longrightarrow> ?k' = (stamped c k)\<lparr>chk := chk ?k', dev_out := dev_out ?k'\<rparr>"
        using False by contradiction
      show "length (octets_out \<lparr>prepared = ?total, link_ip = get_current_remote_ip k, octets_out = fst ?h @ ?body\<rparr>)
          = unat len + 40 \<and> ?k' = (case c of None \<Rightarrow> stamped c k
            | Some a \<Rightarrow> upd_connection a (upd_http (account_segment ?oh ?o len)) (stamped c k))
          \<lparr>chk := chk ?k', dev_out := dev_out ?k'\<rparr>"
        unfolding K_def [symmetric] by (rule conjI [OF len final])
      have "?data = buffer_bytes k (out_buffer ?o)" by (simp add: K_def)
      then show "segment_length tg ?oh (http (connections (stamped c k) (the c))) (stamped c k) = (len, index)
          \<and> drop 20 (octets_out \<lparr>prepared = ?total, link_ip = get_current_remote_ip k, octets_out = fst ?h @ ?body\<rparr>)
            = send_tcp_header ?oh ?src (checksum_end s) @ contents ?oh (http (connections (stamped c k) (the c))) ?o
                (buffer_bytes k (out_buffer ?o)) len index"
        using seg unfolding K_def [symmetric] by simp
    qed
  qed
qed

section \<open>Properties\<close>


text \<open>A connection that has to send the last three octets of a file.\<close>

definition file_site :: site where
  "file_site = \<lparr>resource = (\<lambda>_. \<lparr>handler_type = type_file, handler_comet = False, handler_stream = False,
      handler_data = File \<lparr>file_length = 3, file_chk = [26985], file_data = [72, 105, 33]\<rparr>,
      args_tree = 0, args_index = [], args_size = 0, mimes_index = [], mimes_size = 0\<rparr>),
    http_404 = control_handler 0 0, http_505 = control_handler 0 0, resources_index = [Resource 0], blobs = undefined\<rparr>"

definition file_connection :: kernel where
  "file_connection = undefined\<lparr>all_connections := Some 7, dev_out := [],
     rst_connection := \<lparr>rst_ip_addr = 0x0A000001, rst_current_inseqno = 0, rst_next_outseqno = 0, rst_port = 4000\<rparr>,
     connections := (\<lambda>_. undefined\<lparr>ip_addr := 0xC0A80102, output_handler := Some (Resource 0), conn_next := 7, conn_prev := 7,
       http := undefined\<lparr>tcp_mss := 1460, tcp_state := tcp_established, next_outseqno := 100, final_outseqno := 103,
         inflight := 0\<rparr>\<rparr>)\<rparr>"

lemma file_connection_sendable: "sendable example_target file_site (Some 7) file_connection"
proof -
  have nb: "GET_NB_BLOCKS example_target (Suc (Suc (Suc 0))) = Suc 0" "CHUNCKS_NBITS example_target = 5"
    by (simp_all add: GET_NB_BLOCKS_def DIV_BY_CHUNCKS_SIZE_def MODULO_CHUNCKS_SIZE_def example_target_def
        drop_bit_eq_div take_bit_eq_mod)
  show ?thesis
    by (simp add: sendable_def file_connection_def file_site_def packet_source_def Let_def file_ok_def nb
        file_block_def ocs_small)
qed


text \<open>
  C7: A segment advances the sequence number of its connection by the number of octets of TCP data
  in the packet (by one for a SYN, which has options instead), adds them to the octets in flight, and
  changes no other connection.
\<close>

theorem sent_packet_advances_sequence:
  assumes "sendable tg st (Some a) k" and "output_handler (connections k a) = Some r"
    and "handler_type (handler st r) \<noteq> type_general_ip_handler"
  shows "\<exists>k' p n. smews_send_packet tg st (Some a) k = Some k' \<and> dev_out k' = dev_out k @ [p] \<and>
    n = (if IS_SYN (handler st r) then 0 else length (octets_out p) - 40) \<and>
    next_outseqno (http (connections k' a)) = next_outseqno (http (connections k a))
      + (if IS_SYN (handler st r) then 1 else of_nat n) \<and>
    inflight (http (connections k' a)) = inflight (http (connections k a)) + of_nat n \<and>
    (\<forall>b. connections k' b = (if b = a then connections k' a else connections k b))"
proof -
  let ?oh = "handler st r"
  have r: "src_handler (packet_source k (Some a)) = Some r" using assms(2) by (simp add: packet_source_def Let_def)
  show ?thesis
  proof (rule smews_send_packet_spec [OF assms(1)], goal_cases)
    case (1 r' k' p len)
    then have "length (octets_out p) - 40 = unat len" and k':
      "k' = (upd_connection a (upd_http (account_segment ?oh (curr_output k) len)) (stamped (Some a) k))
        \<lparr>chk := chk k', dev_out := dev_out k'\<rparr>"
      using assms(3) r by auto
    then have n: "of_nat (length (octets_out p) - 40) = u16_to_u32 len" "of_nat (length (octets_out p) - 40) = len"
      by (simp_all add: unsigned_ucast_eq)
    have "connections k' b = (if b = a then upd_http (account_segment ?oh (curr_output k) len)
        (upd_http (\<lambda>x. x\<lparr>transmission_time := last_transmission_time k\<rparr>) (connections k a)) else connections k b)" for b
      by (subst k') simp
    then show ?case using 1(2,3) n
      by (intro exI [of _ k'] exI [of _ p] exI [of _ "if IS_SYN ?oh then 0 else length (octets_out p) - 40"])
        (auto simp: account_segment_def Let_def IS_SYN_def [symmetric])
  qed
qed

theorem sent_packet_advances_sequence_witness:
  "\<exists>k' p n. smews_send_packet example_target file_site (Some 7) file_connection = Some k' \<and> dev_out k' = [p] \<and>
    n = length (octets_out p) - 40 \<and> next_outseqno (http (connections k' 7)) = 100 + of_nat n"
proof -
  have "output_handler (connections file_connection 7) = Some (Resource 0)"
    "handler_type (handler file_site (Resource 0)) \<noteq> type_general_ip_handler" "\<not> IS_SYN (handler file_site (Resource 0))"
    by (simp_all add: file_connection_def file_site_def IS_SYN_def GET_FLAGS_def TCP_flags)
  from sent_packet_advances_sequence [OF file_connection_sendable this(1,2)] this(3) show ?thesis
    by (auto simp: file_connection_def)
qed

text \<open>
  A reset is addressed to the host it answers, but the link layer is asked to deliver it to the
  remote host of the last connection of the ring, or to none: \<open>get_current_remote_ip\<close> assumes that
  every packet belongs to the connection that the scheduler has just rotated.
\<close>

theorem reset_is_misdelivered:
  assumes "get_current_remote_ip k \<noteq> Some (rst_ip_addr (rst_connection k))"
  shows "\<exists>k' p. smews_send_packet tg st None k = Some k' \<and> dev_out k' = dev_out k @ [p] \<and> well_formed p \<and>
    take 4 (drop 16 (octets_out p)) = dev_put32 (rst_ip_addr (rst_connection k)) \<and>
    link_ip p \<noteq> Some (rst_ip_addr (rst_connection k))"
proof -
  have "sendable tg st None k"
    by (simp add: sendable_def packet_source_def Let_def ref_rst_def control_handler_def IS_SYN_def GET_FLAGS_def TCP_flags)
  then show ?thesis
  proof (rule smews_send_packet_spec, goal_cases)
    case (1 r k' p len)
    then show ?case using assms by (intro exI [of _ k'] exI [of _ p]) (simp add: packet_source_def Let_def)
  qed
qed

theorem reset_is_misdelivered_witness:
  "\<exists>k' p. smews_send_packet example_target file_site None file_connection = Some k' \<and> dev_out k' = [p] \<and>
    take 4 (drop 16 (octets_out p)) = dev_put32 0x0A000001 \<and> link_ip p \<noteq> Some 0x0A000001"
  using reset_is_misdelivered [of file_connection example_target file_site]
  by (auto simp: file_connection_def get_current_remote_ip_def get_remote_ip_def)

end
