(* ===== verification/Output.thy ===== *)
theory Output
  imports Packet
begin

text \<open>
  The sending side of the kernel, \<open>smews_send\<close> of \<open>core/output.c\<close>: the choice of a connection, and
  what is done for it according to the type of its output handler. The early returns of the code
  are results of the parts the function is cut into: \<open>False\<close> is "return 1 here".
\<close>

section \<open>Model\<close>

definition able_to_send :: "site \<Rightarrow> connection \<Rightarrow> bool" where
  "able_to_send st c =
    (something_to_send st c \<noteq> 0 \<and>
     (IS_GPIP st c \<or>
      \<not> comet_passive (http c) \<and> unat (inflight (http c)) + unat (tcp_mss (http c)) \<le> unat (cwnd (http c))))"

text \<open>The packet handlers: one packet, after which the connection is freed.\<close>

definition gpip_max_bytes :: "target \<Rightarrow> u16" where
  "gpip_max_bytes tg =
    (if unat (OUTPUT_BUFFER_SIZE tg) + unat IP_HEADER_SIZE > unat (DEV_MTU tg)
     then DEV_MTU tg - IP_HEADER_SIZE else OUTPUT_BUFFER_SIZE tg)"

definition send_gpip :: "target \<Rightarrow> site \<Rightarrow> app \<Rightarrow> nat \<Rightarrow> kernel \<Rightarrow> kernel option" where
  "send_gpip tg st ap a k =
    (let k = upd_output (\<lambda>x. x\<lparr>out_buffer := Buffer_gpip, out_max_bytes := gpip_max_bytes tg,
               out_content_length := 0, out_service := None\<rparr>) k
     in case output_handler (connections k a) of
          None \<Rightarrow> None
        | Some r \<Rightarrow>
           (case dopacketout (gen_handlers (GET_GENERATOR (handler st r))) of
              None \<Rightarrow> None
            | Some f \<Rightarrow>
                do { k \<leftarrow> app_packet_out ap (Some f) a k;
                     let k = upd_connection a (\<lambda>x. x\<lparr>gpip := (gpip x)\<lparr>want_to_send := 0\<rparr>\<rparr>) k;
                     k \<leftarrow> smews_send_packet tg st (Some a) k;
                     free_connection tg st a k }))"

text \<open>
  A TCP control packet; \<open>old\<close> is the handler that an acknowledgement has replaced. The result is
  the value the function returns.
\<close>

definition send_control :: "target \<Rightarrow> site \<Rightarrow> app \<Rightarrow> handler_ref option \<Rightarrow> nat \<Rightarrow> kernel \<Rightarrow> (u8 \<times> kernel) option" where
  "send_control tg st ap old a k =
    do { k \<leftarrow> smews_send_packet tg st (Some a) k;
         let k = upd_connection a (\<lambda>x. x\<lparr>output_handler := None\<rparr>) k;
         if tcp_state (http (connections k a)) = tcp_closing then
           do { k \<leftarrow> free_connection tg st a k; Some (0, k) }
         else if old \<noteq> None \<and> \<not> ready_to_send (http (connections k a)) then
           Some (1, upd_connection a (\<lambda>x. x\<lparr>output_handler := old\<rparr>) k)
         else if old \<noteq> None then
           (let k = upd_connection a (\<lambda>x. upd_http (\<lambda>y. y\<lparr>comet_send_ack := False, final_outseqno := next_outseqno y\<rparr>)
                      (x\<lparr>output_handler := old\<rparr>)) k;
                f = initget (gen_handlers (GET_GENERATOR (handler st (the old))))
            in if f = None then Some (1, k)
               else do { k \<leftarrow> app_initget ap f (args (http (connections k a))) k; Some (1, k) })
         else Some (1, k) }"

text \<open>
  The bytes a generator may produce for one segment. The code computes in C integers, which are
  negative for a small MSS, and stores the result in 16 bits.
\<close>

definition segment_bytes :: "target \<Rightarrow> 12 word \<Rightarrow> service_header \<Rightarrow> u16" where
  "segment_bytes tg mss h =
     word_of_int (min (uint (OUTPUT_BUFFER_SIZE tg)) (int (MAX_OUT_SIZE tg mss) - uint (service_headers_size h)))"

definition is_post_out :: "site \<Rightarrow> http_connection \<Rightarrow> kernel \<Rightarrow> bool" where
  "is_post_out st x k =
    (case post_data x of None \<Rightarrow> False
     | Some p \<Rightarrow> content_type (post_datas k p) \<noteq> CONTENT_TYPE_URLENCODED (blobs st))"

definition init_coroutine :: "site \<Rightarrow> dynamic_resource \<Rightarrow> nat \<Rightarrow> nat \<Rightarrow> kernel \<Rightarrow> kernel" where
  "init_coroutine st g s a k =
    (let x = http (connections k a)
     in upd_service s (\<lambda>v. v\<lparr>coroutine := (coroutine v)\<lparr>
          cr_func := (if is_post_out st x k then dopostout (gen_handlers g) else doget (gen_handlers g)),
          cr_params := (if is_post_out st x k
             then Post_out (content_type (post_datas k (the (post_data x)))) (post_app_data (post_datas k (the (post_data x))))
             else Get_args (args x))\<rparr>\<rparr>) k)"

text \<open>The creation of the service of a generator, for the first segment of an answer.\<close>

definition create_service :: "target \<Rightarrow> site \<Rightarrow> handler_ref \<Rightarrow> nat \<Rightarrow> kernel \<Rightarrow> (bool \<times> kernel) option" where
  "create_service tg st r a k =
    do { (p, k) \<leftarrow> k_alloc (sizeof_generator_service tg) k;
         let k = upd_connection a (upd_http (\<lambda>x. x\<lparr>generator_service := p\<rparr>)) k;
         case p of
           None \<Rightarrow> Some (False, k)
         | Some s \<Rightarrow>
            (let oh = handler st r; x = http (connections k a); g = GET_GENERATOR oh;
                 k = upd_output (\<lambda>y. y\<lparr>out_service := Some s, out_max_bytes := segment_bytes tg (tcp_mss x) header_chunks\<rparr>) k;
                 k = upd_service s (\<lambda>v. v\<lparr>service_header := header_standard, in_flight_infos := None,
                        is_persistent := (gen_prop g = prop_persistent), curr_outseqno := next_outseqno x\<rparr>) k;
                 k = init_coroutine st g s a (cr_init tg (Service_cr s) k);
                 k = upd_connection a (upd_http (\<lambda>y. y\<lparr>final_outseqno := next_outseqno y - 1\<rparr>)) k
             in do { k \<leftarrow> (if handler_comet oh
                           then each_conn (\<lambda>c k. Some (if output_handler (connections k c) = Some r
                                  then upd_connection c (upd_http (\<lambda>y. y\<lparr>comet_passive := (c \<noteq> a)\<rparr>)) k else k)) k
                           else Some k);
                     Some (True, if handler_stream oh then
                         upd_connection a (upd_http (\<lambda>y. y\<lparr>comet_streaming := True\<rparr>))
                           (if comet_streaming (http (connections k a))
                            then upd_service s (\<lambda>v. v\<lparr>service_header := header_none\<rparr>) k else k)
                       else k) }) }"

definition buffer_ptr :: "buffer_ref \<Rightarrow> ptr" where
  "buffer_ptr b = (case b of Buffer_block a \<Rightarrow> Some a | _ \<Rightarrow> None)"

text \<open>A new block of bytes holds what its memory held; missing cells of the store count as zero.\<close>

definition fresh_bytes :: "nat \<Rightarrow> u8 list \<Rightarrow> u8 list" where
  "fresh_bytes n xs = take n (xs @ replicate n 0)"

text \<open>
  One segment of a generator that has not ended: buffers and contexts are allocated, the coroutine
  runs, and what a retransmission needs is kept. \<open>cr_run\<close> calls a coroutine that starts through the
  member of the union that its type selects; the other one has no defined result.
\<close>

definition call_type_ok :: "site \<Rightarrow> nat \<Rightarrow> nat \<Rightarrow> kernel \<Rightarrow> bool" where
  "call_type_ok st s a k =
    (status (get_ctx k (Service_cr s)) = cr_ready \<longrightarrow>
      (case cr_params (coroutine (services k s)) of
         Get_args _ \<Rightarrow> \<not> is_post_out st (http (connections k a)) k
       | Post_out _ _ \<Rightarrow> is_post_out st (http (connections k a)) k
       | Post_in _ _ _ _ \<Rightarrow> False))"

definition run_segment :: "target \<Rightarrow> site \<Rightarrow> app \<Rightarrow> nat \<Rightarrow> nat \<Rightarrow> bool \<Rightarrow> bool \<Rightarrow> ptr \<Rightarrow> kernel \<Rightarrow> (bool \<times> ptr \<times> kernel) option" where
  "run_segment tg st ap s a persistent again if_infos k =
    do { (b, k) \<leftarrow> k_alloc (OUTPUT_BUFFER_SIZE tg) k;
         let k = upd_output (\<lambda>x. x\<lparr>out_buffer := (case b of None \<Rightarrow> Buffer_null | Some b \<Rightarrow> Buffer_block b)\<rparr>) k;
         case b of
           None \<Rightarrow> Some (False, if_infos, k)
         | Some b \<Rightarrow>
          do { let k = k\<lparr>bytes := (bytes k)(b := fresh_bytes (unat (OUTPUT_BUFFER_SIZE tg)) (bytes k b))\<rparr>;
               (if_infos, k) \<leftarrow> (if again then Some (if_infos, k) else k_alloc (sizeof_in_flight_infos tg) k);
               if \<not> again \<and> if_infos = None then
                 do { k \<leftarrow> k_free (Some b) (OUTPUT_BUFFER_SIZE tg) k; Some (False, if_infos, k) }
               else
                do { let k = (if again then k else upd_in_flight (the if_infos) (\<lambda>i. i\<lparr>if_next := None\<rparr>) k);
                     (ok, k) \<leftarrow> (if \<not> persistent \<and> \<not> again then
                          do { let k = upd_in_flight (the if_infos) (\<lambda>i. i\<lparr>if_header := out_header (curr_output k)\<rparr>) k;
                               (c, k) \<leftarrow> context_backup tg s (out_next_outseqno (curr_output k)) (the if_infos) k;
                               if c = None then
                                 do { k \<leftarrow> k_free (Some b) (OUTPUT_BUFFER_SIZE tg) k;
                                      k \<leftarrow> k_free if_infos (sizeof_in_flight_infos tg) k; Some (False, k) }
                               else Some (True, k) }
                        else Some (True, k));
                     if \<not> ok then Some (False, if_infos, k)
                     else if \<not> call_type_ok st s a k then None
                     else
                      do { k \<leftarrow> cr_run (generator_body ap) tg (Service_cr s) k;
                           let ended = (status (get_ctx k (Service_cr s)) = cr_terminated);
                           let p = post_data (http (connections k a));
                           k \<leftarrow> (if ended \<and> p \<noteq> None then
                                 do { k \<leftarrow> k_free p (sizeof_post_data tg) k;
                                      Some (upd_connection a (upd_http (\<lambda>x. x\<lparr>post_data := None\<rparr>)) k) }
                               else Some k);
                           if \<not> persistent then Some (True, if_infos, k)
                           else
                            (case if_infos of
                               None \<Rightarrow> None
                             | Some i \<Rightarrow>
                                (let k = upd_in_flight i (\<lambda>y. y\<lparr>if_header := out_header (curr_output k),
                                           if_outseqno := next_outseqno (http (connections k a)), infos := Some b\<rparr>) k
                                 in Some (True, if_infos,
                                      if in_flight_infos (services k s) \<noteq> Some i
                                      then upd_service s (\<lambda>v. v\<lparr>in_flight_infos := Some i\<rparr>)
                                             (upd_in_flight i (\<lambda>y. y\<lparr>if_next := in_flight_infos (services k s)\<rparr>) k)
                                      else k))) } } } }"

text \<open>The generation of a segment, for the first time or again from a saved context.\<close>

definition generate_segment :: "target \<Rightarrow> site \<Rightarrow> app \<Rightarrow> nat \<Rightarrow> nat \<Rightarrow> bool \<Rightarrow> bool \<Rightarrow> kernel \<Rightarrow> (bool \<times> bool \<times> kernel) option" where
  "generate_segment tg st ap s a persistent again k =
    do { (if_infos, h, k) \<leftarrow>
           (if \<not> persistent \<and> again then
              do { (i, k) \<leftarrow> context_restore s (next_outseqno (http (connections k a))) k;
                   Some (i, case i of Some j \<Rightarrow> if_header (in_flights k j) | None \<Rightarrow> header_none, k) }
            else Some (None, service_header (services k s), k));
         let k = (upd_output (\<lambda>x. x\<lparr>out_header := h, out_content_length := 0, out_buffer := Buffer_null\<rparr>) k)
                   \<lparr>chk := checksum_init\<rparr>;
         (ok, if_infos, k) \<leftarrow>
           (if status (get_ctx k (Service_cr s)) = cr_terminated then Some (True, if_infos, k)
            else run_segment tg st ap s a persistent again if_infos k);
         let ended = (status (get_ctx k (Service_cr s)) = cr_terminated);
         if \<not> ok then Some (False, ended, k)
         else
          (let c = checksum_end (chk k);
               k = upd_output (\<lambda>x. x\<lparr>out_checksum := current_checksum c\<rparr>) (k\<lparr>chk := c\<rparr>)
           in Some (True, ended, case if_infos of None \<Rightarrow> k
                | Some i \<Rightarrow> upd_in_flight i (\<lambda>y. y\<lparr>if_checksum := current_checksum c\<rparr>) k)) }"

text \<open>The retransmission of a segment of a persistent service, from the buffer that holds it.\<close>

definition resend_segment :: "nat \<Rightarrow> nat \<Rightarrow> kernel \<Rightarrow> kernel option" where
  "resend_segment s a k =
    do { p \<leftarrow> if_select s (next_outseqno (http (connections k a))) k;
         case p of
           None \<Rightarrow> None
         | Some i \<Rightarrow>
             Some (upd_output (\<lambda>x. x\<lparr>
               out_buffer := (case infos (in_flights k i) of None \<Rightarrow> Buffer_null | Some b \<Rightarrow> Buffer_block b),
               out_header := if_header (in_flights k i), out_checksum := if_checksum (in_flights k i)\<rparr>) k) }"

definition select_http_header :: "bool \<Rightarrow> output_handler \<Rightarrow> service_header \<Rightarrow> service_header" where
  "select_http_header ended oh h =
    (case h of
       header_standard \<Rightarrow> if \<not> ended \<or> handler_stream oh then header_chunks else header_standard
     | header_chunks \<Rightarrow> header_none
     | header_none \<Rightarrow> header_none)"

text \<open>The segment goes to its connection, or to all the listeners of a Comet resource.\<close>

definition broadcast_segment :: "target \<Rightarrow> site \<Rightarrow> handler_ref \<Rightarrow> bool \<Rightarrow> nat \<Rightarrow> kernel \<Rightarrow> kernel option" where
  "broadcast_segment tg st r ended a k =
    (if \<not> handler_comet (handler st r) then smews_send_packet tg st (Some a) k
     else each_conn (\<lambda>c k.
        if output_handler (connections k c) = Some r \<and> able_to_send st (connections k c) then
          if \<not> handler_stream (handler st r) then smews_send_packet tg st (Some c) k
          else do { k \<leftarrow> (if out_content_length (curr_output k) > 0 then smews_send_packet tg st (Some c) k else Some k);
                    Some (if ended then upd_connection c (upd_http (\<lambda>x. x\<lparr>final_outseqno := next_outseqno x\<rparr>)) k else k) }
        else Some k) k)"

text \<open>After the segment: the buffer, the state of the service, the end of a streamed Comet service.\<close>

definition finish_segment :: "target \<Rightarrow> site \<Rightarrow> handler_ref \<Rightarrow> nat \<Rightarrow> nat \<Rightarrow> bool \<Rightarrow> bool \<Rightarrow> bool \<Rightarrow> kernel \<Rightarrow> kernel option" where
  "finish_segment tg st r s a persistent again ended k =
    do { k \<leftarrow> (if \<not> persistent then k_free (buffer_ptr (out_buffer (curr_output k))) (OUTPUT_BUFFER_SIZE tg) k else Some k);
         let k = (if again then k
                  else upd_service s (\<lambda>v. v\<lparr>service_header := out_header (curr_output k),
                         curr_outseqno := next_outseqno (http (connections k a))\<rparr>) k);
         if handler_stream (handler st r) \<and> ended \<and> inflight (http (connections k a)) = 0 then
           (case generator_service (http (connections k a)) of
              None \<Rightarrow> None
            | Some g \<Rightarrow>
                do { k \<leftarrow> clean_service tg g None k;
                     k \<leftarrow> k_free (Some g) (sizeof_generator_service tg) k;
                     Some (upd_connection a (upd_http (\<lambda>x. x\<lparr>generator_service := None\<rparr>)) k) })
         else Some k }"

definition send_generator :: "target \<Rightarrow> site \<Rightarrow> app \<Rightarrow> handler_ref \<Rightarrow> nat \<Rightarrow> kernel \<Rightarrow> kernel option" where
  "send_generator tg st ap r a k =
    do { let k = upd_output (\<lambda>x. x\<lparr>out_max_bytes := segment_bytes tg (tcp_mss (http (connections k a))) header_none\<rparr>) k;
         (ok, k) \<leftarrow> (if generator_service (http (connections k a)) = None then create_service tg st r a k else Some (True, k));
         if \<not> ok then Some k
         else
          (case generator_service (http (connections k a)) of
             None \<Rightarrow> None
           | Some s \<Rightarrow>
              do { let seq = next_outseqno (http (connections k a));
                   let k = upd_output (\<lambda>x. x\<lparr>out_service := Some s, out_next_outseqno := seq\<rparr>) k;
                   let persistent = is_persistent (services k s);
                   let again = (seq \<noteq> curr_outseqno (services k s));
                   (ok, k) \<leftarrow> cr_prepare tg (Service_cr s) k;
                   if \<not> ok then Some k
                   else
                    do { (ok, ended, k) \<leftarrow>
                           (if \<not> persistent \<or> \<not> again
                            then generate_segment tg st ap s a persistent again k
                            else do { k \<leftarrow> resend_segment s a k; Some (True, False, k) });
                         if \<not> ok then Some k
                         else
                          do { let k = upd_output (\<lambda>x. x\<lparr>out_header := select_http_header ended (handler st r) (out_header x)\<rparr>) k;
                               k \<leftarrow> broadcast_segment tg st r ended a k;
                               finish_segment tg st r s a persistent again ended k } } }) }"

text \<open>The whole function: a pending reset first, then the first connection of the ring that can send.\<close>

definition smews_send :: "target \<Rightarrow> site \<Rightarrow> app \<Rightarrow> kernel \<Rightarrow> (u8 \<times> kernel) option" where
  "smews_send tg st ap k =
    (if rst_port (rst_connection k) \<noteq> 0 then
       do { k \<leftarrow> smews_send_packet tg st None k;
            Some (1, k\<lparr>rst_connection := (rst_connection k)\<lparr>rst_port := 0\<rparr>\<rparr>) }
     else
       do { active \<leftarrow> find_conn (\<lambda>c. able_to_send st (connections k c)) k;
            case active of
              None \<Rightarrow> Some (0, k)
            | Some a \<Rightarrow>
               do { let k = k\<lparr>all_connections := Some (conn_next (connections k a))\<rparr>;
                    let x = connections k a;
                    if IS_GPIP st x then do { k \<leftarrow> send_gpip tg st ap a k; Some (0, k) }
                    else
                     do { let ack = (\<not> ready_to_send (http x) \<or> comet_send_ack (http x));
                          let old = (if ack then output_handler x else None);
                          let k = (if ack then upd_connection a (\<lambda>y. y\<lparr>output_handler := Some Ref_ack\<rparr>) k else k);
                          case output_handler (connections k a) of
                            None \<Rightarrow> None
                          | Some r \<Rightarrow>
                             (case handler_type (handler st r) of
                                type_control \<Rightarrow> send_control tg st ap old a k
                              | type_file \<Rightarrow> do { k \<leftarrow> smews_send_packet tg st (Some a) k; Some (1, k) }
                              | type_generator \<Rightarrow> do { k \<leftarrow> send_generator tg st ap r a k; Some (1, k) }
                              | type_general_ip_handler \<Rightarrow> Some (1, k)) } } })"

end
