(* ===== verification/Post_Input.thy ===== *)
theory Post_Input
  imports Generators
begin

text \<open>
  The reading side of the device and \<open>in\<close>, both of \<open>core/input.c\<close>: the macros that get octets from the
  current packet, with or without summing them, and the function through which a handler of POST
  data, running as a coroutine, reads the contents of a request one octet at a time. In the data of
  a multipart request \<open>in\<close> keeps a window of the length of the boundary in front of the reader,
  and stops when the window holds the boundary.
\<close>

section \<open>Model\<close>

text \<open>\<open>DEV_GET\<close>: the next octet of the packet, or -1 (\<open>None\<close>) when the device has no more.\<close>

definition dev_get :: "kernel \<Rightarrow> (u8 \<times> kernel) option" where
  "dev_get k = (case dev_in k of [] \<Rightarrow> None | b # bs \<Rightarrow> Some (b, k\<lparr>dev_in := bs\<rparr>))"

text \<open>\<open>dev_get16\<close> and \<open>dev_get32\<close>, with the result of the failure: what was there is consumed.\<close>

definition dev_get16 :: "kernel \<Rightarrow> u16 option \<times> kernel" where
  "dev_get16 k =
    (case dev_in k of
       b1 # b0 # bs \<Rightarrow> (Some (ui16 b0 b1), k\<lparr>dev_in := bs\<rparr>)
     | _ \<Rightarrow> (None, k\<lparr>dev_in := []\<rparr>))"

definition dev_get32 :: "kernel \<Rightarrow> u32 option \<times> kernel" where
  "dev_get32 k =
    (case dev_get16 k of
       (None, k) \<Rightarrow> (None, k)
     | (Some hi, k) \<Rightarrow>
        (case dev_get16 k of
           (None, k) \<Rightarrow> (None, k)
         | (Some lo, k) \<Rightarrow> (Some (push_bit 16 (u16_to_u32 hi) OR u16_to_u32 lo), k)))"

text \<open>\<open>DEV_GETC\<close>, \<open>DEV_GETC16\<close> and \<open>DEV_GETC32\<close>, with \<open>None\<close> for their \<open>return 1\<close>.\<close>

definition DEV_GETC :: "kernel \<Rightarrow> u8 option \<times> kernel" where
  "DEV_GETC k =
    (case dev_get k of
       None \<Rightarrow> (None, k)
     | Some (b, k) \<Rightarrow> (Some b, k\<lparr>chk := checksum_add b (chk k)\<rparr>))"

definition DEV_GETC16 :: "kernel \<Rightarrow> u16 option \<times> kernel" where
  "DEV_GETC16 k =
    (case dev_get16 k of
       (None, k) \<Rightarrow> (None, k)
     | (Some w, k) \<Rightarrow> (Some w, k\<lparr>chk := checksum_add16 w (chk k)\<rparr>))"

definition DEV_GETC32 :: "kernel \<Rightarrow> u32 option \<times> kernel" where
  "DEV_GETC32 k =
    (case dev_get32 k of
       (None, k) \<Rightarrow> (None, k)
     | (Some w, k) \<Rightarrow> (Some w, k\<lparr>chk := checksum_add32 w (chk k)\<rparr>))"

text \<open>Accesses to an array of bytes; out of its bounds they are undefined.\<close>

definition rd :: "u8 list \<Rightarrow> int \<Rightarrow> u8 option" where
  "rd xs i = (if 0 \<le> i \<and> i < int (length xs) then Some (xs ! nat i) else None)"

definition wr :: "u8 list \<Rightarrow> int \<Rightarrow> u8 \<Rightarrow> u8 list option" where
  "wr xs i v = (if 0 \<le> i \<and> i < int (length xs) then Some (xs[nat i := v]) else None)"

definition text_bytes :: "kernel \<Rightarrow> text_ref \<Rightarrow> u8 list" where
  "text_bytes k t = (case t of Text_null \<Rightarrow> [] | Text_crlf \<Rightarrow> [13, 10, 13, 10, 0] | Text_block a \<Rightarrow> bytes k a)"

definition ptr_bytes :: "kernel \<Rightarrow> ptr \<Rightarrow> u8 list" where
  "ptr_bytes k p = (case p of None \<Rightarrow> [] | Some a \<Rightarrow> bytes k a)"

text \<open>
  The loop that compares the boundary with the circular buffer, from its second character on:
  \<open>i\<close> and \<open>index\<close> are its variables; the result is whether it ran to the end.
\<close>

partial_function (option) match_rest :: "u8 list \<Rightarrow> u8 list \<Rightarrow> u8 \<Rightarrow> u8 \<Rightarrow> u8 \<Rightarrow> bool option" where
  "match_rest ref buf sz i index =
     (if uint i < uint sz - 1 then
        (let index = (if index = sz then 0 else index)
         in do { a \<leftarrow> rd ref (uint i); b \<leftarrow> rd buf (uint index);
                 if a \<noteq> b then Some False else match_rest ref buf sz (i + 1) (index + 1) })
      else Some (uint i = uint sz - 1))"

text \<open>
  The whole comparison, with the position \<open>prev\<close> of the last character of the window: last and first
  character, then all.
\<close>

definition boundary_match :: "u8 list \<Rightarrow> u8 list \<Rightarrow> u8 \<Rightarrow> int \<Rightarrow> u8 \<Rightarrow> bool option" where
  "boundary_match ref buf sz prev index =
    do { a \<leftarrow> rd buf prev; b \<leftarrow> rd ref (uint sz - 1);
         if a \<noteq> b then Some False
         else do { c \<leftarrow> rd buf (uint index); d \<leftarrow> rd ref 0;
                   if c \<noteq> d then Some False else match_rest ref buf sz 1 (index + 1) } }"

text \<open>
  \<open>in\<close> up to its context switch: the value -1, or the need for an octet that the current packet
  does not have, or an octet to fetch.
\<close>

datatype in_result = In_end | In_switch | In_fetch

definition in_check :: "kernel \<Rightarrow> in_result option" where
  "in_check k =
    (case in_connection (curr_input k) of
       None \<Rightarrow> None
     | Some p \<Rightarrow>
        if coroutine_state k = cor_out then Some In_end
        else
         (case p of
            None \<Rightarrow> None
          | Some p \<Rightarrow>
             (let pd = post_datas k p
              in if content_length pd = 0 then Some In_end
                 else if (case post_boundary pd of None \<Rightarrow> False | Some b \<Rightarrow> boundary_index (boundaries k b) = 255)
                 then Some In_end
                 else if in_length (curr_input k) = 0 then Some In_switch else Some In_fetch)))"

text \<open>
  The second half: the next octet, of the packet or, for multipart data, of the window, which then
  takes the octet of the packet. The result is the value of \<open>in\<close>; a packet that ends early makes
  \<open>DEV_GETC\<close> return 1 from \<open>in\<close>.
\<close>

definition in_window :: "nat \<Rightarrow> kernel \<Rightarrow> (u16 \<times> bool \<times> kernel) option" where
  "in_window b k =
    (let bd = boundaries k b; buf = ptr_bytes k (boundary_buffer bd)
     in do { tmp \<leftarrow> rd buf (uint (boundary_index bd));
             (case DEV_GETC k of
                (None, k) \<Rightarrow> Some (1, False, k)
              | (Some c, k) \<Rightarrow>
                 do { buf \<leftarrow> wr buf (uint (boundary_index bd)) c;
                      let k = k\<lparr>bytes := (bytes k)(the (boundary_buffer bd) := buf)\<rparr>;
                      let sz = boundary_size bd;
                      let i = (if boundary_index bd + 1 = sz then 0 else boundary_index bd + 1);
                      if sz = 0 then None
                      else
                       do { m \<leftarrow> boundary_match (text_bytes k (boundary_ref bd)) buf sz (uint (i - 1) mod uint sz) i;
                            Some (u8_to_u16 tmp, True, upd_boundary b (\<lambda>x. x\<lparr>boundary_index := (if m then 255 else i)\<rparr>) k) } }) })"

definition in_octet :: "nat \<Rightarrow> kernel \<Rightarrow> (u16 \<times> bool \<times> kernel) option" where
  "in_octet p k =
    (case post_boundary (post_datas k p) of
       Some b \<Rightarrow> in_window b k
     | None \<Rightarrow> (case DEV_GETC k of
                 (None, k) \<Rightarrow> Some (1, False, k)
               | (Some c, k) \<Rightarrow> Some (u8_to_u16 c, True, k)))"

definition in_fetch :: "kernel \<Rightarrow> (u16 \<times> kernel) option" where
  "in_fetch k =
    (case in_connection (curr_input k) of
       Some (Some p) \<Rightarrow>
         do { (v, got, k) \<leftarrow> in_octet p k;
              Some (v, if \<not> got then k
                else
                 (let k = (if content_length (post_datas k p) \<noteq> -1
                           then upd_post_data p (\<lambda>x. x\<lparr>content_length := content_length x - 1\<rparr>) k else k)
                  in k\<lparr>curr_input := (curr_input k)\<lparr>in_length := in_length (curr_input k) - 1\<rparr>\<rparr>)) }
     | _ \<Rightarrow> None)"

text \<open>\<open>in\<close> for a packet handler: the next octet of the packet, and what an \<open>unsigned char\<close> makes of -1.\<close>

definition in_packet :: "kernel \<Rightarrow> u16 \<times> kernel" where
  "in_packet k = (case dev_get k of None \<Rightarrow> (255, k) | Some (b, k) \<Rightarrow> (u8_to_u16 b, k))"

text \<open>The execution of a handler of POST data between two context switches.\<close>

partial_function (option) run_post_in :: "app \<Rightarrow> nat \<Rightarrow> coroutine \<Rightarrow> cr_entry \<Rightarrow> kernel \<Rightarrow> (cr_exit \<times> kernel) option" where
  "run_post_in ap p c e k =
    (let ev = app_in ap (cr_func c) (cr_params c) e; img = (case ev of Call_in img \<Rightarrow> img | In_return _ \<Rightarrow> [])
     in if (case ev of In_return _ \<Rightarrow> True | Call_in _ \<Rightarrow> False) then
          Some (Returned, set_cr (Post_cr p) ((get_cr k (Post_cr p))\<lparr>cr_params :=
            (case cr_params c of Post_in t n f _ \<Rightarrow> Post_in t n f (case ev of In_return q \<Rightarrow> q | Call_in _ \<Rightarrow> None)
             | ps \<Rightarrow> ps)\<rparr>) k)
        else
          do { r \<leftarrow> in_check k;
               if r = In_switch then Some (Suspended img, k)
               else if r = In_end then run_post_in ap p c (Resume (in_value ap img (- 1))) k
               else do { (v, k) \<leftarrow> in_fetch k; run_post_in ap p c (Resume (in_value ap img v)) k } })"

definition post_in_body :: "app \<Rightarrow> nat \<Rightarrow> coroutine \<Rightarrow> cr_entry \<Rightarrow> kernel \<Rightarrow> (cr_exit \<times> kernel) option" where
  "post_in_body ap p c e k =
    (case e of
       Start \<Rightarrow> run_post_in ap p c Start k
     | Resume img \<Rightarrow> do { (v, k) \<leftarrow> in_fetch k; run_post_in ap p c (Resume (in_value ap img v)) k })"

end
