(* ===== verification/Request.thy ===== *)
theory Request
  imports Post_Input
begin

text \<open>
  The parser of HTTP requests in \<open>smews_receive\<close> of \<open>core/input.c\<close>: the loop over the octets of a segment
  that walks the trees of the requests, URLs, arguments, header attributes and content types, collects the
  arguments and runs the handler of POST data, and what is done at the end of a segment.

  The local variables of the function are the record \<open>rx\<close>. A step of the loop ends with \<open>Go\<close> (falls
  through), \<open>Break\<close> or \<open>Continue\<close>; \<open>returned\<close> is the \<open>return 1\<close> of a macro in the middle of it. A null
  dereference, an access out of an array and a loop that does not end are \<open>None\<close>.
\<close>

section \<open>Local variables and control flow\<close>

record rx =
  kern :: kernel
  tc :: connection
  returned :: bool
  rx_connection :: ptr
  current_inack :: u32
  current_in_seq :: u32
  packet_length :: u16
  seg_len :: u16
  header_len :: u8
  new_tcp_data :: bool
  protocol :: u8
  tmp_ui16 :: u16
  tmp_ui32 :: u32
  rx_char :: u8
  rx_x :: u16
  rx_handler :: "handler_ref option"
  rx_blob :: nat
  rx_curr :: u8
  rx_arg :: arg_ref
  rx_args_size :: u16
  defer_clean_service :: bool
  defer_free_handler :: bool
  defer_free_args :: ptr
  defer_free_args_size :: u16

datatype flow = Go | Break | Continue

fun steps :: "(rx \<Rightarrow> (flow \<times> rx) option) list \<Rightarrow> rx \<Rightarrow> (flow \<times> rx) option" where
  "steps [] r = Some (Go, r)"
| "steps (f # fs) r =
    do { (fl, r) \<leftarrow> f r; if fl = Go \<and> \<not> returned r then steps fs r else Some (fl, r) }"

abbreviation hc :: "rx \<Rightarrow> http_connection" where "hc r \<equiv> http (tc r)"

abbreviation upd_hc :: "(http_connection \<Rightarrow> http_connection) \<Rightarrow> rx \<Rightarrow> rx" where
  "upd_hc f r \<equiv> r\<lparr>tc := upd_http f (tc r)\<rparr>"

abbreviation upd_k :: "(kernel \<Rightarrow> kernel) \<Rightarrow> rx \<Rightarrow> rx" where
  "upd_k f r \<equiv> r\<lparr>kern := f (kern r)\<rparr>"

definition parse_state :: "parsing_state \<Rightarrow> rx \<Rightarrow> rx" where
  "parse_state s = upd_hc (\<lambda>x. x\<lparr>parsing_state := s\<rparr>)"

definition header_state :: "site \<Rightarrow> rx \<Rightarrow> rx" where
  "header_state st r = (parse_state parsing_post_attributes r)\<lparr>rx_blob := blob_http_header_content (blobs st)\<rparr>"

text \<open>\<open>output_handler = &http_404_handler; break;\<close>\<close>

definition not_found :: "rx \<Rightarrow> (flow \<times> rx) option" where
  "not_found r = Some (Break, r\<lparr>rx_handler := Some Http_404\<rparr>)"

text \<open>Dereference of \<open>post_data\<close> and of its \<open>boundary\<close>.\<close>

definition with_post :: "rx \<Rightarrow> (nat \<Rightarrow> post_data \<Rightarrow> 'a option) \<Rightarrow> 'a option" where
  "with_post r f = (case post_data (hc r) of None \<Rightarrow> None | Some p \<Rightarrow> f p (post_datas (kern r) p))"

definition with_boundary :: "rx \<Rightarrow> (nat \<Rightarrow> boundary \<Rightarrow> 'a option) \<Rightarrow> 'a option" where
  "with_boundary r f = with_post r (\<lambda>p pd.
     case post_boundary pd of None \<Rightarrow> None | Some b \<Rightarrow> f b (boundaries (kern r) b))"

text \<open>Memory of bytes: a new block holds what its memory held.\<close>

definition alloc_bytes :: "u16 \<Rightarrow> kernel \<Rightarrow> (ptr \<times> kernel) option" where
  "alloc_bytes n k =
    do { (p, k) \<leftarrow> k_alloc n k;
         Some (p, case p of None \<Rightarrow> k
           | Some a \<Rightarrow> k\<lparr>bytes := (bytes k)(a := take (unat n) (bytes k a @ replicate (unat n) 0))\<rparr>) }"

definition realloc_bytes :: "nat \<Rightarrow> u16 \<Rightarrow> u16 \<Rightarrow> kernel \<Rightarrow> (ptr \<times> kernel) option" where
  "realloc_bytes a n m k =
    (if length (bytes k a) < unat n then None
     else do { (p, h) \<leftarrow> mem_realloc (Some a) n m (heap k);
               Some (p, case p of None \<Rightarrow> k\<lparr>heap := h\<rparr>
                 | Some b \<Rightarrow> k\<lparr>heap := h, bytes := (bytes k)(b := take (unat n) (bytes k a) @ replicate (unat m) 0)\<rparr>) })"

section \<open>Reading an octet\<close>

definition counting :: "rx \<Rightarrow> bool" where
  "counting r =
    (case post_data (hc r) of None \<Rightarrow> False
     | Some p \<Rightarrow> (case post_boundary (post_datas (kern r) p) of None \<Rightarrow> False
         | Some b \<Rightarrow> ready_to_count (boundaries (kern r) b)))"

text \<open>The start of the loop body: the end of multipart data, or one octet.\<close>

definition parse_fetch :: "site \<Rightarrow> rx \<Rightarrow> (flow \<times> rx) option" where
  "parse_fetch st r =
    (let r = r\<lparr>rx_curr := rom (blobs st) (rx_blob r)\<rparr>
     in if counting r \<and> unat (content_length (post_datas (kern r) (the (post_data (hc r))))) < 3 then
          Some (Break, upd_hc (\<lambda>x. x\<lparr>ready_to_send := True, parsing_state := parsing_end\<rparr>) r)
        else if parsing_state (hc r) = parsing_post_data then Some (Go, r)
        else
         (let r = r\<lparr>rx_x := rx_x r + 1\<rparr>
          in case DEV_GETC (kern r) of
               (None, k) \<Rightarrow> Some (Go, r\<lparr>kern := k, returned := True\<rparr>)
             | (Some c, k) \<Rightarrow>
                (let r = r\<lparr>kern := k, rx_char := c\<rparr>
                 in if parsing_state (hc r) = parsing_init_buffer \<or> parsing_state (hc r) = parsing_post_args \<or> counting r
                    then with_post r (\<lambda>p pd. Some (Go,
                      if content_length pd \<noteq> -1
                      then upd_k (upd_post_data p (\<lambda>x. x\<lparr>content_length := content_length x - 1\<rparr>)) r else r))
                    else Some (Go, r))))"

text \<open>Filling the window of a multipart part, and searching the boundary after its handler has returned.\<close>

definition set_index :: "nat \<Rightarrow> u8 \<Rightarrow> kernel \<Rightarrow> kernel" where
  "set_index b i = upd_boundary b (\<lambda>x. x\<lparr>boundary_index := i\<rparr>)"

definition put_window :: "nat \<Rightarrow> u8 \<Rightarrow> kernel \<Rightarrow> kernel option" where
  "put_window b c k =
    (case boundary_buffer (boundaries k b) of
       None \<Rightarrow> None
     | Some a \<Rightarrow> do { buf \<leftarrow> wr (bytes k a) (uint (boundary_index (boundaries k b))) c;
                     Some (set_index b (boundary_index (boundaries k b) + 1) (k\<lparr>bytes := (bytes k)(a := buf)\<rparr>)) })"

definition parse_init_buffer :: "site \<Rightarrow> rx \<Rightarrow> (flow \<times> rx) option" where
  "parse_init_buffer st r =
    with_boundary r (\<lambda>b bd.
      do { k \<leftarrow> put_window b (rx_char r) (kern r);
           let r = r\<lparr>kern := k\<rparr>; let i = boundary_index bd + 1; let sz = boundary_size bd;
           if i \<noteq> sz then Some (Continue, r)
           else if sz = 0 then None
           else
            do { m \<leftarrow> boundary_match (text_bytes k (boundary_ref bd)) (ptr_bytes k (boundary_buffer bd)) sz
                       ((uint i - 1) mod uint sz) i;
                 Some (Go, if m then upd_k (set_index b 255) (header_state st r) else parse_state parsing_post_data r) } })"

definition parse_boundary :: "site \<Rightarrow> rx \<Rightarrow> (flow \<times> rx) option" where
  "parse_boundary st r =
    with_boundary r (\<lambda>b bd.
      let sz = boundary_size bd; i = (if boundary_index bd = sz then 0 else boundary_index bd);
          r = upd_k (set_index b i) r
      in if sz = 0 then None
         else
          do { m \<leftarrow> boundary_match (text_bytes (kern r) (boundary_ref bd)) (ptr_bytes (kern r) (boundary_buffer bd)) sz
                      (if i = 0 then - (1 mod uint sz) else (uint i - 1) mod uint sz) i;
               if m then Some (Continue, upd_k (set_index b 255) (header_state st r))
               else do { k \<leftarrow> put_window b (rx_char r) (kern r); Some (Continue, r\<lparr>kern := k\<rparr>) } })"

definition parse_window :: "site \<Rightarrow> rx \<Rightarrow> (flow \<times> rx) option" where
  "parse_window st r =
    (if parsing_state (hc r) = parsing_init_buffer then parse_init_buffer st r
     else if parsing_state (hc r) = parsing_boundary then parse_boundary st r
     else Some (Go, r))"

section \<open>The end of a header\<close>

definition parse_header_end :: "target \<Rightarrow> site \<Rightarrow> rx \<Rightarrow> (flow \<times> rx) option" where
  "parse_header_end tg st r =
    (if parsing_state (hc r) \<noteq> parsing_post_end then Some (Go, r)
     else with_post r (\<lambda>p pd.
       if content_type pd = 255 then Some (Break, r\<lparr>rx_handler := Some Http_505\<rparr>)
       else
        (case post_boundary pd of
           Some b \<Rightarrow>
            (let r = upd_k (upd_boundary b (\<lambda>x. x\<lparr>ready_to_count := True\<rparr>)) r
             in if content_type pd = CONTENT_TYPE_MULTIPART (blobs st) then Some (Continue, header_state st r)
                else Some (Go, parse_state parsing_post_data r))
         | None \<Rightarrow>
            if content_type pd = CONTENT_TYPE_URLENCODED (blobs st) then Some (Go, parse_state parsing_post_args r)
            else if content_length pd \<noteq> -1 then Some (Go, parse_state parsing_post_data r)
            else
             do { (q, k) \<leftarrow> k_alloc (sizeof_boundary tg) (kern r);
                  let r = r\<lparr>kern := upd_post_data p (\<lambda>x. x\<lparr>post_boundary := q\<rparr>) k\<rparr>;
                  case q of
                    None \<Rightarrow> not_found r
                  | Some b \<Rightarrow>
                     do { let r = upd_k (upd_boundary b (\<lambda>x. x\<lparr>boundary_size := 4, boundary_index := 255,
                                    multi_part_counter := 0, boundary_ref := Text_crlf\<rparr>)) r;
                          (a, k) \<leftarrow> alloc_bytes 4 (kern r);
                          let k = upd_boundary b (\<lambda>x. x\<lparr>boundary_buffer := a\<rparr>) k;
                          if a = None then do { k \<leftarrow> k_free (Some b) (sizeof_boundary tg) k; not_found (r\<lparr>kern := k\<rparr>) }
                          else Some (Go, parse_state parsing_post_data (r\<lparr>kern := k\<rparr>)) } })))"

section \<open>The handler of POST data\<close>

text \<open>The length of a string with its terminator, counted in 8 bits.\<close>

definition string_size :: "u8 list \<Rightarrow> u8 option" where
  "string_size xs =
    (let n = length (takeWhile (\<lambda>c. c \<noteq> 0) (take 256 xs))
     in if n < length xs \<and> n < 256 then Some (of_nat (n + 1)) else None)"

definition free_filename :: "nat \<Rightarrow> kernel \<Rightarrow> kernel option" where
  "free_filename p k =
    (case filename (post_datas k p) of
       None \<Rightarrow> Some k
     | Some f \<Rightarrow>
         do { n \<leftarrow> string_size (bytes k f);
              k \<leftarrow> k_free (Some f) (u8_to_u16 n) k;
              Some (upd_post_data p (\<lambda>x. x\<lparr>filename := None\<rparr>) k) })"

definition start_post_in :: "target \<Rightarrow> site \<Rightarrow> handler_ref \<Rightarrow> nat \<Rightarrow> kernel \<Rightarrow> (bool \<times> kernel) option" where
  "start_post_in tg st h p k =
    (let k = cr_init tg (Post_cr p) k; pd = post_datas k p;
         part = (case post_boundary pd of None \<Rightarrow> 0 | Some b \<Rightarrow> multi_part_counter (boundaries k b));
         k = set_cr (Post_cr p) ((get_cr k (Post_cr p))\<lparr>
               cr_func := dopostin (gen_handlers (GET_GENERATOR (handler st h))),
               cr_params := Post_in (content_type pd) part (filename pd) (post_app_data pd)\<rparr>) k;
         k = (case post_boundary pd of None \<Rightarrow> k | Some b \<Rightarrow> set_index b 0 k)
     in cr_prepare tg (Post_cr p) k)"

text \<open>What follows the return of the handler.\<close>

definition end_post_in :: "site \<Rightarrow> nat \<Rightarrow> rx \<Rightarrow> (flow \<times> rx) option" where
  "end_post_in st p r =
    (let k = kern r;
         q = (case cr_params (post_coroutine (post_datas k p)) of Post_in _ _ _ q \<Rightarrow> q | _ \<Rightarrow> None);
         k = upd_post_data p (\<lambda>x. x\<lparr>post_app_data := q\<rparr>) k
     in do { k \<leftarrow> cr_clean (Post_cr p) k;
             k \<leftarrow> free_filename p k;
             let r = r\<lparr>kern := k\<rparr>;
             (case post_boundary (post_datas k p) of
                None \<Rightarrow> Some (Break, upd_hc (\<lambda>x. x\<lparr>parsing_state := parsing_end, ready_to_send := True\<rparr>) r)
              | Some b \<Rightarrow>
                 (let r = upd_k (upd_boundary b (\<lambda>x. x\<lparr>multi_part_counter := multi_part_counter x + 1\<rparr>)) r;
                      r = (if boundary_index (boundaries k b) \<noteq> 255 then parse_state parsing_boundary r else header_state st r)
                  in if content_length (post_datas k p) = -1
                     then Some (Break, upd_hc (\<lambda>x. x\<lparr>parsing_state := parsing_end, ready_to_send := True\<rparr>) r)
                     else Some (Continue, r))) })"

text \<open>
  A segment of POST data: the coroutine is started, or goes on with what the shared stack holds -
  only a start prepares the stack - and reads up to the rest of the segment.
\<close>

definition parse_post_data :: "target \<Rightarrow> site \<Rightarrow> app \<Rightarrow> rx \<Rightarrow> (flow \<times> rx) option" where
  "parse_post_data tg st ap r =
    (if parsing_state (hc r) \<noteq> parsing_post_data then Some (Go, r)
     else with_post r (\<lambda>p pd.
       let ended = (status (curr_context (post_coroutine pd)) = cr_terminated); len = seg_len r - rx_x r
       in if ended \<and> (case post_boundary pd of None \<Rightarrow> False | Some b \<Rightarrow> boundary_index (boundaries (kern r) b) = 255)
          then Some (Continue, parse_state parsing_init_buffer (upd_k (set_index (the (post_boundary pd)) 0) r))
          else
           do { (ok, k) \<leftarrow> (if ended then (case rx_handler r of None \<Rightarrow> None | Some h \<Rightarrow> start_post_in tg st h p (kern r))
                          else Some (True, kern r));
                if \<not> ok then Some (Go, r\<lparr>kern := k, returned := True\<rparr>)
                else
                 do { k \<leftarrow> cr_run (post_in_body ap p) tg (Post_cr p)
                             (k\<lparr>curr_input := \<lparr>in_connection = Some (Some p), in_length = len\<rparr>, coroutine_state := cor_in\<rparr>);
                      let r = r\<lparr>kern := k\<lparr>coroutine_state := cor_out\<rparr>, rx_x := rx_x r + (len - in_length (curr_input k))\<rparr>;
                      if status (curr_context (post_coroutine (post_datas k p))) = cr_terminated then end_post_in st p r
                      else Some (if post_boundary (post_datas k p) = None then Break else Continue, r) } }))"

section \<open>The attributes of a POST header\<close>

text \<open>The name of a file: its first two bytes are its length and its capacity, until the closing quote.\<close>

definition parse_filename :: "site \<Rightarrow> rx \<Rightarrow> (flow \<times> rx) option" where
  "parse_filename st r =
    with_post r (\<lambda>p pd.
      case filename pd of
        None \<Rightarrow>
          do { (q, k) \<leftarrow> alloc_bytes 10 (kern r);
               let r = r\<lparr>kern := upd_post_data p (\<lambda>x. x\<lparr>filename := q\<rparr>) k\<rparr>;
               case q of
                 None \<Rightarrow> not_found r
               | Some f \<Rightarrow> Some (Go, upd_k (\<lambda>k. k\<lparr>bytes := (bytes k)(f := [2, 10] @ drop 2 (bytes k f))\<rparr>) r) }
      | Some f \<Rightarrow>
          do { n \<leftarrow> rd (bytes (kern r) f) 0; cap \<leftarrow> rd (bytes (kern r) f) 1;
               if rx_char r = 34 then
                 do { (q, k) \<leftarrow> alloc_bytes (u8_to_u16 n - 1) (kern r);
                      (case q of
                         None \<Rightarrow> not_found (r\<lparr>kern := k\<rparr>)
                       | Some g \<Rightarrow>
                          if length (bytes k f) < unat n then None
                          else
                           do { let k = k\<lparr>bytes := (bytes k)(g := take (unat n - 2) (drop 2 (bytes k f)) @ [0])\<rparr>;
                                k \<leftarrow> k_free (Some f) (u8_to_u16 cap) k;
                                Some (Go, header_state st (r\<lparr>kern := upd_post_data p (\<lambda>x. x\<lparr>filename := Some g\<rparr>) k\<rparr>)) }) }
               else
                 do { (q, k) \<leftarrow> (if n = cap then realloc_bytes f (u8_to_u16 cap) 10 (kern r) else Some (Some f, kern r));
                      let r = r\<lparr>kern := upd_post_data p (\<lambda>x. x\<lparr>filename := q\<rparr>) k\<rparr>;
                      case q of
                        None \<Rightarrow> not_found r
                      | Some g \<Rightarrow>
                         do { xs \<leftarrow> (if n = cap then wr (bytes k g) 1 (cap + 10) else Some (bytes k g));
                              xs \<leftarrow> wr xs (uint n) (rx_char r);
                              xs \<leftarrow> wr xs 0 (n + 1);
                              Some (Go, upd_k (\<lambda>k. k\<lparr>bytes := (bytes k)(g := xs)\<rparr>) r) } } })"

text \<open>
  The boundary of a multipart request: collected in a block that grows by ten octets, then copied
  behind a line end and two dashes.
\<close>

definition parse_boundary_attribute :: "target \<Rightarrow> rx \<Rightarrow> (flow \<times> rx) option" where
  "parse_boundary_attribute tg r =
    with_boundary r (\<lambda>b bd.
      case boundary_ref bd of
        Text_block a \<Rightarrow>
         (if rx_char r \<noteq> 13 then
            do { (q, k) \<leftarrow> (if boundary_index bd = boundary_size bd
                           then realloc_bytes a (u8_to_u16 (boundary_size bd)) 10 (kern r) else Some (Some a, kern r));
                 case q of
                   None \<Rightarrow> not_found (r\<lparr>kern := upd_boundary b (\<lambda>x. x\<lparr>boundary_ref := Text_null\<rparr>) k\<rparr>)
                 | Some g \<Rightarrow>
                    do { xs \<leftarrow> wr (bytes k g) (uint (boundary_index bd)) (rx_char r);
                         Some (Go, r\<lparr>kern := upd_boundary b (\<lambda>x. x\<lparr>boundary_ref := Text_block g,
                             boundary_size := (if boundary_index bd = boundary_size bd then boundary_size bd + 10 else boundary_size bd),
                             boundary_index := boundary_index bd + 1\<rparr>) (k\<lparr>bytes := (bytes k)(g := xs)\<rparr>)\<rparr>) } }
          else
            do { (q, k) \<leftarrow> alloc_bytes (u8_to_u16 (boundary_index bd) + 5) (kern r);
                 case q of
                   None \<Rightarrow> not_found (r\<lparr>kern := k\<rparr>)
                 | Some g \<Rightarrow>
                    if length (bytes k a) < unat (boundary_index bd) then None
                    else
                     do { let k = k\<lparr>bytes := (bytes k)(g := [10, 13, 10, 45, 45] @ take (unat (boundary_index bd)) (bytes k a))\<rparr>;
                          k \<leftarrow> k_free (Some a) (u8_to_u16 (boundary_size bd)) k;
                          let sz = boundary_index bd + 5;
                          let k = upd_boundary b (\<lambda>x. x\<lparr>boundary_size := sz, boundary_ref := Text_block g, boundary_index := 255\<rparr>) k;
                          (w, k) \<leftarrow> alloc_bytes (u8_to_u16 sz) k;
                          let k = upd_boundary b (\<lambda>x. x\<lparr>boundary_buffer := w\<rparr>) k;
                          if w = None then do { k \<leftarrow> k_free (Some b) (sizeof_boundary tg) k; not_found (r\<lparr>kern := k\<rparr>) }
                          else Some (Go, r\<lparr>kern := k\<rparr>) } })
      | _ \<Rightarrow> None)"

definition parse_content_length :: "rx \<Rightarrow> (flow \<times> rx) option" where
  "parse_content_length r =
    with_post r (\<lambda>p pd.
      let n = (if content_length pd = 255 then 0 else content_length pd);
          n = (if rx_char r \<noteq> 32 \<and> rx_char r \<noteq> 13 then n * 10 + (u8_to_u16 (rx_char r) - 48) else n)
      in Some (Go, upd_k (upd_post_data p (\<lambda>x. x\<lparr>content_length := n\<rparr>)) r))"

definition parse_attribute :: "target \<Rightarrow> site \<Rightarrow> rx \<Rightarrow> (flow \<times> rx) option" where
  "parse_attribute tg st r =
    (let g = blobs st in
     if rx_curr r = ATTRIBUT_CONTENT_TYPE g + 128
     then Some (Go, parse_state parsing_post_content_type (r\<lparr>rx_blob := mimes_tree g\<rparr>))
     else if rx_curr r = ATTRIBUT_CONTENT_LENGTH g + 128 then parse_content_length r
     else if rx_curr r = ATTRIBUT_FILENAME g + 128 then parse_filename st r
     else if rx_curr r = ATTRIBUT_BOUNDARY g + 128 then parse_boundary_attribute tg r
     else Some (Go, r))"

text \<open>The content type: a multipart one starts a boundary, another one has to be known to the handler.\<close>

definition parse_multipart_type :: "target \<Rightarrow> site \<Rightarrow> rx \<Rightarrow> (flow \<times> rx) option" where
  "parse_multipart_type tg st r =
    with_post r (\<lambda>p pd.
      do { (q, k) \<leftarrow> k_alloc (sizeof_boundary tg) (kern r);
           let k = upd_post_data p (\<lambda>x. x\<lparr>post_boundary := q\<rparr>) k;
           case q of
             None \<Rightarrow> not_found (r\<lparr>kern := k\<rparr>)
           | Some b \<Rightarrow>
              do { let k = upd_boundary b (\<lambda>x. x\<lparr>boundary_size := 10, boundary_index := 0, multi_part_counter := 0,
                             ready_to_count := False\<rparr>) k;
                   (w, k) \<leftarrow> alloc_bytes 10 k;
                   let k = upd_boundary b (\<lambda>x. x\<lparr>boundary_ref := (case w of None \<Rightarrow> Text_null | Some a \<Rightarrow> Text_block a)\<rparr>) k;
                   if w = None then do { k \<leftarrow> k_free (Some b) (sizeof_boundary tg) k; not_found (r\<lparr>kern := k\<rparr>) }
                   else Some (Go, header_state st
                     (r\<lparr>kern := upd_post_data p (\<lambda>x. x\<lparr>content_type := CONTENT_TYPE_MULTIPART (blobs st)\<rparr>) k\<rparr>)) } })"

definition parse_content_type :: "target \<Rightarrow> site \<Rightarrow> rx \<Rightarrow> (flow \<times> rx) option" where
  "parse_content_type tg st r =
    (let t = rx_curr r - 128 in
     if t = CONTENT_TYPE_MULTIPART (blobs st) then parse_multipart_type tg st r
     else with_post r (\<lambda>p pd.
       case rx_handler r of
         None \<Rightarrow> None
       | Some h \<Rightarrow>
          (let oh = handler st h
           in if length (mimes_index oh) < unat (mimes_size oh) then None
              else
               (let t' = (if mimes_size oh = 0 \<or> t \<in> set (take (unat (mimes_size oh)) (mimes_index oh)) then t else 255);
                    r = upd_k (upd_post_data p (\<lambda>x. x\<lparr>content_type := t'\<rparr>)) r
                in if t' = 255 then not_found r else Some (Go, header_state st r)))))"

section \<open>The request, the URL and the arguments\<close>

definition parse_command :: "target \<Rightarrow> site \<Rightarrow> rx \<Rightarrow> (flow \<times> rx) option" where
  "parse_command tg st r =
    (if rx_curr r \<noteq> REQUEST_POST (blobs st) + 128
     then Some (Go, (parse_state parsing_url r)\<lparr>rx_blob := urls_tree (blobs st)\<rparr>)
     else
      do { (q, k) \<leftarrow> k_alloc (sizeof_post_data tg) (kern r);
           let r = upd_hc (\<lambda>x. x\<lparr>post_data := q\<rparr>) (r\<lparr>kern := k\<rparr>);
           case q of
             None \<Rightarrow> not_found r
           | Some p \<Rightarrow>
              Some (Go, (parse_state parsing_url (upd_k (upd_post_data p (\<lambda>x. x\<lparr>content_type := 255, content_length := -1,
                post_boundary := None, post_app_data := None, filename := None,
                post_coroutine := (post_coroutine x)\<lparr>curr_context := (curr_context (post_coroutine x))\<lparr>status := cr_terminated\<rparr>\<rparr>\<rparr>)) r))
                \<lparr>rx_blob := urls_tree (blobs st)\<rparr>) })"

text \<open>\<open>if(!output_handler) output_handler = resources_index[blob_curr - 128];\<close>; past the table is undefined.\<close>

definition find_resource :: "site \<Rightarrow> rx \<Rightarrow> rx option" where
  "find_resource st r =
    (if rx_handler r \<noteq> None then Some r
     else
      (let i = unat (rx_curr r - 128)
       in if i < length (resources_index st) then Some (r\<lparr>rx_handler := Some (resources_index st ! i)\<rparr>)
          else if i = length (resources_index st) then Some r else None))"

text \<open>\<open>=\<close> after the name of an argument selects its place in the structure of the arguments.\<close>

definition parse_argument_name :: "site \<Rightarrow> rx \<Rightarrow> (flow \<times> rx) option" where
  "parse_argument_name st r =
    (let i = rx_curr r - 128 in
     case (rx_handler r, args (hc r)) of
       (Some h, Some a) \<Rightarrow>
         if length (args_index (handler st h)) \<le> unat i then None
         else
          (let g = args_index (handler st h) ! unat i;
               r = upd_hc (\<lambda>x. x\<lparr>arg_ref_index := i, curr_arg := unat (arg_offset g)\<rparr>) (r\<lparr>rx_arg := g\<rparr>)
           in if arg_type g \<noteq> arg_str then Some (Continue, r)
              else do { xs \<leftarrow> wr (bytes (kern r) a) (uint (arg_offset g) + uint (arg_size g) - 1) (arg_size g - 1);
                        Some (Continue, upd_k (\<lambda>k. k\<lparr>bytes := (bytes k)(a := xs)\<rparr>) r) })
     | _ \<Rightarrow> None)"

definition parse_arguments_start :: "site \<Rightarrow> rx \<Rightarrow> (flow \<times> rx) option" where
  "parse_arguments_start st r =
    do { r \<leftarrow> find_resource st r;
         case rx_handler r of
           None \<Rightarrow> None
         | Some h \<Rightarrow>
            (let n = args_size (handler st h); r = upd_hc (\<lambda>x. x\<lparr>ready_to_send := False\<rparr>) (r\<lparr>rx_args_size := n\<rparr>)
             in if n = 0 then Some (Go, r)
                else
                 do { (q, k) \<leftarrow> k_alloc n (kern r);
                      let r = upd_hc (\<lambda>x. x\<lparr>args := q\<rparr>) (r\<lparr>kern := k, rx_blob := args_tree (handler st h)\<rparr>);
                      case q of
                        None \<Rightarrow> not_found r
                      | Some a \<Rightarrow> Some (Continue, upd_k (\<lambda>k. k\<lparr>bytes := (bytes k)(a := replicate (unat n) 0)\<rparr>) r) }) }"

definition parse_url_end :: "site \<Rightarrow> rx \<Rightarrow> (flow \<times> rx) option" where
  "parse_url_end st r =
    (if rx_char r = 32 then
       if post_data (hc r) \<noteq> None \<and> \<not> post_url_detected (hc r) then not_found r
       else
        do { r \<leftarrow> find_resource st r;
             if post_data (hc r) \<noteq> None
             then Some (Go, upd_hc (\<lambda>x. x\<lparr>ready_to_send := False\<rparr>) (header_state st r))
             else Some (Break, parse_state parsing_end r) }
     else if rx_char r = 63 \<or> (parsing_state (hc r) = parsing_post_args \<and> rx_char r = 10) then parse_arguments_start st r
     else if rx_char r = 61 \<and> args (hc r) \<noteq> None then parse_argument_name st r
     else if rx_char r = 38 then
       (case rx_handler r of None \<Rightarrow> None | Some h \<Rightarrow> Some (Go, r\<lparr>rx_blob := args_tree (handler st h)\<rparr>))
     else Some (Go, r\<lparr>rx_blob := rx_blob r + 1\<rparr>))"

text \<open>The character that marks a URL for POST in the tree.\<close>

definition parse_post_url :: "site \<Rightarrow> rx \<Rightarrow> (flow \<times> rx) option" where
  "parse_post_url st r =
    (if parsing_state (hc r) = parsing_url \<and> rx_curr r = 255 then
       if post_data (hc r) \<noteq> None
       then Some (Go, upd_hc (\<lambda>x. x\<lparr>post_url_detected := True\<rparr>)
         (r\<lparr>rx_blob := rx_blob r + 1, rx_curr := rom (blobs st) (rx_blob r + 1)\<rparr>))
       else not_found r
     else Some (Go, r))"

text \<open>All that is done when the tree holds a reference instead of a character.\<close>

definition parse_reference :: "target \<Rightarrow> site \<Rightarrow> app \<Rightarrow> rx \<Rightarrow> (flow \<times> rx) option" where
  "parse_reference tg st ap r =
    (if rx_curr r < 128 then Some (Go, r)
     else steps
      [parse_header_end tg st,
       parse_post_data tg st ap,
       parse_post_url st,
       (\<lambda>r. if parsing_state (hc r) = parsing_post_attributes then parse_attribute tg st r
            else if parsing_state (hc r) = parsing_post_content_type then parse_content_type tg st r
            else if parsing_state (hc r) = parsing_cmd then parse_command tg st r
            else parse_url_end st r),
       (\<lambda>r. Some (Go, r\<lparr>rx_curr := rom (blobs st) (rx_blob r)\<rparr>))] r)"

definition parse_line_end :: "site \<Rightarrow> rx \<Rightarrow> (flow \<times> rx) option" where
  "parse_line_end st r =
    Some (Go,
      if parsing_state (hc r) = parsing_post_attributes \<and> rx_char r = 13
      then (parse_state parsing_post_end r)\<lparr>rx_blob := blob_http_header_end (blobs st)\<rparr>
      else if parsing_state (hc r) = parsing_post_end \<and> rx_char r \<noteq> rx_curr r then header_state st r
      else r)"

section \<open>The value of an argument\<close>

text \<open>
  A character of a value: a string keeps in its last byte the room it has left; a number is in the
  byte order of the machine, the lower byte first.
\<close>

definition store_argument :: "rx \<Rightarrow> rx option" where
  "store_argument r =
    (case args (hc r) of
       None \<Rightarrow> None
     | Some a \<Rightarrow>
        (let xs = bytes (kern r) a; p = int (curr_arg (hc r)); last = p + uint (arg_size (rx_arg r)) - 1
         in do { ys \<leftarrow>
                  (case arg_type (rx_arg r) of
                     arg_str \<Rightarrow>
                       do { n \<leftarrow> rd xs last;
                            if n = 0 then Some xs
                            else do { ys \<leftarrow> wr xs (p + (uint (arg_size (rx_arg r)) - uint n - 1)) (rx_char r);
                                      wr ys last (n - 1) } }
                   | arg_ui8 \<Rightarrow> do { v \<leftarrow> rd xs p; wr xs p (v * 10 + (rx_char r - 48)) }
                   | arg_ui16 \<Rightarrow>
                       do { b0 \<leftarrow> rd xs p; b1 \<leftarrow> rd xs (p + 1);
                            let v = ui16 b0 b1 * 10 + (u8_to_u16 (rx_char r) - 48);
                            ys \<leftarrow> wr xs p (u16_to_u8 v);
                            wr ys (p + 1) (u16_to_u8 (drop_bit 8 v)) });
                Some (upd_k (\<lambda>k. k\<lparr>bytes := (bytes k)(a := ys)\<rparr>) r) }))"

definition parse_value :: "site \<Rightarrow> rx \<Rightarrow> (flow \<times> rx) option" where
  "parse_value st r =
    (if rx_char r = 38 then
       (case rx_handler r of
          None \<Rightarrow> None
        | Some h \<Rightarrow> Some (Continue, upd_hc (\<lambda>x. x\<lparr>arg_ref_index := 128\<rparr>) (r\<lparr>rx_blob := args_tree (handler st h)\<rparr>)))
     else if rx_char r = 32 then Some (Break, upd_hc (\<lambda>x. x\<lparr>ready_to_send := True, parsing_state := parsing_end\<rparr>) r)
     else do { r \<leftarrow> store_argument r; Some (Go, r) })"

section \<open>The trees of the words\<close>

text \<open>
  A node is a character, the reference of the word that ends there (128 or more) if there is one, and if
  it has children a byte below 32 whose bits 0, 1 and 2 say which of the three children are there - those for a smaller
  character, for the next character of the word and for a greater character - followed by the
  offsets of the second and of the third. The walk has the character \<open>c\<close>; its result is the
  character of the last node, the address, and whether the character was found.
\<close>

partial_function (option) walk :: "(nat \<Rightarrow> u8) \<Rightarrow> u8 \<Rightarrow> nat \<Rightarrow> (u8 \<times> nat \<times> bool) option" where
  "walk m c b =
     (let cur = m b; b = (if c \<noteq> cur \<and> 128 \<le> m (b + 1) then b + 2 else b + 1); nxt = m b;
          inf = (if nxt < 32 then of_bool (bit nxt 2) + of_bool (bit nxt 1) + of_bool (bit nxt 0) else 0 :: u8);
          eq = (if nxt < 32 then inf + (if bit nxt 1 then m (b + 1) else 0) else 0)
      in if c = cur then
           Some (if nxt < 32 then if bit nxt 1 then (cur, b + unat eq, True) else (cur, b, False) else (cur, b, True))
         else if c < cur then
           if nxt < 32 \<and> bit nxt 0 then walk m c (b + unat inf) else Some (cur, b, False)
         else if nxt < 32 \<and> bit nxt 2 then
           walk m c (b + unat (eq + (if nxt AND 3 \<noteq> 0 then m (b + (unat inf - 1)) else 0)))
         else Some (cur, b, False))"

definition parse_walk :: "site \<Rightarrow> rx \<Rightarrow> (flow \<times> rx) option" where
  "parse_walk st r =
    (let g = blobs st; s = parsing_state (hc r)
     in if s = parsing_post_end \<and> rx_curr r \<noteq> 128 then Some (Go, r\<lparr>rx_blob := rx_blob r + 1\<rparr>)
        else if s = parsing_post_content_type \<and> (rx_char r = 32 \<or> rx_char r = 58)
          \<or> s = parsing_post_attributes
            \<and> (rx_curr r = ATTRIBUT_CONTENT_LENGTH g + 128 \<or> rx_curr r = ATTRIBUT_BOUNDARY g + 128
               \<or> rx_curr r = ATTRIBUT_FILENAME g + 128)
        then Some (Go, r)
        else
         (let c = (if s = parsing_post_attributes \<and> rx_char r < 123 \<and> 96 < rx_char r then rx_char r - 97 + 65 else rx_char r)
          in do { (cur, b, found) \<leftarrow> walk (rom g) c (rx_blob r);
                  let r = r\<lparr>rx_char := c, rx_curr := cur, rx_blob := b\<rparr>;
                  Some (Go, if found then r
                    else if s = parsing_post_attributes then r\<lparr>rx_blob := blob_http_header_content g\<rparr>
                    else r\<lparr>rx_handler := Some Http_404\<rparr>) }))"

section \<open>The loop\<close>

definition parse_step :: "target \<Rightarrow> site \<Rightarrow> app \<Rightarrow> rx \<Rightarrow> (flow \<times> rx) option" where
  "parse_step tg st ap =
    steps [parse_fetch st, parse_window st, parse_reference tg st ap, parse_line_end st,
      (\<lambda>r. if arg_ref_index (hc r) \<noteq> 128 then parse_value st r else parse_walk st r)]"

abbreviation failed :: "rx \<Rightarrow> bool" where
  "failed r \<equiv> rx_handler r = Some Http_404 \<or> rx_handler r = Some Http_505"

partial_function (option) parse_loop :: "target \<Rightarrow> site \<Rightarrow> app \<Rightarrow> rx \<Rightarrow> rx option" where
  "parse_loop tg st ap r =
     (if rx_x r < seg_len r \<and> \<not> failed r then
        do { (fl, r) \<leftarrow> parse_step tg st ap r;
             if fl = Break \<or> returned r then Some r else parse_loop tg st ap r }
      else Some r)"

text \<open>What precedes the loop: the start of a request, or the state that the last segment left.\<close>

definition init_parse :: "site \<Rightarrow> rx \<Rightarrow> rx option" where
  "init_parse st r =
    (let r = (if parsing_state (hc r) = parsing_out
              then r\<lparr>tc := upd_http (\<lambda>x. x\<lparr>args := None, arg_ref_index := 128, blob := blob_http_rqt (blobs st),
                       parsing_state := parsing_cmd, ready_to_send := True, post_data := None, post_url_detected := False\<rparr>)
                     ((tc r)\<lparr>output_handler := None\<rparr>),
                     rx_handler := None\<rparr>
              else r\<lparr>rx_handler := output_handler (tc r)\<rparr>);
         r = r\<lparr>rx_blob := blob (hc r), rx_arg := \<lparr>arg_type = arg_str, arg_size = 0, arg_offset = 0\<rparr>\<rparr>
     in if arg_ref_index (hc r) = 128 then Some r
        else
         (case rx_handler r of
            None \<Rightarrow> None
          | Some h \<Rightarrow>
             (let i = unat (arg_ref_index (hc r))
              in if i < length (args_index (handler st h))
                 then Some (r\<lparr>rx_arg := args_index (handler st h) ! i, rx_args_size := args_size (handler st h)\<rparr>)
                 else None)))"

section \<open>The end of a segment\<close>

text \<open>The end of a request: what the parser allocated and the answer does not need is released.\<close>

definition free_boundary :: "target \<Rightarrow> nat \<Rightarrow> kernel \<Rightarrow> kernel option" where
  "free_boundary tg p k =
    do { k \<leftarrow>
           (case post_boundary (post_datas k p) of
              None \<Rightarrow> Some k
            | Some b \<Rightarrow>
               (let bd = boundaries k b; sz = u8_to_u16 (boundary_size bd)
                in do { k \<leftarrow> (if content_length (post_datas k p) = -1 then Some k
                            else (case boundary_ref bd of
                                    Text_null \<Rightarrow> Some k
                                  | Text_crlf \<Rightarrow> None
                                  | Text_block a \<Rightarrow> k_free (Some a) sz k));
                        k \<leftarrow> (if boundary_buffer bd = None then Some k else k_free (boundary_buffer bd) sz k);
                        k_free (Some b) (sizeof_boundary tg) k }));
         Some (upd_post_data p (\<lambda>x. x\<lparr>post_boundary := None\<rparr>) k) }"

definition end_request :: "target \<Rightarrow> site \<Rightarrow> rx \<Rightarrow> rx option" where
  "end_request tg st r =
    do { k \<leftarrow> (case post_data (hc r) of
               None \<Rightarrow> Some (kern r)
             | Some p \<Rightarrow> do { k \<leftarrow> free_filename p (kern r); free_boundary tg p k });
         let r = r\<lparr>kern := k\<rparr>;
         r \<leftarrow> (if failed r then
                 do { k \<leftarrow> (if post_data (hc r) = None then Some (kern r)
                          else k_free (post_data (hc r)) (sizeof_post_data tg) (kern r));
                      k \<leftarrow> (if args (hc r) = None then Some k else k_free (args (hc r)) (rx_args_size r) k);
                      Some (upd_hc (\<lambda>x. x\<lparr>post_data := None, args := None\<rparr>) (r\<lparr>kern := k\<rparr>)) }
               else Some r);
         Some (upd_hc (\<lambda>x. x\<lparr>parsing_state := parsing_out, blob := blob_http_rqt (blobs st), arg_ref_index := 128\<rparr>) r) }"

text \<open>The answer starts where the client expects it.\<close>

definition select_handler :: "output_handler \<Rightarrow> handler_ref \<Rightarrow> rx \<Rightarrow> rx" where
  "select_handler oh h r =
    r\<lparr>tc := upd_http (\<lambda>x. x\<lparr>next_outseqno := current_inack r,
        final_outseqno := (if handler_type oh = type_file then current_inack r + file_length (GET_FILE oh) else current_inack r - 1),
        comet_send_ack := handler_comet oh, comet_passive := False, comet_streaming := False\<rparr>)
      ((tc r)\<lparr>output_handler := Some h\<rparr>)\<rparr>"

definition end_parse :: "target \<Rightarrow> site \<Rightarrow> rx \<Rightarrow> rx option" where
  "end_parse tg st r =
    do { empty \<leftarrow> (if parsing_state (hc r) = parsing_post_args then with_post r (\<lambda>p pd. Some (content_length pd = 0))
                  else Some False);
         let r = (if empty \<or> failed r \<and> parsing_state (hc r) \<noteq> parsing_cmd
                  then upd_hc (\<lambda>x. x\<lparr>parsing_state := parsing_end, ready_to_send := True\<rparr>) r else r);
         case rx_handler r of
           None \<Rightarrow> Some (upd_hc (\<lambda>x. x\<lparr>blob := rx_blob r\<rparr>) r)
         | Some h \<Rightarrow>
            (let r = (if parsing_state (hc r) \<noteq> parsing_cmd then select_handler (handler st h) h r else r)
             in if parsing_state (hc r) = parsing_end \<or> parsing_state (hc r) = parsing_cmd then end_request tg st r
                else Some (upd_hc (\<lambda>x. x\<lparr>blob := rx_blob r\<rparr>) r)) }"

text \<open>The HTTP part of a segment.\<close>

definition receive_http :: "target \<Rightarrow> site \<Rightarrow> app \<Rightarrow> rx \<Rightarrow> rx option" where
  "receive_http tg st ap r =
    do { r \<leftarrow> init_parse st (r\<lparr>rx_x := 0\<rparr>);
         r \<leftarrow> parse_loop tg st ap r;
         if returned r then Some r else end_parse tg st r }"

end
