(* ===== verification/Input.thy ===== *)
theory Input
  imports Request Packet
begin

text \<open>
  The receiving side of the kernel, \<open>smews_receive\<close> of \<open>core/input.c\<close>: the IP header and the packet
  handlers, the TCP header with the connection it selects, the acknowledgement it carries and the
  transitions of the state machine, the contents (\<open>Request\<close>), and the update of the connection,
  which is deferred until the checksum of the whole packet is known.
\<close>

section \<open>Early returns\<close>

text \<open>Consecutive parts of the function; \<open>returned\<close> ends it, with the value 1.\<close>

fun stages :: "(rx \<Rightarrow> rx option) list \<Rightarrow> rx \<Rightarrow> rx option" where
  "stages [] r = Some r"
| "stages (f # fs) r = do { r \<leftarrow> f r; if returned r then Some r else stages fs r }"

definition get8 :: "(u8 \<Rightarrow> rx \<Rightarrow> rx) \<Rightarrow> rx \<Rightarrow> rx option" where
  "get8 f r =
    Some (case DEV_GETC (kern r) of
       (None, k) \<Rightarrow> r\<lparr>kern := k, returned := True\<rparr> | (Some v, k) \<Rightarrow> f v (r\<lparr>kern := k\<rparr>))"

definition get16 :: "(u16 \<Rightarrow> rx \<Rightarrow> rx) \<Rightarrow> rx \<Rightarrow> rx option" where
  "get16 f r =
    Some (case DEV_GETC16 (kern r) of
       (None, k) \<Rightarrow> r\<lparr>kern := k, returned := True\<rparr> | (Some v, k) \<Rightarrow> f v (r\<lparr>kern := k\<rparr>))"

definition get32 :: "(u32 \<Rightarrow> rx \<Rightarrow> rx) \<Rightarrow> rx \<Rightarrow> rx option" where
  "get32 f r =
    Some (case DEV_GETC32 (kern r) of
       (None, k) \<Rightarrow> r\<lparr>kern := k, returned := True\<rparr> | (Some v, k) \<Rightarrow> f v (r\<lparr>kern := k\<rparr>))"

definition return_if :: "bool \<Rightarrow> rx \<Rightarrow> rx" where
  "return_if b r = (if b then r\<lparr>returned := True\<rparr> else r)"

section \<open>The IP header\<close>

definition IP_PROTO_TCP :: u8 where "IP_PROTO_TCP = 6"
definition HTTP_PORT :: u8 where "HTTP_PORT = 80"
definition BASIC_SEQNO :: u32 where "BASIC_SEQNO = 0x42b7a491"
definition TCP_CHK_CONSTANT_PART :: u16 where "TCP_CHK_CONSTANT_PART = NOT (u8_to_u16 IP_PROTO_TCP)"

text \<open>Version, lengths, fragmentation, protocol, addresses and checksum.\<close>

definition receive_ip :: "rx \<Rightarrow> rx option" where
  "receive_ip =
    stages
     [get8 (\<lambda>c r. return_if (c \<noteq> 0x45) (r\<lparr>rx_char := c\<rparr>)),
      get8 (\<lambda>c r. r\<lparr>rx_char := c\<rparr>),
      get16 (\<lambda>w r. r\<lparr>packet_length := w - IP_HEADER_SIZE\<rparr>),
      get16 (\<lambda>w r. r\<lparr>tmp_ui16 := w\<rparr>),
      get16 (\<lambda>w r. return_if (drop_bit 8 w AND 0x20 \<noteq> 0 \<or> drop_bit 8 w AND 0x1f \<noteq> 0 \<or> u16_to_u8 w \<noteq> 0)
        (r\<lparr>tmp_ui16 := w\<rparr>)),
      get16 (\<lambda>w r. r\<lparr>tmp_ui16 := w, protocol := u16_to_u8 w\<rparr>),
      get16 (\<lambda>w r. r\<lparr>tmp_ui16 := w\<rparr>),
      get32 (\<lambda>a r. r\<lparr>tc := (tc r)\<lparr>ip_addr := a\<rparr>\<rparr>),
      get32 (\<lambda>a r. r\<lparr>tmp_ui32 := a\<rparr>),
      (\<lambda>r. let c = checksum_end (chk (kern r))
           in Some (return_if (current_checksum c \<noteq> 0xffff) (upd_k (\<lambda>k. k\<lparr>chk := c\<rparr>) r)))]"

text \<open>
  Another protocol than TCP: a connection for this packet, which goes to the handler that the
  application registered. It is freed at once unless the handler wants to answer.
\<close>

definition receive_gpip :: "target \<Rightarrow> site \<Rightarrow> app \<Rightarrow> rx \<Rightarrow> kernel option" where
  "receive_gpip tg st ap r =
    do { h \<leftarrow> smews_gpip_get_output_handler st (protocol r);
         case h of
           None \<Rightarrow> Some (kern r)
         | Some hr \<Rightarrow>
            (let c = (tc r)\<lparr>output_handler := Some hr, gpip := (gpip (tc r))\<lparr>gp_protocol := protocol r\<rparr>\<rparr>
             in do { (p, k) \<leftarrow> add_connection tg (Some c) (kern r);
                     case p of
                       None \<Rightarrow> Some k
                     | Some a \<Rightarrow>
                        (let k = upd_connection a (\<lambda>x. x\<lparr>ip_addr := ip_addr c,
                                   gpip := (gpip x)\<lparr>payload_size := packet_length r\<rparr>\<rparr>)
                                   (k\<lparr>curr_input := (curr_input k)\<lparr>in_connection := None\<rparr>\<rparr>)
                         in case dopacketin (gen_handlers (GET_GENERATOR (handler st hr))) of
                              None \<Rightarrow> None
                            | Some f \<Rightarrow>
                               do { (w, k) \<leftarrow> app_packet_in ap (Some f) a k;
                                    let k = upd_connection a (\<lambda>x. x\<lparr>gpip := (gpip x)\<lparr>want_to_send := w\<rparr>\<rparr>) k;
                                    if w = 0 then free_connection tg st a k else Some k }) }) }"

section \<open>The connection and the acknowledgement\<close>

text \<open>The connection of the sender's address and port, or a new one that is not in the ring yet.\<close>

definition new_connection :: "kernel \<Rightarrow> connection \<Rightarrow> connection" where
  "new_connection k c =
    upd_http (\<lambda>x. x\<lparr>tcp_state := tcp_listen, next_outseqno := BASIC_SEQNO, current_inseqno := 0,
        parsing_state := parsing_out, inflight := 0, generator_service := None, ready_to_send := True,
        comet_send_ack := False, comet_passive := False, transmission_time := last_transmission_time k,
        post_data := None, post_url_detected := False\<rparr>)
      (c\<lparr>output_handler := None\<rparr>)"

definition select_connection :: "site \<Rightarrow> rx \<Rightarrow> rx option" where
  "select_connection st r =
    do { p \<leftarrow> find_conn (\<lambda>a. let c = connections (kern r) a
                in IS_HTTP st c \<and> port (http c) = port (hc r) \<and> ip_addr c = ip_addr (tc r)) (kern r);
         Some (r\<lparr>rx_connection := p,
           tc := (case p of Some a \<Rightarrow> connections (kern r) a | None \<Rightarrow> new_connection (kern r) (tc r))\<rparr>) }"

text \<open>
  The acknowledgement: a duplicate one restarts the transmission behind it, one of sent data
  updates the number of bytes in flight; when nothing is left to send the handler is forgotten.
  What this frees is freed later, if the checksum is right.
\<close>

definition repeat_ack :: "rx \<Rightarrow> rx" where
  "repeat_ack r =
    (if next_outseqno (hc r) - u16_to_u32 (inflight (hc r)) = current_inack r
     then upd_hc (\<lambda>x. x\<lparr>next_outseqno := current_inack r\<rparr>) r else r)"

definition advance_ack :: "rx \<Rightarrow> rx" where
  "advance_ack r =
    (let ack = current_inack r
     in if ack \<noteq> 0 \<and> ack \<le> next_outseqno (hc r)
        then (upd_hc (\<lambda>x. x\<lparr>inflight := u32_to_u16 (next_outseqno x - ack)\<rparr>) r)
          \<lparr>defer_clean_service := (defer_clean_service r \<or> generator_service (hc r) \<noteq> None)\<rparr>
        else r)"

definition clear_handler :: "site \<Rightarrow> rx \<Rightarrow> rx" where
  "clear_handler st r =
    (case output_handler (tc r) of
       None \<Rightarrow> r
     | Some h \<Rightarrow>
        if inflight (hc r) = 0 \<and> something_to_send st (tc r) = 0 then
          (let r = (if generator_service (hc r) = None then r
                    else r\<lparr>defer_free_handler := True, defer_free_args := args (hc r),
                           defer_free_args_size := args_size (handler st h)\<rparr>)
           in if comet_streaming (hc r) then r else r\<lparr>tc := (tc r)\<lparr>output_handler := None\<rparr>\<rparr>)
        else r)"

definition receive_ack :: "site \<Rightarrow> rx \<Rightarrow> rx" where
  "receive_ack st r = clear_handler st (advance_ack (repeat_ack r))"

section \<open>The state machine\<close>

text \<open>One transition, on the flags of a segment that is not older than the data received.\<close>

definition tcp_step :: "u8 \<Rightarrow> connection \<Rightarrow> connection" where
  "tcp_step flgs c =
    (case tcp_state (http c) of
       tcp_established \<Rightarrow>
         if flgs AND TCP_FIN \<noteq> 0 then
           upd_http (\<lambda>x. x\<lparr>tcp_state := tcp_last_ack, current_inseqno := current_inseqno x + 1\<rparr>)
             (c\<lparr>output_handler := Some Ref_finack\<rparr>)
         else if flgs AND TCP_RST \<noteq> 0 then upd_http (\<lambda>x. x\<lparr>tcp_state := tcp_listen\<rparr>) c
         else c
     | tcp_listen \<Rightarrow>
         if flgs AND TCP_SYN \<noteq> 0 then
           upd_http (\<lambda>x. x\<lparr>tcp_state := tcp_syn_rcvd, current_inseqno := current_inseqno x + 1\<rparr>)
             (c\<lparr>output_handler := Some Ref_synack\<rparr>)
         else c
     | tcp_syn_rcvd \<Rightarrow>
         if inflight (http c) = 0 then upd_http (\<lambda>x. x\<lparr>tcp_state := tcp_established\<rparr>) c
         else c\<lparr>output_handler := Some Ref_synack\<rparr>
     | tcp_last_ack \<Rightarrow> upd_http (\<lambda>x. x\<lparr>tcp_state := tcp_listen\<rparr>) c
     | tcp_closing \<Rightarrow> c)"

text \<open>The length of the segment and the flags; \<open>w\<close> holds the two octets with the offset and the flags.\<close>

definition receive_flags :: "u16 \<Rightarrow> rx \<Rightarrow> rx" where
  "receive_flags w r =
    (let hl = u16_to_u8 (push_bit 2 (drop_bit 12 w)); sl = packet_length r - u8_to_u16 hl;
         seq = (if unat hl < unat (packet_length r) then current_in_seq r + u16_to_u32 sl else current_in_seq r);
         last = current_inseqno (hc r);
         r = r\<lparr>tmp_ui16 := w, header_len := hl, seg_len := sl, current_in_seq := seq, new_tcp_data := last < seq\<rparr>
     in if last \<le> seq
        then r\<lparr>tc := tcp_step (u16_to_u8 w) (upd_http (\<lambda>x. x\<lparr>current_inseqno := seq\<rparr>) (tc r))\<rparr>
        else r)"

section \<open>The rest of the TCP header\<close>

text \<open>\<open>MAX_MSS\<close> is a C integer, the field has 12 bits.\<close>

definition limited_mss :: "target \<Rightarrow> u16 \<Rightarrow> 12 word" where
  "limited_mss tg w = word_of_int (min (uint w) (uint (DEV_MTU tg) - 40))"

definition pseudo_header :: "target \<Rightarrow> rx \<Rightarrow> rx" where
  "pseudo_header tg r =
    upd_k (\<lambda>k. k\<lparr>chk := checksum_add16 (packet_length r)
      (checksum_add32 (ip_addr (tc r)) (checksum_add32 (local_ip_addr tg) (chk k)))\<rparr>) r"

definition receive_mss :: "target \<Rightarrow> rx \<Rightarrow> rx option" where
  "receive_mss tg r =
    (let r = r\<lparr>header_len := header_len r - u16_to_u8 TCP_HEADER_SIZE\<rparr>
     in if 4 \<le> header_len r then
          stages
           [get16 (\<lambda>w r. r\<lparr>tmp_ui16 := w\<rparr>),
            get16 (\<lambda>w r. upd_hc (\<lambda>x. x\<lparr>tcp_mss := limited_mss tg w\<rparr>) (r\<lparr>tmp_ui16 := w\<rparr>))]
           (r\<lparr>header_len := header_len r - 4\<rparr>)
        else Some r)"

partial_function (option) skip_options :: "rx \<Rightarrow> rx option" where
  "skip_options r =
     (if header_len r = 0 \<or> returned r then Some r
      else do { r \<leftarrow> get32 (\<lambda>w r. r\<lparr>tmp_ui32 := w, header_len := header_len r - 4\<rparr>) r; skip_options r })"

definition receive_tcp :: "target \<Rightarrow> site \<Rightarrow> rx \<Rightarrow> rx option" where
  "receive_tcp tg st r =
    stages
     [get16 (\<lambda>w. upd_hc (\<lambda>x. x\<lparr>port := w\<rparr>)),
      select_connection st,
      get16 (\<lambda>w r. return_if (u16_to_u8 w \<noteq> HTTP_PORT) (r\<lparr>tmp_ui16 := w\<rparr>)),
      get32 (\<lambda>w r. r\<lparr>current_in_seq := w\<rparr>),
      get32 (\<lambda>w r. r\<lparr>current_inack := w\<rparr>),
      (\<lambda>r. Some (receive_ack st r)),
      get16 receive_flags,
      get16 (\<lambda>w. upd_hc (\<lambda>x. x\<lparr>cwnd := w\<rparr>)),
      get32 (\<lambda>w r. r\<lparr>tmp_ui32 := w\<rparr>),
      (\<lambda>r. receive_mss tg (pseudo_header tg r)),
      skip_options]
     (upd_k (\<lambda>k. k\<lparr>chk := checksum_init\<rparr>) r)"

section \<open>The end of the packet\<close>

partial_function (option) drop_rest :: "rx \<Rightarrow> rx option" where
  "drop_rest r =
     (if seg_len r \<le> rx_x r \<or> returned r then Some r
      else do { r \<leftarrow> get8 (\<lambda>c r. r\<lparr>rx_char := c\<rparr>) (r\<lparr>rx_x := rx_x r + 1\<rparr>); drop_rest r })"

text \<open>The contents of the segment: a request is parsed, the rest is read for its checksum.\<close>

definition receive_contents :: "target \<Rightarrow> site \<Rightarrow> app \<Rightarrow> rx \<Rightarrow> rx option" where
  "receive_contents tg st ap r =
    stages
     [(\<lambda>r. if seg_len r \<noteq> 0 \<and> tcp_state (hc r) = tcp_established \<and> (new_tcp_data r \<or> output_handler (tc r) = None)
          then receive_http tg st ap r else Some r),
      drop_rest]
     (r\<lparr>rx_x := 0\<rparr>)"

definition acknowledge_data :: "rx \<Rightarrow> rx" where
  "acknowledge_data r =
    (if output_handler (tc r) = None \<and> tcp_state (hc r) = tcp_established \<and> seg_len r \<noteq> 0
     then r\<lparr>tc := (tc r)\<lparr>output_handler := Some Ref_ack\<rparr>\<rparr> else r)"

text \<open>What the acknowledgement has made obsolete.\<close>

definition free_deferred :: "target \<Rightarrow> rx \<Rightarrow> rx option" where
  "free_deferred tg r =
    (if \<not> defer_clean_service r then Some r
     else
      (case generator_service (hc r) of
         None \<Rightarrow> None
       | Some s \<Rightarrow>
          do { k \<leftarrow> clean_service tg s (Some (current_inack r)) (kern r);
               if \<not> defer_free_handler r then Some (r\<lparr>kern := k\<rparr>)
               else
                do { k \<leftarrow> cr_clean (Service_cr s) k;
                     k \<leftarrow> k_free (Some s) (sizeof_generator_service tg) k;
                     k \<leftarrow> k_free (defer_free_args r) (defer_free_args_size r) k;
                     Some (upd_hc (\<lambda>x. x\<lparr>generator_service := None\<rparr>) (r\<lparr>kern := k\<rparr>)) } }))"

text \<open>A connection in state \<open>tcp_syn_rcvd\<close> that is not in the ring enters it.\<close>

definition enter_ring :: "target \<Rightarrow> rx \<Rightarrow> rx option" where
  "enter_ring tg r =
    (if rx_connection r = None \<and> tcp_state (hc r) = tcp_syn_rcvd then
       do { (p, k) \<leftarrow> add_connection tg (Some (tc r)) (kern r);
            Some (r\<lparr>kern := k, rx_connection := p,
              tc := (case p of None \<Rightarrow> tc r
                     | Some a \<Rightarrow> (tc r)\<lparr>conn_prev := conn_prev (connections k a), conn_next := conn_next (connections k a)\<rparr>)\<rparr>) }
     else Some r)"

text \<open>A segment without connection is answered by a reset; one that ends the connection frees it.\<close>

definition commit :: "target \<Rightarrow> site \<Rightarrow> rx \<Rightarrow> kernel option" where
  "commit tg st r =
    do { r \<leftarrow> free_deferred tg r;
         r \<leftarrow> enter_ring tg r;
         let k = kern r;
         case rx_connection r of
           None \<Rightarrow> Some (k\<lparr>rst_connection := \<lparr>rst_ip_addr = ip_addr (tc r), rst_current_inseqno = current_inseqno (hc r),
                     rst_next_outseqno = current_inack r, rst_port = port (hc r)\<rparr>\<rparr>)
         | Some a \<Rightarrow>
             if tcp_state (hc r) = tcp_listen then free_connection tg st a k
             else Some (upd_connection a (\<lambda>_. tc r) k) }"

text \<open>
  The function: \<open>locals\<close> are the indeterminate contents of its local variables. It returns 0 when
  the device has no packet.
\<close>

definition smews_receive :: "target \<Rightarrow> site \<Rightarrow> app \<Rightarrow> rx \<Rightarrow> kernel \<Rightarrow> (u8 \<times> kernel) option" where
  "smews_receive tg st ap locals k =
    (if dev_in k = [] then Some (0, k)
     else
      do { r \<leftarrow> receive_ip (locals\<lparr>kern := k\<lparr>chk := checksum_init\<rparr>, returned := False,
                  defer_clean_service := False, defer_free_handler := False\<rparr>);
           if returned r then Some (1, kern r)
           else if protocol r \<noteq> IP_PROTO_TCP then do { k \<leftarrow> receive_gpip tg st ap r; Some (1, k) }
           else
            do { r \<leftarrow> receive_tcp tg st r;
                 if returned r then Some (1, kern r)
                 else
                  do { r \<leftarrow> receive_contents tg st ap r;
                       if returned r then Some (1, kern r)
                       else
                        (let r = acknowledge_data r; c = checksum_end (chk (kern r)); r = upd_k (\<lambda>k. k\<lparr>chk := c\<rparr>) r
                         in if current_checksum c = TCP_CHK_CONSTANT_PART
                            then do { k \<leftarrow> commit tg st r; Some (1, k) }
                            else Some (1, kern r)) } } })"

end
