(* ===== verification/Smews.thy ===== *)
theory Smews
  imports Input Output Timers
begin

text \<open>
  The main loop and the retransmission, \<open>core/smews.h\<close> and \<open>core/smews.c\<close>: the parts of the kernel put together.
\<close>

section \<open>Model\<close>

text \<open>
  The periodic function: a connection with data in flight for too long goes back to the first byte
  that is not acknowledged. The difference of the times is a C integer.
\<close>

definition overdue :: "site \<Rightarrow> u8 \<Rightarrow> connection \<Rightarrow> bool" where
  "overdue st now c \<longleftrightarrow>
     output_handler c \<noteq> None \<and> IS_HTTP st c \<and> 4 < uint now - uint (transmission_time (http c)) \<and> 0 < inflight (http c)"

definition rewind :: "connection \<Rightarrow> connection" where
  "rewind = upd_http (\<lambda>x. x\<lparr>next_outseqno := next_outseqno x - u16_to_u32 (inflight x), inflight := 0\<rparr>)"

definition smews_retransmit :: "site \<Rightarrow> kernel \<Rightarrow> kernel option" where
  "smews_retransmit st k =
    (let now = last_transmission_time k + 1
     in each_conn (\<lambda>c k. Some
          (if overdue st now (connections k c) then upd_connection c rewind k else k))
        (k\<lparr>last_transmission_time := now\<rparr>))"

text \<open>
  The whole system: the kernel with the timers, of which one calls \<open>smews_retransmit\<close> and the others
  functions of the applications. \<open>env\<close> has what the kernel calls outside itself.
\<close>

datatype timer_callback = Retransmit | App_callback nat

record system =
  core :: kernel
  all_timers :: "timer_callback timer list"

record env =
  app_timer :: "nat \<Rightarrow> kernel \<Rightarrow> kernel option"
  app_init :: "nat \<Rightarrow> system \<Rightarrow> system option"
  hardware_init :: "system \<Rightarrow> system option"
  sizeof_timer :: u16
  heap_cells :: nat

definition run_callback :: "env \<Rightarrow> site \<Rightarrow> timer_callback \<Rightarrow> kernel option \<Rightarrow> kernel option" where
  "run_callback ev st cb k =
    (case cb of Retransmit \<Rightarrow> k \<bind> smews_retransmit st | App_callback i \<Rightarrow> k \<bind> app_timer ev i)"

definition init_resource :: "env \<Rightarrow> site \<Rightarrow> handler_ref \<Rightarrow> system \<Rightarrow> system option" where
  "init_resource ev st r s =
    (let oh = handler st r
     in if handler_type oh = type_generator \<or> handler_type oh = type_general_ip_handler then
          (case gen_init (GET_GENERATOR oh) of None \<Rightarrow> Some s | Some f \<Rightarrow> app_init ev f s)
        else Some s)"

definition smews_init :: "env \<Rightarrow> site \<Rightarrow> u32 \<Rightarrow> system \<Rightarrow> system option" where
  "smews_init ev st now s =
    do { s \<leftarrow> hardware_init ev (s\<lparr>core := (core s)\<lparr>heap := mem_reset (heap_cells ev) (heap (core s))\<rparr>\<rparr>);
         s \<leftarrow> fold_opt (init_resource ev st) (resources_index st)
                (s\<lparr>core := (core s)\<lparr>last_transmission_time := 1\<rparr>\<rparr>);
         (ok, h, ts) \<leftarrow> set_timer (sizeof_timer ev) now Retransmit 1000 (heap (core s), all_timers s);
         Some (s\<lparr>core := (core s)\<lparr>heap := h\<rparr>, all_timers := ts\<rparr>) }"

text \<open>One step of the main loop: the timers, then a packet to receive, or else something to send.\<close>

definition smews_main_loop_step :: "env \<Rightarrow> target \<Rightarrow> site \<Rightarrow> app \<Rightarrow> rx \<Rightarrow> u32 \<Rightarrow> system \<Rightarrow> (u8 \<times> system) option" where
  "smews_main_loop_step ev tg st ap locals now s =
    do { (ts, k) \<leftarrow> smews_timers (run_callback ev st) now (all_timers s) (Some (core s));
         k \<leftarrow> k;
         (got, k) \<leftarrow> smews_receive tg st ap locals k;
         if got \<noteq> 0 then Some (1, s\<lparr>core := k, all_timers := ts\<rparr>)
         else
          do { (sent, k) \<leftarrow> smews_send tg st ap k;
               Some (if sent = 0 then 0 else 1, s\<lparr>core := k, all_timers := ts\<rparr>) } }"

section \<open>Properties\<close>

lemma smews_retransmit_ring:
  assumes "ring k cs"
  shows "smews_retransmit st k = Some (k\<lparr>last_transmission_time := last_transmission_time k + 1,
    connections := \<lambda>c. if c \<in> set cs \<and> overdue st (last_transmission_time k + 1) (connections k c)
      then rewind (connections k c) else connections k c\<rparr>)"
proof -
  let ?k = "k\<lparr>last_transmission_time := last_transmission_time k + 1\<rparr>"
  have "ring ?k cs" by (rule ring_cong [OF assms]) simp_all
  from each_conn_update [OF this, of rewind "overdue st (last_transmission_time k + 1)"]
  show ?thesis by (simp add: smews_retransmit_def Let_def rewind_def cong: if_cong)
qed

text \<open>
  C13: the periodic function returns and takes each connection of the ring that is overdue back to its
  first byte that is not acknowledged: what is acknowledged (\<open>next_outseqno\<close> less the bytes in flight) is kept, nothing is in
  flight any more, and every other connection is as before.
\<close>

theorem retransmission_rewinds:
  assumes "ring k cs"
  shows "\<exists>k'. smews_retransmit st k = Some k' \<and> ring k' cs
    \<and> (\<forall>c. next_outseqno (http (connections k' c)) - u16_to_u32 (inflight (http (connections k' c)))
            = next_outseqno (http (connections k c)) - u16_to_u32 (inflight (http (connections k c))))
    \<and> (\<forall>c. if c \<in> set cs \<and> overdue st (last_transmission_time k + 1) (connections k c)
            then inflight (http (connections k' c)) = 0 else connections k' c = connections k c)"
proof -
  let ?k = "k\<lparr>last_transmission_time := last_transmission_time k + 1,
    connections := \<lambda>c. if c \<in> set cs \<and> overdue st (last_transmission_time k + 1) (connections k c)
      then rewind (connections k c) else connections k c\<rparr>"
  have "ring ?k cs" by (rule ring_cong [OF assms]) (simp_all add: rewind_def)
  then show ?thesis using smews_retransmit_ring [OF assms, of st] by (auto simp: rewind_def)
qed

text \<open>A connection that has sent three octets at the time \<open>t\<close>.\<close>

definition waiting_kernel :: "u8 \<Rightarrow> kernel" where
  "waiting_kernel t = file_connection\<lparr>last_transmission_time := 254,
     connections := (\<lambda>c. upd_http (\<lambda>x. x\<lparr>inflight := 3, next_outseqno := 103, transmission_time := t\<rparr>) (connections file_connection c))\<rparr>"

lemma waiting_kernel_ring: "ring (waiting_kernel t) [7]"
  by (simp add: ring_def waiting_kernel_def file_connection_def)

theorem retransmission_rewinds_witness:
  "\<exists>k'. smews_retransmit file_site (waiting_kernel 200) = Some k' \<and> inflight (http (connections k' 7)) = 0
    \<and> next_outseqno (http (connections k' 7)) = 100"
proof -
  have "overdue file_site (last_transmission_time (waiting_kernel 200) + 1) (connections (waiting_kernel 200) 7)"
    by (simp add: overdue_def waiting_kernel_def file_connection_def IS_GPIP_def IS_GPIP_HANDLER_def file_site_def)
  moreover have "next_outseqno (http (connections (waiting_kernel 200) 7)) - u16_to_u32 (inflight (http (connections (waiting_kernel 200) 7))) = 100"
    by (simp add: waiting_kernel_def)
  moreover obtain k' where "smews_retransmit file_site (waiting_kernel 200) = Some k'"
    and "\<forall>c. next_outseqno (http (connections k' c)) - u16_to_u32 (inflight (http (connections k' c)))
            = next_outseqno (http (connections (waiting_kernel 200) c)) - u16_to_u32 (inflight (http (connections (waiting_kernel 200) c)))"
    and "\<forall>c. if c \<in> set [7] \<and> overdue file_site (last_transmission_time (waiting_kernel 200) + 1) (connections (waiting_kernel 200) c)
            then inflight (http (connections k' c)) = 0 else connections k' c = connections (waiting_kernel 200) c"
    using retransmission_rewinds [OF waiting_kernel_ring] by blast
  ultimately show ?thesis by (auto dest!: spec [of _ 7])
qed

text \<open>Repeated calls, as the timer makes them.\<close>

fun retransmissions :: "site \<Rightarrow> nat \<Rightarrow> kernel \<Rightarrow> kernel option" where
  "retransmissions st 0 k = Some k"
| "retransmissions st (Suc n) k = do { k \<leftarrow> smews_retransmit st k; retransmissions st n k }"

text \<open>
  The times are 8 bits wide and their difference is a C integer: a segment sent at a time of 251 or
  more (the counter is then about to wrap) is never sent again, however often the timer fires.
\<close>

theorem wrapped_time_never_retransmits:
  assumes "ring k cs" and "251 \<le> transmission_time (http (connections k c))"
  shows "\<exists>k'. retransmissions st n k = Some k' \<and> ring k' cs \<and> connections k' c = connections k c
    \<and> last_transmission_time k' = last_transmission_time k + of_nat n"
  using assms
proof (induction n arbitrary: k)
  case (Suc n)
  let ?k = "k\<lparr>last_transmission_time := last_transmission_time k + 1,
    connections := \<lambda>c. if c \<in> set cs \<and> overdue st (last_transmission_time k + 1) (connections k c)
      then rewind (connections k c) else connections k c\<rparr>"
  have "uint (last_transmission_time k + 1) < 256" using uint_bounded [of "last_transmission_time k + 1"] by simp
  moreover have "251 \<le> uint (transmission_time (http (connections k c)))"
    using Suc.prems(2) by (simp add: word_le_def)
  ultimately have "\<not> overdue st (last_transmission_time k + 1) (connections k c)"
    by (simp add: overdue_def)
  then have "connections ?k c = connections k c" by simp
  moreover have "ring ?k cs" by (rule ring_cong [OF Suc.prems(1)]) (simp_all add: rewind_def)
  ultimately show ?case
    using Suc.IH [of ?k] Suc.prems(2) smews_retransmit_ring [OF Suc.prems(1), of st] by (simp add: algebra_simps)
qed simp

theorem wrapped_time_never_retransmits_witness:
  "\<exists>k'. retransmissions file_site 100000 (waiting_kernel 252) = Some k' \<and> inflight (http (connections k' 7)) = 3"
proof -
  have "251 \<le> transmission_time (http (connections (waiting_kernel 252) 7))" "inflight (http (connections (waiting_kernel 252) 7)) = 3"
    by (simp_all add: waiting_kernel_def)
  with wrapped_time_never_retransmits [OF waiting_kernel_ring this(1), of file_site 100000] show ?thesis by force
qed

end
