(* ===== verification/Input_Safety.thy ===== *)
theory Input_Safety
  imports Input
begin

text \<open>
  What a packet can change before its checksum is known: the parser of requests and the coroutines
  of POST data work on memory of their own; every octet they take from the device is summed.
\<close>

section \<open>Reading\<close>

text \<open>The part of the kernel that belongs to the connections, which is only changed by a packet that verifies.\<close>

definition static :: "kernel \<Rightarrow> (nat \<Rightarrow> connection) \<times> ptr \<times> http_rst_connection \<times> packet list \<times> u8" where
  "static k = (connections k, all_connections k, rst_connection k, dev_out k, last_transmission_time k)"

text \<open>\<open>pin\<close> is the part of the local variables that the parser leaves alone.\<close>

definition pin where
  "pin r = (rx_connection r, current_inack r, packet_length r, defer_clean_service r, defer_free_handler r,
     (port (hc r), ip_addr (tc r), tcp_state (hc r), generator_service (hc r)), seg_len r)"

definition reads :: "kernel \<Rightarrow> u8 list \<Rightarrow> kernel \<Rightarrow> bool" where
  "reads k bs k' \<longleftrightarrow> static k' = static k \<and> dev_in k = bs @ dev_in k' \<and> chk k' = fold checksum_add bs (chk k)"

definition adv :: "rx \<Rightarrow> rx \<Rightarrow> bool" where
  "adv r r' \<longleftrightarrow> pin r' = pin r \<and> (\<exists>bs. reads (kern r) bs (kern r'))"

lemma reads_Nil [simp, intro]: "reads k [] k"
  by (simp add: reads_def)

lemma reads_trans [trans]: "reads k bs k' \<Longrightarrow> reads k' cs k'' \<Longrightarrow> reads k (bs @ cs) k''"
  by (simp add: reads_def)

lemma adv_refl [simp, intro]: "adv r r"
  by (auto simp: adv_def)

lemma adv_trans [trans]: "adv r r' \<Longrightarrow> adv r' r'' \<Longrightarrow> adv r r''"
  by (auto simp: adv_def intro: reads_trans)

text \<open>Operations of the kernel that do not touch the device either keep \<open>vis\<close>.\<close>

definition vis where
  "vis k = (static k, dev_in k, chk k)"

lemma vis_upd [simp]:
  "vis (k\<lparr>heap := h\<rparr>) = vis k" "vis (k\<lparr>bytes := b\<rparr>) = vis k" "vis (k\<lparr>post_datas := p\<rparr>) = vis k"
  "vis (k\<lparr>boundaries := d\<rparr>) = vis k" "vis (k\<lparr>services := s\<rparr>) = vis k" "vis (k\<lparr>cr_in_stack := c\<rparr>) = vis k"
  "vis (k\<lparr>shared_stack := t\<rparr>) = vis k" "vis (k\<lparr>curr_input := i\<rparr>) = vis k" "vis (k\<lparr>coroutine_state := u\<rparr>) = vis k"
  "vis (k\<lparr>in_flights := f\<rparr>) = vis k" "vis (k\<lparr>contexts := x\<rparr>) = vis k"
  by (simp_all add: vis_def static_def)

lemma vis_set_cr [simp]: "vis (set_cr q c k) = vis k"
  by (cases q) simp_all

lemma vis_upd_ctx [simp]: "vis (upd_ctx q f k) = vis k"
  by (simp add: upd_ctx_def)

lemma pin_kern [simp]: "pin (r\<lparr>kern := k\<rparr>) = pin r" "pin (r\<lparr>returned := b\<rparr>) = pin r" "pin (r\<lparr>rx_char := c\<rparr>) = pin r"
  "pin (r\<lparr>rx_x := x\<rparr>) = pin r" "pin (r\<lparr>rx_handler := h\<rparr>) = pin r" "pin (r\<lparr>rx_blob := a\<rparr>) = pin r"
  "pin (r\<lparr>rx_curr := c\<rparr>) = pin r" "pin (r\<lparr>rx_arg := g\<rparr>) = pin r" "pin (r\<lparr>rx_args_size := n\<rparr>) = pin r"
  by (simp_all add: pin_def)

lemma pin_tc [simp]:
  "port (http c) = port (hc r) \<Longrightarrow> ip_addr c = ip_addr (tc r) \<Longrightarrow> tcp_state (http c) = tcp_state (hc r)
    \<Longrightarrow> generator_service (http c) = generator_service (hc r) \<Longrightarrow> pin (r\<lparr>tc := c\<rparr>) = pin r"
  by (simp add: pin_def)

lemma k_alloc_vis: "k_alloc n k = Some (p, k') \<Longrightarrow> vis k' = vis k"
  by (auto simp: k_alloc_def split: bind_splits)

lemma k_free_vis: "k_free p n k = Some k' \<Longrightarrow> vis k' = vis k"
  by (auto simp: k_free_def split: bind_splits)

lemma alloc_bytes_vis: "alloc_bytes n k = Some (p, k') \<Longrightarrow> vis k' = vis k"
  by (auto simp: alloc_bytes_def dest!: k_alloc_vis split: bind_splits option.splits)

lemma realloc_bytes_vis: "realloc_bytes a n m k = Some (p, k') \<Longrightarrow> vis k' = vis k"
  by (auto simp: realloc_bytes_def split: bind_splits option.splits if_splits)

lemma vis_adv: "vis (kern r') = vis (kern r) \<Longrightarrow> pin r' = pin r \<Longrightarrow> adv r r'"
  by (auto simp: adv_def vis_def reads_def intro!: exI [of _ "[]"])

lemma cr_save_vis: "cr_save tg q k = Some (ok, k') \<Longrightarrow> vis k' = vis k"
  by (auto simp: cr_save_def Let_def dest!: k_alloc_vis split: bind_splits option.splits)

lemma cr_load_vis: "cr_load q k = Some k' \<Longrightarrow> vis k' = vis k"
  by (auto simp: cr_load_def Let_def dest!: k_free_vis split: bind_splits option.splits)


lemma cr_prepare_vis: "cr_prepare tg q k = Some (ok, k') \<Longrightarrow> vis k' = vis k"
  by (auto simp: cr_prepare_def dest!: cr_save_vis cr_load_vis split: bind_splits option.splits if_splits)

lemma cr_clean_vis: "cr_clean q k = Some k' \<Longrightarrow> vis k' = vis k"
  by (auto simp: cr_clean_def Let_def dest!: k_free_vis split: if_splits)

lemma cr_init_vis [simp]: "vis (cr_init tg q k) = vis k"
  by (simp add: cr_init_def)

section \<open>The reading coroutine\<close>

lemma DEV_GETC_reads: "DEV_GETC k = (Some c, k') \<Longrightarrow> reads k [c] k'"
  by (auto simp: DEV_GETC_def dev_get_def reads_def static_def split: list.splits option.splits)

lemma DEV_GETC_static: "DEV_GETC k = (c, k') \<Longrightarrow> static k' = static k"
  by (auto simp: DEV_GETC_def dev_get_def static_def split: list.splits option.splits)

lemma DEV_GETC_none: "DEV_GETC k = (None, k') \<Longrightarrow> k' = k"
  by (auto simp: DEV_GETC_def dev_get_def split: list.splits option.splits)

lemma reads_vis: "reads k bs k' \<Longrightarrow> vis k'' = vis k' \<Longrightarrow> reads k bs k''"
  by (simp add: vis_def reads_def)

lemma vis_reads: "vis k' = vis k \<Longrightarrow> reads k' bs k'' \<Longrightarrow> reads k bs k''"
  by (simp add: vis_def reads_def)

lemma in_window_reads:
  assumes "in_window b k = Some (v, got, k')"
  shows "\<exists>bs. reads k bs k'"
proof (cases "DEV_GETC k")
  case (Pair c k1)
  show ?thesis
  proof (cases c)
    case None
    then show ?thesis using assms Pair
      by (auto simp: in_window_def Let_def dest!: DEV_GETC_none split: bind_splits)
  next
    case (Some d)
    then have 1: "reads k [d] k1" using Pair by (simp add: DEV_GETC_reads)
    have "vis k' = vis k1" using assms Pair Some
      by (auto simp: in_window_def Let_def split: bind_splits if_splits)
    with 1 show ?thesis by (blast intro: reads_vis)
  qed
qed

lemma in_octet_reads: "in_octet p k = Some (v, got, k') \<Longrightarrow> \<exists>bs. reads k bs k'"
  by (auto simp: in_octet_def dest: in_window_reads DEV_GETC_none DEV_GETC_reads split: option.splits prod.splits)

lemma in_fetch_reads:
  assumes "in_fetch k = Some (v, k')"
  shows "\<exists>bs. reads k bs k'"
proof -
  obtain p got k1 where k1: "in_octet p k = Some (v, got, k1)" and q: "vis k' = vis k1"
    using assms unfolding in_fetch_def Let_def by (auto split: option.splits bind_splits if_splits)
  then show ?thesis using in_octet_reads [OF k1] by (blast intro: reads_vis)
qed

lemma run_post_in_reads:
  assumes "run_post_in ap p c e k = Some y"
  shows "\<exists>bs. reads k bs (snd y)"
proof (rule run_post_in.raw_induct [where P = "\<lambda>_ _ _ _ k y. \<exists>bs. reads k bs (snd y)", OF _ assms])
  fix f :: "app \<Rightarrow> nat \<Rightarrow> coroutine \<Rightarrow> cr_entry \<Rightarrow> kernel \<Rightarrow> (cr_exit \<times> kernel) option" and ap p c e k y
  assume IH: "\<And>ap p c e k y. f ap p c e k = Some y \<Longrightarrow> \<exists>bs. reads k bs (snd y)"
    and body: "(let ev = app_in ap (cr_func c) (cr_params c) e; img = (case ev of Call_in img \<Rightarrow> img | In_return _ \<Rightarrow> [])
     in if (case ev of In_return _ \<Rightarrow> True | Call_in _ \<Rightarrow> False) then
          Some (Returned, set_cr (Post_cr p) ((get_cr k (Post_cr p))\<lparr>cr_params :=
            (case cr_params c of Post_in t n f _ \<Rightarrow> Post_in t n f (case ev of In_return q \<Rightarrow> q | Call_in _ \<Rightarrow> None)
             | ps \<Rightarrow> ps)\<rparr>) k)
        else
          do { r \<leftarrow> in_check k;
               if r = In_switch then Some (Suspended img, k)
               else if r = In_end then f ap p c (Resume (in_value ap img (- 1))) k
               else do { (v, k) \<leftarrow> in_fetch k; f ap p c (Resume (in_value ap img v)) k } }) = Some y"
  show "\<exists>bs. reads k bs (snd y)"
  proof (cases "app_in ap (cr_func c) (cr_params c) e")
    case (In_return q)
    then show ?thesis using body by (auto intro!: exI [of _ "[]"] simp: reads_def static_def)
  next
    case (Call_in img)
    then obtain r where r: "in_check k = Some r" using body by (cases "in_check k") auto
    show ?thesis
    proof (cases r)
      case In_end
      then have "f ap p c (Resume (in_value ap img (- 1))) k = Some y" using body Call_in r by simp
      then show ?thesis by (rule IH)
    next
      case In_switch
      then have "y = (Suspended img, k)" using body Call_in r by simp
      then show ?thesis by auto
    next
      case In_fetch
      then obtain v k1 where 1: "in_fetch k = Some (v, k1)" and 2: "f ap p c (Resume (in_value ap img v)) k1 = Some y"
        using body Call_in r by (auto split: bind_splits)
      from in_fetch_reads [OF 1] IH [OF 2] show ?thesis by (blast intro: reads_trans)
    qed
  qed
qed

lemma post_in_body_reads: "post_in_body ap p c e k = Some (x, k') \<Longrightarrow> \<exists>bs. reads k bs k'"
  by (fastforce simp: post_in_body_def dest!: run_post_in_reads in_fetch_reads split: cr_entry.splits bind_splits
      intro: reads_trans)

lemma cr_run_reads:
  assumes "cr_run (post_in_body ap p) tg q k = Some k'"
  shows "\<exists>bs. reads k bs k'"
proof -
  define k1 where "k1 = (if status (get_ctx k q) = cr_ready then upd_ctx q (\<lambda>x. x\<lparr>status := cr_active\<rparr>) k else k)"
  have q1: "vis k1 = vis k" by (simp add: k1_def)
  obtain c e x k2 where b: "post_in_body ap p c e k1 = Some (x, k2)" and "vis k' = vis k2"
    using assms unfolding cr_run_def Let_def k1_def [symmetric] by (auto split: bind_splits cr_exit.splits)
  with q1 show ?thesis using post_in_body_reads [OF b] by (blast intro: reads_vis vis_reads)
qed

section \<open>The parser\<close>

lemmas keeps =
  k_alloc_vis k_free_vis alloc_bytes_vis realloc_bytes_vis cr_prepare_vis cr_clean_vis

lemmas parts = with_post_def with_boundary_def not_found_def header_state_def parse_state_def set_index_def Let_def

lemma put_window_vis: "put_window b c k = Some k' \<Longrightarrow> vis k' = vis k"
  by (auto simp: put_window_def parts split: option.splits bind_splits)

lemma parse_init_buffer_adv: "parse_init_buffer st r = Some (fl, r') \<Longrightarrow> adv r r'"
  by (rule vis_adv) (auto simp: parse_init_buffer_def parts dest!: put_window_vis split: option.splits bind_splits if_splits)

lemma parse_boundary_adv: "parse_boundary st r = Some (fl, r') \<Longrightarrow> adv r r'"
  by (rule vis_adv) (auto simp: parse_boundary_def parts dest!: put_window_vis split: option.splits bind_splits if_splits)

lemma parse_header_end_adv: "parse_header_end tg st r = Some (fl, r') \<Longrightarrow> adv r r'"
  by (rule vis_adv) (auto simp: parse_header_end_def parts dest!: keeps split: option.splits bind_splits if_splits)

lemma parse_filename_adv: "parse_filename st r = Some (fl, r') \<Longrightarrow> adv r r'"
  by (rule vis_adv) (auto simp: parse_filename_def parts dest!: keeps split: option.splits bind_splits if_splits)

lemma parse_boundary_attribute_adv: "parse_boundary_attribute tg r = Some (fl, r') \<Longrightarrow> adv r r'"
  by (rule vis_adv) (auto simp: parse_boundary_attribute_def parts dest!: keeps split: option.splits text_ref.splits bind_splits if_splits)

lemma parse_content_length_adv: "parse_content_length r = Some (fl, r') \<Longrightarrow> adv r r'"
  by (rule vis_adv) (auto simp: parse_content_length_def parts split: option.splits if_splits)

lemma parse_attribute_adv: "parse_attribute tg st r = Some (fl, r') \<Longrightarrow> adv r r'"
  unfolding parse_attribute_def Let_def
  by (auto simp: parse_state_def intro: parse_content_length_adv parse_filename_adv parse_boundary_attribute_adv
      vis_adv split: if_split_asm)

lemma parse_content_type_adv: "parse_content_type tg st r = Some (fl, r') \<Longrightarrow> adv r r'"
  by (rule vis_adv) (auto simp: parse_content_type_def parse_multipart_type_def parts dest!: keeps
      split: option.splits bind_splits if_splits)

lemma parse_command_adv: "parse_command tg st r = Some (fl, r') \<Longrightarrow> adv r r'"
  by (rule vis_adv) (auto simp: parse_command_def parts dest!: keeps split: option.splits bind_splits if_splits)

lemma parse_url_end_adv: "parse_url_end st r = Some (fl, r') \<Longrightarrow> adv r r'"
  by (rule vis_adv) (auto simp: parse_url_end_def parse_argument_name_def parse_arguments_start_def find_resource_def parts
      dest!: keeps split: option.splits bind_splits if_splits)

lemma parse_post_url_adv: "parse_post_url st r = Some (fl, r') \<Longrightarrow> adv r r'"
  by (rule vis_adv) (auto simp: parse_post_url_def parts split: if_splits)

lemma parse_line_end_adv: "parse_line_end st r = Some (fl, r') \<Longrightarrow> adv r r'"
  by (rule vis_adv) (auto simp: parse_line_end_def parts split: if_splits)

lemma store_argument_vis: "store_argument r = Some r' \<Longrightarrow> vis (kern r') = vis (kern r) \<and> pin r' = pin r"
  by (auto simp: store_argument_def parts split: option.splits bind_splits)

lemma parse_value_adv: "parse_value st r = Some (fl, r') \<Longrightarrow> adv r r'"
  by (rule vis_adv) (auto simp: parse_value_def dest!: store_argument_vis split: option.splits bind_splits if_splits)

lemma parse_walk_adv: "parse_walk st r = Some (fl, r') \<Longrightarrow> adv r r'"
  by (rule vis_adv; cases "walk (rom (blobs st)) (if parsing_state (hc r) = parsing_post_attributes \<and> rx_char r < 123 \<and> 96 < rx_char r
        then rx_char r - 97 + 65 else rx_char r) (rx_blob r)")
    (auto simp: parse_walk_def Let_def if_distrib [where f = pin] if_distrib [where f = kern] split: prod.splits if_split_asm)

lemma parse_fetch_adv:
  assumes "parse_fetch st r = Some (fl, r')"
  shows "adv r r'"
proof (cases "DEV_GETC (kern r)")
  case (Pair c k)
  show ?thesis
  proof (cases c)
    case None
    then have "k = kern r" using Pair by (simp add: DEV_GETC_none)
    with None Pair assms show ?thesis
      by (auto simp: parse_fetch_def parts intro!: vis_adv split: if_split_asm)
  next
    case (Some d)
    then have 1: "reads (kern r) [d] k" using Pair by (simp add: DEV_GETC_reads)
    have "pin r' = pin r \<and> (vis (kern r') = vis k \<or> vis (kern r') = vis (kern r))"
      using Some Pair assms
      by (auto simp: parse_fetch_def parts split: if_split_asm option.split_asm)
    then show ?thesis
      using reads_vis [OF 1] vis_adv by (auto simp: adv_def vis_def reads_def)
  qed
qed

lemma parse_window_adv: "parse_window st r = Some (fl, r') \<Longrightarrow> adv r r'"
  by (auto simp: parse_window_def intro: parse_init_buffer_adv parse_boundary_adv split: if_split_asm)

lemma free_filename_vis: "free_filename p k = Some k' \<Longrightarrow> vis k' = vis k"
  by (auto simp: free_filename_def dest!: keeps split: option.splits bind_splits)

lemma start_post_in_vis: "start_post_in tg st h p k = Some (ok, k') \<Longrightarrow> vis k' = vis k"
  by (auto simp: start_post_in_def parts dest!: keeps split: option.splits)

lemma end_post_in_vis: "end_post_in st p r = Some (fl, r') \<Longrightarrow> vis (kern r') = vis (kern r) \<and> pin r' = pin r"
  by (auto simp: end_post_in_def parts dest!: keeps free_filename_vis split: option.split_asm if_split_asm bind_splits)

lemma parse_post_data_adv:
  assumes "parse_post_data tg st ap r = Some (fl, r')"
  shows "adv r r'"
proof (cases "parsing_state (hc r) = parsing_post_data")
  case False
  then show ?thesis using assms by (simp add: parse_post_data_def)
next
  case post: True
  then obtain p where p: "post_data (hc r) = Some p"
    using assms by (auto simp: parse_post_data_def with_post_def split: option.splits)
  define ended where "ended = (status (curr_context (post_coroutine (post_datas (kern r) p))) = cr_terminated)"
  define at_end where "at_end = (case post_boundary (post_datas (kern r) p) of None \<Rightarrow> False | Some b \<Rightarrow> boundary_index (boundaries (kern r) b) = 255)"
  define start where "start = (if ended then (case rx_handler r of None \<Rightarrow> None | Some h \<Rightarrow> start_post_in tg st h p (kern r)) else Some (True, kern r))"
  have body: "parse_post_data tg st ap r =
    (if ended \<and> at_end
     then Some (Continue, parse_state parsing_init_buffer (upd_k (set_index (the (post_boundary (post_datas (kern r) p))) 0) r))
     else
      do { (ok, k) \<leftarrow> start;
           if \<not> ok then Some (Go, r\<lparr>kern := k, returned := True\<rparr>)
           else
            do { k \<leftarrow> cr_run (post_in_body ap p) tg (Post_cr p)
                        (k\<lparr>curr_input := \<lparr>in_connection = Some (Some p), in_length = seg_len r - rx_x r\<rparr>, coroutine_state := cor_in\<rparr>);
                 let r = r\<lparr>kern := k\<lparr>coroutine_state := cor_out\<rparr>, rx_x := rx_x r + (seg_len r - rx_x r - in_length (curr_input k))\<rparr>;
                 if status (curr_context (post_coroutine (post_datas k p))) = cr_terminated then end_post_in st p r
                 else Some (if post_boundary (post_datas k p) = None then Break else Continue, r) } })"
    by (simp add: parse_post_data_def with_post_def post p Let_def ended_def at_end_def start_def)
  show ?thesis
  proof (cases "ended \<and> at_end")
    case True
    then show ?thesis using assms unfolding body by (auto simp: parts intro!: vis_adv)
  next
    case False
    obtain ok k where ok: "start = Some (ok, k)"
      using assms False unfolding body by (cases start) auto
    then have k: "vis k = vis (kern r)"
      by (auto simp: start_def dest: start_post_in_vis split: if_split_asm option.split_asm)
    show ?thesis
    proof (cases ok)
      case False
      then have "r' = r\<lparr>kern := k, returned := True\<rparr>"
        using assms \<open>\<not> (ended \<and> at_end)\<close> ok unfolding body by auto
      then show ?thesis using k by (auto intro: vis_adv)
    next
      case True
      define k1 where "k1 = k\<lparr>curr_input := \<lparr>in_connection = Some (Some p), in_length = seg_len r - rx_x r\<rparr>, coroutine_state := cor_in\<rparr>"
      obtain k2 where k2: "cr_run (post_in_body ap p) tg (Post_cr p) k1 = Some k2"
        and rest: "pin r' = pin r \<and> vis (kern r') = vis k2"
        using assms \<open>\<not> (ended \<and> at_end)\<close> ok True unfolding body Let_def
        by (auto simp: k1_def dest!: end_post_in_vis split: bind_splits if_split_asm)
      have "vis k1 = vis (kern r)" using k by (simp add: k1_def)
      then have "\<exists>bs. reads (kern r) bs (kern r')"
        using cr_run_reads [OF k2] rest by (blast intro: vis_reads reads_vis)
      then show ?thesis using rest by (auto simp: adv_def reads_def)
    qed
  qed
qed

text \<open>A sequence of parts and the loop.\<close>

lemma steps_adv:
  "\<forall>f\<in>set fs. \<forall>r fl r'. f r = Some (fl, r') \<longrightarrow> adv r r' \<Longrightarrow> steps fs r = Some (fl, r') \<Longrightarrow> adv r r'"
proof (induction fs arbitrary: r fl r')
  case (Cons f fs)
  then obtain fl1 r1 where f: "f r = Some (fl1, r1)" by (auto split: bind_splits)
  then have 1: "adv r r1" using Cons.prems(1) by simp
  show ?case
  proof (cases "fl1 = Go \<and> \<not> returned r1")
    case True
    then have "steps fs r1 = Some (fl, r')" using f Cons.prems(2) by simp
    then have "adv r1 r'" using Cons by auto
    with 1 show ?thesis by (rule adv_trans)
  next
    case False
    then show ?thesis using f Cons.prems(2) 1 by auto
  qed
qed simp

lemma parse_reference_adv: "parse_reference tg st ap r = Some (fl, r') \<Longrightarrow> adv r r'"
  unfolding parse_reference_def
  by (split if_split_asm, simp, erule steps_adv [rotated])
    (auto dest: parse_header_end_adv parse_post_data_adv parse_post_url_adv parse_attribute_adv
      parse_content_type_adv parse_command_adv parse_url_end_adv split: if_split_asm intro: vis_adv)

lemma parse_step_adv: "parse_step tg st ap r = Some (fl, r') \<Longrightarrow> adv r r'"
  unfolding parse_step_def
  by (erule steps_adv [rotated]) (auto dest: parse_fetch_adv parse_window_adv parse_reference_adv parse_line_end_adv
      parse_value_adv parse_walk_adv split: if_split_asm)

lemma parse_loop_adv:
  assumes "parse_loop tg st ap r = Some r'"
  shows "adv r r'"
proof (rule parse_loop.raw_induct [where P = "\<lambda>_ _ _ r r'. adv r r'", OF _ assms])
  fix f :: "target \<Rightarrow> site \<Rightarrow> app \<Rightarrow> rx \<Rightarrow> rx option" and tg st ap r r'
  assume IH: "\<And>tg st ap r r'. f tg st ap r = Some r' \<Longrightarrow> adv r r'"
    and body: "(if rx_x r < seg_len r \<and> \<not> failed r then
        do { (fl, r) \<leftarrow> parse_step tg st ap r;
             if fl = Break \<or> returned r then Some r else f tg st ap r }
      else Some r) = Some r'"
  then show "adv r r'"
    by (auto dest!: parse_step_adv split: if_split_asm bind_splits) (metis adv_trans IH)
qed

section \<open>Before and after the loop\<close>

lemma init_parse_adv: "init_parse st r = Some r' \<Longrightarrow> adv r r'"
  by (rule vis_adv) (auto simp: init_parse_def Let_def split: if_split_asm option.split_asm)

lemma free_boundary_vis: "free_boundary tg p k = Some k' \<Longrightarrow> vis k' = vis k"
  by (auto simp: free_boundary_def Let_def dest!: keeps split: option.split_asm text_ref.split_asm if_split_asm bind_splits)

lemma end_request_adv:
  assumes "end_request tg st r = Some r'"
  shows "adv r r'"
proof (rule vis_adv)
  obtain k where "vis k = vis (kern r)"
    and k: "(case post_data (hc r) of None \<Rightarrow> Some (kern r)
             | Some p \<Rightarrow> do { k \<leftarrow> free_filename p (kern r); free_boundary tg p k }) = Some k"
    using assms by (auto simp: end_request_def dest!: free_filename_vis free_boundary_vis split: bind_splits option.split_asm)
  then show "vis (kern r') = vis (kern r)" using assms
    by (auto simp: end_request_def Let_def k dest!: keeps split: bind_splits if_split_asm)
  show "pin r' = pin r" using assms
    by (auto simp: end_request_def Let_def k split: bind_splits if_split_asm)
qed

lemma end_parse_adv: "end_parse tg st r = Some r' \<Longrightarrow> adv r r'"
  unfolding end_parse_def Let_def with_post_def select_handler_def
  by (auto dest!: end_request_adv split: bind_splits if_split_asm option.split_asm simp: adv_def reads_def intro!: vis_adv)

lemma receive_http_adv:
  assumes "receive_http tg st ap r = Some r'"
  shows "adv r r'"
proof -
  obtain r1 r2 where 1: "init_parse st (r\<lparr>rx_x := 0\<rparr>) = Some r1" and 2: "parse_loop tg st ap r1 = Some r2"
    and 3: "(if returned r2 then Some r2 else end_parse tg st r2) = Some r'"
    using assms by (auto simp: receive_http_def split: bind_splits)
  have "adv r r1" using init_parse_adv [OF 1] by (simp add: adv_def)
  then have "adv r r2" using parse_loop_adv [OF 2] by (rule adv_trans)
  then show ?thesis using 3 by (auto dest: end_parse_adv intro: adv_trans split: if_split_asm)
qed

section \<open>The octets of the headers\<close>

lemma octets_ui16: "octets (Add16 (ui16 b0 b1)) = [b1, b0]"
proof -
  note lt = unat_u8_lt [of b0] unat_u8_lt [of b1]
  have "unat (u16_to_u8 (drop_bit 8 (ui16 b0 b1))) = unat b1"
    using lt unat_high_byte [of "ui16 b0 b1"] by (simp only: unat_ui16)
  moreover have "unat (u16_to_u8 (ui16 b0 b1)) = unat b0"
    using lt unat_u16_to_u8 [of "ui16 b0 b1"] by (simp only: unat_ui16) simp
  ultimately show ?thesis by (simp only: octets.simps list.inject word_unat_eq_iff simp_thms)
qed

lemma octets_dword:
  "octets (Add32 (push_bit 16 (u16_to_u32 hi) OR u16_to_u32 lo)) = octets (Add16 hi) @ octets (Add16 lo)"
proof -
  have no: "\<not> bit lo (24 + n)" "\<not> bit lo (16 + n)" for n
    by (auto dest: bit_imp_le_length)
  have "byte_of 3 (push_bit 16 (u16_to_u32 hi) OR u16_to_u32 lo) = u16_to_u8 (drop_bit 8 hi)"
    "byte_of 2 (push_bit 16 (u16_to_u32 hi) OR u16_to_u32 lo) = u16_to_u8 hi"
    "byte_of (Suc 0) (push_bit 16 (u16_to_u32 hi) OR u16_to_u32 lo) = u16_to_u8 (drop_bit 8 lo)"
    "byte_of 0 (push_bit 16 (u16_to_u32 hi) OR u16_to_u32 lo) = u16_to_u8 lo"
    unfolding byte_of_def
    by (auto intro!: bit_word_eqI simp: bit_simps no)
  then show ?thesis by simp
qed

text \<open>\<open>ops\<close> are the calls of the checksum that went with the reading.\<close>

definition got :: "kernel \<Rightarrow> chk_op list \<Rightarrow> kernel \<Rightarrow> bool" where
  "got k ops k' \<longleftrightarrow> static k' = static k \<and> dev_in k = concat (map octets ops) @ dev_in k' \<and> chk k' = fold chk_step ops (chk k)"

lemma got_Nil [simp]: "got k [] k"
  by (simp add: got_def)

lemma got_trans: "got k xs k' \<Longrightarrow> got k' ys k'' \<Longrightarrow> got k (xs @ ys) k''"
  by (simp add: got_def)

lemma got_Cons: "got k [x] k' \<Longrightarrow> got k' ys k'' \<Longrightarrow> got k (x # ys) k''"
  by (simp add: got_def)

lemma DEV_GETC_got: "DEV_GETC k = (Some c, k') \<Longrightarrow> got k [Add8 c] k'"
  by (auto dest!: DEV_GETC_reads simp: reads_def got_def)

lemma dev_get16_got: "dev_get16 k = (Some w, k') \<Longrightarrow> dev_in k = octets (Add16 w) @ dev_in k' \<and> static k' = static k \<and> chk k' = chk k"
  by (auto simp: dev_get16_def octets_ui16 static_def simp del: octets.simps split: list.split_asm)

lemma dev_get16_static: "dev_get16 k = (w, k') \<Longrightarrow> static k' = static k"
  by (auto simp: dev_get16_def static_def split: list.split_asm)

lemma DEV_GETC16_got: "DEV_GETC16 k = (Some w, k') \<Longrightarrow> got k [Add16 w] k'"
  by (auto simp: DEV_GETC16_def got_def static_def dest!: dev_get16_got simp del: octets.simps split: option.split_asm prod.split_asm)

lemma dev_get32_got:
  assumes "dev_get32 k = (Some w, k')"
  shows "dev_in k = octets (Add32 w) @ dev_in k' \<and> static k' = static k \<and> chk k' = chk k"
proof -
  obtain hi k1 lo where "dev_get16 k = (Some hi, k1)" "dev_get16 k1 = (Some lo, k')"
    and w: "w = push_bit 16 (u16_to_u32 hi) OR u16_to_u32 lo"
    using assms by (auto simp: dev_get32_def split: option.split_asm prod.split_asm)
  then show ?thesis unfolding w octets_dword by (auto dest!: dev_get16_got simp del: octets.simps)
qed

lemma DEV_GETC32_got: "DEV_GETC32 k = (Some w, k') \<Longrightarrow> got k [Add32 w] k'"
  by (auto simp: DEV_GETC32_def got_def static_def dest!: dev_get32_got simp del: octets.simps split: option.split_asm prod.split_asm)

lemma DEV_GETC16_static: "DEV_GETC16 k = (w, k') \<Longrightarrow> static k' = static k"
  by (auto simp: DEV_GETC16_def dest!: dev_get16_static split: option.split_asm prod.split_asm) (simp add: static_def)

lemma DEV_GETC32_static: "DEV_GETC32 k = (w, k') \<Longrightarrow> static k' = static k"
  by (auto simp: DEV_GETC32_def dev_get32_def dest!: dev_get16_static split: option.split_asm prod.split_asm)
    (auto simp: static_def)

text \<open>One part of a header, and a sequence of them.\<close>

definition runs :: "(rx \<Rightarrow> rx option) \<Rightarrow> rx \<Rightarrow> rx \<Rightarrow> bool" where
  "runs f r r' \<longleftrightarrow> f r = Some r' \<and> \<not> returned r'"

lemma runs_get8: "runs (get8 f) r r' \<Longrightarrow> \<exists>c k. got (kern r) [Add8 c] k \<and> r' = f c (r\<lparr>kern := k\<rparr>) \<and> \<not> returned r'"
  by (auto simp: runs_def get8_def split: option.split_asm prod.split_asm dest: DEV_GETC_got)

lemma runs_get16: "runs (get16 f) r r' \<Longrightarrow> \<exists>w k. got (kern r) [Add16 w] k \<and> r' = f w (r\<lparr>kern := k\<rparr>) \<and> \<not> returned r'"
  by (auto simp: runs_def get16_def split: option.split_asm prod.split_asm dest: DEV_GETC16_got)

lemma runs_get32: "runs (get32 f) r r' \<Longrightarrow> \<exists>w k. got (kern r) [Add32 w] k \<and> r' = f w (r\<lparr>kern := k\<rparr>) \<and> \<not> returned r'"
  by (auto simp: runs_def get32_def split: option.split_asm prod.split_asm dest: DEV_GETC32_got)

lemma runs_stages [simp]:
  "runs (stages []) r r' \<longleftrightarrow> r' = r \<and> \<not> returned r"
  "runs (stages (f # fs)) r r' \<longleftrightarrow> (\<exists>r1. runs f r r1 \<and> runs (stages fs) r1 r')"
  by (auto simp: runs_def split: bind_splits)

lemma runs_Some [simp]: "runs (\<lambda>r. Some (g r)) r r' \<longleftrightarrow> r' = g r \<and> \<not> returned r'"
  by (auto simp: runs_def)

lemma stages_static:
  "\<forall>f\<in>set fs. \<forall>r r'. f r = Some r' \<longrightarrow> static (kern r') = static (kern r) \<Longrightarrow> stages fs r = Some r'
    \<Longrightarrow> static (kern r') = static (kern r)"
  by (induction fs arbitrary: r) (auto split: bind_splits if_split_asm)

lemma get_static:
  "get8 f r = Some r' \<Longrightarrow> \<forall>v r. static (kern (f v r)) = static (kern r) \<Longrightarrow> static (kern r') = static (kern r)"
  "get16 g r = Some r' \<Longrightarrow> \<forall>v r. static (kern (g v r)) = static (kern r) \<Longrightarrow> static (kern r') = static (kern r)"
  "get32 h r = Some r' \<Longrightarrow> \<forall>v r. static (kern (h v r)) = static (kern r) \<Longrightarrow> static (kern r') = static (kern r)"
  by (auto simp: get8_def get16_def get32_def split: option.split_asm prod.split_asm
      dest: DEV_GETC_static DEV_GETC16_static DEV_GETC32_static)

lemma return_if_simps [simp]:
  "kern (return_if b r) = kern r" "returned (return_if b r) = (b \<or> returned r)"
  "\<not> b \<Longrightarrow> return_if b r = r"
  by (simp_all add: return_if_def)

lemma static_chk [simp]: "static (k\<lparr>chk := c\<rparr>) = static k"
  by (simp add: static_def)

lemma receive_ip_static: "receive_ip r = Some r' \<Longrightarrow> static (kern r') = static (kern r)"
  unfolding receive_ip_def
  by (erule stages_static [rotated]) (auto simp: Let_def elim!: get_static)

lemma receive_ip_runs:
  assumes "runs receive_ip r r'"
  shows "\<exists>tos len ident ttl hchk src dst w k.
       got (kern r) [Add8 0x45, Add8 tos, Add16 len, Add16 ident, Add16 w, Add16 ttl, Add16 hchk, Add32 src, Add32 dst] k
       \<and> current_checksum (checksum_end (chk k)) = 0xffff
       \<and> r' = r\<lparr>kern := k\<lparr>chk := checksum_end (chk k)\<rparr>, rx_char := tos, packet_length := len - IP_HEADER_SIZE,
             tmp_ui16 := hchk, protocol := u16_to_u8 ttl, tc := (tc r)\<lparr>ip_addr := src\<rparr>, tmp_ui32 := dst\<rparr>"
  using assms unfolding receive_ip_def
  by (auto dest!: runs_get8 runs_get16 runs_get32 simp: Let_def)
    (intro exI conjI, (rule got_Cons, assumption)+, rule got_Nil, assumption, simp)

text \<open>The TCP header.\<close>

lemma find_from_found:
  assumes "find_from P cs start c = Some q"
  shows "\<forall>a. q = Some a \<longrightarrow> P a"
proof -
  have "(\<lambda>(((P, _), _), _) q. \<forall>a. q = Some a \<longrightarrow> P a) (((P, cs), start), c) q"
    by (rule find_from.raw_induct [OF _ assms, where Pa = "\<lambda>(((P, _), _), _) q. \<forall>a. q = Some a \<longrightarrow> P a"])
      (auto split: if_split_asm, blast)
  then show ?thesis by simp
qed

lemma find_conn_found: "find_conn P k = Some (Some a) \<Longrightarrow> P a"
  by (auto simp: find_conn_def dest: find_from_found split: option.split_asm)

lemma select_connection_kern: "select_connection st r = Some r' \<Longrightarrow> kern r' = kern r"
  by (auto simp: select_connection_def split: bind_splits)

lemma kern_ack [simp]: "kern (repeat_ack r) = kern r" "kern (advance_ack r) = kern r" "kern (clear_handler st r) = kern r"
  by (simp_all add: repeat_ack_def advance_ack_def clear_handler_def Let_def split: option.split)

lemma receive_ack_kern [simp]: "kern (receive_ack st r) = kern r"
  by (simp add: receive_ack_def)

lemma receive_flags_kern [simp]: "kern (receive_flags w r) = kern r"
  by (simp add: receive_flags_def Let_def)

lemma receive_mss_static: "receive_mss tg r = Some r' \<Longrightarrow> static (kern r') = static (kern r)"
  unfolding receive_mss_def Let_def
  by (auto simp del: stages.simps split: if_split_asm dest!: stages_static [rotated] elim!: get_static)

lemma skip_options_static:
  assumes "skip_options r = Some r'"
  shows "static (kern r') = static (kern r)"
  by (rule skip_options.raw_induct [where P = "\<lambda>r r'. static (kern r') = static (kern r)", OF _ assms])
    (auto dest!: get_static(3) split: if_split_asm bind_splits)

text \<open>What the rest of the header leaves alone.\<close>

definition hview where
  "hview r = (rx_connection r, current_inack r, seg_len r, packet_length r, new_tcp_data r,
     (defer_clean_service r, defer_free_handler r, defer_free_args r, defer_free_args_size r),
     (tc r)\<lparr>http := (hc r)\<lparr>tcp_mss := 0, cwnd := 0\<rparr>\<rparr>)"

lemma hview_upd [simp]:
  "hview (r\<lparr>kern := k\<rparr>) = hview r" "hview (r\<lparr>header_len := n\<rparr>) = hview r"
  "hview (r\<lparr>tmp_ui16 := v\<rparr>) = hview r" "hview (r\<lparr>tmp_ui32 := w\<rparr>) = hview r"
  "hview (r\<lparr>returned := b\<rparr>) = hview r"
  "c\<lparr>http := (http c)\<lparr>tcp_mss := 0, cwnd := 0\<rparr>\<rparr> = (tc r)\<lparr>http := (hc r)\<lparr>tcp_mss := 0, cwnd := 0\<rparr>\<rparr>
    \<Longrightarrow> hview (r\<lparr>tc := c\<rparr>) = hview r"
  by (simp_all add: hview_def)

lemma hview_pseudo [simp]: "hview (pseudo_header tg r) = hview r" "returned (pseudo_header tg r) = returned r"
  by (simp_all add: pseudo_header_def)

text \<open>\<open>words ops\<close>: no single octets, so that the alignment is kept.\<close>

definition words :: "chk_op list \<Rightarrow> bool" where
  "words = list_all (\<lambda>op. case op of Add8 _ \<Rightarrow> False | _ \<Rightarrow> True)"

lemma words_simps [simp]: "words []" "words (Add16 v # ops) = words ops" "words (Add32 w # ops) = words ops"
  "words (xs @ ys) \<longleftrightarrow> words xs \<and> words ys"
  by (simp_all add: words_def)

lemma words_aligned: "words ops \<Longrightarrow> aligned True ops \<and> even (length (concat (map octets ops)))"
proof (induction ops)
  case (Cons op ops)
  then show ?case by (cases op) (simp_all add: words_def)
qed simp

lemma receive_mss_runs:
  assumes "runs (receive_mss tg) r r'"
  shows "\<exists>T. words T \<and> got (kern r) T (kern r') \<and> hview r' = hview r"
proof (cases "4 \<le> header_len r - u16_to_u8 TCP_HEADER_SIZE")
  case False
  then have "r' = r\<lparr>header_len := header_len r - u16_to_u8 TCP_HEADER_SIZE\<rparr>"
    using assms by (simp add: receive_mss_def Let_def runs_def)
  then show ?thesis by (intro exI [of _ "[]"]) simp
next
  case True
  let ?r = "r\<lparr>header_len := header_len r - u16_to_u8 TCP_HEADER_SIZE - 4\<rparr>"
  have "runs (stages [get16 (\<lambda>w r. r\<lparr>tmp_ui16 := w\<rparr>),
      get16 (\<lambda>w r. upd_hc (\<lambda>x. x\<lparr>tcp_mss := limited_mss tg w\<rparr>) (r\<lparr>tmp_ui16 := w\<rparr>))]) ?r r'"
    using assms True by (simp add: receive_mss_def Let_def runs_def)
  then obtain v w k1 k2 where "got (kern r) [Add16 v] k1" "got k1 [Add16 w] k2" "kern r' = k2" "hview r' = hview r"
    by (auto dest!: runs_get16)
  then show ?thesis by (intro exI [of _ "[Add16 v, Add16 w]"]) (auto intro: got_Cons)
qed

definition skipped :: "rx \<Rightarrow> rx \<Rightarrow> bool" where
  "skipped r r' \<longleftrightarrow> (returned r \<longrightarrow> r' = r)
     \<and> (returned r' \<or> (\<exists>T. words T \<and> got (kern r) T (kern r') \<and> hview r' = hview r))"

lemma skipped_refl: "skipped r r"
  by (auto simp: skipped_def intro!: exI [of _ "[]"])

lemma skip_options_runs:
  assumes "skip_options r = Some r'"
  shows "skipped r r'"
proof (rule skip_options.raw_induct [where P = skipped, OF _ assms])
  fix f :: "rx \<Rightarrow> rx option" and r r'
  assume IH: "\<And>r r'. f r = Some r' \<Longrightarrow> skipped r r'"
    and body: "(if header_len r = 0 \<or> returned r then Some r
      else do { r \<leftarrow> get32 (\<lambda>w r. r\<lparr>tmp_ui32 := w, header_len := header_len r - 4\<rparr>) r; f r }) = Some r'"
  show "skipped r r'"
  proof (cases "header_len r = 0 \<or> returned r")
    case True
    then show ?thesis using body by (simp add: skipped_refl)
  next
    case False
    then obtain r1 where 1: "get32 (\<lambda>w r. r\<lparr>tmp_ui32 := w, header_len := header_len r - 4\<rparr>) r = Some r1" and 2: "f r1 = Some r'"
      using body by (auto split: bind_splits)
    note IH = IH [OF 2]
    show ?thesis
    proof (cases "returned r'")
      case True
      then show ?thesis using False by (simp add: skipped_def)
    next
      case not_r': False
      then have "\<not> returned r1" using IH by (auto simp: skipped_def)
      then obtain w where k: "got (kern r) [Add32 w] (kern r1)" "hview r1 = hview r"
        using 1 runs_get32 [of _ r r1] by (fastforce simp: runs_def)
      obtain T where "words T" "got (kern r1) T (kern r')" "hview r' = hview r1" using IH not_r' by (auto simp: skipped_def)
      with k have "words (Add32 w # T) \<and> got (kern r) (Add32 w # T) (kern r') \<and> hview r' = hview r"
        by (auto intro: got_Cons)
      then show ?thesis using False unfolding skipped_def by blast
    qed
  qed
qed

text \<open>The whole header; \<open>r1\<close> is the state once the connection is selected.\<close>

definition selected :: "site \<Rightarrow> rx \<Rightarrow> u16 \<Rightarrow> ptr \<Rightarrow> connection" where
  "selected st r sport p = (case p of Some a \<Rightarrow> connections (kern r) a
     | None \<Rightarrow> new_connection (kern r) (upd_http (\<lambda>x. x\<lparr>port := sport\<rparr>) (tc r)))"

definition pseudo :: "target \<Rightarrow> u32 \<Rightarrow> u16 \<Rightarrow> chk_op list" where
  "pseudo tg src len = [Add32 (local_ip_addr tg), Add32 src, Add16 len]"

lemma runs_select:
  "runs (select_connection st) r r' \<Longrightarrow> \<exists>p. find_conn (\<lambda>a. let c = connections (kern r) a
         in IS_HTTP st c \<and> port (http c) = port (hc r) \<and> ip_addr c = ip_addr (tc r)) (kern r) = Some p
    \<and> \<not> returned r \<and> r' = r\<lparr>rx_connection := p,
        tc := (case p of Some a \<Rightarrow> connections (kern r) a | None \<Rightarrow> new_connection (kern r) (tc r))\<rparr>"
  by (auto simp: select_connection_def runs_def split: bind_splits)

lemma runs_mss: "runs (\<lambda>r. receive_mss tg (pseudo_header tg r)) r r'
    \<Longrightarrow> \<exists>T. words T \<and> got (kern (pseudo_header tg r)) T (kern r') \<and> hview r' = hview r \<and> \<not> returned r'"
  using receive_mss_runs [of tg "pseudo_header tg r" r'] by (auto simp: runs_def)

lemma runs_skip: "runs skip_options r r' \<Longrightarrow> \<exists>T. words T \<and> got (kern r) T (kern r') \<and> hview r' = hview r"
  using skip_options_runs [of r r'] by (auto simp: runs_def skipped_def)

lemma receive_flags_upd_kern: "receive_flags w (r\<lparr>kern := k\<rparr>) = (receive_flags w r)\<lparr>kern := k\<rparr>"
  by (simp add: receive_flags_def Let_def)

lemma kept_by_ack [simp]:
  "ip_addr (tc (receive_ack st r)) = ip_addr (tc r)" "packet_length (receive_ack st r) = packet_length r"
  "returned (receive_ack st r) = returned r"
  by (simp_all add: receive_ack_def repeat_ack_def advance_ack_def clear_handler_def Let_def split: option.split)

lemma kept_by_flags [simp]:
  "ip_addr (tc (receive_flags w r)) = ip_addr (tc r)" "packet_length (receive_flags w r) = packet_length r"
  "returned (receive_flags w r) = returned r"
  by (simp_all add: receive_flags_def tcp_step_def Let_def split: tcp_state.split)

lemma find_conn_static:
  "static k = static k' \<Longrightarrow> find_conn P k = find_conn P k'"
  by (simp add: find_conn_def static_def split: option.split)

lemma static_cong:
  assumes "static k = static k'"
  shows "connections k = connections k'" "last_transmission_time k = last_transmission_time k'" "all_connections k = all_connections k'"
    "rst_connection k = rst_connection k'"
  using assms by (simp_all add: static_def)

lemma got_static: "got k ops k' \<Longrightarrow> static k' = static k"
  by (simp add: got_def)

lemma receive_tcp_runs:
  assumes "runs (receive_tcp tg st) r r'"
  shows "\<exists>sport dport seq ack w win uo k T r1.
    got ((kern r)\<lparr>chk := checksum_init\<rparr>) [Add16 sport, Add16 dport, Add32 seq, Add32 ack, Add16 w, Add16 win, Add32 uo] k
    \<and> words T \<and> got (k\<lparr>chk := fold chk_step (pseudo tg (ip_addr (tc r1)) (packet_length r)) (chk k)\<rparr>) T (kern r')
    \<and> find_conn (\<lambda>a. let c = connections (kern r) a
         in IS_HTTP st c \<and> port (http c) = sport \<and> ip_addr c = ip_addr (tc r)) (kern r) = Some (rx_connection r1)
    \<and> tc r1 = selected st r sport (rx_connection r1)
    \<and> current_inack r1 = ack \<and> current_in_seq r1 = seq \<and> packet_length r1 = packet_length r
    \<and> defer_clean_service r1 = defer_clean_service r \<and> defer_free_handler r1 = defer_free_handler r
    \<and> hview r' = hview (receive_flags w (receive_ack st r1))"
proof -
  have "runs (stages
     [get16 (\<lambda>w. upd_hc (\<lambda>x. x\<lparr>port := w\<rparr>)),
      select_connection st,
      get16 (\<lambda>w r. return_if (u16_to_u8 w \<noteq> HTTP_PORT) (r\<lparr>tmp_ui16 := w\<rparr>)),
      get32 (\<lambda>w r. r\<lparr>current_in_seq := w\<rparr>),
      get32 (\<lambda>w r. r\<lparr>current_inack := w\<rparr>),
      (\<lambda>r. Some (receive_ack st r)),
      get16 receive_flags,
      get16 (\<lambda>w. upd_hc (\<lambda>x. x\<lparr>cwnd := w\<rparr>)),
      get32 (\<lambda>w r. r\<lparr>tmp_ui32 := w\<rparr>),
      (\<lambda>r. receive_mss tg (pseudo_header tg r)),
      skip_options]) (upd_k (\<lambda>k. k\<lparr>chk := checksum_init\<rparr>) r) r'"
    using assms by (simp only: receive_tcp_def runs_def simp_thms)
  then show ?thesis
    apply (auto dest!: runs_get16 runs_get32 runs_select runs_mss runs_skip simp: receive_flags_upd_kern)
    subgoal premises p for sport k0 p0 dport k1 seq k2 ack k3 w k4 win k5 r5 uo k6 T1 T2
    proof -
      define r1 where "r1 = r\<lparr>rx_connection := p0, tc := selected st r sport p0, tmp_ui16 := dport,
        current_in_seq := seq, kern := k3, current_inack := ack\<rparr>"
      have st0: "static k0 = static (kern r)" using p(1) by (auto dest: got_static)
      have sel: "(case p0 of None \<Rightarrow> new_connection k0 (upd_http (\<lambda>x. x\<lparr>port := sport\<rparr>) (tc r)) | Some a \<Rightarrow> connections k0 a)
        = selected st r sport p0"
        by (simp add: selected_def new_connection_def static_cong [OF st0] split: option.split)
      have got6: "got ((kern r)\<lparr>chk := checksum_init\<rparr>)
          [Add16 sport, Add16 dport, Add32 seq, Add32 ack, Add16 w, Add16 win, Add32 uo] k6"
        using p by (blast intro: got_Cons)
      have gotT: "got (k6\<lparr>chk := fold chk_step (pseudo tg (ip_addr (tc r1)) (packet_length r)) (chk k6)\<rparr>) (T1 @ T2) (kern r')"
        using got_trans [OF p(14,15)] by (simp add: pseudo_header_def sel r1_def pseudo_def cong: option.case_cong)
      have "hview r' = hview (receive_flags w (receive_ack st r1))"
        using p(16) by (simp add: sel r1_def cong: option.case_cong)
      moreover have "find_conn (\<lambda>a. let c = connections (kern r) a
         in IS_HTTP st c \<and> port (http c) = sport \<and> ip_addr c = ip_addr (tc r)) (kern r) = Some (rx_connection r1)"
        using p(2) by (simp add: static_cong [OF st0] find_conn_static [OF st0] r1_def)
      moreover have "tc r1 = selected st r sport (rx_connection r1)" "current_inack r1 = ack" "current_in_seq r1 = seq"
        "packet_length r1 = packet_length r" "defer_clean_service r1 = defer_clean_service r"
        "defer_free_handler r1 = defer_free_handler r"
        by (simp_all add: r1_def)
      moreover have "words (T1 @ T2)" using p(12,13) by simp
      ultimately show ?thesis using got6 gotT
        by - (rule exI [of _ sport], rule exI [of _ dport], rule exI [of _ seq], rule exI [of _ ack], rule exI [of _ w],
            rule exI [of _ win], rule exI [of _ uo], rule exI [of _ k6], rule conjI, assumption,
            rule exI [of _ "T1 @ T2"], rule conjI, assumption, rule exI [of _ r1], intro conjI, assumption+,
            simp add: sel r1_def cong: option.case_cong)
    qed
    done
qed

lemma receive_tcp_static: "receive_tcp tg st r = Some r' \<Longrightarrow> static (kern r') = static (kern r)"
proof -
  assume "receive_tcp tg st r = Some r'"
  then have "static (kern r') = static (kern (upd_k (\<lambda>k. k\<lparr>chk := checksum_init\<rparr>) r))"
    unfolding receive_tcp_def
    by (rule stages_static [rotated]) (auto elim!: get_static dest: select_connection_kern receive_mss_static skip_options_static
        simp: pseudo_header_def)
  then show ?thesis by simp
qed

lemma drop_rest_adv:
  assumes "drop_rest r = Some r'"
  shows "adv r r'"
proof (rule drop_rest.raw_induct [where P = adv, OF _ assms])
  fix f :: "rx \<Rightarrow> rx option" and r r'
  assume IH: "\<And>r r'. f r = Some r' \<Longrightarrow> adv r r'"
    and body: "(if seg_len r \<le> rx_x r \<or> returned r then Some r
      else do { r \<leftarrow> get8 (\<lambda>c r. r\<lparr>rx_char := c\<rparr>) (r\<lparr>rx_x := rx_x r + 1\<rparr>); f r }) = Some r'"
  have get: "adv r r1" if "get8 (\<lambda>c r. r\<lparr>rx_char := c\<rparr>) (r\<lparr>rx_x := rx_x r + 1\<rparr>) = Some r1" for r1
    using that by (auto simp: get8_def adv_def split: option.split_asm prod.split_asm dest!: DEV_GETC_none DEV_GETC_reads intro: exI [of _ "[]"])
  then show "adv r r'" using body IH by (auto split: if_split_asm bind_splits intro: adv_trans)
qed

lemma receive_contents_adv:
  assumes "runs (receive_contents tg st ap) r r'"
  shows "adv r r'"
proof -
  define g where "g = (\<lambda>r. if seg_len r \<noteq> 0 \<and> tcp_state (hc r) = tcp_established \<and> (new_tcp_data r \<or> output_handler (tc r) = None)
          then receive_http tg st ap r else Some r)"
  have "runs (stages [g, drop_rest]) (r\<lparr>rx_x := 0\<rparr>) r'"
    using assms by (simp only: receive_contents_def runs_def g_def simp_thms)
  then obtain r1 where "runs g (r\<lparr>rx_x := 0\<rparr>) r1" and "runs drop_rest r1 r'"
    by auto
  then have 1: "g (r\<lparr>rx_x := 0\<rparr>) = Some r1" and 2: "drop_rest r1 = Some r'"
    by (simp_all add: runs_def)
  have "adv r (r\<lparr>rx_x := 0\<rparr>)" by (rule vis_adv) simp_all
  also have "adv (r\<lparr>rx_x := 0\<rparr>) r1" using 1 by (auto simp: g_def dest: receive_http_adv split: if_split_asm)
  also have "adv r1 r'" by (rule drop_rest_adv [OF 2])
  finally show ?thesis .
qed

lemma receive_contents_static:
  assumes "receive_contents tg st ap r = Some r'"
  shows "static (kern r') = static (kern r)"
proof -
  have "static (kern r') = static (kern (r\<lparr>rx_x := 0\<rparr>))"
    using assms unfolding receive_contents_def
    by (rule stages_static [rotated]) (auto dest!: drop_rest_adv receive_http_adv simp: adv_def reads_def split: if_split_asm)
  then show ?thesis by simp
qed

section \<open>The update of the connection\<close>

lemma free_in_flight_vis: "free_in_flight tg pers a k = Some k' \<Longrightarrow> vis k' = vis k"
  by (auto simp: free_in_flight_def dest!: k_free_vis split: bind_splits if_split_asm option.split_asm)

lemma free_chain_vis:
  assumes "free_chain tg pers p k = Some k'"
  shows "vis k' = vis k"
  by (rule free_chain.raw_induct [where P = "\<lambda>_ _ _ k k'. vis k' = vis k", OF _ assms])
    (auto dest!: free_in_flight_vis split: if_split_asm bind_splits)

lemma clean_service_vis: "clean_service tg s seq k = Some k' \<Longrightarrow> vis k' = vis k"
  by (auto simp: clean_service_def Let_def dest!: free_chain_vis split: if_split_asm bind_splits option.split_asm)

lemma free_deferred_cases:
  assumes "free_deferred tg r = Some r'"
  shows "vis (kern r') = vis (kern r) \<and> rx_connection r' = rx_connection r \<and> current_inack r' = current_inack r
    \<and> (tc r' = tc r \<or> tc r' = upd_http (\<lambda>x. x\<lparr>generator_service := None\<rparr>) (tc r))"
  using assms unfolding free_deferred_def
  by (auto dest!: clean_service_vis k_free_vis cr_clean_vis split: if_split_asm bind_splits option.split_asm)

text \<open>The contents of a connection, without its place in the ring.\<close>

lemma content_ring [simp]: "content (c\<lparr>conn_next := n\<rparr>) = content c" "content (c\<lparr>conn_prev := n\<rparr>) = content c"
  by simp_all

definition contents_of :: "kernel \<Rightarrow> nat \<Rightarrow> connection" where
  "contents_of k b = content (connections k b)"

lemma add_connection_contents:
  assumes "add_connection tg (Some f) k = Some (p, k')"
  shows "dev_in k' = dev_in k \<and> contents_of k' = (case p of None \<Rightarrow> contents_of k | Some a \<Rightarrow> (contents_of k)(a := content f))
    \<and> rst_connection k' = rst_connection k \<and> (p = None \<longrightarrow> all_connections k' = all_connections k)"
proof -
  have "connections k1 = connections k \<and> dev_in k1 = dev_in k \<and> rst_connection k1 = rst_connection k \<and> all_connections k1 = all_connections k"
    if "k_alloc n k = Some (q, k1)" for n q k1
    using k_alloc_vis [OF that] by (simp add: vis_def static_def)
  then show ?thesis using assms unfolding add_connection_def contents_of_def
    by (auto simp: Let_def fun_eq_iff split: bind_splits option.split_asm) 
qed

lemma free_connection_contents:
  assumes "free_connection tg st a k = Some k'"
  shows "dev_in k' = dev_in k \<and> contents_of k' = contents_of k \<and> rst_connection k' = rst_connection k"
proof -
  have u: "dev_in (unlink a k) = dev_in k \<and> contents_of (unlink a k) = contents_of k \<and> rst_connection (unlink a k) = rst_connection k"
    by (simp add: unlink_def Let_def contents_of_def fun_eq_iff)
  have "vis k' = vis (unlink a k)"
    using assms unfolding free_connection_def free_content_def Let_def
    by (auto dest!: clean_service_vis k_free_vis split: if_split_asm bind_splits option.split_asm)
  then show ?thesis using u by (simp add: vis_def static_def contents_of_def fun_eq_iff)
qed

lemma vis_contents: "vis k' = vis k \<Longrightarrow> dev_in k' = dev_in k \<and> contents_of k' = contents_of k"
  by (auto simp: vis_def static_def contents_of_def)

lemma commit_cases:
  assumes "commit tg st r = Some k'"
  shows "dev_in k' = dev_in (kern r)
    \<and> (contents_of k' = contents_of (kern r)
      \<or> (\<exists>a c. contents_of k' = (contents_of (kern r))(a := content c) \<and> tcp_state (http c) = tcp_state (hc r)
          \<and> (rx_connection r = Some a \<or> rx_connection r = None \<and> tcp_state (hc r) = tcp_syn_rcvd)))"
proof -
  obtain r1 r2 where 1: "free_deferred tg r = Some r1" and 2: "enter_ring tg r1 = Some r2"
    and 3: "(case rx_connection r2 of
           None \<Rightarrow> Some ((kern r2)\<lparr>rst_connection := \<lparr>rst_ip_addr = ip_addr (tc r2), rst_current_inseqno = current_inseqno (hc r2),
                     rst_next_outseqno = current_inack r2, rst_port = port (hc r2)\<rparr>\<rparr>)
         | Some a \<Rightarrow>
             if tcp_state (hc r2) = tcp_listen then free_connection tg st a (kern r2)
             else Some (upd_connection a (\<lambda>_. tc r2) (kern r2))) = Some k'"
    using assms by (auto simp: commit_def Let_def split: bind_splits)
  note d = free_deferred_cases [OF 1]
  have k1: "dev_in (kern r1) = dev_in (kern r)" "contents_of (kern r1) = contents_of (kern r)"
    using d vis_contents by blast+
  have s1: "tcp_state (hc r1) = tcp_state (hc r)" "rx_connection r1 = rx_connection r" using d by auto
  show ?thesis
  proof (cases "rx_connection r1 = None \<and> tcp_state (hc r1) = tcp_syn_rcvd")
    case False
    then have r2: "r2 = r1" using 2 by (auto simp: enter_ring_def split: if_split_asm)
    show ?thesis
    proof (cases "rx_connection r1")
      case None
      then show ?thesis using 3 k1 r2 by (auto simp: contents_of_def fun_eq_iff)
    next
      case (Some a)
      show ?thesis
      proof (cases "tcp_state (hc r1) = tcp_listen")
        case True
        then show ?thesis using 3 k1 r2 Some by (auto dest!: free_connection_contents)
      next
        case False
        then have "k' = upd_connection a (\<lambda>_. tc r1) (kern r1)" using 3 r2 Some by simp
        then have "dev_in k' = dev_in (kern r)" "contents_of k' = (contents_of (kern r))(a := content (tc r1))"
          using k1 by (auto simp: contents_of_def fun_eq_iff)
        then show ?thesis using Some s1 by auto
      qed
    qed
  next
    case True
    then obtain p k2 where add: "add_connection tg (Some (tc r1)) (kern r1) = Some (p, k2)"
      and r2: "rx_connection r2 = p" "kern r2 = k2" "content (tc r2) = content (tc r1)" "tcp_state (hc r2) = tcp_syn_rcvd"
      using 2 by (auto simp: enter_ring_def split: bind_splits option.split_asm)
    note add = add_connection_contents [OF add]
    show ?thesis
    proof (cases p)
      case None
      then show ?thesis using 3 r2 add k1 by (auto simp: contents_of_def fun_eq_iff)
    next
      case (Some a)
      then have "k' = upd_connection a (\<lambda>_. tc r2) k2" using 3 r2 by simp
      then have "dev_in k' = dev_in (kern r)" "contents_of k' = (contents_of (kern r))(a := content (tc r1))"
        using add Some k1 r2(3) by (auto simp: contents_of_def fun_eq_iff)
      then show ?thesis using True s1 by (intro conjI disjI2 exI [of _ a] exI [of _ "tc r1"]) auto
    qed
  qed
qed

section \<open>The whole function\<close>

text \<open>Fields of a packet, and what its checksums cover.\<close>

definition source_of :: "u8 list \<Rightarrow> u32" where
  "source_of hdr = ui32 (hdr ! 15) (hdr ! 14) (hdr ! 13) (hdr ! 12)"

definition header_verifies :: "u8 list \<Rightarrow> bool" where
  "header_verifies hdr \<longleftrightarrow> length hdr = 20 \<and> ocs (be_sum True hdr) = 65535"

definition segment_verifies :: "target \<Rightarrow> u8 list \<Rightarrow> u8 list \<Rightarrow> bool" where
  "segment_verifies tg hdr segm \<longleftrightarrow>
     ocs (be_sum True (take 4 (drop 12 hdr) @ dev_put32 (local_ip_addr tg) @ [0, 6] @ dev_put16 (ui16 (hdr ! 3) (hdr ! 2) - 20) @ segm)) = 65535"

lemma be_sum_words:
  "words ops \<Longrightarrow> be_sum True (concat (map octets ops) @ xs) = be_sum True (concat (map octets ops)) + be_sum True xs"
  using words_aligned [of ops] by (simp add: be_sum_append)

lemma octets_Add8s: "concat (map (octets \<circ> Add8) bs) = bs"
  by (induction bs) simp_all

lemma fold_Add8s: "fold chk_step (map Add8 bs) c = fold checksum_add bs c"
  by (induction bs arbitrary: c) simp_all

lemma aligned_Add8s: "aligned e (map Add8 bs)"
  by (induction bs arbitrary: e) simp_all

lemma octets_put32: "octets (Add32 w) = dev_put32 w"
  by (simp add: dev_put32_def)

lemma octets_put16: "octets (Add16 w) = dev_put16 w"
  by (simp add: dev_put16_def)

text \<open>The sum over a segment as the receiver computes it, with the pseudo header in the middle.\<close>

lemma segment_sum:
  assumes H: "words H" and T: "words T"
    and c: "c = fold checksum_add bs (fold chk_step T (fold chk_step (pseudo tg src len) (fold chk_step H checksum_init)))"
    and ok: "current_checksum (checksum_end c) = TCP_CHK_CONSTANT_PART"
  shows "ocs (be_sum True (dev_put32 src @ dev_put32 (local_ip_addr tg) @ [0, 6] @ dev_put16 len
    @ concat (map octets H) @ concat (map octets T) @ bs)) = 65535"
proof -
  let ?ops = "H @ pseudo tg src len @ T @ map Add8 bs"
  have al: "aligned True ?ops"
    using words_aligned [OF H] words_aligned [OF T]
    by (simp add: aligned_append pseudo_def aligned_Add8s)
  have "c = fold chk_step ?ops checksum_init" by (simp add: c fold_Add8s)
  then have "ocs (be_sum True (concat (map octets ?ops))) = unat (TCP_CHK_CONSTANT_PART)"
    using checksum_fold_init [OF al] ok by simp
  also have "\<dots> = 65529" by (simp add: TCP_CHK_CONSTANT_PART_def IP_PROTO_TCP_def)
  finally have s: "ocs (be_sum True (concat (map octets ?ops))) = 65529" .
  have "be_sum True (dev_put32 src @ dev_put32 (local_ip_addr tg) @ [0, 6] @ dev_put16 len
    @ concat (map octets H) @ concat (map octets T) @ bs) = be_sum True (concat (map octets ?ops)) + 6"
    using words_aligned [OF H] words_aligned [OF T]
    by (simp add: be_sum_append pseudo_def octets_Add8s dev_put32_def dev_put16_def)
  then have "ocs (be_sum True (dev_put32 src @ dev_put32 (local_ip_addr tg) @ [0, 6] @ dev_put16 len
    @ concat (map octets H) @ concat (map octets T) @ bs)) = ocs (ocs (be_sum True (concat (map octets ?ops))) + 6)"
    by simp
  also have "\<dots> = 65535" unfolding s by (simp add: ocs_small)
  finally show ?thesis .
qed

lemma ui16_bytes [simp]: "ui16 (u16_to_u8 v) (u16_to_u8 (drop_bit 8 v)) = v"
  using octet_sum_u16 [of v] by (simp only: word_unat_eq_iff unat_ui16)

text \<open>What a packet that is not ignored must be.\<close>

lemma header_octets:
  assumes "got k [Add8 0x45, Add8 tos, Add16 len, Add16 ident, Add16 w, Add16 ttl, Add16 hchk, Add32 src, Add32 dst] k'"
    and "chk k = checksum_init" and "current_checksum (checksum_end (chk k')) = 0xffff"
  obtains hdr where "dev_in k = hdr @ dev_in k'" "header_verifies hdr" "hdr ! 9 = u16_to_u8 ttl"
    "ui16 (hdr ! 3) (hdr ! 2) = len" "take 4 (drop 12 hdr) = dev_put32 src" "source_of hdr = src" "static k' = static k"
proof -
  let ?ops = "[Add8 0x45, Add8 tos, Add16 len, Add16 ident, Add16 w, Add16 ttl, Add16 hchk, Add32 src, Add32 dst]"
  let ?hdr = "concat (map octets ?ops)"
  have "ocs (be_sum True ?hdr) = 65535"
    using checksum_fold_init [of ?ops] assms(1,3) by (simp add: got_def assms(2))
  then show ?thesis
    using assms(1) by (intro that [of ?hdr]) (simp_all add: got_def header_verifies_def dev_put32_def source_of_def ui32_byte_of [of src, unfolded One_nat_def])
qed

lemma hview_pin: "hview r = hview r' \<Longrightarrow> pin r = pin r'"
proof -
  assume eq: "hview r = hview r'"
  then have "(tc r)\<lparr>http := (hc r)\<lparr>tcp_mss := 0, cwnd := 0\<rparr>\<rparr> = (tc r')\<lparr>http := (hc r')\<lparr>tcp_mss := 0, cwnd := 0\<rparr>\<rparr>"
    by (simp add: hview_def)
  from arg_cong [OF this, of "\<lambda>c. (port (http c), ip_addr c, tcp_state (http c), generator_service (http c))"]
  show ?thesis using eq by (simp add: pin_def hview_def)
qed

lemma pin_acknowledge [simp]: "pin (acknowledge_data r) = pin r"
  by (simp add: acknowledge_data_def)

text \<open>A packet is ignored, or it is one for a packet handler, or a segment that verifies.\<close>

lemma smews_receive_cases:
  assumes "smews_receive tg st ap locals k = Some (v, k')"
  obtains "static k' = static k"
  | hdr rest where "dev_in k = hdr @ rest" "header_verifies hdr" "hdr ! 9 \<noteq> 6"
  | hdr segm r1 w r where "dev_in k = hdr @ segm @ dev_in k'" "header_verifies hdr" "hdr ! 9 = 6" "segment_verifies tg hdr segm"
      "14 \<le> length segm" "u16_to_u8 w = segm ! 13" "static (kern r) = static k"
      "find_conn (\<lambda>a. let c = connections k a
         in IS_HTTP st c \<and> port (http c) = ui16 (segm ! 1) (segm ! 0) \<and> ip_addr c = source_of hdr) k = Some (rx_connection r1)"
      "case rx_connection r1 of Some a \<Rightarrow> tc r1 = connections k a | None \<Rightarrow> tcp_state (hc r1) = tcp_listen"
      "pin r = pin (receive_flags w (receive_ack st r1))"
      "commit tg st r = Some k'"
proof (cases "dev_in k = []")
  case True
  then have "k' = k" using assms by (simp add: smews_receive_def)
  then show ?thesis by (intro that(1)) simp
next
  case False
  define r0 where "r0 = locals\<lparr>kern := k\<lparr>chk := checksum_init\<rparr>, returned := False,
                  defer_clean_service := False, defer_free_handler := False\<rparr>"
  obtain ra where ra: "receive_ip r0 = Some ra"
    using assms False by (auto simp: smews_receive_def r0_def split: bind_splits)
  show ?thesis
  proof (cases "returned ra")
    case True
    then have "k' = kern ra" using assms False ra by (simp add: smews_receive_def r0_def [symmetric])
    then show ?thesis using receive_ip_static [OF ra] by (intro that(1)) (simp add: r0_def)
  next
    case not_ra: False
    then have "runs receive_ip r0 ra" using ra by (simp add: runs_def)
    from receive_ip_runs [OF this] obtain tos len ident ttl hchk src dst w0 kh where
      gh: "got (kern r0) [Add8 0x45, Add8 tos, Add16 len, Add16 ident, Add16 w0, Add16 ttl, Add16 hchk, Add32 src, Add32 dst] kh"
      and ok: "current_checksum (checksum_end (chk kh)) = 0xffff"
      and ra_eq: "ra = r0\<lparr>kern := kh\<lparr>chk := checksum_end (chk kh)\<rparr>, rx_char := tos, packet_length := len - IP_HEADER_SIZE,
             tmp_ui16 := hchk, protocol := u16_to_u8 ttl, tc := (tc r0)\<lparr>ip_addr := src\<rparr>, tmp_ui32 := dst\<rparr>"
      by blast
    obtain hdr where hdr: "dev_in (kern r0) = hdr @ dev_in kh" "header_verifies hdr" "hdr ! 9 = u16_to_u8 ttl"
      "ui16 (hdr ! 3) (hdr ! 2) = len" "take 4 (drop 12 hdr) = dev_put32 src" "source_of hdr = src" "static kh = static (kern r0)"
      by (rule header_octets [OF gh _ ok]) (simp add: r0_def)
    show ?thesis
    proof (cases "protocol ra = IP_PROTO_TCP")
      case False
      then show ?thesis using hdr by (intro that(2) [of hdr "dev_in kh"]) (simp_all add: ra_eq IP_PROTO_TCP_def r0_def)
    next
      case tcp: True
      obtain rb where rb: "receive_tcp tg st ra = Some rb"
        using assms False ra not_ra tcp by (auto simp: smews_receive_def r0_def [symmetric] split: bind_splits)
      show ?thesis
      proof (cases "returned rb")
        case True
        then have "k' = kern rb" using assms False ra not_ra tcp rb by (simp add: smews_receive_def r0_def [symmetric])
        then show ?thesis using receive_tcp_static [OF rb] hdr(7) by (intro that(1)) (simp add: ra_eq r0_def)
      next
        case not_rb: False
        then have "runs (receive_tcp tg st) ra rb" using rb by (simp add: runs_def)
        from receive_tcp_runs [OF this] obtain sport dport sq ack w win uo kt T r1 where
          gH: "got ((kern ra)\<lparr>chk := checksum_init\<rparr>) [Add16 sport, Add16 dport, Add32 sq, Add32 ack, Add16 w, Add16 win, Add32 uo] kt"
          and T: "words T" and gT: "got (kt\<lparr>chk := fold chk_step (pseudo tg (ip_addr (tc r1)) (packet_length ra)) (chk kt)\<rparr>) T (kern rb)"
          and fc: "find_conn (\<lambda>a. let c = connections (kern ra) a
               in IS_HTTP st c \<and> port (http c) = sport \<and> ip_addr c = ip_addr (tc ra)) (kern ra) = Some (rx_connection r1)"
          and tc1: "tc r1 = selected st ra sport (rx_connection r1)"
          and hv: "hview rb = hview (receive_flags w (receive_ack st r1))"
          by blast
        define H where "H = [Add16 sport, Add16 dport, Add32 sq, Add32 ack, Add16 w, Add16 win, Add32 uo]"
        obtain rc where rc: "receive_contents tg st ap rb = Some rc"
          using assms False ra not_ra tcp rb not_rb by (auto simp: smews_receive_def r0_def [symmetric] split: bind_splits)
        have sra: "static (kern ra) = static k" using hdr(7) by (simp add: ra_eq r0_def)
        have ipra: "ip_addr (tc ra) = src" by (simp add: ra_eq)
        have src: "ip_addr (tc r1) = src"
        proof (cases "rx_connection r1")
          case None
          then show ?thesis by (simp add: tc1 selected_def new_connection_def ra_eq)
        next
          case (Some a)
          then have "ip_addr (connections (kern ra) a) = ip_addr (tc ra)"
            using find_conn_found [OF fc [unfolded Some]] by (simp add: Let_def)
          then show ?thesis using Some by (simp add: tc1 selected_def) (simp add: ra_eq)
        qed
        show ?thesis
        proof (cases "\<not> returned rc \<and> current_checksum (checksum_end (chk (kern rc))) = TCP_CHK_CONSTANT_PART")
          case bad: False
          have "static k' = static (kern rc)"
            using assms False ra not_ra tcp rb not_rb rc bad
            by (auto simp: smews_receive_def r0_def [symmetric] Let_def acknowledge_data_def split: if_split_asm)
          then show ?thesis using receive_contents_static [OF rc] receive_tcp_static [OF rb] sra by (intro that(1)) simp
        next
          case good: True
          define r where "r = upd_k (\<lambda>k. k\<lparr>chk := checksum_end (chk (kern rc))\<rparr>) (acknowledge_data rc)"
          have cm: "commit tg st r = Some k'"
            using assms False ra not_ra tcp rb not_rb rc good
            by (auto simp: smews_receive_def r0_def [symmetric] Let_def r_def acknowledge_data_def split: if_split_asm bind_splits)
          have "adv rb rc" using rc good by (intro receive_contents_adv) (simp add: runs_def)
          then obtain bs where pin: "pin rc = pin rb" and bs: "reads (kern rb) bs (kern rc)" by (auto simp: adv_def)
          show ?thesis
          proof (rule that(3) [of hdr "concat (map octets H) @ concat (map octets T) @ bs" w r r1])
            show "dev_in k = hdr @ (concat (map octets H) @ concat (map octets T) @ bs) @ dev_in k'"
              using hdr(1) gH gT bs commit_cases [OF cm]
              by (simp add: got_def reads_def ra_eq r0_def r_def H_def acknowledge_data_def)
            show "segment_verifies tg hdr (concat (map octets H) @ concat (map octets T) @ bs)"
              unfolding segment_verifies_def hdr(4,5)
              by (rule segment_sum [OF _ T, where c = "chk (kern rc)", OF _ _ conjunct2 [OF good, simplified]])
                (use gH gT bs good in \<open>simp_all add: got_def reads_def H_def ra_eq IP_HEADER_SIZE_def src\<close>)
            show "header_verifies hdr" by (rule hdr(2))
            show "hdr ! 9 = 6" using tcp hdr(3) by (simp add: ra_eq IP_PROTO_TCP_def)
            show "14 \<le> length (concat (map octets H) @ concat (map octets T) @ bs)" by (simp add: H_def)
            show "u16_to_u8 w = (concat (map octets H) @ concat (map octets T) @ bs) ! 13" by (simp add: H_def)
            show "static (kern r) = static k"
              using receive_contents_static [OF rc] receive_tcp_static [OF rb] sra by (simp add: r_def acknowledge_data_def)
            show "pin r = pin (receive_flags w (receive_ack st r1))"
              using hview_pin [OF hv] pin by (simp add: r_def)
            show "commit tg st r = Some k'" by (rule cm)
            show "case rx_connection r1 of Some a \<Rightarrow> tc r1 = connections k a | None \<Rightarrow> tcp_state (hc r1) = tcp_listen"
              by (simp add: tc1 selected_def new_connection_def static_cong [OF sra] split: option.split)
            show "find_conn (\<lambda>a. let c = connections k a
               in IS_HTTP st c \<and> port (http c) = ui16 ((concat (map octets H) @ concat (map octets T) @ bs) ! 1)
                 ((concat (map octets H) @ concat (map octets T) @ bs) ! 0) \<and> ip_addr c = source_of hdr) k = Some (rx_connection r1)"
              using fc ipra by (simp add: static_cong [OF sra] find_conn_static [OF sra] H_def hdr(6))
          qed
        qed
      qed
    qed
  qed
qed

end
