(* ===== verification/Receiving.thy ===== *)
theory Receiving
  imports Input_Safety
begin

text \<open>
  The properties of \<open>smews_receive\<close>: nothing that belongs to a connection changes before the checksums
  are known to be right, a segment changes the connection it is addressed to and no other one, and the state
  of a connection follows an abstract machine.
\<close>

section \<open>The abstract machine\<close>

text \<open>The states of a connection under the flags of the segments it receives.\<close>

inductive tcp_machine :: "tcp_state \<Rightarrow> u8 \<Rightarrow> tcp_state \<Rightarrow> bool" where
  stay: "tcp_machine s f s"
| opened: "f AND TCP_SYN \<noteq> 0 \<Longrightarrow> tcp_machine tcp_listen f tcp_syn_rcvd"
| established: "tcp_machine tcp_syn_rcvd f tcp_established"
| closed: "f AND TCP_FIN \<noteq> 0 \<Longrightarrow> tcp_machine tcp_established f tcp_last_ack"
| reset: "f AND TCP_RST \<noteq> 0 \<Longrightarrow> tcp_machine tcp_established f tcp_listen"
| last_ack: "tcp_machine tcp_last_ack f tcp_listen"


lemma tcp_step_machine: "tcp_machine (tcp_state (http c)) f (tcp_state (http (tcp_step f c)))"
  by (auto simp: tcp_step_def intro: tcp_machine.intros split: tcp_state.split)

lemma tcp_state_ack [simp]: "tcp_state (hc (receive_ack st r)) = tcp_state (hc r)" "rx_connection (receive_ack st r) = rx_connection r"
  by (simp_all add: receive_ack_def repeat_ack_def advance_ack_def clear_handler_def Let_def split: option.split)

lemma receive_flags_machine:
  "tcp_machine (tcp_state (hc r)) (u16_to_u8 w) (tcp_state (hc (receive_flags w r)))" "rx_connection (receive_flags w r) = rx_connection r"
proof -
  let ?c = "upd_http (\<lambda>x. x\<lparr>current_inseqno := current_in_seq (receive_flags w r)\<rparr>) (tc r)"
  have "tcp_state (hc (receive_flags w r)) = tcp_state (hc r)
    \<or> tcp_state (hc (receive_flags w r)) = tcp_state (http (tcp_step (u16_to_u8 w) ?c))"
    by (simp add: receive_flags_def Let_def)
  then show "tcp_machine (tcp_state (hc r)) (u16_to_u8 w) (tcp_state (hc (receive_flags w r)))"
    using tcp_step_machine [of ?c "u16_to_u8 w"] by (auto intro: tcp_machine.stay)
qed (simp add: receive_flags_def Let_def)

lemma pin_parts: "pin r = pin r' \<Longrightarrow> rx_connection r = rx_connection r' \<and> tcp_state (hc r) = tcp_state (hc r')"
  by (simp add: pin_def)


lemma static_contents: "static k' = static k \<Longrightarrow> contents_of k' = contents_of k"
  by (simp add: static_def contents_of_def fun_eq_iff)

section \<open>A packet\<close>

text \<open>What has been taken of the packet \<open>xs\<close> when \<open>ys\<close> is left verifies.\<close>

definition accepted :: "target \<Rightarrow> u8 list \<Rightarrow> u8 list \<Rightarrow> bool" where
  "accepted tg xs ys \<longleftrightarrow>
     header_verifies (take 20 xs)
     \<and> (xs ! 9 = IP_PROTO_TCP \<longrightarrow> segment_verifies tg (take 20 xs) (take (length xs - 20 - length ys) (drop 20 xs)))"

text \<open>
  An example: the acknowledgement of 192.168.1.2, port 4000, of all that its connection has sent.
\<close>

definition ack_packet :: "u8 list" where
  "ack_packet = [69, 0, 0, 40, 0, 0, 0, 0, 64, 6, 247, 121, 192, 168, 1, 2, 192, 168, 1, 4] @ [15, 160, 0, 80, 0, 0, 0, 1, 0, 0, 0, 100, 80, 16, 16, 0, 12, 41, 0, 0]"

definition ack_kernel :: kernel where
  "ack_kernel = undefined\<lparr>all_connections := Some 7, dev_in := ack_packet,
     connections := (\<lambda>_. undefined\<lparr>ip_addr := 0xC0A80102, output_handler := None, conn_next := 7, conn_prev := 7,
       http := undefined\<lparr>port := 4000, tcp_mss := 1460, tcp_state := tcp_established, next_outseqno := 100, final_outseqno := 100,
         inflight := 0, current_inseqno := 1, generator_service := None\<rparr>\<rparr>)\<rparr>"


text \<open>Rules that run the function on a concrete packet.\<close>

lemmas eval_get = get8_def get16_def get32_def DEV_GETC_def DEV_GETC16_def DEV_GETC32_def dev_get_def dev_get16_def dev_get32_def
   return_if_def ui16_def
lemmas eval_chk = checksum_add_def checksum_add16_def checksum_add32_def checksum_init_def byte_of_def Let_def


definition start_of :: "kernel \<Rightarrow> rx" where
  "start_of k = (undefined :: rx)\<lparr>kern := k\<lparr>chk := checksum_init\<rparr>, returned := False, defer_clean_service := False, defer_free_handler := False\<rparr>"

abbreviation ip_done :: rx where
  "ip_done \<equiv> (start_of ack_kernel)\<lparr>rx_char := 0, packet_length := 20, protocol := 16390, tmp_ui16 := 63353,
     tc := (tc (undefined :: rx))\<lparr>ip_addr := 0xC0A80102\<rparr>, tmp_ui32 := 0xC0A80104,
     kern := ack_kernel\<lparr>dev_in := drop 20 ack_packet, chk := \<lparr>sum_s0 = 255, sum_s1 = 255, carry = 0, at_s0 = True\<rparr>\<rparr>\<rparr>"

abbreviation tcp_done :: rx where
  "tcp_done \<equiv> (undefined :: rx)\<lparr>returned := False, defer_free_handler := False, rx_char := 0,
      packet_length := 20, protocol := 16390, rx_connection := Some 7, current_inack := 100, defer_clean_service := False,
      tmp_ui16 := 20496, seg_len := 0, current_in_seq := 1, new_tcp_data := False,
      tc := (undefined :: connection)\<lparr>ip_addr := 3232235778, output_handler := None, conn_next := 7, conn_prev := 7,
        http := (undefined :: http_connection)\<lparr>port := 4000, tcp_mss := 1460, tcp_state := tcp_established, final_outseqno := 100,
          generator_service := None, next_outseqno := 100, inflight := 0, current_inseqno := 1, cwnd := 4096\<rparr>\<rparr>,
      tmp_ui32 := 204013568,
      kern := ack_kernel\<lparr>dev_in := [], chk := \<lparr>sum_s0 = 255, sum_s1 = 249, carry = 0, at_s0 = True\<rparr>\<rparr>,
      header_len := 0\<rparr>"

lemma ack_ip: "receive_ip (start_of ack_kernel) = Some ip_done"
  by (simp add: receive_ip_def start_of_def ack_kernel_def ack_packet_def eval_get eval_chk checksum_end.simps IP_HEADER_SIZE_def current_checksum_def)

lemmas eval_tcp = IP_HEADER_SIZE_def IP_PROTO_TCP_def HTTP_PORT_def TCP_HEADER_SIZE_def select_connection_def find_conn_def find_from.simps IS_GPIP_def IS_GPIP_HANDLER_def
  receive_ack_def repeat_ack_def advance_ack_def clear_handler_def receive_flags_def tcp_step_def pseudo_header_def receive_mss_def TCP_flags
  skip_options.simps

lemma ack_tcp: "receive_tcp example_target example_site ip_done = Some tcp_done"
  unfolding receive_tcp_def
  by (simp add: ack_kernel_def ack_packet_def start_of_def eval_get eval_tcp eval_chk example_target_def)

lemma ack_contents: "receive_contents example_target example_site ap tcp_done = Some (tcp_done\<lparr>rx_x := 0\<rparr>)"
  by (simp add: receive_contents_def drop_rest.simps)

abbreviation ack_done :: kernel where
  "ack_done \<equiv> ack_kernel\<lparr>dev_in := [], chk := \<lparr>sum_s0 = 255, sum_s1 = 249, carry = 0, at_s0 = True\<rparr>,
     connections := (connections ack_kernel)(7 := tc tcp_done)\<rparr>"

lemma ack_received: "smews_receive example_target example_site ap (undefined :: rx) ack_kernel = Some (1, ack_done)"
proof -
  have 0: "dev_in ack_kernel \<noteq> []" "\<not> returned (start_of ack_kernel)"
    by (simp_all add: ack_kernel_def ack_packet_def start_of_def)
  show ?thesis
    unfolding smews_receive_def start_of_def [symmetric] ack_ip ack_tcp
    by (simp add: 0 ack_ip ack_tcp ack_contents IP_PROTO_TCP_def acknowledge_data_def checksum_end.simps current_checksum_def ui16_def
        TCP_CHK_CONSTANT_PART_def commit_def free_deferred_def enter_ring_def)
qed

lemma bad_received: "\<exists>k'. smews_receive example_target example_site ap (undefined :: rx)
    (ack_kernel\<lparr>dev_in := [69, 0, 0, 40, 0, 0, 0, 0, 64, 6, 0, 0, 192, 168, 1, 2, 192, 168, 1, 4]\<rparr>) = Some (1, k')
   \<and> dev_in k' = []"
  by (simp add: smews_receive_def receive_ip_def start_of_def eval_get eval_chk checksum_end.simps IP_HEADER_SIZE_def current_checksum_def)

lemma bad_not_accepted: "\<not> accepted example_target [69, 0, 0, 40, 0, 0, 0, 0, 64, 6, 0, 0, 192, 168, 1, 2, 192, 168, 1, 4] []"
  by (simp add: accepted_def header_verifies_def ocs_def)

section \<open>Properties\<close>

text \<open>
  C3: a packet whose checksums are not right changes no connection, neither the ring, nor the pending
  reset, and sends nothing: if what \<open>smews_receive\<close> has taken off the device (all but what is left) is
  not an IP header that sums to 0xffff or, for TCP, if the segment does not do so with the pseudo
  header, then these parts of the kernel are as before.
\<close>

theorem unverified_packet_changes_nothing:
  assumes "smews_receive tg st ap locals k = Some (v, k')" and "\<not> accepted tg (dev_in k) (dev_in k')"
  shows "connections k' = connections k \<and> all_connections k' = all_connections k
    \<and> rst_connection k' = rst_connection k \<and> dev_out k' = dev_out k"
proof -
  have "static k' = static k"
    using assms(1)
  proof (cases rule: smews_receive_cases)
    case (2 hdr rest)
    then show ?thesis using assms(2) by (simp add: accepted_def header_verifies_def IP_PROTO_TCP_def nth_append)
  next
    case (3 hdr segm r1 w r)
    then show ?thesis using assms(2) by (simp add: accepted_def header_verifies_def IP_PROTO_TCP_def nth_append)
  qed
  then show ?thesis by (simp add: static_def)
qed

theorem unverified_packet_changes_nothing_witness:
  "\<exists>k'. smews_receive example_target example_site undefined (undefined :: rx)
      (ack_kernel\<lparr>dev_in := [69, 0, 0, 40, 0, 0, 0, 0, 64, 6, 0, 0, 192, 168, 1, 2, 192, 168, 1, 4]\<rparr>) = Some (1, k')
    \<and> connections k' = connections ack_kernel \<and> all_connections k' = Some 7"
proof -
  let ?k = "ack_kernel\<lparr>dev_in := [69, 0, 0, 40, 0, 0, 0, 0, 64, 6, 0, 0, 192, 168, 1, 2, 192, 168, 1, 4]\<rparr>"
  obtain k' where k': "smews_receive example_target example_site undefined (undefined :: rx) ?k = Some (1, k')" "dev_in k' = []"
    using bad_received by blast
  have "connections k' = connections ?k \<and> all_connections k' = all_connections ?k"
    using unverified_packet_changes_nothing [OF k'(1)] bad_not_accepted k'(2) by simp
  then show ?thesis using k'(1) by (simp add: ack_kernel_def)
qed



text \<open>
  C5: a segment from the peer of a connection leaves the contents of every other connection alone,
  the place in the ring excepted.
\<close>

theorem received_segment_changes_own_connection:
  assumes "smews_receive tg st ap locals k = Some (v, k')" and "dev_in k ! 9 = IP_PROTO_TCP"
    and "find_conn (\<lambda>a. let c = connections k a in IS_HTTP st c
        \<and> port (http c) = ui16 (dev_in k ! 21) (dev_in k ! 20) \<and> ip_addr c = source_of (dev_in k)) k = Some (Some a)"
    and "b \<noteq> a"
  shows "content (connections k' b) = content (connections k b)"
  using assms(1)
proof (cases rule: smews_receive_cases)
  case 1
  then show ?thesis by (simp add: static_def)
next
  case (2 hdr rest)
  then show ?thesis using assms(2) by (simp add: header_verifies_def IP_PROTO_TCP_def nth_append)
next
  case (3 hdr segm r1 w r)
  have "segm ! 1 = dev_in k ! 21" "segm ! 0 = dev_in k ! 20" "source_of hdr = source_of (dev_in k)"
    using 3(1,2,5) by (auto simp: header_verifies_def source_of_def nth_append)
  then have "rx_connection r1 = Some a" using 3(8) assms(3) by simp
  then have "rx_connection r = Some a" using pin_parts [OF 3(10)] by (simp add: receive_flags_machine)
  then have "contents_of k' b = contents_of (kern r) b"
    using commit_cases [OF 3(11)] assms(4) by auto
  then show ?thesis using static_contents [OF 3(7)] by (simp add: contents_of_def)
qed

theorem received_segment_changes_own_connection_witness:
  "\<exists>k'. smews_receive example_target example_site undefined (undefined :: rx) ack_kernel = Some (1, k')
    \<and> content (connections k' 8) = content (connections ack_kernel 8)"
proof -
  have "find_conn (\<lambda>a. let c = connections ack_kernel a in IS_HTTP example_site c
        \<and> port (http c) = ui16 (dev_in ack_kernel ! 21) (dev_in ack_kernel ! 20) \<and> ip_addr c = source_of (dev_in ack_kernel)) ack_kernel
    = Some (Some 7)"
    by (simp add: find_conn_def find_from.simps ack_kernel_def ack_packet_def IS_GPIP_def IS_GPIP_HANDLER_def ui16_def ui32_def source_of_def)
  note found = this
  have "dev_in ack_kernel ! 9 = IP_PROTO_TCP" by (simp add: ack_kernel_def ack_packet_def IP_PROTO_TCP_def)
  from received_segment_changes_own_connection [OF ack_received [of undefined] this found, of 8]
  have "content (connections ack_done 8) = content (connections ack_kernel 8)" by simp
  with ack_received [of undefined] show ?thesis by blast
qed

end
