(* ===== verification/Multipart.thy ===== *)
theory Multipart
  imports Request
begin

text \<open>
  The search of the boundary of multipart data: the comparison with the circular window that \<open>in\<close>
  keeps in front of the reader decides whether the window holds the boundary, except when the oldest
  octet is at the beginning of the buffer.
\<close>

section \<open>The comparison\<close>

lemma uint_less_len: "uint (i :: u8) < int n \<longleftrightarrow> unat i < n"
proof -
  have "uint i = int (unat i)" by simp
  then show ?thesis by linarith
qed

lemma uint_less_unat: "uint (i :: u8) < uint (j :: u8) \<longleftrightarrow> unat i < unat j"
proof -
  have "uint i = int (unat i)" "uint j = int (unat j)" by simp_all
  then show ?thesis by linarith
qed

lemma rd_nth: "unat (i :: u8) < length xs \<Longrightarrow> rd xs (uint i) = Some (xs ! unat i)"
  by (simp add: rd_def uint_less_len)

lemma unat_Suc_u8: "unat (i :: u8) < unat (j :: u8) \<Longrightarrow> unat (i + 1) = Suc (unat i)"
  using unat_u8_lt [of j] by (simp add: unat_add_u8)

lemma uint_less_pred: "uint (i :: u8) < uint (sz :: u8) - 1 \<longleftrightarrow> unat i < unat sz - 1"
  and uint_eq_pred: "0 < unat sz \<Longrightarrow> uint i = uint sz - 1 \<longleftrightarrow> unat i = unat sz - 1"
proof -
  have "uint i = int (unat i)" "uint sz = int (unat sz)" by simp_all
  then show "uint i < uint sz - 1 \<longleftrightarrow> unat i < unat sz - 1"
    and "0 < unat sz \<Longrightarrow> uint i = uint sz - 1 \<longleftrightarrow> unat i = unat sz - 1" by linarith+
qed

lemma match_rest_spec:
  assumes "unat sz \<le> length ref" and "length buf = unat sz" and "1 < unat sz"
    and "unat i \<le> unat sz - 1" and "unat index \<le> unat sz"
  shows "match_rest ref buf sz i index =
    Some (\<forall>j. unat i \<le> j \<and> j < unat sz - 1 \<longrightarrow> ref ! j = buf ! ((unat index + (j - unat i)) mod unat sz))"
  using assms(4,5)
proof (induction "unat sz - 1 - unat i" arbitrary: i index)
  case 0
  then have e: "unat i = unat sz - 1" by simp
  then have "\<not> uint i < uint sz - 1" "uint i = uint sz - 1"
    using assms(3) uint_eq_pred [of sz i] by (simp_all add: uint_less_pred)
  then show ?case using e by (subst match_rest.simps) auto
next
  case (Suc n)
  then have lt: "unat i < unat sz - 1" by linarith
  define idx where "idx = (if index = sz then 0 else index)"
  have idx: "unat idx < unat sz" "unat index mod unat sz = unat idx"
    using Suc.prems(2) assms(3) by (auto simp: idx_def word_unat_eq_iff)
  have s: "unat (i + 1) = Suc (unat i)" "unat (idx + 1) = Suc (unat idx)"
    using lt unat_Suc_u8 [of i sz] unat_Suc_u8 [OF idx(1)] by simp_all
  have r: "rd ref (uint i) = Some (ref ! unat i)" "rd buf (uint idx) = Some (buf ! unat idx)"
    using lt idx assms(1,2) by (auto intro: rd_nth)
  show ?case
  proof (cases "ref ! unat i = buf ! unat idx")
    case False
    moreover have "match_rest ref buf sz i index = Some False"
      using lt False by (subst match_rest.simps) (simp add: uint_less_pred Let_def idx_def [symmetric] r)
    ultimately show ?thesis using lt idx(2) by auto
  next
    case True
    have "match_rest ref buf sz i index = match_rest ref buf sz (i + 1) (idx + 1)"
      using lt True by (subst match_rest.simps) (simp add: uint_less_pred Let_def idx_def [symmetric] r)
    also have "\<dots> = Some (\<forall>j. unat (i + 1) \<le> j \<and> j < unat sz - 1
        \<longrightarrow> ref ! j = buf ! ((unat (idx + 1) + (j - unat (i + 1))) mod unat sz))"
      using Suc.hyps(2) lt s idx by (intro Suc.hyps(1)) simp_all
    also have "(\<forall>j. unat (i + 1) \<le> j \<and> j < unat sz - 1
        \<longrightarrow> ref ! j = buf ! ((unat (idx + 1) + (j - unat (i + 1))) mod unat sz))
      \<longleftrightarrow> (\<forall>j. unat i \<le> j \<and> j < unat sz - 1 \<longrightarrow> ref ! j = buf ! ((unat index + (j - unat i)) mod unat sz))"
    proof -
      have "(unat (idx + 1) + (j - unat (i + 1))) mod unat sz = (unat index + (j - unat i)) mod unat sz" if "unat i < j" for j
      proof -
        have "unat (idx + 1) + (j - unat (i + 1)) = unat idx + (j - unat i)" using that s by simp
        then show ?thesis using idx(2) by (metis mod_add_left_eq)
      qed
      moreover have "buf ! ((unat index + (unat i - unat i)) mod unat sz) = ref ! unat i" using True idx(2) by simp
      ultimately show ?thesis using s lt by (metis Suc_le_eq le_neq_implies_less order_less_imp_le)
    qed
    finally show ?thesis .
  qed
qed

lemma boundary_match_spec:
  assumes "unat sz \<le> length ref" and "length buf = unat sz" and "1 < unat sz" and "unat i < unat sz"
    and "0 \<le> prev" and "prev < int (unat sz)"
  shows "boundary_match ref buf sz prev i =
    Some (buf ! nat prev = ref ! (unat sz - 1) \<and> (\<forall>j < unat sz - 1. ref ! j = buf ! ((unat i + j) mod unat sz)))"
proof -
  have a: "rd buf prev = Some (buf ! nat prev)" "rd buf (uint i) = Some (buf ! unat i)" "rd ref 0 = Some (ref ! 0)"
    using assms by (auto simp: rd_nth) (auto simp: rd_def)
  have "uint sz = int (unat sz)" by simp
  then have "0 \<le> uint sz - 1" "uint sz - 1 < int (length ref)" "nat (uint sz - 1) = unat sz - 1"
    using assms(1,3) by linarith+
  then have b: "rd ref (uint sz - 1) = Some (ref ! (unat sz - 1))"
    by (simp add: rd_def)
  have s: "unat (i + 1) = Suc (unat i)" by (rule unat_Suc_u8 [OF assms(4)])
  have m: "match_rest ref buf sz 1 (i + 1) =
    Some (\<forall>j. 1 \<le> j \<and> j < unat sz - 1 \<longrightarrow> ref ! j = buf ! ((Suc (unat i) + (j - 1)) mod unat sz))"
    using match_rest_spec [OF assms(1-3), of 1 "i + 1"] assms(3,4) s by simp
  have "(\<forall>j < unat sz - 1. ref ! j = buf ! ((unat i + j) mod unat sz))
    \<longleftrightarrow> buf ! unat i = ref ! 0 \<and> (\<forall>j. 1 \<le> j \<and> j < unat sz - 1 \<longrightarrow> ref ! j = buf ! ((Suc (unat i) + (j - 1)) mod unat sz))"
    (is "?l \<longleftrightarrow> ?r")
  proof
    assume ?l
    then show ?r using assms(3,4) by (auto dest: spec [of _ 0])
  next
    assume r: ?r
    show ?l
    proof (intro allI impI)
      fix j assume "j < unat sz - 1"
      then show "ref ! j = buf ! ((unat i + j) mod unat sz)" using r assms(4) by (cases j) auto
    qed
  qed
  then show ?thesis unfolding boundary_match_def a b m by simp
qed

section \<open>The window\<close>

text \<open>A boundary with its window: \<open>ref\<close> is the boundary to find, in a block of its own.\<close>

definition window_ok :: "kernel \<Rightarrow> nat \<Rightarrow> nat \<Rightarrow> bool" where
  "window_ok k b a \<longleftrightarrow>
     (let bd = boundaries k b
      in boundary_buffer bd = Some a \<and> length (bytes k a) = unat (boundary_size bd) \<and> 1 < unat (boundary_size bd)
         \<and> unat (boundary_size bd) \<le> length (text_bytes k (boundary_ref bd)) \<and> boundary_ref bd \<noteq> Text_block a
         \<and> unat (boundary_index bd) < unat (boundary_size bd))"

definition boundary_of :: "kernel \<Rightarrow> nat \<Rightarrow> u8 list" where
  "boundary_of k b = take (unat (boundary_size (boundaries k b))) (text_bytes k (boundary_ref (boundaries k b)))"

lemma text_bytes_other: "t \<noteq> Text_block a \<Longrightarrow> text_bytes (k\<lparr>bytes := f(a := x)\<rparr>) t = text_bytes (k\<lparr>bytes := f\<rparr>) t"
  by (cases t) (simp_all add: text_bytes_def)

lemma text_bytes_upd [simp]:
  "text_bytes (k\<lparr>boundaries := bs\<rparr>) t = text_bytes k t" "text_bytes (k\<lparr>chk := c\<rparr>) t = text_bytes k t"
  "text_bytes (k\<lparr>dev_in := d\<rparr>) t = text_bytes k t" "text_bytes (k\<lparr>bytes := bytes k\<rparr>) t = text_bytes k t"
  by (simp_all add: text_bytes_def split: text_ref.split)

lemma in_window_spec:
  assumes w: "window_ok k b a" and ins: "dev_in k = c # cs"
  defines "bd \<equiv> boundaries k b"
  defines "i \<equiv> (if boundary_index bd + 1 = boundary_size bd then 0 else boundary_index bd + 1)"
  defines "buf \<equiv> (bytes k a)[unat (boundary_index bd) := c]"
  obtains m where
    "boundary_match (text_bytes k (boundary_ref bd)) buf (boundary_size bd) (uint (i - 1) mod uint (boundary_size bd)) i = Some m"
    "in_window b k = Some (u8_to_u16 (bytes k a ! unat (boundary_index bd)), True,
       k\<lparr>dev_in := cs, chk := checksum_add c (chk k), bytes := (bytes k)(a := buf),
         boundaries := (boundaries k)(b := bd\<lparr>boundary_index := (if m then 255 else i)\<rparr>)\<rparr>)"
proof -
  have i: "unat i < unat (boundary_size bd)"
    using w unat_Suc_u8 [of "boundary_index bd" "boundary_size bd"]
    by (auto simp: window_ok_def Let_def i_def bd_def word_unat_eq_iff)
  have "0 < uint (boundary_size bd)"
  proof -
    have "uint (boundary_size bd) = int (unat (boundary_size bd))" by simp
    moreover have "1 < unat (boundary_size bd)" using w by (simp add: window_ok_def Let_def bd_def)
    ultimately show ?thesis by linarith
  qed
  then have "0 \<le> uint (i - 1) mod uint (boundary_size bd)" "uint (i - 1) mod uint (boundary_size bd) < int (unat (boundary_size bd))"
    by simp_all
  from boundary_match_spec [OF _ _ _ i this, of "text_bytes k (boundary_ref bd)" buf]
  obtain m where m: "boundary_match (text_bytes k (boundary_ref bd)) buf (boundary_size bd) (uint (i - 1) mod uint (boundary_size bd)) i = Some m"
    using w by (auto simp: window_ok_def Let_def bd_def buf_def)
  have rd: "rd (bytes k a) (uint (boundary_index bd)) = Some (bytes k a ! unat (boundary_index bd))"
    using w by (intro rd_nth) (simp add: window_ok_def Let_def bd_def)
  have wr: "wr (bytes k a) (uint (boundary_index bd)) c = Some buf"
    using w by (auto simp: wr_def buf_def window_ok_def Let_def bd_def uint_less_unat)
  have nz: "boundary_size bd \<noteq> 0" using \<open>0 < uint (boundary_size bd)\<close> by auto
  have "in_window b k = Some (u8_to_u16 (bytes k a ! unat (boundary_index bd)), True,
       k\<lparr>dev_in := cs, chk := checksum_add c (chk k), bytes := (bytes k)(a := buf),
         boundaries := (boundaries k)(b := bd\<lparr>boundary_index := (if m then 255 else i)\<rparr>)\<rparr>)"
    using w rd wr nz m
    by (simp add: in_window_def Let_def DEV_GETC_def dev_get_def ins ptr_bytes_def window_ok_def bd_def [symmetric] i_def [symmetric]
        text_bytes_other)
  with m show thesis by (rule that)
qed

section \<open>Properties\<close>

lemma all_less_pred: "0 < (n :: nat) \<Longrightarrow> (\<forall>j < n. P j) \<longleftrightarrow> (\<forall>j < n - 1. P j) \<and> P (n - 1)"
  by (cases n) (auto simp: less_Suc_eq)

lemma rotate_eq_iff:
  "length buf = n \<Longrightarrow> n \<le> length ref \<Longrightarrow> i < n \<Longrightarrow>
    rotate i buf = take n ref \<longleftrightarrow> (\<forall>j < n. ref ! j = buf ! ((i + j) mod n))"
  by (auto simp: list_eq_iff_nth_eq nth_rotate)

text \<open>
  C15: as long as the window does not begin at the first cell of its buffer, reading an octet of multipart
  data returns the oldest octet of the window and detects the boundary exactly when the window, from
  its oldest octet on, is the boundary.
\<close>

theorem window_detects_boundary:
  assumes "window_ok k b a" and "dev_in k = c # cs"
    and "boundary_index (boundaries k b) + 1 \<noteq> boundary_size (boundaries k b)"
  shows "\<exists>k'. in_window b k = Some (u8_to_u16 (bytes k a ! unat (boundary_index (boundaries k b))), True, k')
    \<and> bytes k' a = (bytes k a)[unat (boundary_index (boundaries k b)) := c]
    \<and> boundary_index (boundaries k' b) =
        (if rotate (unat (boundary_index (boundaries k b)) + 1) (bytes k' a) = boundary_of k b then 255
         else boundary_index (boundaries k b) + 1)"
proof -
  let ?bd = "boundaries k b" and ?buf = "(bytes k a)[unat (boundary_index (boundaries k b)) := c]"
  let ?i = "boundary_index ?bd + 1" and ?n = "unat (boundary_size ?bd)" and ?ref = "text_bytes k (boundary_ref ?bd)"
  note w = assms(1) [unfolded window_ok_def Let_def]
  have i: "unat ?i = Suc (unat (boundary_index ?bd))" using w by (intro unat_Suc_u8 [of _ "boundary_size ?bd"]) simp
  then have lt: "unat ?i < ?n" using w assms(3) by (simp add: word_unat_eq_iff)
  have prev: "uint (?i - 1) mod uint (boundary_size ?bd) = uint (boundary_index ?bd)"
    using w by (simp add: uint_less_unat)
  obtain m where m: "boundary_match ?ref ?buf (boundary_size ?bd) (uint (boundary_index ?bd)) ?i = Some m"
    and r: "in_window b k = Some (u8_to_u16 (bytes k a ! unat (boundary_index ?bd)), True,
       k\<lparr>dev_in := cs, chk := checksum_add c (chk k), bytes := (bytes k)(a := ?buf),
         boundaries := (boundaries k)(b := ?bd\<lparr>boundary_index := (if m then 255 else ?i)\<rparr>)\<rparr>)"
    by (rule in_window_spec [OF assms(1,2)], unfold if_not_P [OF assms(3)] prev)
  have "m = (?buf ! unat (boundary_index ?bd) = ?ref ! (?n - 1) \<and> (\<forall>j < ?n - 1. ?ref ! j = ?buf ! ((unat ?i + j) mod ?n)))"
    using m boundary_match_spec [of "boundary_size ?bd" ?ref ?buf ?i "uint (boundary_index ?bd)"] w lt
    by (simp add: uint_less_unat)
  also have "\<dots> = (\<forall>j < ?n. ?ref ! j = ?buf ! ((unat ?i + j) mod ?n))"
    (is "(?last \<and> ?most) = ?all")
  proof -
    have e: "(unat ?i + (?n - 1)) mod ?n = unat (boundary_index ?bd)"
      using i lt by (simp add: mod_if)
    have "?all \<longleftrightarrow> ?most \<and> ?ref ! (?n - 1) = ?buf ! ((unat ?i + (?n - 1)) mod ?n)"
      using w by (intro all_less_pred) linarith
    then show ?thesis unfolding e by auto
  qed
  also have "\<dots> = (rotate (unat ?i) ?buf = take ?n ?ref)"
    using rotate_eq_iff [of ?buf ?n ?ref "unat ?i"] w lt by simp
  finally show ?thesis using r by (simp add: i boundary_of_def)
qed

text \<open>An example: the boundary of six octets of a request whose parts are separated by \<open>--X\<close>.\<close>

definition window_kernel :: "u8 \<Rightarrow> u8 list \<Rightarrow> u8 list \<Rightarrow> kernel" where
  "window_kernel i window cs = undefined\<lparr>dev_in := cs, chk := checksum_init,
     bytes := (\<lambda>_. [])(3 := window, 9 := [10, 13, 10, 45, 45, 88]),
     boundaries := (\<lambda>_. undefined)(1 := \<lparr>boundary_ref = Text_block 9, boundary_buffer = Some 3, boundary_size = 6,
       boundary_index = i, ready_to_count = True, multi_part_counter = 0\<rparr>)\<rparr>"

lemma window_kernel_ok: "unat i < 6 \<Longrightarrow> length window = 6 \<Longrightarrow> window_ok (window_kernel i window cs) 1 3"
  by (simp add: window_ok_def window_kernel_def text_bytes_def)

theorem window_detects_boundary_witness:
  "\<exists>k'. in_window 1 (window_kernel 1 [45, 65, 10, 13, 10, 45] [88]) = Some (65, True, k')
    \<and> boundary_index (boundaries k' 1) = 255"
proof -
  let ?k = "window_kernel 1 [45, 65, 10, 13, 10, 45] [88]"
  have "boundary_index (boundaries ?k 1) = 1" "boundary_index (boundaries ?k 1) + 1 \<noteq> boundary_size (boundaries ?k 1)"
    "boundary_of ?k 1 = [10, 13, 10, 45, 45, 88]" "bytes ?k 3 = [45, 65, 10, 13, 10, 45]" "dev_in ?k = [88]"
    by (simp_all add: window_kernel_def boundary_of_def text_bytes_def)
  with window_detects_boundary [of ?k 1 3 88 "[]", OF window_kernel_ok] show ?thesis by auto
qed

text \<open>
  When the window begins at the first cell of its buffer, the position of its last octet is
  computed as \<open>(unsigned char)(index - 1) % boundary_size\<close>, which is 255 modulo the size: unless the boundary has the
  same character there as at its end, a window that is the boundary is not detected, and the
  boundary is delivered as data.
\<close>

theorem boundary_missed_at_wrap:
  assumes "window_ok k b a" and "dev_in k = c # cs"
    and "boundary_index (boundaries k b) + 1 = boundary_size (boundaries k b)"
    and "(bytes k a)[unat (boundary_index (boundaries k b)) := c] = boundary_of k b"
    and "boundary_of k b ! (255 mod unat (boundary_size (boundaries k b))) \<noteq> last (boundary_of k b)"
  shows "\<exists>v k'. in_window b k = Some (v, True, k') \<and> bytes k' a = boundary_of k b \<and> boundary_index (boundaries k' b) = 0"
proof -
  let ?bd = "boundaries k b" and ?buf = "(bytes k a)[unat (boundary_index (boundaries k b)) := c]"
  let ?n = "unat (boundary_size ?bd)" and ?ref = "text_bytes k (boundary_ref ?bd)"
  note w = assms(1) [unfolded window_ok_def Let_def]
  have n: "uint (boundary_size ?bd) = int ?n" by simp
  have "uint (0 - 1 :: u8) = 255" by (simp add: unsigned_minus_1_eq_mask mask_eq_exp_minus_1)
  then have prev: "uint (0 - 1 :: u8) mod uint (boundary_size ?bd) = int (255 mod ?n)"
    unfolding n by (simp add: zmod_int)
  obtain m where m: "boundary_match ?ref ?buf (boundary_size ?bd) (int (255 mod ?n)) 0 = Some m"
    and r: "in_window b k = Some (u8_to_u16 (bytes k a ! unat (boundary_index ?bd)), True,
       k\<lparr>dev_in := cs, chk := checksum_add c (chk k), bytes := (bytes k)(a := ?buf),
         boundaries := (boundaries k)(b := ?bd\<lparr>boundary_index := (if m then 255 else 0)\<rparr>)\<rparr>)"
    by (rule in_window_spec [OF assms(1,2)], unfold if_P [OF assms(3)] prev)
  have "last (boundary_of k b) = ?ref ! (?n - 1)"
    unfolding boundary_of_def by (subst last_conv_nth) (use w in \<open>auto simp: min_absorb2\<close>)
  then have "?buf ! (255 mod ?n) \<noteq> ?ref ! (?n - 1)"
    using assms(4,5) by simp
  moreover have "int (255 mod ?n) < uint (boundary_size ?bd)" unfolding n of_nat_less_iff using w by simp
  ultimately have "\<not> m" using m boundary_match_spec [of "boundary_size ?bd" ?ref ?buf 0 "int (255 mod ?n)"] w by simp
  then show ?thesis using r assms(4) by simp
qed

theorem boundary_missed_at_wrap_witness:
  "\<exists>v k'. in_window 1 (window_kernel 5 [10, 13, 10, 45, 45, 65] [88]) = Some (v, True, k')
    \<and> bytes k' 3 = [10, 13, 10, 45, 45, 88] \<and> boundary_index (boundaries k' 1) = 0"
proof -
  let ?k = "window_kernel 5 [10, 13, 10, 45, 45, 65] [88]"
  have f: "boundary_index (boundaries ?k 1) + 1 = boundary_size (boundaries ?k 1)" "dev_in ?k = [88]"
    "(bytes ?k 3)[unat (boundary_index (boundaries ?k 1)) := 88] = boundary_of ?k 1"
    "boundary_of ?k 1 ! (255 mod unat (boundary_size (boundaries ?k 1))) \<noteq> last (boundary_of ?k 1)"
    "boundary_of ?k 1 = [10, 13, 10, 45, 45, 88]"
    by (simp_all add: window_kernel_def boundary_of_def text_bytes_def)
  show ?thesis
    using boundary_missed_at_wrap [of ?k 1 3 88 "[]", OF window_kernel_ok f(2,1,3,4)] f(5) by simp
qed

end
