(* ===== verification/Post_Header.thy ===== *)
theory Post_Header
  imports Request
begin

text \<open>
  The value of a \<open>Content-Length\<close> header, which the parser of \<open>core/input.c\<close> reads character by
  character into the 16 bits of \<open>content_length\<close>.
\<close>









section \<open>Properties\<close>




end
