(* ===== verification/Word_Tree.thy ===== *)
theory Word_Tree
  imports Request
begin

text \<open>
  The trees of words that \<open>core/input.c\<close> walks - the requests, the URLs, the names of the arguments, the
  attributes of a header and the content types - as \<open>tools/GenBlob.py\<close> writes them: a ternary search tree, the
  octets of its layout (\<open>BLOBRec\<close>), and the search that the walk of the parser has to implement.
  \<open>walk_find\<close> shows that the loop of the parser over the octets is the search in the tree, under the bounds
  that the offsets of one octet impose.
\<close>

section \<open>Ternary trees and their layout\<close>

text \<open>
  A node has a letter, the reference of the word that ends with it, and the trees \<open><\<close>, \<open>=\<close> and \<open>>\<close> of the
  smaller letters, of the letters that follow and of the greater letters at its place. A node of the tool whose
  string has several letters is a chain of nodes that have a tree \<open>=\<close> only; it has the same octets.
\<close>

datatype word_tree = Tip | Node u8 "u8 option" word_tree word_tree word_tree

definition child_offsets :: "u8 list \<Rightarrow> u8 list \<Rightarrow> u8 list \<Rightarrow> u8 list" where
  "child_offsets bl be bg =
    (if bl = [] \<and> be \<noteq> [] \<and> bg = [] then []
     else ((if bl = [] then 0 else 1) + (if be = [] then 0 else 2) + (if bg = [] then 0 else 4))
        # map (\<lambda>b. of_nat (length b)) (butlast (filter (\<lambda>b. b \<noteq> []) [bl, be, bg])))"

fun BLOB :: "word_tree \<Rightarrow> u8 list" where
  "BLOB Tip = []"
| "BLOB (Node a i l e g) =
    a # (case i of None \<Rightarrow> [] | Some n \<Rightarrow> [128 + n])
      @ child_offsets (BLOB l) (BLOB e) (BLOB g) @ BLOB l @ BLOB e @ BLOB g"

definition stored :: "(nat \<Rightarrow> u8) \<Rightarrow> nat \<Rightarrow> u8 list \<Rightarrow> bool" where
  "stored m b xs \<longleftrightarrow> (\<forall>i < length xs. m (b + i) = xs ! i)"

lemma stored_Nil [simp]: "stored m b []"
  by (simp add: stored_def)

lemma stored_Cons [simp]: "stored m b (x # xs) \<longleftrightarrow> m b = x \<and> stored m (b + 1) xs"
  by (simp add: stored_def All_less_Suc2)

lemma stored_append [simp]: "stored m b (xs @ ys) \<longleftrightarrow> stored m b xs \<and> stored m (b + length xs) ys"
  by (induction xs arbitrary: b) auto

lemma BLOB_Nil [simp]: "BLOB t = [] \<longleftrightarrow> t = Tip"
  by (cases t) auto

section \<open>The trees that the walk can read\<close>

text \<open>
  Letters are from 32 to 127, so that they are not taken for flags or references; a word ends at every node that has nothing behind it; a tree \<open>>\<close>
  has a tree \<open><\<close> beside it, since the reader takes the first offset for the size of the tree \<open><\<close>; and the
  sizes fit the sums of an octet.
\<close>

fun readable :: "word_tree \<Rightarrow> bool" where
  "readable Tip = True"
| "readable (Node a i l e g) \<longleftrightarrow>
     32 \<le> a \<and> a < 128 \<and> (case i of None \<Rightarrow> e \<noteq> Tip | Some n \<Rightarrow> n < 128)
   \<and> (g \<noteq> Tip \<and> e \<noteq> Tip \<longrightarrow> l \<noteq> Tip) \<and> (g \<noteq> Tip \<or> l \<noteq> Tip \<longrightarrow> length (BLOB l) + length (BLOB e) \<le> 252)
   \<and> readable l \<and> readable e \<and> readable g"

fun find_letter :: "word_tree \<Rightarrow> u8 \<Rightarrow> word_tree" where
  "find_letter Tip c = Tip"
| "find_letter (Node a i l e g) c =
     (if c = a then Node a i l e g else if c < a then find_letter l c else find_letter g c)"

text \<open>The address that the walk leaves: the reference of the node it found, or its tree \<open>=\<close>.\<close>

fun at_node :: "(nat \<Rightarrow> u8) \<Rightarrow> nat \<Rightarrow> word_tree \<Rightarrow> bool" where
  "at_node m b Tip = False"
| "at_node m b (Node a i l e g) =
     (case i of None \<Rightarrow> e \<noteq> Tip \<and> stored m b (BLOB e)
      | Some n \<Rightarrow> m b = 128 + n \<and> stored m (b + 1) (child_offsets (BLOB l) (BLOB e) (BLOB g))
                \<and> stored m (b + 1 + length (child_offsets (BLOB l) (BLOB e) (BLOB g))) (BLOB l @ BLOB e @ BLOB g))"

section \<open>Reading the offsets\<close>

definition offset_inf :: "(nat \<Rightarrow> u8) \<Rightarrow> nat \<Rightarrow> u8" where
  "offset_inf m q = (if m q < 32 then of_bool (bit (m q) 2) + of_bool (bit (m q) 1) + of_bool (bit (m q) 0) else 0)"

definition offset_eq :: "(nat \<Rightarrow> u8) \<Rightarrow> nat \<Rightarrow> u8" where
  "offset_eq m q = (if m q < 32 then offset_inf m q + (if bit (m q) 1 then m (q + 1) else 0) else 0)"

definition offset_sup :: "(nat \<Rightarrow> u8) \<Rightarrow> nat \<Rightarrow> u8" where
  "offset_sup m q = offset_eq m q + (if m q AND 3 \<noteq> 0 then m (q + (unat (offset_inf m q) - 1)) else 0)"

lemma walk_unfold:
  "walk m c b =
     (let q = (if c \<noteq> m b \<and> 128 \<le> m (b + 1) then b + 2 else b + 1)
      in if c = m b then
           Some (m b, if m q < 32 \<and> bit (m q) 1 then q + unat (offset_eq m q) else q, m q < 32 \<longrightarrow> bit (m q) 1)
         else if c < m b then
           if m q < 32 \<and> bit (m q) 0 then walk m c (q + unat (offset_inf m q)) else Some (m b, q, False)
         else if m q < 32 \<and> bit (m q) 2 then walk m c (q + unat (offset_sup m q)) else Some (m b, q, False))"
  by (subst walk.simps) (simp add: Let_def offset_inf_def offset_eq_def offset_sup_def)

lemma BLOB_first: "t \<noteq> Tip \<Longrightarrow> readable t \<Longrightarrow> stored m b (BLOB t) \<Longrightarrow> 32 \<le> m b \<and> m b < 128"
  by (cases t) auto

lemma small_sums:
  fixes n :: nat
  shows "n + 3 = Suc (Suc (Suc n))" "3 + n = Suc (Suc (Suc n))"
    and "n + 4 = Suc (Suc (Suc (Suc n)))" "4 + n = Suc (Suc (Suc (Suc n)))"
    and "n + 5 = Suc (Suc (Suc (Suc (Suc n))))" "5 + n = Suc (Suc (Suc (Suc (Suc n))))"
    and "n + 6 = Suc (Suc (Suc (Suc (Suc (Suc n)))))" "6 + n = Suc (Suc (Suc (Suc (Suc (Suc n)))))"
  by simp_all

lemma unat_add_length:
  "k + n < 256 \<Longrightarrow> unat (of_nat k + of_nat n :: u8) = k + n"
  by (simp add: unat_of_nat flip: of_nat_add)

text \<open>What the header of the children says: which there are, and where each begins.\<close>

definition children_at :: "(nat \<Rightarrow> u8) \<Rightarrow> nat \<Rightarrow> u8 list \<Rightarrow> u8 list \<Rightarrow> u8 list \<Rightarrow> bool" where
  "children_at m q bl be bg \<longleftrightarrow>
     stored m q (child_offsets bl be bg @ bl @ be @ bg) \<and> (be \<noteq> [] \<longrightarrow> \<not> hd be < 32)
   \<and> (bg \<noteq> [] \<and> be \<noteq> [] \<longrightarrow> bl \<noteq> []) \<and> (bg \<noteq> [] \<or> bl \<noteq> [] \<longrightarrow> length bl + length be \<le> 252)"

lemma flags_read: "children_at m q bl be bg \<Longrightarrow> m q < 32 \<longleftrightarrow> \<not> (bl = [] \<and> be \<noteq> [] \<and> bg = [])"
  by (auto simp: children_at_def child_offsets_def neq_Nil_conv split: if_split_asm)

lemma flag_bits:
  assumes "children_at m q bl be bg" "m q < 32"
  shows "bit (m q) 0 \<longleftrightarrow> bl \<noteq> []" "bit (m q) 1 \<longleftrightarrow> be \<noteq> []" "bit (m q) 2 \<longleftrightarrow> bg \<noteq> []"
  using assms by (auto simp: children_at_def child_offsets_def neq_Nil_conv split: if_split_asm)

lemma inf_read: "children_at m q bl be bg \<Longrightarrow> bl \<noteq> [] \<Longrightarrow> stored m (q + unat (offset_inf m q)) bl"
  by (auto simp: children_at_def child_offsets_def offset_inf_def neq_Nil_conv small_sums split: if_split_asm)

lemma eq_read: "children_at m q bl be bg \<Longrightarrow> be \<noteq> [] \<Longrightarrow> m q < 32 \<Longrightarrow> stored m (q + unat (offset_eq m q)) be"
  using unat_add_length [of 2 "length bl"] unat_add_length [of 3 "length bl"]
  by (auto simp: children_at_def child_offsets_def offset_eq_def offset_inf_def neq_Nil_conv add.assoc small_sums
    split: if_split_asm)

lemma sup_read:
  assumes "children_at m q bl be bg" "bg \<noteq> []"
  shows "stored m (q + unat (offset_sup m q)) bg"
proof -
  consider "bl = []" "be = []" | "bl \<noteq> []" "be = []" | "bl \<noteq> []" "be \<noteq> []"
    using assms by (auto simp: children_at_def)
  then show ?thesis
  proof cases
    case 1
    then have "m q = 4" "stored m (q + 1) bg" using assms by (simp_all add: children_at_def child_offsets_def)
    then show ?thesis by (simp add: offset_sup_def offset_eq_def offset_inf_def)
  next
    case 2
    then have "m q = 5" "m (q + 1) = of_nat (length bl)" "stored m (q + (2 + length bl)) bg" "2 + length bl < 256"
      using assms by (simp_all add: children_at_def child_offsets_def add.assoc)
    then show ?thesis using unat_add_length [of 2 "length bl"] by (simp add: offset_sup_def offset_eq_def offset_inf_def)
  next
    case 3
    then have "m q = 7" "m (q + 1) = of_nat (length bl)" "m (q + 2) = of_nat (length be)"
      "stored m (q + (3 + (length bl + length be))) bg" "3 + (length bl + length be) < 256"
      using assms by (simp_all add: children_at_def child_offsets_def small_sums add.assoc)
    then show ?thesis using unat_add_length [of 3 "length bl + length be"]
      by (simp add: offset_sup_def offset_eq_def offset_inf_def add.assoc)
  qed
qed

lemma node_children:
  assumes "readable (Node a i l e g)" "stored m q (child_offsets (BLOB l) (BLOB e) (BLOB g) @ BLOB l @ BLOB e @ BLOB g)"
  shows "children_at m q (BLOB l) (BLOB e) (BLOB g)"
proof -
  have "\<not> hd (BLOB e) < 32" if "e \<noteq> Tip" using that assms(1) by (cases e) auto
  then show ?thesis using assms by (auto simp: children_at_def)
qed

section \<open>The walk is the search\<close>

lemma flags_no_reference:
  assumes "readable (Node a i l e g)" "children_at m q (BLOB l) (BLOB e) (BLOB g)"
  shows "m q < 128"
proof (cases "m q < 32")
  case True
  then show ?thesis by (simp add: word_less_nat_alt)
next
  case False
  then have none: "l = Tip" "e \<noteq> Tip" "g = Tip" using flags_read [OF assms(2)] by auto
  then have "stored m q (BLOB e)" using assms(2) by (simp add: children_at_def child_offsets_def)
  then show ?thesis using BLOB_first [of e m q] none assms(1) by simp
qed

lemma walk_found:
  assumes "readable (Node a i l e g)" "stored m b (BLOB (Node a i l e g))"
  shows "\<exists>b'. walk m a b = Some (a, b', True) \<and> at_node m b' (Node a i l e g)"
proof (cases i)
  case None
  have here: "m b = a" and q: "children_at m (b + 1) (BLOB l) (BLOB e) (BLOB g)" and e: "e \<noteq> Tip"
    using assms None node_children [OF assms(1), of m "b + 1"] by simp_all
  have "stored m (b + 1) (BLOB e)" if "\<not> m (b + 1) < 32"
    using that flags_read [OF q] q by (auto simp: children_at_def child_offsets_def)
  then show ?thesis
    using here e None flag_bits(2) [OF q] eq_read [OF q] by (subst walk_unfold) (simp add: Let_def)
next
  case (Some n)
  then have "\<not> m (b + 1) < 32" using assms by (auto simp: word_less_nat_alt unat_plus_if' word_le_nat_alt)
  then show ?thesis using assms Some by (subst walk_unfold) (simp add: Let_def)
qed

lemma walk_skips:
  assumes "readable (Node a i l e g)" "stored m b (BLOB (Node a i l e g))" "c \<noteq> a"
  shows "\<exists>q. children_at m q (BLOB l) (BLOB e) (BLOB g) \<and>
    walk m c b = (if c < a then if l \<noteq> Tip then walk m c (q + unat (offset_inf m q)) else Some (a, q, False)
      else if g \<noteq> Tip then walk m c (q + unat (offset_sup m q)) else Some (a, q, False))"
proof -
  define q where "q = (if 128 \<le> m (b + 1) then b + 2 else b + 1)"
  have here: "m b = a" using assms(2) by simp
  have q: "children_at m q (BLOB l) (BLOB e) (BLOB g)"
  proof (cases i)
    case None
    then have "children_at m (b + 1) (BLOB l) (BLOB e) (BLOB g)" using assms(2) node_children [OF assms(1), of m "b + 1"] by simp
    then show ?thesis using flags_no_reference [OF assms(1)] by (metis q_def not_le)
  next
    case (Some n)
    then have "128 \<le> m (b + 1)" using assms(1,2) by (auto simp: word_le_nat_alt word_less_nat_alt unat_plus_if')
    then show ?thesis using Some assms(2) node_children [OF assms(1), of m "b + 2"] by (simp add: q_def)
  qed
  have start: "(if c \<noteq> a \<and> 128 \<le> m (b + 1) then b + 2 else b + 1) = q" using assms(3) by (simp add: q_def)
  have "(m q < 32 \<and> bit (m q) 0 \<longleftrightarrow> l \<noteq> Tip) \<and> (m q < 32 \<and> bit (m q) 2 \<longleftrightarrow> g \<noteq> Tip)"
    using flags_read [OF q] flag_bits(1,3) [OF q] by auto
  then have "walk m c b = (if c < a then if l \<noteq> Tip then walk m c (q + unat (offset_inf m q)) else Some (a, q, False)
      else if g \<noteq> Tip then walk m c (q + unat (offset_sup m q)) else Some (a, q, False))"
    using here assms(3) start by (subst walk_unfold) (simp add: Let_def)
  with q show ?thesis by blast
qed

lemma walk_find:
  assumes "readable t" "t \<noteq> Tip" "stored m b (BLOB t)"
  shows "\<exists>cur b'. walk m c b = Some (cur, b', find_letter t c \<noteq> Tip)
    \<and> (find_letter t c \<noteq> Tip \<longrightarrow> cur = c \<and> at_node m b' (find_letter t c))"
  using assms
proof (induction t arbitrary: b)
  case (Node a i l e g)
  show ?case
  proof (cases "c = a")
    case True
    then show ?thesis using walk_found [OF Node.prems(1,3)] by auto
  next
    case False
    obtain q where q: "children_at m q (BLOB l) (BLOB e) (BLOB g)"
      and w: "walk m c b = (if c < a then if l \<noteq> Tip then walk m c (q + unat (offset_inf m q)) else Some (a, q, False)
      else if g \<noteq> Tip then walk m c (q + unat (offset_sup m q)) else Some (a, q, False))"
      using walk_skips [OF Node.prems(1,3) False] by blast
    show ?thesis
    proof (cases "c < a")
      case True
      then show ?thesis using w Node.IH(1) [of "q + unat (offset_inf m q)"] inf_read [OF q] Node.prems(1) False by (cases "l = Tip") auto
    next
      case ge: False
      then show ?thesis using w Node.IH(3) [of "q + unat (offset_sup m q)"] sup_read [OF q] Node.prems(1) False by (cases "g = Tip") auto
    qed
  qed
qed simp

section \<open>The words of a tree\<close>

text \<open>
  The specification of the search: the word is followed letter by letter, from a node to its tree \<open>=\<close>. It agrees with
  the association list of the words of the tree if the trees \<open><\<close> and \<open>>\<close> hold the smaller and the greater letters.
\<close>

fun lookup :: "word_tree \<Rightarrow> u8 list \<Rightarrow> u8 option" where
  "lookup t [] = None"
| "lookup t (c # w) =
     (case find_letter t c of Tip \<Rightarrow> None | Node a i l e g \<Rightarrow> if w = [] then i else lookup e w)"

fun words :: "word_tree \<Rightarrow> (u8 list \<times> u8) list" where
  "words Tip = []"
| "words (Node a i l e g) =
     words l @ (case i of None \<Rightarrow> [] | Some n \<Rightarrow> [([a], n)]) @ map (\<lambda>(w, n). (a # w, n)) (words e) @ words g"

fun letters :: "word_tree \<Rightarrow> u8 list" where
  "letters Tip = []"
| "letters (Node a i l e g) = letters l @ a # letters g"

fun ordered :: "word_tree \<Rightarrow> bool" where
  "ordered Tip = True"
| "ordered (Node a i l e g) \<longleftrightarrow>
     (\<forall>x \<in> set (letters l). x < a) \<and> (\<forall>x \<in> set (letters g). a < x) \<and> ordered l \<and> ordered e \<and> ordered g"

lemma find_letter_cases:
  "find_letter t c = Tip \<or> (\<exists>i l e g. find_letter t c = Node c i l e g)"
  by (induction t) auto

lemma words_not_Nil: "([], n) \<notin> set (words t)"
  by (induction t) (auto split: option.splits)

lemma words_first: "(c # w, n) \<in> set (words t) \<Longrightarrow> c \<in> set (letters t)"
  by (induction t) (auto split: option.splits)

lemma map_of_prefixed: "map_of (map (\<lambda>(w, n). (a # w, n)) ws) (c # w) = (if c = a then map_of ws w else None)"
  by (induction ws) auto

lemma map_of_first: "c \<notin> set (letters t) \<Longrightarrow> map_of (words t) (c # w) = None"
  using words_first by (fastforce simp: map_of_eq_None_iff)

lemma map_of_words_Nil: "map_of (words t) [] = None"
  using words_not_Nil by (fastforce simp: map_of_eq_None_iff)

lemma words_found:
  assumes "ordered t"
  shows "map_of (words t) (c # w) =
    (case find_letter t c of Tip \<Rightarrow> None | Node a i l e g \<Rightarrow> if w = [] then i else map_of (words e) w)"
  using assms
proof (induction t)
  case (Node a i l e g)
  have lo: "map_of (words l) (c # w) = None" if "\<not> c < a" using that Node.prems by (intro map_of_first) auto
  have hi: "map_of (words g) (c # w) = None" if "\<not> a < c" using that Node.prems by (intro map_of_first) auto
  show ?case
    using Node lo hi map_of_words_Nil [of e]
    by (cases "c = a"; cases "c < a") (auto simp: map_add_def map_of_prefixed split: option.splits)
qed simp

lemma lookup_words: "ordered t \<Longrightarrow> lookup t w = map_of (words t) w"
proof (induction w arbitrary: t)
  case (Cons c w)
  have "ordered (find_letter t c)" using Cons.prems by (induction t) auto
  then show ?case using Cons words_found [OF Cons.prems, of c w] by (cases "find_letter t c") auto
qed (simp add: map_of_words_Nil)

end
