(* ===== verification/Gen_Blob.thy ===== *)
theory Gen_Blob
  imports Word_Tree "HOL-Library.List_Lexorder"
begin

text \<open>
  The generator of the trees of words, \<open>tools/GenBlob.py\<close>: the sorted words are put into a tree of letters one after
  the other (\<open>buildTree\<close>), whose lists of children are then made into balanced ternary trees
  (\<open>toTernaryTree\<close>). The two compactions of the tool join chains of nodes, which does not change the octets that are written, and
  are left out. \<open>gen_tree_finds_words\<close>: what is generated can be read by the parser, if the
  offsets fit an octet, and has exactly the words of the list, each with its place as the reference.
\<close>

section \<open>The tree of letters\<close>

datatype trie = Branch (letter: u8) (reference: "u8 option") (childs: "trie list")

fun add_symbol :: "trie list \<Rightarrow> u8 list \<Rightarrow> u8 \<Rightarrow> trie list" where
  "add_symbol ts [] n = ts"
| "add_symbol [] (c # w) n = [Branch c (if w = [] then Some n else None) (add_symbol [] w n)]"
| "add_symbol (Branch a i cs # ts) (c # w) n =
     (if a = c then Branch a (if w = [] then Some n else i) (add_symbol cs w n) # ts
      else Branch a i cs # add_symbol ts (c # w) n)"

definition buildTree :: "(u8 list \<times> u8) list \<Rightarrow> trie list" where
  "buildTree ws = fold (\<lambda>(w, n) ts. add_symbol ts w n) ws []"

lemma size_parts:
  assumes "drop k ts = Branch a i cs # behind"
  shows "size_list size (take k ts) < size_list size ts" "size_list size cs < size_list size ts"
    "size_list size behind < size_list size ts"
proof -
  have "size_list size ts = size_list size (take k ts @ Branch a i cs # behind)" using assms by (metis append_take_drop_id)
  moreover have "size_list size (xs @ Branch a i cs # behind) = size_list size xs + size_list size cs + size_list size behind + 2" for xs
    by (induction xs) auto
  ultimately show "size_list size (take k ts) < size_list size ts" "size_list size cs < size_list size ts"
    "size_list size behind < size_list size ts" by simp_all
qed

text \<open>The child in the middle is the node; those before it are its tree \<open><\<close>, those behind it its tree \<open>>\<close>.\<close>

function toTernaryTree :: "trie list \<Rightarrow> word_tree" where
  "toTernaryTree ts =
    (case drop (length ts div 2) ts of
       [] \<Rightarrow> Tip
     | Branch a i cs # behind \<Rightarrow>
         Node a i (toTernaryTree (take (length ts div 2) ts)) (toTernaryTree cs) (toTernaryTree behind))"
  by auto
termination
  by (relation "measure (size_list size)") (auto dest: size_parts)

declare toTernaryTree.simps [simp del]

text \<open>The reference of a word is its place in the list that is not sorted.\<close>

definition genBlobTree :: "u8 list list \<Rightarrow> word_tree" where
  "genBlobTree ws = toTernaryTree (buildTree (sort_key fst (zip ws (map of_nat [0..<length ws]))))"

section \<open>Its words\<close>

fun trie_words :: "trie list \<Rightarrow> (u8 list \<times> u8) list" where
  "trie_words [] = []"
| "trie_words (Branch a i cs # ts) =
     (case i of None \<Rightarrow> [] | Some n \<Rightarrow> [([a], n)]) @ map (\<lambda>(w, n). (a # w, n)) (trie_words cs) @ trie_words ts"

text \<open>Strictly ascending letters, and a word at the end of every path.\<close>

fun strict :: "trie list \<Rightarrow> bool" where
  "strict [] = True"
| "strict (Branch a i cs # ts) \<longleftrightarrow>
     (i \<noteq> None \<or> cs \<noteq> []) \<and> (\<forall>t \<in> set ts. a < letter t) \<and> strict cs \<and> strict ts"

lemma trie_words_child: "(w, n) \<in> set (trie_words cs) \<Longrightarrow> (a # w, n) \<in> set (trie_words (Branch a i cs # ts))"
  by force

lemma strict_words: "strict ts \<Longrightarrow> ts \<noteq> [] \<Longrightarrow> \<exists>w n. (letter (hd ts) # w, n) \<in> set (trie_words ts)"
proof (induction ts rule: trie_words.induct)
  case (2 a i cs ts)
  show ?case
  proof (cases i)
    case None
    then have "cs \<noteq> []" "strict cs" using 2(3) by auto
    then obtain w n where "(letter (hd cs) # w, n) \<in> set (trie_words cs)" using 2(1) by blast
    then have "(a # letter (hd cs) # w, n) \<in> set (trie_words (Branch a i cs # ts))" by (rule trie_words_child)
    then show ?thesis unfolding list.sel(1) trie.sel(1) by blast
  qed auto
qed simp

lemma trie_words_not_Nil: "([], n) \<notin> set (trie_words ts)"
  by (induction ts rule: trie_words.induct) (auto split: option.splits)

lemma letters_add_symbol: "t \<in> set (add_symbol ts (c # w) n) \<Longrightarrow> letter t = c \<or> letter t \<in> letter ` set ts"
  by (induction ts "c # w" n rule: add_symbol.induct) (auto split: if_split_asm)

lemma add_symbol_single: "w \<noteq> [] \<Longrightarrow> trie_words (add_symbol [] w n) = [(w, n)] \<and> strict (add_symbol [] w n) \<and> add_symbol [] w n \<noteq> []"
  by (induction w) (auto simp: neq_Nil_conv)

lemma add_symbol_last:
  assumes "strict ts" "\<forall>(v, m) \<in> set (trie_words ts). v < w" "w \<noteq> []"
  shows "strict (add_symbol ts w n) \<and> trie_words (add_symbol ts w n) = trie_words ts @ [(w, n)] \<and> add_symbol ts w n \<noteq> []"
  using assms
proof (induction ts w n rule: add_symbol.induct)
  case (2 c w n)
  then show ?case using add_symbol_single [of "c # w" n] by simp
next
  case (3 a i cs ts c w n)
  have "\<exists>v m. (a # v, m) \<in> set (trie_words (Branch a i cs # ts))" using strict_words [OF "3.prems"(1)] by simp
  then obtain v where first: "a # v < c # w" using "3.prems"(2) by fast
  show ?case
  proof (cases "a = c")
    case True
    have "ts = []"
    proof (rule ccontr)
      assume "ts \<noteq> []"
      then obtain u m where "(letter (hd ts) # u, m) \<in> set (trie_words ts)" "a < letter (hd ts)"
        using strict_words [of ts] "3.prems"(1) by auto
      then have "letter (hd ts) # u < c # w" using "3.prems"(2) by fastforce
      then show False using True \<open>a < letter (hd ts)\<close> by auto
    qed
    moreover have "w \<noteq> []" using first True by auto
    moreover have "v < w" if "(v, m) \<in> set (trie_words cs)" for v m
    proof -
      have "(a # v, m) \<in> set (trie_words (Branch a i cs # ts))" using that by (rule trie_words_child)
      then have "a # v < c # w" using "3.prems"(2) by fast
      then show ?thesis using True by simp
    qed
    ultimately have "ts = []" "w \<noteq> []" "\<forall>(v, m) \<in> set (trie_words cs). v < w" by blast+
    moreover from this have "strict (add_symbol cs w n) \<and> trie_words (add_symbol cs w n) = trie_words cs @ [(w, n)]
        \<and> add_symbol cs w n \<noteq> []"
      using "3.IH"(1) [OF True] "3.prems"(1) by simp
    ultimately show ?thesis using True "3.prems"(1) by simp
  next
    case False
    then have "a < c" using first by auto
    moreover have "strict (add_symbol ts (c # w) n) \<and> trie_words (add_symbol ts (c # w) n) = trie_words ts @ [(c # w, n)]
        \<and> add_symbol ts (c # w) n \<noteq> []"
      using "3.IH"(2) "3.prems" False by auto
    ultimately show ?thesis using letters_add_symbol [of _ ts c w n] "3.prems"(1) False by fastforce
  qed
qed simp

lemma buildTree_words:
  assumes "sorted (map fst ws)" "distinct (map fst ws)" "[] \<notin> fst ` set ws"
  shows "strict (buildTree ws) \<and> trie_words (buildTree ws) = ws"
  using assms
proof (induction ws rule: rev_induct)
  case (snoc x ws)
  have "v < fst x" if "(v, m) \<in> set ws" for v m
  proof -
    have "v \<in> fst ` set ws" using that by force
    moreover have "fst x \<notin> fst ` set ws" "\<forall>v \<in> fst ` set ws. v \<le> fst x" using snoc.prems(1,2) by (auto simp: sorted_append)
    ultimately have "v \<le> fst x" "v \<noteq> fst x" by (blast, metis)
    then show ?thesis by simp
  qed
  moreover have "strict (buildTree ws) \<and> trie_words (buildTree ws) = ws" using snoc by (simp add: sorted_append)
  moreover have "buildTree (ws @ [x]) = add_symbol (buildTree ws) (fst x) (snd x)" by (simp add: buildTree_def split_beta)
  ultimately show ?case using snoc.prems(3) add_symbol_last [of "buildTree ws" "fst x" "snd x"] by fastforce
qed (simp add: buildTree_def)

lemma toTernaryTree_cases:
  obtains "ts = []" "toTernaryTree ts = Tip"
  | inf a i cs behind where "ts = inf @ Branch a i cs # behind" "behind \<noteq> [] \<Longrightarrow> inf \<noteq> []"
      "toTernaryTree ts = Node a i (toTernaryTree inf) (toTernaryTree cs) (toTernaryTree behind)"
proof (cases "drop (length ts div 2) ts")
  case Nil
  then have "ts = []" by (cases ts) auto
  then show thesis using that(1) by (simp add: toTernaryTree.simps)
next
  case (Cons b behind)
  obtain a i cs where b: "b = Branch a i cs" by (cases b)
  have "take (length ts div 2) ts \<noteq> []" if "behind \<noteq> []"
  proof -
    have "length (drop (length ts div 2) ts) \<ge> 2" using that Cons by (cases behind) auto
    then show ?thesis by auto
  qed
  moreover have "ts = take (length ts div 2) ts @ Branch a i cs # behind" using Cons b by (metis append_take_drop_id)
  moreover have "toTernaryTree ts = Node a i (toTernaryTree (take (length ts div 2) ts)) (toTernaryTree cs) (toTernaryTree behind)"
    using Cons b by (subst toTernaryTree.simps) simp
  ultimately show thesis using that(2) by blast
qed

section \<open>The ternary tree\<close>

lemma ternary_words: "words (toTernaryTree ts) = trie_words ts"
proof (induction ts rule: measure_induct_rule [where f = "size_list size"])
  case (less ts)
  show ?case
  proof (cases ts rule: toTernaryTree_cases)
    case (2 inf a i cs behind)
    then have "drop (length inf) ts = Branch a i cs # behind" "take (length inf) ts = inf" by simp_all
    then have "words (toTernaryTree inf) = trie_words inf" "words (toTernaryTree cs) = trie_words cs"
      "words (toTernaryTree behind) = trie_words behind" using less size_parts by metis+
    moreover have "trie_words (inf @ xs) = trie_words inf @ trie_words xs" for xs
      by (induction inf rule: trie_words.induct) auto
    ultimately show ?thesis using 2 by simp
  qed simp
qed

lemma ternary_Tip [simp]: "toTernaryTree ts = Tip \<longleftrightarrow> ts = []"
  by (cases ts rule: toTernaryTree_cases) auto

lemma strict_append:
  "strict (xs @ ys) \<longleftrightarrow> strict xs \<and> strict ys \<and> (\<forall>x \<in> set xs. \<forall>y \<in> set ys. letter x < letter y)"
  by (induction xs rule: trie_words.induct) auto

lemma ternary_letters: "set (letters (toTernaryTree ts)) = letter ` set ts"
proof (induction ts rule: measure_induct_rule [where f = "size_list size"])
  case (less ts)
  show ?case
  proof (cases ts rule: toTernaryTree_cases)
    case (2 inf a i cs behind)
    then have "drop (length inf) ts = Branch a i cs # behind" "take (length inf) ts = inf" by simp_all
    then have "set (letters (toTernaryTree inf)) = letter ` set inf"
      "set (letters (toTernaryTree behind)) = letter ` set behind" using less size_parts by metis+
    then show ?thesis using 2 by auto
  qed (simp add: toTernaryTree.simps)
qed

text \<open>The sizes that the offsets of an octet can hold.\<close>

fun fits :: "word_tree \<Rightarrow> bool" where
  "fits Tip = True"
| "fits (Node a i l e g) \<longleftrightarrow> (g \<noteq> Tip \<or> l \<noteq> Tip \<longrightarrow> length (BLOB l) + length (BLOB e) \<le> 252)
     \<and> fits l \<and> fits e \<and> fits g"

definition plain_word :: "u8 list \<times> u8 \<Rightarrow> bool" where
  "plain_word x \<longleftrightarrow> snd x < 128 \<and> (\<forall>c \<in> set (fst x). 32 \<le> c \<and> c < 128)"

lemma ternary_ordered_readable:
  assumes "strict ts" "\<forall>x \<in> set (trie_words ts). plain_word x" "fits (toTernaryTree ts)"
  shows "ordered (toTernaryTree ts) \<and> readable (toTernaryTree ts)"
  using assms
proof (induction ts rule: measure_induct_rule [where f = "size_list size"])
  case (less ts)
  show ?case
  proof (cases ts rule: toTernaryTree_cases)
    case (2 inf a i cs behind)
    have size: "drop (length inf) ts = Branch a i cs # behind" "take (length inf) ts = inf" using 2 by simp_all
    have st: "strict inf" "strict cs" "strict behind" "i \<noteq> None \<or> cs \<noteq> []"
      "\<forall>x \<in> set inf. letter x < a" "\<forall>x \<in> set behind. a < letter x"
      using less.prems(1) 2(1) by (auto simp: strict_append)
    have split: "trie_words (inf @ xs) = trie_words inf @ trie_words xs" for xs
      by (induction inf rule: trie_words.induct) auto
    have all_ws: "\<forall>x \<in> set (trie_words inf) \<union> set (trie_words (Branch a i cs # behind)). plain_word x"
      using less.prems(2) 2(1) split by auto
    have in_ws: "\<forall>x \<in> set (trie_words inf). plain_word x" "\<forall>x \<in> set (trie_words behind). plain_word x"
      using all_ws by simp_all
    have cs_ws: "plain_word (w, n)" if "(w, n) \<in> set (trie_words cs)" for w n
    proof -
      have "plain_word (a # w, n)" using all_ws trie_words_child [OF that] by blast
      then show ?thesis by (simp add: plain_word_def)
    qed
    have ft: "fits (toTernaryTree inf)" "fits (toTernaryTree cs)" "fits (toTernaryTree behind)"
      "behind \<noteq> [] \<or> inf \<noteq> [] \<longrightarrow> length (BLOB (toTernaryTree inf)) + length (BLOB (toTernaryTree cs)) \<le> 252"
      using less.prems(3) 2 by simp_all
    have sizes: "size_list size inf < size_list size ts" "size_list size cs < size_list size ts"
      "size_list size behind < size_list size ts" using size_parts [OF size(1)] size(2) by auto
    have "ordered (toTernaryTree inf) \<and> readable (toTernaryTree inf)" by (rule less.IH [OF sizes(1) st(1) in_ws(1) ft(1)])
    moreover have "ordered (toTernaryTree cs) \<and> readable (toTernaryTree cs)"
      using less.IH [OF sizes(2) st(2) _ ft(2)] cs_ws by fast
    moreover have "ordered (toTernaryTree behind) \<and> readable (toTernaryTree behind)"
      by (rule less.IH [OF sizes(3) st(3) in_ws(2) ft(3)])
    moreover have "32 \<le> a \<and> a < 128"
    proof -
      obtain w n where "(a # w, n) \<in> set (trie_words (Branch a i cs # behind))"
        using strict_words [of "Branch a i cs # behind"] less.prems(1) [unfolded 2(1) strict_append]
        unfolding list.sel(1) trie.sel(1) by blast
      then show ?thesis using all_ws by (force simp: plain_word_def)
    qed
    moreover have "n < 128" if "i = Some n" for n using that all_ws by (force simp: plain_word_def)
    ultimately show ?thesis using 2 st ft(4) by (auto simp: ternary_letters split: option.split)
  qed (simp add: toTernaryTree.simps)
qed

lemma gen_tree_finds_words:
  assumes "distinct ws" and "[] \<notin> set ws" and "length ws \<le> 128" and "\<forall>w \<in> set ws. \<forall>c \<in> set w. 32 \<le> c \<and> c < 128"
    and "fits (genBlobTree ws)"
  shows "readable (genBlobTree ws) \<and> ordered (genBlobTree ws)
    \<and> map_of (words (genBlobTree ws)) = map_of (zip ws (map of_nat [0..<length ws]))"
proof -
  let ?s = "sort_key fst (zip ws (map of_nat [0..<length ws] :: u8 list))"
  have "distinct (map fst (zip ws (map of_nat [0..<length ws] :: u8 list)))" using assms(1) by simp
  then have dist: "distinct (map fst ?s)" unfolding distinct_map set_sort distinct_sort .
  have "[] \<notin> fst ` set ?s" using assms(2) by (auto dest: set_zip_leftD)
  then have b: "strict (buildTree ?s)" "trie_words (buildTree ?s) = ?s" using buildTree_words [of ?s] dist by auto
  have "plain_word x" if "x \<in> set ?s" for x
    using that assms(3,4) by (auto simp: plain_word_def set_zip word_less_nat_alt unat_of_nat)
  then have "ordered (genBlobTree ws) \<and> readable (genBlobTree ws)"
    using ternary_ordered_readable [OF b(1)] b(2) assms(5) by (auto simp: genBlobTree_def)
  moreover have "map_of ?s = map_of (zip ws (map of_nat [0..<length ws]))"
    using assms(1) dist by (subst map_of_inject_set) simp_all
  ultimately show ?thesis using b(2) by (simp add: genBlobTree_def ternary_words)
qed

end
