(* ===== verification/Url_Request.thy ===== *)
theory Url_Request
  imports Gen_Blob
begin

text \<open>
  The first line of a request in the loop of \<open>smews_receive\<close>: the method and the URL are looked up in the trees of the build, one
  octet of the segment at a time. \<open>request_line_finds_resource\<close> is about the whole line, over
  the loop \<open>parse_loop\<close> of the theory \<open>Request\<close>; it rests on the refinement of \<open>Word_Tree\<close>.
\<close>

section \<open>The parser in a word\<close>

text \<open>Neither arguments nor POST data have been met, and no handler is chosen.\<close>

definition plain :: "parsing_state \<Rightarrow> rx \<Rightarrow> bool" where
  "plain s r \<longleftrightarrow> parsing_state (hc r) = s \<and> post_data (hc r) = None \<and> arg_ref_index (hc r) = 128
     \<and> args (hc r) = None \<and> rx_handler r = None \<and> \<not> returned r"

definition consumed :: "u8 list \<Rightarrow> rx \<Rightarrow> rx \<Rightarrow> bool" where
  "consumed w r r' \<longleftrightarrow> dev_in (kern r) = w @ dev_in (kern r') \<and> rx_x r' = rx_x r + of_nat (length w)
     \<and> seg_len r' = seg_len r"

lemma consumed_Nil [simp]: "consumed [] r r"
  by (simp add: consumed_def)

lemma consumed_trans: "consumed v r r' \<Longrightarrow> consumed w r' r'' \<Longrightarrow> consumed (v @ w) r r''"
  by (simp add: consumed_def)

definition fetched :: "site \<Rightarrow> u8 \<Rightarrow> rx \<Rightarrow> rx" where
  "fetched st c r = r\<lparr>rx_curr := rom (blobs st) (rx_blob r), rx_x := rx_x r + 1, rx_char := c,
     kern := (kern r)\<lparr>dev_in := tl (dev_in (kern r)), chk := checksum_add c (chk (kern r))\<rparr>\<rparr>"

lemma parse_fetch_plain:
  assumes "plain s r" "s = parsing_cmd \<or> s = parsing_url" "dev_in (kern r) = c # cs"
  shows "parse_fetch st r = Some (Go, fetched st c r)"
  using assms(2)
proof
  assume "s = parsing_cmd"
  then show ?thesis using assms(1,3) by (simp add: parse_fetch_def plain_def counting_def DEV_GETC_def dev_get_def fetched_def Let_def)
next
  assume "s = parsing_url"
  then show ?thesis using assms(1,3) by (simp add: parse_fetch_def plain_def counting_def DEV_GETC_def dev_get_def fetched_def Let_def)
qed

lemma fetched_fields:
  assumes "dev_in (kern r) = c # cs"
  shows "plain s (fetched st c r) \<longleftrightarrow> plain s r" "consumed [c] r (fetched st c r)"
    "rx_char (fetched st c r) = c" "rx_blob (fetched st c r) = rx_blob r"
    "rx_curr (fetched st c r) = rom (blobs st) (rx_blob r)"
  using assms by (simp_all add: fetched_def plain_def consumed_def)

lemma steps_go: "f r = Some (Go, r') \<Longrightarrow> \<not> returned r' \<Longrightarrow> steps (f # fs) r = steps fs r'"
  by simp

lemma steps_last: "steps [f] r = f r"
  by (cases "f r") auto

text \<open>A step is the reading of an octet, what a reference in the tree demands, and the walk.\<close>

lemma parse_step_plain:
  assumes "plain s r" "s = parsing_cmd \<or> s = parsing_url" "dev_in (kern r) = c # cs"
    and "parse_reference tg st ap (fetched st c r) = Some (Go, r')" and "plain s' r'" "s' = parsing_cmd \<or> s' = parsing_url"
  shows "parse_step tg st ap r = parse_walk st r'"
proof -
  have "plain s (fetched st c r)" using assms fetched_fields(1) by blast
  then have "parse_window st (fetched st c r) = Some (Go, fetched st c r)" "\<not> returned (fetched st c r)"
    using assms(2) by (auto simp: parse_window_def plain_def)
  moreover have "parse_line_end st r' = Some (Go, r')" "\<not> returned r'" "arg_ref_index (hc r') = 128"
    using assms(5,6) by (auto simp: parse_line_end_def plain_def)
  ultimately show ?thesis
    using assms(4) unfolding parse_step_def by (simp add: parse_fetch_plain [OF assms(1-3)] steps_go steps_last del: steps.simps)
qed

lemma parse_walk_plain:
  assumes "plain s r" "s = parsing_cmd \<or> s = parsing_url" "readable t" "t \<noteq> Tip" "stored (rom (blobs st)) (rx_blob r) (BLOB t)"
  shows "\<exists>r'. parse_walk st r = Some (Go, r') \<and> consumed [] r r' \<and>
     (if find_letter t (rx_char r) = Tip then rx_handler r' = Some Http_404 \<and> \<not> returned r'
      else plain s r' \<and> at_node (rom (blobs st)) (rx_blob r') (find_letter t (rx_char r)))"
proof -
  obtain cur b where w: "walk (rom (blobs st)) (rx_char r) (rx_blob r) = Some (cur, b, find_letter t (rx_char r) \<noteq> Tip)"
    "find_letter t (rx_char r) \<noteq> Tip \<longrightarrow> at_node (rom (blobs st)) b (find_letter t (rx_char r))"
    using walk_find [OF assms(3-5)] by blast
  have "parse_walk st r = Some (Go, let r = r\<lparr>rx_char := rx_char r, rx_curr := cur, rx_blob := b\<rparr>
      in if find_letter t (rx_char r) \<noteq> Tip then r else r\<lparr>rx_handler := Some Http_404\<rparr>)"
    using assms(1,2) w(1) by (elim disjE) (simp_all add: parse_walk_def plain_def Let_def)
  then show ?thesis using assms(1) w(2) by (simp add: Let_def plain_def consumed_def)
qed

lemma readable_found: "readable t \<Longrightarrow> readable (find_letter t c)"
  by (induction t) simp_all

text \<open>No reference: the octet is looked up in the tree at hand.\<close>

definition entered :: "site \<Rightarrow> parsing_state \<Rightarrow> word_tree \<Rightarrow> u8 \<Rightarrow> rx \<Rightarrow> (flow \<times> rx) option \<Rightarrow> bool" where
  "entered st s t c r x \<longleftrightarrow> (\<exists>r'. x = Some (Go, r') \<and> consumed [c] r r' \<and>
     (if find_letter t c = Tip then rx_handler r' = Some Http_404 \<and> \<not> returned r'
      else plain s r' \<and> at_node (rom (blobs st)) (rx_blob r') (find_letter t c)))"

lemma entered_walk:
  assumes "plain s r'" "s = parsing_cmd \<or> s = parsing_url" "readable t" "t \<noteq> Tip" "stored (rom (blobs st)) (rx_blob r') (BLOB t)"
    and "consumed [c] r r'" "rx_char r' = c"
  shows "entered st s t c r (parse_walk st r')"
proof -
  obtain r'' where r'': "parse_walk st r' = Some (Go, r'')" "consumed [] r' r''"
    "if find_letter t c = Tip then rx_handler r'' = Some Http_404 \<and> \<not> returned r''
     else plain s r'' \<and> at_node (rom (blobs st)) (rx_blob r'') (find_letter t c)"
    using parse_walk_plain [OF assms(1-5)] assms(7) by blast
  have "consumed [c] r r''" using consumed_trans [OF assms(6) r''(2)] by simp
  then show ?thesis using r'' by (auto simp: entered_def)
qed

lemma step_in_tree:
  assumes "plain s r" "s = parsing_cmd \<or> s = parsing_url" "dev_in (kern r) = c # cs"
    and "readable t" "t \<noteq> Tip" "stored (rom (blobs st)) (rx_blob r) (BLOB t)"
  shows "entered st s t c r (parse_step tg st ap r)"
proof -
  note f = fetched_fields [OF assms(3), where st = st]
  have "rx_curr (fetched st c r) < 128" using BLOB_first [OF assms(5,4,6)] f(5) by simp
  then have "parse_reference tg st ap (fetched st c r) = Some (Go, fetched st c r)" by (simp add: parse_reference_def)
  then have "parse_step tg st ap r = parse_walk st (fetched st c r)"
    using parse_step_plain [OF assms(1-3)] f(1) assms(1,2) by blast
  then show ?thesis
    using entered_walk [of s "fetched st c r" t st c r] assms f by simp
qed

text \<open>A reference in the tree of the methods: the parser goes on in the tree of the URLs.\<close>

lemma step_after_method:
  assumes "plain parsing_cmd r" "dev_in (kern r) = c # cs" "rom (blobs st) (rx_blob r) = 128 + n" "n < 128"
    and "n \<noteq> REQUEST_POST (blobs st)" "readable t" "t \<noteq> Tip" "stored (rom (blobs st)) (urls_tree (blobs st)) (BLOB t)"
  shows "entered st parsing_url t c r (parse_step tg st ap r)"
proof -
  define u where "u = (parse_state parsing_url (fetched st c r))\<lparr>rx_blob := urls_tree (blobs st)\<rparr>"
  define r' where "r' = u\<lparr>rx_curr := rom (blobs st) (rx_blob u)\<rparr>"
  note f = fetched_fields [OF assms(2), where st = st]
  have curr: "\<not> rx_curr (fetched st c r) < 128" "rx_curr (fetched st c r) \<noteq> REQUEST_POST (blobs st) + 128"
    using assms(3-5) f(5) by (auto simp: word_less_nat_alt unat_plus_if')
  have p: "plain parsing_cmd (fetched st c r)" using f(1) assms(1) by blast
  have "parse_reference tg st ap (fetched st c r) = Some (Go, r')"
    using curr p unfolding parse_reference_def
    by (simp add: parse_header_end_def parse_post_data_def parse_post_url_def parse_command_def plain_def parse_state_def u_def r'_def)
  moreover have pu: "plain parsing_url r'" using p by (simp add: r'_def u_def plain_def parse_state_def)
  ultimately have "parse_step tg st ap r = parse_walk st r'"
    using parse_step_plain [OF assms(1) _ assms(2)] by blast
  moreover have "consumed [c] r r'" "rx_char r' = c" "rx_blob r' = urls_tree (blobs st)"
    using f by (simp_all add: r'_def u_def consumed_def parse_state_def)
  ultimately show ?thesis
    using entered_walk [OF pu, of t st c r] assms by simp
qed

text \<open>A reference in the tree of the URLs that the word runs over: the parser goes on behind it.\<close>

lemma step_behind_reference:
  assumes "plain parsing_url r" "dev_in (kern r) = c # cs" "rom (blobs st) (rx_blob r) = 128 + n" "n < 127"
    and "c \<notin> {32, 38, 63}"
  shows "\<exists>r'. parse_step tg st ap r = parse_walk st r' \<and> plain parsing_url r' \<and> consumed [c] r r' \<and> rx_char r' = c
    \<and> rx_blob r' = rx_blob r + 1"
proof -
  define u where "u = (fetched st c r)\<lparr>rx_blob := rx_blob (fetched st c r) + 1\<rparr>"
  define r' where "r' = u\<lparr>rx_curr := rom (blobs st) (rx_blob u)\<rparr>"
  note f = fetched_fields [OF assms(2), where st = st]
  have curr: "\<not> rx_curr (fetched st c r) < 128" "rx_curr (fetched st c r) \<noteq> 255"
    using assms(3,4) f(5) by (auto simp: word_less_nat_alt unat_plus_if' word_unat_eq_iff)
  have p: "plain parsing_url (fetched st c r)" using f(1) assms(1) by blast
  have "parse_reference tg st ap (fetched st c r) = Some (Go, r')"
    using curr p assms(5) f(3) unfolding parse_reference_def
    by (simp add: parse_header_end_def parse_post_data_def parse_post_url_def parse_url_end_def plain_def u_def r'_def)
  moreover have pu: "plain parsing_url r'" using p by (simp add: r'_def u_def plain_def)
  ultimately have "parse_step tg st ap r = parse_walk st r'"
    using parse_step_plain [OF assms(1) _ assms(2)] by blast
  moreover have "consumed [c] r r'" "rx_char r' = c" "rx_blob r' = rx_blob r + 1"
    using f by (simp_all add: r'_def u_def consumed_def)
  ultimately show ?thesis using pu by blast
qed

lemma step_over_reference:
  assumes "plain parsing_url r" "dev_in (kern r) = c # cs" "rom (blobs st) (rx_blob r) = 128 + n" "n < 127"
    and "c \<notin> {32, 38, 63}" "readable t" "t \<noteq> Tip" "stored (rom (blobs st)) (rx_blob r + 1) (BLOB t)"
  shows "entered st parsing_url t c r (parse_step tg st ap r)"
  using step_behind_reference [OF assms(1-5)] entered_walk [of parsing_url _ t st c r] assms(6-8) by metis


section \<open>Whole words\<close>

text \<open>
  The words of a tree can run over the reference of a shorter word only in the URLs, if that node has nothing beside it,
  and not over the mark 255 of the URLs for POST.
\<close>

fun passable :: "parsing_state \<Rightarrow> word_tree \<Rightarrow> bool" where
  "passable s Tip = True"
| "passable s (Node a i l e g) \<longleftrightarrow>
     (i \<noteq> None \<and> e \<noteq> Tip \<longrightarrow> s = parsing_url \<and> l = Tip \<and> g = Tip \<and> i \<noteq> Some 127)
     \<and> passable s l \<and> passable s e \<and> passable s g"

lemma passable_found: "passable s t \<Longrightarrow> passable s (find_letter t c)"
  by (induction t) simp_all

definition reading :: "target \<Rightarrow> site \<Rightarrow> app \<Rightarrow> parsing_state \<Rightarrow> word_tree \<Rightarrow> rx \<Rightarrow> bool" where
  "reading tg st ap s t r \<longleftrightarrow> rx_handler r = None \<and> readable t \<and> passable s t \<and> (\<forall>c cs. dev_in (kern r) = c # cs \<longrightarrow>
     (s = parsing_url \<longrightarrow> c \<notin> {32, 38, 63}) \<longrightarrow> entered st s t c r (parse_step tg st ap r))"

definition room :: "rx \<Rightarrow> nat \<Rightarrow> bool" where
  "room r n \<longleftrightarrow> unat (rx_x r) + n \<le> unat (seg_len r)"

lemma room_consumed: "room r (length w + n) \<Longrightarrow> consumed w r r' \<Longrightarrow> room r' n"
  using unat_u16_lt [of "seg_len r"] by (auto simp: room_def consumed_def unat_plus_if' unat_of_nat)

lemma loop_go:
  assumes "rx_handler r = None" "room r (Suc n)" "parse_step tg st ap r = Some (Go, r')" "\<not> returned r'"
  shows "parse_loop tg st ap r = parse_loop tg st ap r'"
  using assms by (subst parse_loop.simps) (simp add: room_def word_less_nat_alt)

lemma reading_tree:
  assumes "plain s r" "s = parsing_cmd \<or> s = parsing_url" "readable t" "passable s t" "t \<noteq> Tip"
    and "stored (rom (blobs st)) (rx_blob r) (BLOB t)"
  shows "reading tg st ap s t r"
  using step_in_tree [OF assms(1,2)] assms by (auto simp: reading_def plain_def)

lemma reading_reference:
  assumes "plain parsing_url r" "rom (blobs st) (rx_blob r) = 128 + n" "n < 127" "readable t" "passable parsing_url t" "t \<noteq> Tip"
    and "stored (rom (blobs st)) (rx_blob r + 1) (BLOB t)"
  shows "reading tg st ap parsing_url t r"
  using step_over_reference [OF assms(1)] assms by (auto simp: reading_def plain_def)

lemma reading_after_method:
  assumes "plain parsing_cmd r" "rom (blobs st) (rx_blob r) = 128 + n" "n < 128" "n \<noteq> REQUEST_POST (blobs st)"
    and "readable t" "passable parsing_url t" "t \<noteq> Tip" "stored (rom (blobs st)) (urls_tree (blobs st)) (BLOB t)"
  shows "reading tg st ap parsing_url t r"
  using step_after_method [OF assms(1) _ assms(2-5,7,8)] assms by (auto simp: reading_def plain_def)

text \<open>After a letter the parser reads the tree \<open>=\<close> of the node, or has the reference of the word under it.\<close>

lemma reading_next:
  assumes "plain s r" "s = parsing_cmd \<or> s = parsing_url" "at_node (rom (blobs st)) (rx_blob r) (Node a i l e g)"
    and "readable (Node a i l e g)" "passable s (Node a i l e g)"
  shows "e \<noteq> Tip \<Longrightarrow> reading tg st ap s e r"
    and "i = Some n \<Longrightarrow> rom (blobs st) (rx_blob r) = 128 + n \<and> n < 128"
proof -
  assume e: "e \<noteq> Tip"
  show "reading tg st ap s e r"
  proof (cases i)
    case None
    then show ?thesis using assms e by (intro reading_tree) auto
  next
    case (Some n)
    then have "n < 127" using assms(4,5) e by (auto simp: word_less_nat_alt word_unat_eq_iff)
    moreover have alone: "s = parsing_url" "l = Tip" "g = Tip" using Some assms(5) e by auto
    moreover have "rom (blobs st) (rx_blob r) = 128 + n" "stored (rom (blobs st)) (rx_blob r + 1) (BLOB e)"
      using Some assms(3) e alone(2,3) by (simp_all add: child_offsets_def)
    ultimately show ?thesis using reading_reference assms(1,4,5) e by simp
  qed
next
  show "i = Some n \<Longrightarrow> rom (blobs st) (rx_blob r) = 128 + n \<and> n < 128" using assms(3,4) by auto
qed

text \<open>One octet of a word in the loop.\<close>

lemma loop_entered:
  assumes "reading tg st ap s t r" "dev_in (kern r) = c # cs" "s = parsing_url \<longrightarrow> c \<notin> {32, 38, 63}" "room r (Suc n)"
  obtains r' where "parse_loop tg st ap r = parse_loop tg st ap r'" "consumed [c] r r'" "room r' n"
    and "find_letter t c = Tip \<Longrightarrow> rx_handler r' = Some Http_404"
    and "find_letter t c \<noteq> Tip \<Longrightarrow> plain s r' \<and> at_node (rom (blobs st)) (rx_blob r') (find_letter t c)"
proof -
  obtain r' where r': "parse_step tg st ap r = Some (Go, r')" "consumed [c] r r'"
    "if find_letter t c = Tip then rx_handler r' = Some Http_404 \<and> \<not> returned r'
      else plain s r' \<and> at_node (rom (blobs st)) (rx_blob r') (find_letter t c)"
    using assms(1-3) by (auto simp: reading_def entered_def)
  have "\<not> returned r'" using r'(3) by (auto simp: plain_def split: if_split_asm)
  then have "parse_loop tg st ap r = parse_loop tg st ap r'"
    using loop_go [OF _ assms(4) r'(1)] assms(1) by (simp add: reading_def)
  moreover have "room r' n" using room_consumed [OF _ r'(2), of n] assms(4) by simp
  ultimately show thesis using that r'(2,3) by metis
qed

lemma word_found:
  assumes "reading tg st ap s t r" "s = parsing_cmd \<or> s = parsing_url" "dev_in (kern r) = w @ rest" "room r (length w + k)"
    and "lookup t w = Some n" "s = parsing_url \<longrightarrow> set w \<inter> {32, 38, 63} = {}"
  shows "\<exists>r'. parse_loop tg st ap r = parse_loop tg st ap r' \<and> plain s r' \<and> consumed w r r' \<and> room r' k
    \<and> rom (blobs st) (rx_blob r') = 128 + n \<and> n < 128"
  using assms
proof (induction w arbitrary: t r)
  case (Cons c w)
  obtain r' where r': "parse_loop tg st ap r = parse_loop tg st ap r'" "consumed [c] r r'" "room r' (length w + k)"
    "find_letter t c \<noteq> Tip \<Longrightarrow> plain s r' \<and> at_node (rom (blobs st)) (rx_blob r') (find_letter t c)"
    using loop_entered [OF Cons.prems(1), of c "w @ rest" "length w + k"] Cons.prems(3,4,6) by auto
  obtain a i l e g where found: "find_letter t c = Node a i l e g" using Cons.prems(5) by (cases "find_letter t c") auto
  have node: "readable (Node a i l e g)" "passable s (Node a i l e g)"
    using Cons.prems(1) readable_found [of t c] passable_found [of s t c] found by (auto simp: reading_def)
  have here: "plain s r'" "at_node (rom (blobs st)) (rx_blob r') (Node a i l e g)" using r'(4) found by simp_all
  show ?case
  proof (cases "w = []")
    case True
    then have "i = Some n" using found Cons.prems(5) by simp
    then have "rom (blobs st) (rx_blob r') = 128 + n \<and> n < 128"
      using reading_next(2) [OF here(1) Cons.prems(2) here(2) node] by blast
    then show ?thesis using here(1) r'(1-3) True by auto
  next
    case False
    then have e: "lookup e w = Some n" using Cons.prems(5) found by simp
    then have "e \<noteq> Tip" using False by (cases w) auto
    then have "reading tg st ap s e r'" using reading_next(1) [OF here(1) Cons.prems(2) here(2) node] by blast
    moreover have "dev_in (kern r') = w @ rest" using r'(2) Cons.prems(3) by (simp add: consumed_def)
    ultimately obtain r'' where "parse_loop tg st ap r' = parse_loop tg st ap r''" "plain s r''" "consumed w r' r''" "room r'' k"
      "rom (blobs st) (rx_blob r'') = 128 + n \<and> n < 128"
      using Cons.IH [of e r'] Cons.prems(2,6) r'(3) e by auto
    then show ?thesis using r'(1) consumed_trans [OF r'(2), of w r''] by auto
  qed
qed simp

text \<open>A word that leaves the tree at a node, not behind the last letter of a word that no other word continues.\<close>

fun leaves :: "word_tree \<Rightarrow> u8 list \<Rightarrow> bool" where
  "leaves t [] = False"
| "leaves t (c # w) = (case find_letter t c of Tip \<Rightarrow> True | Node a i l e g \<Rightarrow> e \<noteq> Tip \<and> leaves e w)"

lemma word_unknown:
  assumes "reading tg st ap s t r" "s = parsing_cmd \<or> s = parsing_url" "dev_in (kern r) = w @ rest" "room r (length w)"
    and "leaves t w" "s = parsing_url \<longrightarrow> set w \<inter> {32, 38, 63} = {}"
  shows "\<exists>r'. parse_loop tg st ap r = Some r' \<and> rx_handler r' = Some Http_404"
  using assms
proof (induction w arbitrary: t r)
  case (Cons c w)
  obtain r' where r': "parse_loop tg st ap r = parse_loop tg st ap r'" "consumed [c] r r'" "room r' (length w)"
    "find_letter t c = Tip \<Longrightarrow> rx_handler r' = Some Http_404"
    "find_letter t c \<noteq> Tip \<Longrightarrow> plain s r' \<and> at_node (rom (blobs st)) (rx_blob r') (find_letter t c)"
    using loop_entered [OF Cons.prems(1), of c "w @ rest" "length w"] Cons.prems(3,4,6) by auto
  show ?case
  proof (cases "find_letter t c")
    case Tip
    then have "parse_loop tg st ap r' = Some r'" using r'(4) by (subst parse_loop.simps) simp
    then show ?thesis using r'(1,4) Tip by auto
  next
    case (Node a i l e g)
    then have node: "readable (Node a i l e g)" "passable s (Node a i l e g)"
      using Cons.prems(1) readable_found [of t c] passable_found [of s t c] by (auto simp: reading_def)
    have here: "plain s r'" "at_node (rom (blobs st)) (rx_blob r') (Node a i l e g)" using r'(5) Node by simp_all
    have out: "e \<noteq> Tip" "leaves e w" using Cons.prems(5) Node by simp_all
    have "reading tg st ap s e r'" using reading_next(1) [OF here(1) Cons.prems(2) here(2) node out(1)] .
    moreover have "dev_in (kern r') = w @ rest" using r'(2) Cons.prems(3) by (simp add: consumed_def)
    ultimately show ?thesis using Cons.IH [of e r'] Cons.prems(2,6) r'(1,3) out(2) by auto
  qed
qed simp

section \<open>The request line\<close>

text \<open>
  The memory of a build for a list of methods and a list of URLs. The bounds are those of the readers: the sizes fit the
  offsets, and no word is followed by a longer one through a node that has other children beside it.
\<close>

definition holds_words :: "site \<Rightarrow> parsing_state \<Rightarrow> nat \<Rightarrow> u8 list list \<Rightarrow> bool" where
  "holds_words st s b ws \<longleftrightarrow> stored (rom (blobs st)) b (BLOB (genBlobTree ws))
     \<and> distinct ws \<and> [] \<notin> set ws \<and> ws \<noteq> [] \<and> length ws \<le> 127 \<and> (\<forall>w \<in> set ws. \<forall>c \<in> set w. 32 \<le> c \<and> c < 128)
     \<and> fits (genBlobTree ws) \<and> passable s (genBlobTree ws)"

definition site_built :: "site \<Rightarrow> u8 list list \<Rightarrow> u8 list list \<Rightarrow> bool" where
  "site_built st ms us \<longleftrightarrow> holds_words st parsing_cmd (blob_http_rqt (blobs st)) ms
     \<and> holds_words st parsing_url (urls_tree (blobs st)) us"

definition request_at :: "site \<Rightarrow> u8 list \<Rightarrow> u8 list \<Rightarrow> rx \<Rightarrow> bool" where
  "request_at st w rest r \<longleftrightarrow> plain parsing_cmd r \<and> rx_blob r = blob_http_rqt (blobs st)
     \<and> dev_in (kern r) = w @ rest \<and> room r (length w)"

lemma gen_lookup:
  assumes "holds_words st s b ws" "k < length ws"
  shows "lookup (genBlobTree ws) (ws ! k) = Some (of_nat k)"
proof -
  have g: "readable (genBlobTree ws) \<and> ordered (genBlobTree ws)
    \<and> map_of (words (genBlobTree ws)) = map_of (zip ws (map of_nat [0..<length ws]))"
    using assms(1) by (intro gen_tree_finds_words) (auto simp: holds_words_def)
  moreover have "map_of (zip ws (map of_nat [0..<length ws])) (ws ! k) = Some (of_nat k :: u8)"
    using assms by (subst map_of_eq_Some_iff) (auto simp: holds_words_def in_set_zip)
  ultimately show ?thesis using lookup_words by simp
qed

lemma gen_reading:
  assumes "holds_words st s b ws"
  shows "readable (genBlobTree ws) \<and> passable s (genBlobTree ws) \<and> genBlobTree ws \<noteq> Tip
    \<and> stored (rom (blobs st)) b (BLOB (genBlobTree ws))"
proof -
  have "ws \<noteq> []" using assms by (simp add: holds_words_def)
  then have "lookup (genBlobTree ws) (ws ! 0) \<noteq> None" using gen_lookup [OF assms, of 0] by simp
  then have "genBlobTree ws \<noteq> Tip" by (cases "ws ! 0") auto
  then show ?thesis using assms gen_tree_finds_words [of ws] by (auto simp: holds_words_def)
qed

lemma method_read:
  assumes "site_built st ms us" "request_at st (ms ! k @ w) rest r" "k < length ms" "of_nat k \<noteq> REQUEST_POST (blobs st)"
  shows "\<exists>r'. parse_loop tg st ap r = parse_loop tg st ap r' \<and> consumed (ms ! k) r r' \<and> room r' (length w)
    \<and> dev_in (kern r') = w @ rest \<and> reading tg st ap parsing_url (genBlobTree us) r'"
proof -
  have r: "plain parsing_cmd r" "rx_blob r = blob_http_rqt (blobs st)" "dev_in (kern r) = ms ! k @ w @ rest"
    "room r (length (ms ! k) + length w)"
    using assms(2) by (auto simp: request_at_def)
  note trees = assms(1) [unfolded site_built_def]
  have "reading tg st ap parsing_cmd (genBlobTree ms) r"
    using r(1,2) gen_reading [OF conjunct1 [OF trees]] by (intro reading_tree) auto
  then obtain r' where r': "parse_loop tg st ap r = parse_loop tg st ap r'" "plain parsing_cmd r'" "consumed (ms ! k) r r'"
    "room r' (length w)" "rom (blobs st) (rx_blob r') = 128 + of_nat k" "of_nat k < (128 :: u8)"
    using word_found [OF _ _ r(3,4) gen_lookup [OF conjunct1 [OF trees] assms(3)], of tg st ap parsing_cmd] by auto
  moreover have "reading tg st ap parsing_url (genBlobTree us) r'"
    using reading_after_method [OF r'(2,5,6) assms(4)] gen_reading [OF conjunct2 [OF trees]] by blast
  ultimately show ?thesis using r(3) by (auto simp: consumed_def)
qed

section \<open>Properties\<close>


text \<open>A site with the URLs \<open>/\<close>, \<open>/led\<close> and \<open>/temp\<close>.\<close>

definition example_methods :: "u8 list list" where
  "example_methods = [[71, 69, 84, 32], [80, 79, 83, 84, 32]]"

definition example_urls :: "u8 list list" where
  "example_urls = [[47], [47, 108, 101, 100], [47, 116, 101, 109, 112]]"

definition example_site :: site where
  "example_site = undefined\<lparr>resources_index := [Resource 0, Resource 1, Resource 2],
     blobs := undefined\<lparr>rom := (\<lambda>i. if i < 100 then BLOB (genBlobTree example_methods) ! i else BLOB (genBlobTree example_urls) ! (i - 100)),
       blob_http_rqt := 0, urls_tree := 100, REQUEST_POST := 1\<rparr>\<rparr>"

definition example_request :: "u8 list \<Rightarrow> rx" where
  "example_request w = undefined\<lparr>returned := False, rx_handler := None, rx_blob := 0, rx_x := 0, seg_len := of_nat (length w),
     kern := undefined\<lparr>dev_in := w\<rparr>, tc := undefined\<lparr>http := undefined\<lparr>parsing_state := parsing_cmd,
       post_data := None, arg_ref_index := 128, args := None\<rparr>\<rparr>\<rparr>"

lemma example_methods_tree:
  "genBlobTree example_methods = Node 80 None
     (Node 71 None Tip (Node 69 None Tip (Node 84 None Tip (Node 32 (Some 0) Tip Tip Tip) Tip) Tip) Tip)
     (Node 79 None Tip (Node 83 None Tip (Node 84 None Tip (Node 32 (Some 1) Tip Tip Tip) Tip) Tip) Tip) Tip"
  by code_simp

lemma example_urls_tree:
  "genBlobTree example_urls = Node 47 (Some 0) Tip
     (Node 116 None (Node 108 None Tip (Node 101 None Tip (Node 100 (Some 1) Tip Tip Tip) Tip) Tip)
       (Node 101 None Tip (Node 109 None Tip (Node 112 (Some 2) Tip Tip Tip) Tip) Tip) Tip) Tip"
  by code_simp

lemma example_site_built: "site_built example_site example_methods example_urls"
proof -
  have "length (BLOB (genBlobTree example_methods)) < 100" by (simp add: example_methods_tree child_offsets_def)
  then have "holds_words example_site parsing_cmd 0 example_methods"
    unfolding holds_words_def example_methods_tree
    by (simp add: stored_def example_site_def example_methods_tree) (simp add: example_methods_def child_offsets_def)
  moreover have "holds_words example_site parsing_url 100 example_urls"
    unfolding holds_words_def example_urls_tree
    by (simp add: stored_def example_site_def example_urls_tree) (simp add: example_urls_def child_offsets_def)
  ultimately show ?thesis by (simp add: site_built_def example_site_def)
qed

lemma example_request_at: "length w + length rest < 65536 \<Longrightarrow> request_at example_site w rest (example_request (w @ rest))"
  by (simp add: request_at_def example_request_def plain_def example_site_def room_def unat_of_nat flip: of_nat_add)


text \<open>
  A URL that leaves the tree of the build at a letter that no URL of the list has there, other than right
  behind the end of a URL that none continues, gets the handler of the error 404.
\<close>

theorem unknown_url_is_404:
  assumes "site_built st ms us" and "request_at st (ms ! k @ url) rest r"
    and "k < length ms" and "of_nat k \<noteq> REQUEST_POST (blobs st)"
    and "leaves (genBlobTree us) url" and "set url \<inter> {32, 38, 63} = {}"
  shows "\<exists>r'. parse_loop tg st ap r = Some r' \<and> rx_handler r' = Some Http_404"
proof -
  obtain r1 where "parse_loop tg st ap r = parse_loop tg st ap r1" "room r1 (length url)"
    "dev_in (kern r1) = url @ rest" "reading tg st ap parsing_url (genBlobTree us) r1"
    using method_read [OF assms(1-4)] by auto
  then show ?thesis using word_unknown [of tg st ap parsing_url "genBlobTree us" r1 url rest] assms(5,6) by auto
qed

text \<open>\<open>GET /lamp\<close> in the same site.\<close>

theorem unknown_url_is_404_witness:
  "\<forall>tg ap. \<exists>r'. parse_loop tg example_site ap (example_request ([71, 69, 84, 32, 47, 108, 97, 109, 112] @ [32])) = Some r'
    \<and> rx_handler r' = Some Http_404"
proof (intro allI)
  fix tg ap
  have w: "[71, 69, 84, 32, 47, 108, 97, 109, 112] = example_methods ! 0 @ [47, 108, 97, 109, 112]" by (simp add: example_methods_def)
  have *: "request_at example_site (example_methods ! 0 @ [47, 108, 97, 109, 112]) [32] (example_request ((example_methods ! 0 @ [47, 108, 97, 109, 112]) @ [32]))"
    by (rule example_request_at) (simp add: example_methods_def)
  show "\<exists>r'. parse_loop tg example_site ap (example_request ([71, 69, 84, 32, 47, 108, 97, 109, 112] @ [32])) = Some r'
    \<and> rx_handler r' = Some Http_404" unfolding w
    using unknown_url_is_404 [OF example_site_built *, of tg ap]
    by (simp add: example_methods_def example_site_def example_urls_tree)
qed

text \<open>
  Behind the reference of a URL the parser skips one octet. If the last letter of the URL has a smaller one beside it
  in the tree, that octet is the byte of the flags, and the parser takes it for a letter: here the next letter \<open>c\<close> of
  a longer URL gets the error 404, whatever the tree \<open>e\<close> of the longer URLs holds.
\<close>

theorem longer_url_lost:
  assumes "plain parsing_url r" and "at_node (rom (blobs st)) (rx_blob r) (Node a (Some n) (Node x (Some k) Tip Tip Tip) e g)"
    and "dev_in (kern r) = c # cs" and "n < 127" and "c \<notin> {32, 38, 63}" and "32 < c" and "e \<noteq> Tip"
  shows "\<exists>r'. parse_step tg st ap r = Some (Go, r') \<and> rx_handler r' = Some Http_404"
proof -
  have m: "rom (blobs st) (rx_blob r) = 128 + n" "rom (blobs st) (rx_blob r + 1) < 8" "rom (blobs st) (rx_blob r + 2) = 3"
    using assms(2,7) by (cases "g = Tip"; simp add: child_offsets_def)+
  obtain r' where r': "parse_step tg st ap r = parse_walk st r'" "plain parsing_url r'" "rx_char r' = c" "rx_blob r' = rx_blob r + 1"
    using step_behind_reference [OF assms(1,3) m(1) assms(4,5)] by blast
  have "walk (rom (blobs st)) c (rx_blob r + 1) = Some (rom (blobs st) (rx_blob r + 1), rx_blob r + 2, False)"
    using m assms(6) by (subst walk_unfold) (auto simp: Let_def word_less_nat_alt)
  then show ?thesis using r' by (simp add: parse_walk_def plain_def Let_def)
qed

text \<open>In a site with the URLs \<open>/a\<close>, \<open>/b\<close> and \<open>/bc\<close> the third is lost.\<close>

definition lost_site :: site where
  "lost_site = undefined\<lparr>blobs := undefined\<lparr>rom := (\<lambda>i. BLOB (genBlobTree [[47, 97], [47, 98], [47, 98, 99]]) ! i)\<rparr>\<rparr>"

definition lost_request :: rx where
  "lost_request = (example_request [99, 32])\<lparr>rx_blob := 2,
     tc := undefined\<lparr>http := undefined\<lparr>parsing_state := parsing_url, post_data := None, arg_ref_index := 128, args := None\<rparr>\<rparr>\<rparr>"

lemma lost_tree:
  "genBlobTree [[47, 97], [47, 98], [47, 98, 99]] =
     Node 47 None Tip (Node 98 (Some 1) (Node 97 (Some 0) Tip Tip Tip) (Node 99 (Some 2) Tip Tip Tip) Tip) Tip"
  by code_simp

theorem longer_url_lost_witness:
  "lookup (genBlobTree [[47, 97], [47, 98], [47, 98, 99]]) [47, 98, 99] = Some 2
   \<and> walk (rom (blobs lost_site)) 47 0 = Some (47, 1, True) \<and> walk (rom (blobs lost_site)) 98 1 = Some (98, 2, True)
   \<and> (\<forall>tg ap. \<exists>r'. parse_step tg lost_site ap lost_request = Some (Go, r') \<and> rx_handler r' = Some Http_404)"
proof -
  have p: "plain parsing_url lost_request" and d: "dev_in (kern lost_request) = 99 # [32]"
    by (simp_all add: lost_request_def example_request_def plain_def)
  have a: "at_node (rom (blobs lost_site)) (rx_blob lost_request)
      (Node 98 (Some 1) (Node 97 (Some 0) Tip Tip Tip) (Node 99 (Some 2) Tip Tip Tip) Tip)"
    by (simp add: lost_site_def lost_request_def lost_tree child_offsets_def)
  have "\<forall>tg ap. \<exists>r'. parse_step tg lost_site ap lost_request = Some (Go, r') \<and> rx_handler r' = Some Http_404"
    by (intro allI longer_url_lost [OF p a d]) simp_all
  moreover have "walk (rom (blobs lost_site)) 47 0 = Some (47, 1, True)" "walk (rom (blobs lost_site)) 98 1 = Some (98, 2, True)"
    by (simp_all add: walk.simps [of _ _ 0] walk.simps [of _ _ "Suc 0"] lost_site_def lost_tree child_offsets_def Let_def)
  ultimately show ?thesis by (simp add: lost_tree)
qed

end
