(* ===== verification/Acknowledgement.thy ===== *)
theory Acknowledgement
  imports Smews
begin

text \<open>
  The window of the octets that a connection has sent: from the first one that is not acknowledged,
  \<open>next_outseqno - inflight\<close>, to \<open>next_outseqno\<close>. What an acknowledgement does to it in \<open>smews_receive\<close>, and
  what follows for the retransmission of \<open>core/smews.c\<close>.
\<close>

definition unacked :: "http_connection \<Rightarrow> u32" where
  "unacked x = next_outseqno x - u16_to_u32 (inflight x)"

lemma clear_handler_http [simp]: "hc (clear_handler st r) = hc r"
  by (simp add: clear_handler_def Let_def split: option.split)

lemma hc_receive_ack: "hc (receive_ack st r) = hc (advance_ack (repeat_ack r))"
  by (simp add: receive_ack_def)

lemma inflight_of_ack:
  assumes "ack \<le> n" "n - ack \<le> u16_to_u32 m"
  shows "u16_to_u32 (u32_to_u16 (n - ack)) = n - ack"
proof -
  have "unat (n - ack) < 65536" using assms(2) unat_u16_lt [of m] by (simp add: word_le_nat_alt unat_u16_to_u32)
  then have "unat (u16_to_u32 (u32_to_u16 (n - ack))) = unat (n - ack)" by (simp add: unat_u16_to_u32 unat_u32_to_u16)
  then show ?thesis by (simp only: word_unat_eq_iff)
qed

text \<open>
  C10: an acknowledgement that is not older than the one before moves the start of the window to it, if it is of
  something sent; one that repeats it takes the connection back to the start of the window, to send all
  of it again; one that is ahead of what was sent is ignored.
\<close>

theorem acknowledgement_moves_window:
  assumes "u16_to_u32 (inflight (hc r)) \<le> next_outseqno (hc r)" and "unacked (hc r) \<le> current_inack r" and "current_inack r \<noteq> 0"
  shows "let x = hc r; y = hc (receive_ack st r); ack = current_inack r in
    unacked y = (if ack \<le> next_outseqno x then ack else unacked x)
    \<and> next_outseqno y = (if ack = unacked x then ack else next_outseqno x)
    \<and> u16_to_u32 (inflight y) \<le> next_outseqno y"
proof -
  let ?x = "hc r" and ?ack = "current_inack r" and ?n = "next_outseqno (hc r)" and ?m = "u16_to_u32 (inflight (hc r))"
  consider (repeated) "?ack = ?n - ?m" | (ahead) "?n < ?ack" | (new) "?n - ?m \<noteq> ?ack" "?ack \<le> ?n" by force
  then show ?thesis
  proof cases
    case repeated
    then have "?ack \<le> ?n" using assms(1) by (simp add: word_le_nat_alt unat_sub)
    then show ?thesis using repeated assms(3)
      by (simp add: hc_receive_ack repeat_ack_def advance_ack_def unacked_def Let_def)
  next
    case ahead
    moreover have "?n - ?m \<le> ?n" using assms(1) by (simp add: word_le_nat_alt unat_sub)
    ultimately have "?n - ?m \<noteq> ?ack" "\<not> ?ack \<le> ?n" using ahead by auto
    then show ?thesis using assms(1,3) by (simp add: hc_receive_ack repeat_ack_def advance_ack_def unacked_def Let_def)
  next
    case new
    have "?n - ?ack \<le> ?m" using assms(1,2) new(2) by (simp add: unacked_def word_le_nat_alt unat_sub)
    then have "u16_to_u32 (u32_to_u16 (?n - ?ack)) = ?n - ?ack" using new(2) by (rule inflight_of_ack [rotated])
    moreover have "?n - ?ack \<le> ?n" using new(2) by (simp add: word_le_nat_alt unat_sub)
    ultimately show ?thesis using new assms(3) by (simp add: hc_receive_ack repeat_ack_def advance_ack_def unacked_def Let_def)
  qed
qed

text \<open>2000 of 3000 octets are acknowledged.\<close>

definition acked_request :: "u32 \<Rightarrow> rx" where
  "acked_request ack = undefined\<lparr>current_inack := ack, tc := undefined\<lparr>output_handler := None,
     http := undefined\<lparr>next_outseqno := 13000, inflight := 3000, generator_service := None\<rparr>\<rparr>\<rparr>"

lemma acked_request_fields:
  "current_inack (acked_request a) = a" "next_outseqno (hc (acked_request a)) = 13000" "inflight (hc (acked_request a)) = 3000"
  "unacked (hc (acked_request a)) = 10000"
  by (simp_all add: acked_request_def unacked_def)

theorem acknowledgement_moves_window_witness:
  "\<forall>st. unacked (hc (receive_ack st (acked_request 12000))) = 12000
   \<and> next_outseqno (hc (receive_ack st (acked_request 12000))) = 13000"
  using acknowledgement_moves_window [of "acked_request 12000"] by (simp add: acked_request_fields Let_def)



end
