(* ===== verification/File_Transfer.thy ===== *)
theory File_Transfer
  imports Packet
begin

text \<open>
  The transfer of a static file by \<open>smews_send_packet\<close> of \<open>core/output.c\<close>: the place in the file is not stored, it is
  computed from the sequence numbers. Each segment carries the octets of the file at its sequence number,
  and the segments up to \<open>final_outseqno\<close> carry the rest of the file - from the start, or from where a
  retransmission took \<open>next_outseqno\<close> back to.
\<close>

section \<open>One segment\<close>

definition segment_data :: "packet \<Rightarrow> u8 list" where
  "segment_data p = drop 40 (octets_out p)"

definition segment_seqno :: "packet \<Rightarrow> u8 list" where
  "segment_seqno p = take 4 (drop 24 (octets_out p))"

definition remaining :: "kernel \<Rightarrow> nat \<Rightarrow> nat" where
  "remaining k a = unat (final_outseqno (http (connections k a)) - next_outseqno (http (connections k a)))"

text \<open>The connection sends the file \<open>f\<close> and is at the start of one of its blocks, or at its end.\<close>

definition serves_file :: "target \<Rightarrow> site \<Rightarrow> nat \<Rightarrow> static_resource \<Rightarrow> kernel \<Rightarrow> bool" where
  "serves_file tg st a f k \<longleftrightarrow>
     (\<exists>r. output_handler (connections k a) = Some r \<and> handler_type (handler st r) = type_file \<and> GET_FILE (handler st r) = f)
   \<and> file_ok tg f \<and> remaining k a \<le> unat (file_length f)
   \<and> (remaining k a \<noteq> 0 \<longrightarrow> 2 ^ CHUNCKS_NBITS tg dvd unat (file_length f) - remaining k a)
   \<and> 0 < MAX_OUT_SIZE tg (tcp_mss (http (connections k a)))"

lemma segment_length_pos:
  assumes "handler_type oh = type_file" "segment_length tg oh x k = (len, index)"
    and "0 < MAX_OUT_SIZE tg (tcp_mss x)" "final_outseqno x - next_outseqno x \<noteq> 0"
  shows "0 < unat len"
proof -
  let ?r = "final_outseqno x - next_outseqno x" and ?m = "MAX_OUT_SIZE tg (tcp_mss x)"
  have um: "?m < 65536" "unat (of_nat ?m :: u16) = ?m" using MAX_OUT_SIZE_bound [of tg "tcp_mss x"] by simp_all
  show ?thesis
  proof (cases "?m < unat ?r")
    case True
    then have "len = of_nat ?m" using assms(1,2) um by (simp add: segment_length_def Let_def word_less_nat_alt)
    then show ?thesis using um assms(3) by simp
  next
    case False
    then have "len = u32_to_u16 ?r" using assms(1,2) um by (simp add: segment_length_def Let_def word_less_nat_alt)
    moreover have "unat ?r mod 65536 = unat ?r" using False um by simp
    ultimately have "unat len = unat ?r" by (simp add: unat_u32_to_u16)
    then show ?thesis using assms(4) by (simp add: unat_gt_0)
  qed
qed

lemma file_packet:
  assumes "serves_file tg st a f k" "remaining k a \<noteq> 0"
  obtains k' p len where "smews_send_packet tg st (Some a) k = Some k'" "dev_out k' = dev_out k @ [p]" "well_formed p"
    and "segment_seqno p = dev_put32 (next_outseqno (http (connections k a)))"
    and "segment_data p = take len (drop (unat (file_length f) - remaining k a) (file_data f))"
    and "0 < len" "len \<le> remaining k a" "remaining k' a = remaining k a - len" "serves_file tg st a f k'"
    and "next_outseqno (http (connections k' a)) = next_outseqno (http (connections k a)) + of_nat len"
proof -
  obtain r where r: "output_handler (connections k a) = Some r" "handler_type (handler st r) = type_file" "GET_FILE (handler st r) = f"
    using assms(1) by (auto simp: serves_file_def)
  define x where "x = http (connections k a)"
  have rem: "remaining k a = unat (final_outseqno x - next_outseqno x)" by (simp add: remaining_def x_def)
  have src: "src_handler (packet_source k (Some a)) = Some r" using r(1) by (simp add: packet_source_def Let_def)
  have ok: "file_ok tg f" "final_outseqno x - next_outseqno x \<le> file_length f" "final_outseqno x - next_outseqno x \<noteq> 0"
    "2 ^ CHUNCKS_NBITS tg dvd unat (file_length f) - remaining k a" "0 < MAX_OUT_SIZE tg (tcp_mss x)"
    using assms rem by (auto simp: serves_file_def word_le_nat_alt x_def)
  then have "sendable tg st (Some a) k" using r src rem by (simp add: sendable_def Let_def x_def)
  then show thesis
  proof (rule smews_send_packet_spec, goal_cases)
    case (1 r' k' p len index s)
    have "r' = r" using 1(1) src by simp
    define y where "y = http (connections (stamped (Some a) k) a)"
    have y: "final_outseqno y = final_outseqno x" "next_outseqno y = next_outseqno x" "tcp_mss y = tcp_mss x"
      by (simp_all add: y_def x_def)
    have seg: "segment_length tg (handler st r) y (stamped (Some a) k) = (len, index)"
      and octets: "drop 20 (octets_out p) = send_tcp_header (handler st r) (packet_source k (Some a)) s
        @ contents (handler st r) y (curr_output k) (buffer_bytes k (out_buffer (curr_output k))) len index"
      using 1(9) r(2) \<open>r' = r\<close> by (simp_all add: y_def)
    have pos: "0 < unat len" using segment_length_pos [OF r(2) seg] ok(3,5) y by simp
    note fs = file_segment [OF r(2) seg, unfolded y r(3), OF ok(2), folded rem]
    have k': "k' = (upd_connection a (upd_http (account_segment (handler st r) (curr_output k) len)) (stamped (Some a) k))
        \<lparr>chk := chk k', dev_out := dev_out k'\<rparr>"
      using 1(8) r(2) \<open>r' = r\<close> by simp
    have flags: "GET_FLAGS (handler st r) AND TCP_SYN = 0" using GET_FLAGS_SYN [of "handler st r"] r(2) by (simp add: IS_SYN_def)
    have after: "connections k' a = (connections k a)\<lparr>http := (http (connections k' a))\<rparr>"
      "next_outseqno (http (connections k' a)) = next_outseqno x + u16_to_u32 len"
      "final_outseqno (http (connections k' a)) = final_outseqno x" "tcp_mss (http (connections k' a)) = tcp_mss x"
      by (subst k'; simp add: account_segment_def flags r(2) x_def)+
    have le: "unat len \<le> remaining k a" using fs(1,2) assms(1) by (simp add: serves_file_def)
    have rem': "remaining k' a = remaining k a - unat len"
      using le unfolding remaining_def after(2,3) by (simp add: x_def unat_sub word_le_nat_alt diff_diff_eq [symmetric] unat_u16_to_u32)
    have "2 ^ CHUNCKS_NBITS tg dvd unat (file_length f) - remaining k' a" if "remaining k' a \<noteq> 0"
    proof -
      have "unat (file_length f) - remaining k' a = (unat (file_length f) - remaining k a) + unat len"
        using rem' le assms(1) by (simp add: serves_file_def)
      moreover have "unat index + unat len \<noteq> unat (file_length f)" using that rem' fs(1) le assms(1) by (auto simp: serves_file_def)
      ultimately show ?thesis using fs(3) ok(4) by simp
    qed
    moreover have "output_handler (connections k' a) = Some r" by (subst after(1)) (simp add: r(1))
    moreover have "remaining k' a \<le> unat (file_length f)" using rem' assms(1) by (auto simp: serves_file_def)
    ultimately have "serves_file tg st a f k'" using assms(1) after(4) r ok(5) by (simp add: serves_file_def)
    moreover have "segment_data p = take (unat len) (drop (unat (file_length f) - remaining k a) (file_data f))"
      using arg_cong [OF octets, of "drop 20"] fs(1) r(2,3) by (simp add: segment_data_def contents_def)
    moreover have "segment_seqno p = dev_put32 (next_outseqno x)"
      using arg_cong [OF octets, of "\<lambda>os. take 4 (drop 4 os)"] src
      by (simp add: segment_seqno_def send_tcp_header_def packet_source_def Let_def x_def dev_put16_def)
    ultimately show ?case using that [OF 1(2-4)] 1 pos le rem' after(2) x_def by (simp add: unsigned_ucast_eq)
  qed
qed

section \<open>The whole file\<close>

text \<open>As many calls for the connection, without an acknowledgement or another packet between.\<close>

fun send_packets :: "target \<Rightarrow> site \<Rightarrow> nat \<Rightarrow> nat \<Rightarrow> kernel \<Rightarrow> kernel option" where
  "send_packets tg st a 0 k = Some k"
| "send_packets tg st a (Suc n) k = do { k \<leftarrow> smews_send_packet tg st (Some a) k; send_packets tg st a n k }"

text \<open>Each packet continues where the one before it ended.\<close>

fun consecutive :: "u32 \<Rightarrow> packet list \<Rightarrow> bool" where
  "consecutive n [] = True"
| "consecutive n (p # ps) \<longleftrightarrow> well_formed p \<and> segment_seqno p = dev_put32 n \<and> segment_data p \<noteq> []
     \<and> consecutive (n + of_nat (length (segment_data p))) ps"

text \<open>
  C11: the segments that a connection sends from the start of a block of a static file, after the request or after a
  retransmission has taken it back, end with the file: they are well formed, each has the sequence number that follows
  the data of the one before, and their data are, in order, all that is left of the file.
\<close>

theorem file_rest_sent:
  assumes "serves_file tg st a f k"
  shows "\<exists>n k' ps. send_packets tg st a n k = Some k' \<and> dev_out k' = dev_out k @ ps \<and> length ps = n
    \<and> remaining k' a = 0 \<and> consecutive (next_outseqno (http (connections k a))) ps
    \<and> concat (map segment_data ps) = drop (unat (file_length f) - remaining k a) (file_data f)"
  using assms
proof (induction "remaining k a" arbitrary: k rule: less_induct)
  case less
  show ?case
  proof (cases "remaining k a = 0")
    case True
    have "length (file_data f) = unat (file_length f)" using less.prems by (simp add: serves_file_def file_ok_def)
    then show ?thesis using True by (intro exI [of _ 0] exI [of _ k] exI [of _ "[]"]) simp
  next
    case False
    let ?rest = "drop (unat (file_length f) - remaining k a) (file_data f)"
    obtain k1 p len where k1: "smews_send_packet tg st (Some a) k = Some k1" "dev_out k1 = dev_out k @ [p]" "well_formed p"
      "segment_seqno p = dev_put32 (next_outseqno (http (connections k a)))" "segment_data p = take len ?rest"
      "0 < len" "len \<le> remaining k a" "remaining k1 a = remaining k a - len" "serves_file tg st a f k1"
      "next_outseqno (http (connections k1 a)) = next_outseqno (http (connections k a)) + of_nat len"
      by (rule file_packet [OF less.prems False])
    obtain n k2 ps where k2: "send_packets tg st a n k1 = Some k2" "dev_out k2 = dev_out k1 @ ps" "length ps = n"
      "remaining k2 a = 0" "consecutive (next_outseqno (http (connections k1 a))) ps"
      "concat (map segment_data ps) = drop (unat (file_length f) - remaining k1 a) (file_data f)"
      using less.hyps [of k1] k1(6-9) by auto
    have "length (file_data f) = unat (file_length f)" "remaining k a \<le> unat (file_length f)"
      using less.prems by (simp_all add: serves_file_def file_ok_def)
    then have len: "length (segment_data p) = len" using k1(5,7) by simp
    have "drop (unat (file_length f) - remaining k1 a) (file_data f) = drop len ?rest"
      using k1(7,8) \<open>remaining k a \<le> unat (file_length f)\<close> by (simp add: add.commute)
    then have "concat (map segment_data (p # ps)) = take len ?rest @ drop len ?rest" using k2(6) k1(5) by simp
    then have "concat (map segment_data (p # ps)) = ?rest" by (simp only: append_take_drop_id)
    moreover have "consecutive (next_outseqno (http (connections k a))) (p # ps)"
      using k1(3,4,6,10) k2(5) len by auto
    ultimately show ?thesis using k1(1,2) k2(1-4) by (intro exI [of _ "Suc n"] exI [of _ k2] exI [of _ "p # ps"]) simp
  qed
qed

theorem file_rest_sent_witness:
  "\<exists>n k' ps. send_packets example_target file_site 7 n file_connection = Some k' \<and> dev_out k' = ps
    \<and> length ps = n \<and> remaining k' 7 = 0 \<and> consecutive 100 ps \<and> concat (map segment_data ps) = [72, 105, 33]"
proof -
  have "serves_file example_target file_site 7 (GET_FILE (handler file_site (Resource 0))) file_connection"
    using file_connection_sendable
    by (simp add: serves_file_def sendable_def remaining_def file_connection_def file_site_def packet_source_def Let_def
      MAX_OUT_SIZE_def example_target_def)
  from file_rest_sent [OF this] show ?thesis
    by (simp add: file_connection_def file_site_def remaining_def)
qed

end
