(* ===== verification/Ip6_Address.thy ===== *)
theory Ip6_Address
  imports Prelude
begin

text \<open>
  The IPv6 addresses of \<open>core/connections.c\<close>: they are kept with the longest run of zeros cut out, behind a byte with
  the place and the length of the run, and compared in that form. \<open>compress_decompress\<close> is the
  round trip for the addresses with at most two runs; with three runs of one zero an octet is lost.
\<close>

section \<open>Model\<close>

text \<open>The scan for the longest run; its counters stay between 0 and 16.\<close>

record scan =
  curr_index :: nat
  max_index :: nat
  curr_nb :: nat
  max_nb :: nat

definition scan_octet :: "nat \<Rightarrow> u8 \<Rightarrow> scan \<Rightarrow> scan" where
  "scan_octet i b s =
    (if b = 0 then
       (if curr_nb s = 0 then s\<lparr>curr_index := i\<rparr> else s)\<lparr>curr_nb := curr_nb s + 1\<rparr>
     else if max_nb s < curr_nb s then s\<lparr>max_nb := curr_nb s, max_index := curr_index s, curr_nb := 0\<rparr>
     else s)"

fun scan_octets :: "nat \<Rightarrow> u8 list \<Rightarrow> scan \<Rightarrow> scan" where
  "scan_octets i [] s = s"
| "scan_octets i (b # bs) s = scan_octets (i + 1) bs (scan_octet i b s)"

definition scan_start :: scan where
  "scan_start = \<lparr>curr_index = 0, max_index = 0, curr_nb = 0, max_nb = 0\<rparr>"

text \<open>The byte of the indexes and the array of 16 octets.\<close>

definition compress_ip :: "u8 list \<Rightarrow> u8 \<times> u8 list" where
  "compress_ip full =
    (let s = scan_octets 0 full scan_start; i = max_index s; n = max_nb s
     in (push_bit 4 (of_nat i) OR of_nat n,
         take i full @ map (\<lambda>j. full ! (j + n)) [i ..< 16 - n] @ replicate (16 - max i (16 - n)) 0))"

definition decompress_ip :: "u8 list \<Rightarrow> u8 \<Rightarrow> u8 list" where
  "decompress_ip cs indexes =
    (let i = unat (drop_bit 4 indexes); n = unat (indexes AND 15)
     in take i cs @ replicate n 0 @ map (\<lambda>j. cs ! (j - n)) [i + n ..< 16])"

text \<open>\<open>ipcmp\<close>, on the byte of the indexes and the octets behind it.\<close>

definition ipcmp :: "u8 \<times> u8 list \<Rightarrow> u8 \<times> u8 list \<Rightarrow> bool" where
  "ipcmp source check \<longleftrightarrow>
    (let n = 17 - unat (fst source AND 15)
     in take n (fst source # snd source) = take n (fst check # snd check))"

section \<open>The scan\<close>

lemma scan_octets_append: "scan_octets i (xs @ ys) s = scan_octets (i + length xs) ys (scan_octets i xs s)"
  by (induction xs arbitrary: i s) simp_all

lemma scan_zeros:
  "scan_octets i (replicate n 0) s =
    (if n = 0 then s else s\<lparr>curr_index := (if curr_nb s = 0 then i else curr_index s), curr_nb := curr_nb s + n\<rparr>)"
  by (induction n arbitrary: i s) (auto simp: scan_octet_def)

lemma scan_others:
  "0 \<notin> set xs \<Longrightarrow> scan_octets i xs s =
    (if xs \<noteq> [] \<and> max_nb s < curr_nb s then s\<lparr>max_nb := curr_nb s, max_index := curr_index s, curr_nb := 0\<rparr> else s)"
proof (induction xs arbitrary: i s)
  case (Cons x xs)
  then have "x \<noteq> 0" "0 \<notin> set xs" by auto
  then show ?case using Cons.IH by (simp add: scan_octet_def)
qed simp

section \<open>The round trip\<close>

lemma index_byte:
  assumes "i < 16" "n < 16"
  shows "drop_bit 4 (push_bit 4 (of_nat i) OR of_nat n :: u8) = of_nat i" "(push_bit 4 (of_nat i) OR of_nat n) AND 15 = (of_nat n :: u8)"
    "unat (of_nat i :: u8) = i" "unat (of_nat n :: u8) = n"
proof -
  have high: "\<not> bit m (k + 4)" if "m < 16" for m k :: nat
  proof -
    have "m < 2 ^ (k + 4)" using that power_increasing [of 4 "k + 4" "2 :: nat"] by simp
    then show ?thesis by (simp add: bit_iff_odd)
  qed
  have bound: "k < 4" if "bit m k" "m < 16" for m k :: nat
    using high [of m "k - 4"] that by (cases "k < 4") auto
  show "drop_bit 4 (push_bit 4 (of_nat i) OR of_nat n :: u8) = of_nat i"
    by (rule bit_word_eqI) (auto simp: bit_simps dest: bound [OF _ assms(1)] bound [OF _ assms(2)])
  have "take_bit 4 (push_bit 4 (of_nat i) OR of_nat n) = (of_nat n :: u8)"
    by (rule bit_word_eqI) (auto simp: bit_simps dest: bound [OF _ assms(2)])
  then show "(push_bit 4 (of_nat i) OR of_nat n) AND 15 = (of_nat n :: u8)"
    using take_bit_eq_mask [of 4 "push_bit 4 (of_nat i) OR of_nat n :: u8"] by (simp add: mask_eq_exp_minus_1)
qed (use assms in \<open>simp_all add: unat_of_nat\<close>)

text \<open>Where the cut out octets are zeros nothing is lost.\<close>

lemma decompress_compress:
  assumes "length full = 16" and "s = scan_octets 0 full scan_start" and "max_nb s < 16" "max_index s + max_nb s \<le> 16" "max_index s < 16"
    and "\<forall>j. max_index s \<le> j \<and> j < max_index s + max_nb s \<longrightarrow> full ! j = 0"
  shows "decompress_ip (snd (compress_ip full)) (fst (compress_ip full)) = full"
proof -
  let ?i = "max_index s" and ?n = "max_nb s"
  have c: "snd (compress_ip full) = take ?i full @ map (\<lambda>j. full ! (j + ?n)) [?i ..< 16 - ?n] @ replicate (16 - max ?i (16 - ?n)) 0"
    "unat (drop_bit 4 (fst (compress_ip full))) = ?i" "unat (fst (compress_ip full) AND 15) = ?n"
    using assms(2) index_byte [OF assms(5,3)] by (simp_all add: compress_ip_def Let_def)
  show ?thesis
  proof (rule nth_equalityI)
    show "length (decompress_ip (snd (compress_ip full)) (fst (compress_ip full))) = length full"
      using assms(1,4) by (simp add: decompress_ip_def Let_def c)
    fix j assume "j < length (decompress_ip (snd (compress_ip full)) (fst (compress_ip full)))"
    then have j: "j < 16" using assms(1,4) by (simp add: decompress_ip_def Let_def c)
    consider "j < ?i" | "?i \<le> j" "j < ?i + ?n" | "?i + ?n \<le> j" by linarith
    then show "decompress_ip (snd (compress_ip full)) (fst (compress_ip full)) ! j = full ! j"
      by cases (use assms(1,4,6) j in \<open>auto simp: decompress_ip_def Let_def c nth_append\<close>)
  qed
qed

text \<open>
  C9: an address with at most two runs of zeros, wherever they are, comes back from its compressed form.
\<close>

theorem ip6_roundtrip:
  assumes "full = p @ replicate a 0 @ q @ replicate b 0 @ r" and "length full = 16" and "0 \<notin> set p \<union> set q \<union> set r"
  shows "decompress_ip (snd (compress_ip full)) (fst (compress_ip full)) = full"
proof -
  define s where "s = scan_octets 0 full scan_start"
  have len: "length p + a + length q + b + length r = 16" using assms(1,2) by simp
  have s: "s = (let s1 = (if a = 0 then scan_start else scan_start\<lparr>curr_index := length p, curr_nb := a\<rparr>);
      s2 = (if q \<noteq> [] \<and> 0 < a then s1\<lparr>max_nb := a, max_index := length p, curr_nb := 0\<rparr> else s1);
      s3 = (if b = 0 then s2 else s2\<lparr>curr_index := (if curr_nb s2 = 0 then length p + a + length q else curr_index s2), curr_nb := curr_nb s2 + b\<rparr>)
     in if r \<noteq> [] \<and> max_nb s3 < curr_nb s3 then s3\<lparr>max_nb := curr_nb s3, max_index := curr_index s3, curr_nb := 0\<rparr> else s3)"
    using assms(3) unfolding s_def assms(1) scan_octets_append scan_zeros
    by (simp add: scan_others scan_start_def Let_def)
  have cut: "max_nb s = 0 \<and> max_index s = 0 \<or> a \<noteq> 0 \<and> q \<noteq> [] \<and> max_nb s = a \<and> max_index s = length p
     \<or> b \<noteq> 0 \<and> r \<noteq> [] \<and> (a = 0 \<or> q \<noteq> []) \<and> max_nb s = b \<and> max_index s = length p + a + length q
     \<or> q = [] \<and> r \<noteq> [] \<and> max_nb s = a + b \<and> max_index s = length p"
    by (simp add: s scan_start_def Let_def)
  have zero: "full ! j = 0" if "max_index s \<le> j" "j < max_index s + max_nb s" for j
    using cut that by (auto simp: assms(1) nth_append)
  have "max_nb s < 16" "max_index s + max_nb s \<le> 16" "max_index s < 16"
    using cut len by (auto simp: neq_Nil_conv)
  then show ?thesis using decompress_compress [OF assms(2) s_def] zero by blast
qed

text \<open>\<open>fe80::212:4bff:fe00:1\<close> has the runs of six zeros and of two.\<close>

theorem ip6_roundtrip_witness:
  "decompress_ip (snd (compress_ip [0xFE, 0x80, 0, 0, 0, 0, 0, 0, 2, 0x12, 0x4B, 0xFF, 0xFE, 0, 0, 1]))
     (fst (compress_ip [0xFE, 0x80, 0, 0, 0, 0, 0, 0, 2, 0x12, 0x4B, 0xFF, 0xFE, 0, 0, 1]))
   = [0xFE, 0x80, 0, 0, 0, 0, 0, 0, 2, 0x12, 0x4B, 0xFF, 0xFE, 0, 0, 1]"
  using ip6_roundtrip [of "[0xFE, 0x80, 0, 0, 0, 0, 0, 0, 2, 0x12, 0x4B, 0xFF, 0xFE, 0, 0, 1]"
    "[0xFE, 0x80]" "Suc (Suc (Suc (Suc (Suc (Suc 0)))))" "[2, 0x12, 0x4B, 0xFF, 0xFE]" "Suc (Suc 0)" "[1]"]
  by simp

section \<open>Three runs\<close>

lemma compress_three_runs:
  assumes "0 \<notin> set p \<union> {x, y, z} \<union> set q" and "length p + length q = 10"
  shows "compress_ip (p @ [0, x, 0, y, 0, z] @ q) =
    (push_bit 4 (of_nat (length p + 2)) OR 2, p @ [0, x, 0, z] @ q @ [0, 0])"
proof -
  let ?full = "p @ [0, x, 0, y, 0, z] @ q"
  have "?full = p @ replicate 1 0 @ [x] @ replicate 1 0 @ [y] @ replicate 1 0 @ (z # q)" by simp
  then have "scan_octets 0 ?full scan_start = \<lparr>curr_index = length p + 2, max_index = length p + 2, curr_nb = 0, max_nb = 2\<rparr>"
    using assms(1) by (simp only: scan_octets_append scan_zeros) (simp add: scan_others scan_start_def scan_octet_def)
  moreover have "map (\<lambda>j. ?full ! (j + 2)) [length p + 2 ..< 14] = [0, z] @ q"
    using assms(2) by (intro nth_equalityI) (auto simp: nth_append nth_Cons')
  ultimately show ?thesis using assms(2) by (simp add: compress_ip_def Let_def numeral_eq_Suc)
qed

text \<open>
  The count of a run that is not longer than the longest so far is not reset. With three runs of one zero, two octets apart, the octet
  \<open>y\<close> before the third is cut out with its neighbours: it comes back as 0, and two addresses that differ in it
  compare equal.
\<close>

theorem ip6_addresses_collide:
  assumes "0 \<notin> set p \<union> {x, y, z} \<union> set q" and "y' \<noteq> 0" and "length p + length q = 10"
  shows "ipcmp (compress_ip (p @ [0, x, 0, y, 0, z] @ q)) (compress_ip (p @ [0, x, 0, y', 0, z] @ q))
    \<and> (case compress_ip (p @ [0, x, 0, y, 0, z] @ q) of (i, cs) \<Rightarrow> decompress_ip cs i = p @ [0, x, 0, 0, 0, z] @ q)"
proof -
  have c: "compress_ip (p @ [0, x, 0, v, 0, z] @ q) = (push_bit 4 (of_nat (length p + 2)) OR 2, p @ [0, x, 0, z] @ q @ [0, 0])"
    if "v \<noteq> 0" for v
    using that assms by (intro compress_three_runs) auto
  define b :: u8 where "b = push_bit 4 (of_nat (length p + 2)) OR of_nat 2"
  have "drop_bit 4 b = of_nat (length p + 2)" "b AND 15 = of_nat 2" "unat (of_nat (length p + 2) :: u8) = length p + 2"
    unfolding b_def by (rule index_byte [of "length p + 2" 2]; use assms(3) in simp)+
  then have "unat (drop_bit 4 b) = length p + 2" "unat (b AND 15) = 2" by (simp_all del: of_nat_add)
  then have "decompress_ip (p @ [0, x, 0, z] @ q @ [0, 0]) b
      = (p @ [0, x]) @ replicate 2 0 @ map (\<lambda>j. (p @ [0, x, 0, z] @ q @ [0, 0]) ! (j - 2)) [length p + 2 + 2 ..< 16]"
    by (simp add: decompress_ip_def)
  also have "map (\<lambda>j. (p @ [0, x, 0, z] @ q @ [0, 0]) ! (j - 2)) [length p + 2 + 2 ..< 16] = [0, z] @ q"
    using assms(3) by (intro nth_equalityI) (auto simp: nth_append nth_Cons')
  finally have "decompress_ip (p @ [0, x, 0, z] @ q @ [0, 0]) b = p @ [0, x, 0, 0, 0, z] @ q" by (simp add: numeral_eq_Suc)
  then show ?thesis using c [of y] c [OF assms(2)] assms(1) by (simp add: ipcmp_def b_def)
qed

text \<open>The same host number in \<open>2001:db8:1:2:3::/80\<close> and \<open>2001:db8:1:7:3::/80\<close>.\<close>

theorem ip6_addresses_collide_witness:
  "ipcmp (compress_ip ([0x20, 1, 0x0D, 0xB8] @ [0, 1, 0, 2, 0, 3] @ [1, 1, 1, 1, 1, 9]))
     (compress_ip ([0x20, 1, 0x0D, 0xB8] @ [0, 1, 0, 7, 0, 3] @ [1, 1, 1, 1, 1, 9]))"
  using ip6_addresses_collide [of "[0x20, 1, 0x0D, 0xB8]" 1 2 3 "[1, 1, 1, 1, 1, 9]" 7] by simp

end
