(* ===== verification/Packet_Handlers.thy ===== *)
theory Packet_Handlers
  imports Post_Input
begin

text \<open>
  What the applications that handle IP packets use of the kernel: \<open>in\<close> on the octets of the packet
  and \<open>out_c\<close> on the static output buffer, with the lemmas that say what a sequence of these calls reads and
  writes.
\<close>

section \<open>Reading\<close>

text \<open>\<open>in\<close>, narrowed to an \<open>unsigned char\<close>, and two octets of a number that is kept as an array.\<close>

definition in_u8 :: "kernel \<Rightarrow> u8 \<times> kernel" where
  "in_u8 k = (case in_packet k of (v, k) \<Rightarrow> (u16_to_u8 v, k))"

definition in_u16 :: "kernel \<Rightarrow> u16 \<times> kernel" where
  "in_u16 k = (case in_u8 k of (hi, k) \<Rightarrow> (case in_u8 k of (lo, k) \<Rightarrow> (ui16 lo hi, k)))"

lemma ucast_8_16 [simp]: "u16_to_u8 (u8_to_u16 x) = x"
  by (simp add: word_unat_eq_iff unat_u16_to_u8 unat_u8_lt)

lemma in_u8_Cons [simp]: "dev_in k = b # bs \<Longrightarrow> in_u8 k = (b, k\<lparr>dev_in := bs\<rparr>)"
  by (simp add: in_u8_def in_packet_def dev_get_def)

lemma in_u16_Cons [simp]: "dev_in k = b1 # b0 # bs \<Longrightarrow> in_u16 k = (ui16 b0 b1, k\<lparr>dev_in := bs\<rparr>)"
  by (simp add: in_u16_def)

section \<open>Writing\<close>

text \<open>The two characters of a number of 16 bits, the most significant one first.\<close>

definition u16_chars :: "u16 \<Rightarrow> u8 list" where
  "u16_chars w = [u16_to_u8 (drop_bit 8 w), u16_to_u8 w]"

lemma ui16_u16_chars: "ui16 (u16_to_u8 w) (u16_to_u8 (drop_bit 8 w)) = w"
  by (simp add: word_unat_eq_iff unat_ui16 unat_split_byte)

text \<open>The output of a packet handler has room for \<open>n\<close> more characters.\<close>

definition handler_room :: "nat \<Rightarrow> kernel \<Rightarrow> bool" where
  "handler_room n k \<longleftrightarrow>
    out_service (curr_output k) = None \<and> out_buffer (curr_output k) = Buffer_gpip \<and>
    unat (out_content_length (curr_output k)) + n = unat (out_max_bytes (curr_output k)) \<and>
    unat (out_max_bytes (curr_output k)) \<le> length (gpip_output_buffer k)"

text \<open>What has been written.\<close>

definition written :: "kernel \<Rightarrow> u8 list" where
  "written k = take (unat (out_content_length (curr_output k))) (gpip_output_buffer k)"

lemma handler_room_out_c:
  assumes "handler_room (Suc n) k"
  shows "\<exists>k'. out_c c k = Some (Out_done, k') \<and> handler_room n k' \<and> written k' = written k @ [c]"
proof -
  let ?i = "unat (out_content_length (curr_output k))"
  have lt: "?i < unat (out_max_bytes (curr_output k))" using assms by (simp add: handler_room_def)
  then have "Suc ?i < 65536" using unat_u16_lt [of "out_max_bytes (curr_output k)"] by linarith
  then have i: "unat (out_content_length (curr_output k) + 1) = Suc ?i" by (simp add: unat_add_u16)
  have ne: "out_content_length (curr_output k) \<noteq> out_max_bytes (curr_output k)" using lt by auto
  have len: "?i < length (gpip_output_buffer k)" using lt assms by (simp add: handler_room_def)
  let ?k' = "upd_output (\<lambda>x. x\<lparr>out_content_length := out_content_length x + 1\<rparr>)
    (k\<lparr>gpip_output_buffer := (gpip_output_buffer k)[?i := c]\<rparr>)"
  have "out_c c k = Some (Out_done, ?k')"
    using assms ne len by (simp add: out_c_def put_c_def handler_room_def Let_def)
  moreover have "handler_room n ?k'" using assms i by (simp add: handler_room_def)
  moreover have "written ?k' = written k @ [c]"
    using i len by (simp add: written_def take_Suc_conv_app_nth)
  ultimately show ?thesis by blast
qed

lemma handler_room_full:
  "handler_room 0 k \<Longrightarrow> out_c c k = Some (Out_refused, k)"
  by (simp add: handler_room_def out_c_def Let_def word_unat_eq_iff)

text \<open>The characters that fit are written, in order; the others are lost.\<close>

lemma out_all_written:
  "handler_room n k \<Longrightarrow>
   \<exists>k'. out_all cs k = Some k' \<and> handler_room (n - length cs) k' \<and> written k' = written k @ take n cs"
proof (induction cs arbitrary: n k)
  case (Cons c cs)
  show ?case
  proof (cases n)
    case 0
    then show ?thesis using handler_room_full [of k c] Cons.IH [of 0 k] Cons.prems by simp
  next
    case (Suc m)
    then obtain k1 where "out_c c k = Some (Out_done, k1)" "handler_room m k1" "written k1 = written k @ [c]"
      using handler_room_out_c [of m k c] Cons.prems by auto
    then show ?thesis using Cons.IH [of m k1] Suc by auto
  qed
qed auto

text \<open>The state in which \<open>send_gpip\<close> calls a handler.\<close>

definition prepared_output :: "u16 \<Rightarrow> kernel \<Rightarrow> bool" where
  "prepared_output m k \<longleftrightarrow>
    out_buffer (curr_output k) = Buffer_gpip \<and> out_max_bytes (curr_output k) = m \<and>
    out_content_length (curr_output k) = 0 \<and> out_service (curr_output k) = None \<and>
    unat m \<le> length (gpip_output_buffer k)"

lemma prepared_output_room: "prepared_output m k \<Longrightarrow> handler_room (unat m) k \<and> written k = []"
  by (simp add: prepared_output_def handler_room_def written_def)

end
