(* ===== verification/Icmp.thy ===== *)
theory Icmp
  imports Packet_Handlers
begin

text \<open>
  The application \<open>apps/icmpv4/icmpv4.c\<close>, a handler of the IP protocol 1 that answers echo requests. The checksum of
  the answer is not computed: it is the one of the request, updated for the change of the type.
\<close>

section \<open>Model\<close>

definition ICMP_ECHO_REQUEST :: u8 where "ICMP_ECHO_REQUEST = 8"
definition ICMP_ECHO_REPLY :: u8 where "ICMP_ECHO_REPLY = 0"
definition ICMP_HEADER_SIZE :: int where "ICMP_HEADER_SIZE = 8"

text \<open>The static variables; \<open>icmp_payload\<close> has \<open>OUTPUT_BUFFER_SIZE\<close> octets.\<close>

record icmp =
  icmp_payload :: "u8 list"
  buffer_size :: int
  icmp_sequence :: u16
  icmp_identifier :: u16
  icmp_checksum :: u16

definition chk_k :: "(checksum \<Rightarrow> checksum) \<Rightarrow> kernel \<Rightarrow> kernel" where
  "chk_k f k = k\<lparr>chk := f (chk k)\<rparr>"

text \<open>The loop that reads the payload, with \<open>n\<close> turns left; a write outside the buffer is undefined.\<close>

fun read_payload :: "nat \<Rightarrow> nat \<Rightarrow> u8 list \<Rightarrow> kernel \<Rightarrow> (u8 list \<times> kernel) option" where
  "read_payload 0 i buf k = Some (buf, k)"
| "read_payload (Suc n) i buf k =
    (let (c, k) = in_u8 k
     in do { buf \<leftarrow> wr buf (int i) c; read_payload n (Suc i) buf (chk_k (checksum_add c) k) })"

definition icmp4_packet_in :: "site \<Rightarrow> nat \<Rightarrow> icmp \<Rightarrow> kernel \<Rightarrow> (u8 \<times> icmp \<times> kernel) option" where
  "icmp4_packet_in st a s k =
    (let len = uint (get_payload_size st (connections k a)) - ICMP_HEADER_SIZE;
         k = chk_k (\<lambda>_. checksum_init) k;
         (tmp, k) = in_u8 k
     in if tmp \<noteq> ICMP_ECHO_REQUEST then Some (0, s, k)
        else
         (let k = chk_k (checksum_add tmp) k;
              (tmp, k) = in_u8 k;
              k = chk_k (checksum_add tmp) k;
              (c, k) = in_u16 k;
              k = chk_k (checksum_add16 c) k;
              (i, k) = in_u16 k;
              k = chk_k (checksum_add16 i) k;
              (q, k) = in_u16 k;
              k = chk_k (checksum_add16 q) k
          in do { (buf, k) \<leftarrow> read_payload (nat len) 0 (icmp_payload s) k;
                  let k = chk_k checksum_end k;
                  Some (if current_checksum (chk k) \<noteq> 0xffff then 0 else 1,
                    s\<lparr>icmp_payload := buf, buffer_size := len, icmp_sequence := q, icmp_identifier := i, icmp_checksum := c\<rparr>,
                    k) }))"

definition reply_checksum :: "u16 \<Rightarrow> u16" where
  "reply_checksum c =
    (let c = c + push_bit 8 (u8_to_u16 ICMP_ECHO_REQUEST)
     in if drop_bit 8 c < u8_to_u16 ICMP_ECHO_REQUEST then c + 1 else c)"

definition reply_octets :: "icmp \<Rightarrow> u8 list" where
  "reply_octets s =
    [ICMP_ECHO_REPLY, 0] @ u16_chars (icmp_checksum s) @ u16_chars (icmp_identifier s) @ u16_chars (icmp_sequence s)
      @ take (nat (buffer_size s)) (icmp_payload s)"

definition icmp4_packet_out :: "icmp \<Rightarrow> kernel \<Rightarrow> (icmp \<times> kernel) option" where
  "icmp4_packet_out s k =
    (let s = s\<lparr>icmp_checksum := reply_checksum (icmp_checksum s)\<rparr>
     in if int (length (icmp_payload s)) < buffer_size s then None
        else do { k \<leftarrow> out_all (reply_octets s) k; Some (s, k) })"


section \<open>What the handler reads and answers\<close>

lemma chk_k_simps [simp]:
  "dev_in (chk_k f k) = dev_in k" "chk (chk_k f k) = f (chk k)" "connections (chk_k f k) = connections k"
  by (simp_all add: chk_k_def)

lemma read_payload_spec:
  "i + length os \<le> length buf \<Longrightarrow> dev_in k = os @ rest \<Longrightarrow>
   read_payload (length os) i buf k =
     Some (take i buf @ os @ drop (i + length os) buf, k\<lparr>dev_in := rest, chk := fold checksum_add os (chk k)\<rparr>)"
proof (induction os arbitrary: i buf k)
  case (Cons c cs)
  then have i: "i < length buf" by simp
  have "take (Suc i) (buf[i := c]) = take i buf @ [c]" using i by (simp add: take_Suc_conv_app_nth)
  moreover have "drop (Suc (i + length cs)) (buf[i := c]) = drop (Suc (i + length cs)) buf" by simp
  ultimately show ?case
    using Cons.IH [of "Suc i" "buf[i := c]" "chk_k (checksum_add c) (k\<lparr>dev_in := cs @ rest\<rparr>)"] Cons.prems i
    by (simp add: wr_def chk_k_def)
qed simp

lemma read_payload_defined:
  "i \<le> length buf \<Longrightarrow> read_payload n i buf k = None \<longleftrightarrow> length buf < i + n"
proof (induction n arbitrary: i buf k)
  case (Suc n)
  then show ?case by (cases "in_u8 k") (auto simp: wr_def not_less)
qed simp

text \<open>The octets of an echo request, and what they sum to.\<close>

definition echo_packet :: "u8 \<Rightarrow> u8 \<Rightarrow> u16 \<Rightarrow> u16 \<Rightarrow> u16 \<Rightarrow> u8 list \<Rightarrow> u8 list" where
  "echo_packet t cd c i q pl = [t, cd] @ u16_chars c @ u16_chars i @ u16_chars q @ pl"

lemma fold_checksum_add: "fold checksum_add xs s = fold chk_step (map Add8 xs) s"
  by (induction xs arbitrary: s) simp_all

lemma echo_packet_sum:
  "unat (current_checksum (checksum_end (fold checksum_add pl (checksum_add16 q (checksum_add16 i
      (checksum_add16 c (checksum_add cd (checksum_add t checksum_init))))))))
    = ocs (be_sum True (echo_packet t cd c i q pl))"
proof -
  let ?ops = "[Add8 t, Add8 cd, Add16 c, Add16 i, Add16 q] @ map Add8 pl"
  have "aligned e (map Add8 pl)" for e by (induction pl arbitrary: e) simp_all
  then have "aligned True ?ops" by simp
  moreover have "concat (map octets (map Add8 pl)) = pl" by (induction pl) simp_all
  ultimately show ?thesis
    using checksum_fold_init [of ?ops] by (simp add: fold_checksum_add echo_packet_def u16_chars_def)
qed

lemma packet_in_request:
  assumes "get_payload_size st (connections k a) = of_nat (length os)" and "length os < 65536"
    and "os = echo_packet 8 cd c i q pl" and "dev_in k = os @ rest" and "length pl \<le> length (icmp_payload s)"
  shows "\<exists>k'. icmp4_packet_in st a s k =
      Some (if ocs (be_sum True os) = 65535 then 1 else 0,
        s\<lparr>icmp_payload := pl @ drop (length pl) (icmp_payload s), buffer_size := int (length pl),
          icmp_sequence := q, icmp_identifier := i, icmp_checksum := c\<rparr>, k') \<and> dev_in k' = rest"
proof -
  have len: "uint (get_payload_size st (connections k a)) - ICMP_HEADER_SIZE = int (length pl)"
  proof -
    have "length os = length pl + 8" using assms(3) by (simp add: echo_packet_def u16_chars_def)
    moreover have "unat (get_payload_size st (connections k a)) = length os"
      using assms(1,2) by (simp add: unsigned_of_nat take_bit_nat_eq_self)
    moreover have "uint (get_payload_size st (connections k a)) = int (unat (get_payload_size st (connections k a)))" by simp
    ultimately show ?thesis unfolding ICMP_HEADER_SIZE_def by linarith
  qed
  have dev: "dev_in k = 8 # cd # u16_to_u8 (drop_bit 8 c) # u16_to_u8 c # u16_to_u8 (drop_bit 8 i) # u16_to_u8 i
      # u16_to_u8 (drop_bit 8 q) # u16_to_u8 q # pl @ rest"
    using assms(3,4) by (simp add: echo_packet_def u16_chars_def)
  have sum: "current_checksum (checksum_end (fold checksum_add pl (checksum_add16 q (checksum_add16 i
      (checksum_add16 c (checksum_add cd (checksum_add 8 checksum_init))))))) = 0xffff
    \<longleftrightarrow> ocs (be_sum True os) = 65535"
    unfolding assms(3) echo_packet_sum [symmetric] by (simp add: word_unat_eq_iff)
  show ?thesis
    using read_payload_spec [of 0 pl "icmp_payload s" _ rest] assms(5) dev
    by (simp add: icmp4_packet_in_def len Let_def ICMP_ECHO_REQUEST_def ui16_u16_chars sum)
qed

lemma ocs_all_ones: "ocs n = 65535 \<longleftrightarrow> 0 < n \<and> n mod 65535 = 0"
proof
  assume o: "ocs n = 65535"
  then show "0 < n \<and> n mod 65535 = 0" using ocs_mod [of n] by (cases "n = 0") auto
next
  assume n: "0 < n \<and> n mod 65535 = 0"
  then have "ocs n mod 65535 = 0" "ocs n \<noteq> 0" using ocs_mod [of n] by simp_all
  then show "ocs n = 65535" using ocs_le [of n] by (cases "ocs n < 65535") auto
qed

lemma reply_checksum_value:
  "unat (reply_checksum c) = (if unat c + 2048 < 65536 then unat c + 2048 else unat c + 2048 - 65535)"
proof -
  define d where "d = c + 2048"
  have p: "push_bit 8 (u8_to_u16 ICMP_ECHO_REQUEST) = 2048" by (simp add: ICMP_ECHO_REQUEST_def push_bit_eq_mult)
  have d: "unat d = (unat c + 2048) mod 65536" by (simp add: d_def unat_add_u16)
  have lt: "drop_bit 8 d < u8_to_u16 ICMP_ECHO_REQUEST \<longleftrightarrow> unat d div 256 < 8"
    by (simp add: word_less_nat_alt unat_drop8_u16 ICMP_ECHO_REQUEST_def)
  have r: "reply_checksum c = (if unat d div 256 < 8 then d + 1 else d)"
    using lt by (simp add: reply_checksum_def p Let_def d_def)
  show ?thesis
  proof (cases "unat c + 2048 < 65536")
    case True
    then show ?thesis using d r by (simp add: div_less_iff_less_mult)
  next
    case False
    then have m: "unat d = unat c + 2048 - 65536" using d unat_u16_lt [of c] by (simp add: mod_if)
    then have "unat d div 256 < 8" using unat_u16_lt [of c] by (simp add: div_less_iff_less_mult)
    moreover have "unat (d + 1) = unat c + 2048 - 65535"
      using m False unat_u16_lt [of c] by (simp add: unat_add_u16)
    ultimately show ?thesis using False r by simp
  qed
qed

lemma echo_packet_be_sum:
  "be_sum True (echo_packet t cd c i q pl) = 256 * unat t + unat cd + unat c + unat i + unat q + be_sum True pl"
  using octet_sum_u16 [of c] octet_sum_u16 [of i] octet_sum_u16 [of q] by (simp add: echo_packet_def u16_chars_def)

lemma mod_add_small:
  assumes "(a + x) mod m = 0" and "a < (m :: nat)"
  shows "x mod m = 0 \<longleftrightarrow> a = 0"
proof
  assume "x mod m = 0"
  then have "(a + x) mod m = a mod m" by (metis mod_add_right_eq add.right_neutral)
  with assms show "a = 0" by simp
qed (use assms in simp)

lemma reply_verifies:
  assumes "ocs (be_sum True (echo_packet 8 cd c i q pl)) = 65535"
  shows "ocs (be_sum True (echo_packet 0 0 (reply_checksum c) i q pl)) = 65535 \<longleftrightarrow> cd = 0"
proof -
  let ?r = "unat i + unat q + be_sum True pl"
  have eight: "256 * unat (8 :: u8) = 2048" by simp
  have "(unat cd + (2048 + unat c + ?r)) mod 65535 = 0"
    using assms unfolding ocs_all_ones echo_packet_be_sum eight by (simp add: add_ac)
  moreover have "(unat (reply_checksum c) + ?r) mod 65535 = (2048 + unat c + ?r) mod 65535"
  proof (cases "unat c + 2048 < 65536")
    case False
    then have "2048 + unat c + ?r = unat (reply_checksum c) + ?r + 65535" by (simp add: reply_checksum_value)
    then show ?thesis by (simp only: mod_add_self2)
  qed (simp add: reply_checksum_value add_ac)
  moreover have "unat cd < 65535" using unat_u8_lt [of cd] by linarith
  ultimately have "(unat (reply_checksum c) + ?r) mod 65535 = 0 \<longleftrightarrow> unat cd = 0"
    using mod_add_small [of "unat cd" "2048 + unat c + ?r" 65535] by simp
  moreover have "0 < unat (reply_checksum c)" by (auto simp: reply_checksum_value)
  ultimately show ?thesis by (simp add: ocs_all_ones echo_packet_be_sum unat_eq_0 add_ac)
qed

section \<open>Properties\<close>

text \<open>
  C24: an echo request whose checksum is right is answered, when the answer fits in the output buffer, by a reply with the same
  identifier, sequence number and payload; its updated checksum is right exactly when the code of
  the request is 0 (the code of the reply always is).
\<close>

theorem echo_request_is_answered:
  assumes "get_payload_size st (connections k a) = of_nat (length os)" and "length os < 65536"
    and "os = echo_packet 8 cd c i q pl" and "dev_in k = os @ rest" and "length pl \<le> length (icmp_payload s)"
    and "ocs (be_sum True os) = 65535" and "prepared_output m k2" and "length os \<le> unat m"
  shows "\<exists>s1 k1 s2 k3. icmp4_packet_in st a s k = Some (1, s1, k1) \<and> icmp4_packet_out s1 k2 = Some (s2, k3)
    \<and> written k3 = echo_packet 0 0 (icmp_checksum s2) i q pl
    \<and> (ocs (be_sum True (written k3)) = 65535 \<longleftrightarrow> cd = 0)"
proof -
  obtain k1 where k1: "icmp4_packet_in st a s k = Some (1,
        s\<lparr>icmp_payload := pl @ drop (length pl) (icmp_payload s), buffer_size := int (length pl),
          icmp_sequence := q, icmp_identifier := i, icmp_checksum := c\<rparr>, k1)" (is "_ = Some (1, ?s1, k1)")
    using packet_in_request [OF assms(1-5)] assms(6) by auto
  let ?s2 = "?s1\<lparr>icmp_checksum := reply_checksum c\<rparr>"
  have out: "reply_octets ?s2 = echo_packet 0 0 (reply_checksum c) i q pl"
    by (simp add: reply_octets_def echo_packet_def ICMP_ECHO_REPLY_def)
  then have "length (reply_octets ?s2) = length os" using assms(3) by (simp add: echo_packet_def u16_chars_def)
  then obtain k3 where "out_all (reply_octets ?s2) k2 = Some k3" "written k3 = reply_octets ?s2"
    using out_all_written [of "unat m" k2 "reply_octets ?s2"] prepared_output_room [OF assms(7)] assms(8) by auto
  then have "icmp4_packet_out ?s1 k2 = Some (?s2, k3)" "written k3 = echo_packet 0 0 (reply_checksum c) i q pl"
    using out assms(5) by (simp_all add: icmp4_packet_out_def Let_def)
  then show ?thesis
    using k1 reply_verifies [of cd c i q pl] assms(3,6) 
    by (intro exI [of _ ?s1] exI [of _ k1] exI [of _ ?s2] exI [of _ k3] conjI) simp_all
qed

text \<open>A connection for a packet of the protocol 1 with \<open>n\<close> octets \<open>os\<close>.\<close>

definition ping_site :: site where
  "ping_site = undefined\<lparr>resource := (\<lambda>_. undefined\<lparr>handler_type := type_general_ip_handler\<rparr>)\<rparr>"

definition ping_kernel :: "u16 \<Rightarrow> u8 list \<Rightarrow> kernel" where
  "ping_kernel n os = undefined\<lparr>dev_in := os,
     connections := (\<lambda>_. undefined\<lparr>output_handler := Some (Resource 0), gpip := undefined\<lparr>payload_size := n\<rparr>\<rparr>)\<rparr>"

lemma ping_payload_size: "get_payload_size ping_site (connections (ping_kernel n os) a) = n"
  by (simp add: get_payload_size_def IS_GPIP_def IS_GPIP_HANDLER_def ping_site_def ping_kernel_def)

lemma dev_in_ping: "dev_in (ping_kernel n os) = os"
  by (simp add: ping_kernel_def)

text \<open>A kernel that is about to call the handler for its output.\<close>

definition ping_output :: "u16 \<Rightarrow> kernel" where
  "ping_output m = undefined\<lparr>curr_output := undefined\<lparr>out_buffer := Buffer_gpip, out_max_bytes := m,
     out_content_length := 0, out_service := None\<rparr>, gpip_output_buffer := replicate (unat m) 0\<rparr>"

lemma ping_output_prepared: "prepared_output m (ping_output m)"
  by (simp add: prepared_output_def ping_output_def)

theorem echo_request_is_answered_witness:
  "\<exists>s1 k1 s2 k3. icmp4_packet_in ping_site 0 (undefined\<lparr>icmp_payload := []\<rparr>) (ping_kernel 8 [8, 0, 0xF7, 0xFF, 0, 0, 0, 0])
      = Some (1, s1, k1)
    \<and> icmp4_packet_out s1 (ping_output 8) = Some (s2, k3)
    \<and> ocs (be_sum True (written k3)) = 65535"
proof -
  let ?os = "[8, 0, 0xF7, 0xFF, 0, 0, 0, 0] :: u8 list"
  have "u16_chars 0xF7FF = [0xF7, 0xFF]" "u16_chars 0 = [0, 0]"
    by (simp_all add: u16_chars_def drop_bit_eq_div word_unat_eq_iff unat_u16_to_u8 unat_div)
  then have os: "?os = echo_packet 8 0 0xF7FF 0 0 []" by (simp add: echo_packet_def)
  have sum: "ocs (be_sum True ?os) = 65535" by (simp add: ocs_def)
  have sz: "get_payload_size ping_site (connections (ping_kernel 8 ?os) 0) = of_nat (length ?os)"
    by (simp add: ping_payload_size)
  have dev: "dev_in (ping_kernel 8 ?os) = ?os @ []" by (simp add: dev_in_ping)
  have "length ?os < 65536" "length ([] :: u8 list) \<le> length (icmp_payload (undefined\<lparr>icmp_payload := []\<rparr> :: icmp))"
    "length ?os \<le> unat (8 :: u16)" by simp_all
  then show ?thesis
    using echo_request_is_answered [OF sz _ os dev _ sum ping_output_prepared] by blast
qed

text \<open>
  C25: the payload of an echo request is copied into a buffer of \<open>OUTPUT_BUFFER_SIZE\<close> octets without a test of its
  length: the handler has a defined result exactly when the packet is at most 8 octets longer than the buffer.
\<close>

theorem echo_request_overflows:
  assumes "dev_in k = 8 # os"
  shows "icmp4_packet_in st a s k \<noteq> None
    \<longleftrightarrow> unat (get_payload_size st (connections k a)) \<le> 8 + length (icmp_payload s)"
proof -
  let ?n = "nat (uint (get_payload_size st (connections k a)) - ICMP_HEADER_SIZE)"
  have "uint (get_payload_size st (connections k a)) = int (unat (get_payload_size st (connections k a)))" by simp
  then have n: "?n = unat (get_payload_size st (connections k a)) - 8"
    unfolding ICMP_HEADER_SIZE_def by linarith
  have "read_payload ?n 0 (icmp_payload s) j = None \<longleftrightarrow> length (icmp_payload s) < ?n" for j
    by (simp add: read_payload_defined)
  then have "icmp4_packet_in st a s k \<noteq> None \<longleftrightarrow> ?n \<le> length (icmp_payload s)"
    using assms by (auto simp: icmp4_packet_in_def Let_def ICMP_ECHO_REQUEST_def not_less [symmetric]
        split: prod.splits Option.bind_splits)
  then show ?thesis unfolding n by auto
qed


theorem echo_request_overflows_witness:
  "icmp4_packet_in ping_site 0 (undefined\<lparr>icmp_payload := replicate 256 0\<rparr>) (ping_kernel 265 [8]) = None"
  using echo_request_overflows [of "ping_kernel 265 [8]" "[]" ping_site 0 "undefined\<lparr>icmp_payload := replicate 256 0\<rparr>"]
  by (cases "icmp4_packet_in ping_site 0 (undefined\<lparr>icmp_payload := replicate 256 0\<rparr>) (ping_kernel 265 [8])")
    (simp_all add: ping_payload_size dev_in_ping)

end
