(* ===== verification/Serial_Ring.thy ===== *)
theory Serial_Ring
  imports Prelude "HOL-Library.Monad_Syntax"
begin

text \<open>
  The circular buffer of the serial line drivers, which the targets with a serial line share but for its size: an interrupt
  handler writes at \<open>writePtr\<close>, the stack reads at \<open>readPtr\<close>.
\<close>

section \<open>Model\<close>

definition SLIP_END :: u8 where "SLIP_END = 0xC0"
definition SLIP_ESC :: u8 where "SLIP_ESC = 0xDB"
definition SLIP_ESC_END :: u8 where "SLIP_ESC_END = 0xDC"
definition SLIP_ESC_ESC :: u8 where "SLIP_ESC_ESC = 0xDD"

lemmas slip_codes = SLIP_END_def SLIP_ESC_def SLIP_ESC_END_def SLIP_ESC_ESC_def

datatype slip_state = slip_in | slip_escaped

text \<open>The pointers into the buffer are indices; \<open>NULL\<close> is \<open>None\<close>: no data for \<open>readPtr\<close>, no room for \<open>writePtr\<close>.\<close>

record serial_line =
  buffer :: "u8 list"
  writePtr :: "nat option"
  readPtr :: "nat option"
  slip_state :: slip_state

text \<open>
  The \<open>switch\<close> at the start of the handlers, which removes the frames and the escapes: without a result the handler has
  returned.
\<close>

definition slip_switch :: "u8 \<Rightarrow> serial_line \<Rightarrow> u8 option \<times> serial_line" where
  "slip_switch c s =
    (if c = SLIP_END then (None, s)
     else if c = SLIP_ESC then (None, s\<lparr>slip_state := slip_escaped\<rparr>)
     else if c = SLIP_ESC_END \<and> slip_state s = slip_escaped then (Some SLIP_END, s\<lparr>slip_state := slip_in\<rparr>)
     else if c = SLIP_ESC_ESC \<and> slip_state s = slip_escaped then (Some SLIP_ESC, s\<lparr>slip_state := slip_in\<rparr>)
     else (Some c, s))"

text \<open>The end of the handlers: a character enters the buffer of \<open>N\<close> octets; \<open>*NULL = c\<close> is undefined.\<close>

definition ring_store :: "nat \<Rightarrow> u8 \<Rightarrow> serial_line \<Rightarrow> serial_line option" where
  "ring_store N c s =
    (let s = (if readPtr s = None then s\<lparr>readPtr := writePtr s\<rparr> else s)
     in case writePtr s of
          None \<Rightarrow> None
        | Some w \<Rightarrow>
            (let s = s\<lparr>buffer := (buffer s)[w := c], writePtr := Some (w + 1)\<rparr>;
                 s = (if writePtr s = Some N then s\<lparr>writePtr := Some 0\<rparr> else s)
             in Some (if writePtr s = readPtr s then s\<lparr>writePtr := None\<rparr> else s)))"

text \<open>The reader gives a full buffer its \<open>writePtr\<close> back, then takes a character.\<close>

definition make_room :: "serial_line \<Rightarrow> serial_line" where
  "make_room s = (if writePtr s = None then s\<lparr>writePtr := readPtr s\<rparr> else s)"

definition ring_take :: "nat \<Rightarrow> serial_line \<Rightarrow> u8 option \<times> serial_line" where
  "ring_take N s =
    (case readPtr s of
       None \<Rightarrow> (None, s)
     | Some r \<Rightarrow>
        (let c = buffer s ! r;
             s = s\<lparr>readPtr := Some (r + 1)\<rparr>;
             s = (if readPtr s = Some N then s\<lparr>readPtr := Some 0\<rparr> else s)
         in (Some c, if readPtr s = writePtr s then s\<lparr>readPtr := None\<rparr> else s)))"

definition ring_get :: "nat \<Rightarrow> serial_line \<Rightarrow> u8 option \<times> serial_line" where
  "ring_get N s = (if readPtr s = None then (None, s) else ring_take N (make_room s))"

text \<open>The pointers at the start.\<close>

definition slip_init :: "serial_line \<Rightarrow> serial_line" where
  "slip_init s = s\<lparr>writePtr := Some 0, readPtr := None, slip_state := slip_in\<rparr>"

text \<open>What \<open>dev_put\<close> sends, and a whole packet between \<open>DEV_PREPARE_OUTPUT\<close> and \<open>DEV_OUTPUT_DONE\<close>.\<close>

definition slip_dev_put :: "u8 \<Rightarrow> u8 list" where
  "slip_dev_put b =
    (if b = SLIP_END then [SLIP_ESC, SLIP_ESC_END]
     else if b = SLIP_ESC then [SLIP_ESC, SLIP_ESC_ESC] else [b])"

definition slip_frame :: "u8 list \<Rightarrow> u8 list" where
  "slip_frame bs = [SLIP_END] @ concat (map slip_dev_put bs) @ [SLIP_END]"

section \<open>Queues\<close>

text \<open>The octets of \<open>n\<close> calls of a function that reads one.\<close>

fun get_octets :: "('s \<Rightarrow> 'a option \<times> 's) \<Rightarrow> nat \<Rightarrow> 's \<Rightarrow> 'a list \<times> 's" where
  "get_octets get 0 s = ([], s)"
| "get_octets get (Suc n) s =
    (case get s of
       (None, s) \<Rightarrow> ([], s)
     | (Some c, s) \<Rightarrow> (case get_octets get n s of (cs, s) \<Rightarrow> (c # cs, s)))"

text \<open>
  The interface of a bounded queue: \<open>holds xs s\<close> relates the state to its contents. What a full queue does with
  an octet depends on the driver: one that does not test \<open>writePtr\<close> is undefined, the others drop it.
\<close>

locale fifo =
  fixes holds :: "'a list \<Rightarrow> 's \<Rightarrow> bool"
    and capacity :: nat
    and put :: "'a \<Rightarrow> 's \<Rightarrow> 's option"
    and get :: "'s \<Rightarrow> 'a option \<times> 's"
  assumes put_room: "holds xs s \<Longrightarrow> length xs < capacity \<Longrightarrow> \<exists>s'. put x s = Some s' \<and> holds (xs @ [x]) s'"
    and get_empty: "holds [] s \<Longrightarrow> get s = (None, s)"
    and get_first: "holds (x # xs) s \<Longrightarrow> \<exists>s'. get s = (Some x, s') \<and> holds xs s'"
begin

lemma put_all:
  "holds xs s \<Longrightarrow> length xs + length ys \<le> capacity \<Longrightarrow> \<exists>s'. fold_opt put ys s = Some s' \<and> holds (xs @ ys) s'"
proof (induction ys arbitrary: xs s)
  case (Cons y ys)
  then obtain s1 where "put y s = Some s1" "holds (xs @ [y]) s1" using put_room [of xs s y] by auto
  with Cons.IH [of "xs @ [y]" s1] Cons.prems show ?case by auto
qed simp

lemma get_all: "holds (xs @ ys) s \<Longrightarrow> \<exists>s'. get_octets get (length xs) s = (xs, s') \<and> holds ys s'"
proof (induction xs arbitrary: s)
  case (Cons x xs)
  then obtain s1 where "get s = (Some x, s1)" "holds (xs @ ys) s1"
    using get_first [of x "xs @ ys" s] by auto
  with Cons.IH [of s1] show ?case by auto
qed simp

text \<open>Reading until the queue is empty.\<close>

lemma get_some: "holds xs s \<Longrightarrow> length xs \<le> n \<Longrightarrow> \<exists>s'. get_octets get n s = (xs, s') \<and> holds [] s'"
proof (induction n arbitrary: xs s)
  case (Suc n)
  show ?case
  proof (cases xs)
    case Nil
    then show ?thesis using get_empty Suc.prems(1) by simp
  next
    case (Cons x ys)
    then obtain s1 where "get s = (Some x, s1)" "holds ys s1" using get_first Suc.prems(1) by blast
    with Suc.IH [of ys s1] Suc.prems(2) Cons show ?thesis by auto
  qed
qed simp

end

locale bounded_fifo = fifo +
  assumes put_full: "holds xs s \<Longrightarrow> length xs = capacity \<Longrightarrow> put x s = None"

locale dropping_fifo = fifo +
  assumes put_full: "holds xs s \<Longrightarrow> length xs = capacity \<Longrightarrow> put x s = Some s"
    and holds_length: "holds xs s \<Longrightarrow> length xs \<le> capacity"
begin

lemma put_take: "holds xs s \<Longrightarrow> \<exists>s'. fold_opt put ys s = Some s' \<and> holds (take capacity (xs @ ys)) s'"
proof (induction ys arbitrary: xs s)
  case Nil
  then show ?case using holds_length [OF Nil] by simp
next
  case (Cons y ys)
  show ?case
  proof (cases "length xs < capacity")
    case True
    with put_room [OF Cons.prems, of y] obtain s1 where "put y s = Some s1" "holds (xs @ [y]) s1" by blast
    with Cons.IH [of "xs @ [y]" s1] show ?thesis by simp
  next
    case False
    then have "length xs = capacity" using holds_length [OF Cons.prems] by simp
    with put_full [OF Cons.prems] Cons.IH [OF Cons.prems] show ?thesis by simp
  qed
qed

lemma put_get:
  assumes "holds xs s"
  shows "\<exists>s1 s2. fold_opt put ys s = Some s1 \<and> get_octets get (length (xs @ ys)) s1 = (take capacity (xs @ ys), s2) \<and>
    holds [] s2"
proof -
  obtain s1 where s1: "fold_opt put ys s = Some s1" "holds (take capacity (xs @ ys)) s1"
    using put_take [OF assms] by blast
  have "length (take capacity (xs @ ys)) \<le> length (xs @ ys)" by simp
  from get_some [OF s1(2) this] s1(1) show ?thesis by blast
qed

end

section \<open>The circular buffer is a queue\<close>

text \<open>\<open>n\<close> octets from the index \<open>r\<close> on.\<close>

definition ring_at :: "nat \<Rightarrow> nat \<Rightarrow> nat \<Rightarrow> serial_line \<Rightarrow> bool" where
  "ring_at N r n s \<longleftrightarrow> 1 < N \<and> length (buffer s) = N \<and> r < N \<and> n \<le> N
    \<and> writePtr s = (if n = N then None else Some ((r + n) mod N))
    \<and> readPtr s = (if n = 0 then None else Some r)"

definition ring_holds :: "nat \<Rightarrow> u8 list \<Rightarrow> serial_line \<Rightarrow> bool" where
  "ring_holds N xs s \<longleftrightarrow>
    (\<exists>r. ring_at N r (length xs) s \<and> (\<forall>i<length xs. buffer s ! ((r + i) mod N) = xs ! i))"

lemma ring_holds_length: "ring_holds N xs s \<Longrightarrow> length xs \<le> N"
  by (auto simp: ring_holds_def ring_at_def)

lemma ring_holds_slip_state [simp]: "ring_holds N xs (s\<lparr>slip_state := t\<rparr>) = ring_holds N xs s"
  by (simp add: ring_holds_def ring_at_def)

lemma slip_init_holds: "1 < N \<Longrightarrow> length (buffer s) = N \<Longrightarrow> ring_holds N [] (slip_init s)"
  by (auto simp: ring_holds_def ring_at_def slip_init_def intro!: exI [of _ 0])

lemma ring_index_neq: "i < n \<Longrightarrow> n < N \<Longrightarrow> (r + i) mod N \<noteq> (r + n) mod (N :: nat)"
proof
  assume "i < n" "n < N" "(r + i) mod N = (r + n) mod N"
  then have "N dvd (n - i)" using mod_eq_dvd_iff_nat [of "r + i" "r + n" N] by simp
  with \<open>i < n\<close> \<open>n < N\<close> show False by (auto dest: dvd_imp_le)
qed

lemma ring_store_room:
  assumes "ring_holds N xs s" and "length xs < N"
  shows "\<exists>s'. ring_store N c s = Some s' \<and> ring_holds N (xs @ [c]) s' \<and> slip_state s' = slip_state s"
proof -
  let ?n = "length xs"
  obtain r where r: "ring_at N r ?n s" "\<forall>i<?n. buffer s ! ((r + i) mod N) = xs ! i"
    using assms(1) by (auto simp: ring_holds_def)
  let ?w = "(r + ?n) mod N"
  have N1: "1 < N" using r(1) by (simp add: ring_at_def)
  then have w: "?w < N" by simp
  have nx: "(r + Suc ?n) mod N = (if Suc ?w = N then 0 else Suc ?w)" by (simp add: mod_Suc)
  have wr: "(r + Suc ?n) mod N = r \<longleftrightarrow> Suc ?n = N"
  proof
    assume "(r + Suc ?n) mod N = r"
    then have "\<not> Suc ?n < N" using ring_index_neq [of 0 "Suc ?n" N r] r(1) by (auto simp: ring_at_def)
    then show "Suc ?n = N" using assms(2) by linarith
  next
    assume "Suc ?n = N"
    then show "(r + Suc ?n) mod N = r" using r(1) by (simp add: ring_at_def)
  qed
  let ?s = "s\<lparr>readPtr := Some r, buffer := (buffer s)[?w := c],
    writePtr := (if Suc ?n = N then None else Some ((r + Suc ?n) mod N))\<rparr>"
  have "readPtr s = Some r \<or> ?n = 0 \<and> readPtr s = None \<and> ?w = r" using r(1) by (auto simp: ring_at_def)
  then have "ring_store N c s = Some ?s"
    using r(1) assms(2) nx wr by (auto simp: ring_store_def Let_def ring_at_def)
  moreover have "\<forall>i<Suc ?n. (buffer ?s) ! ((r + i) mod N) = (xs @ [c]) ! i"
    using r w ring_index_neq [of _ ?n N r, THEN not_sym] assms(2)
    by (auto simp: ring_at_def less_Suc_eq nth_append nth_list_update_neq)
  then have "ring_holds N (xs @ [c]) ?s"
    using r(1) assms(2) unfolding ring_holds_def by (intro exI [of _ r]) (auto simp: ring_at_def)
  ultimately show ?thesis by auto
qed

lemma ring_store_full: "ring_holds N xs s \<Longrightarrow> length xs = N \<Longrightarrow> ring_store N c s = None"
  by (auto simp: ring_holds_def ring_at_def ring_store_def Let_def)

lemma ring_get_empty: "ring_holds N [] s \<Longrightarrow> ring_get N s = (None, s)"
  by (auto simp: ring_holds_def ring_at_def ring_get_def)

lemma ring_get_first:
  assumes "ring_holds N (x # xs) s"
  shows "\<exists>s'. ring_get N s = (Some x, s') \<and> ring_holds N xs s'"
proof -
  let ?n = "length xs"
  obtain r where r: "ring_at N r (Suc ?n) s" "\<forall>i<Suc ?n. buffer s ! ((r + i) mod N) = (x # xs) ! i"
    using assms by (auto simp: ring_holds_def)
  let ?r = "Suc r mod N"
  have b: "r < N" "Suc ?n \<le> N" and N1: "1 < N" using r(1) by (auto simp: ring_at_def)
  have nx: "?r = (if Suc r = N then 0 else Suc r)" using b(1) by (simp add: mod_Suc)
  have shift: "(?r + i) mod N = (r + Suc i) mod N" for i by (simp add: mod_add_left_eq)
  have wr: "(r + Suc ?n) mod N = ?r \<longleftrightarrow> ?n = 0 \<or> False" if "Suc ?n < N"
    using ring_index_neq [of 1 "Suc ?n" N r] that by (cases "?n = 0") auto
  let ?s = "s\<lparr>readPtr := (if ?n = 0 then None else Some ?r),
    writePtr := Some ((r + Suc ?n) mod N)\<rparr>"
  have "buffer s ! r = x" using r(2) [rule_format, of 0] b(1) by simp
  moreover have "writePtr s = (if Suc ?n = N then None else Some ((r + Suc ?n) mod N))" "readPtr s = Some r"
    using r(1) by (simp_all add: ring_at_def)
  moreover have "Suc ?n = N \<Longrightarrow> (r + Suc ?n) mod N = r" using b(1) by simp
  moreover have "Suc ?n = N \<Longrightarrow> r \<noteq> ?r \<and> ?n \<noteq> 0" using b(1) N1 nx by (auto split: if_splits)
  ultimately have "ring_get N s = (Some x, ?s)"
    using nx wr b(2) by (cases "Suc ?n = N") (auto simp: ring_get_def make_room_def ring_take_def Let_def)
  moreover have "ring_holds N xs ?s"
    using r b N1 shift unfolding ring_holds_def
    by (intro exI [of _ ?r]) (auto simp: ring_at_def)
  ultimately show ?thesis by blast
qed

section \<open>Decoding\<close>

text \<open>A handler that stores with \<open>put\<close>.\<close>

definition decode_with :: "(u8 \<Rightarrow> serial_line \<Rightarrow> serial_line option) \<Rightarrow> u8 \<Rightarrow> serial_line \<Rightarrow> serial_line option" where
  "decode_with put c s = (case slip_switch c s of (None, s) \<Rightarrow> Some s | (Some c, s) \<Rightarrow> put c s)"

lemma decode_octet:
  assumes "slip_state s = slip_in"
  shows "fold_opt (decode_with put) (slip_dev_put b) s = put b s"
  using assms by (cases s) (auto simp: decode_with_def slip_switch_def slip_dev_put_def slip_codes split: option.split)

text \<open>Decoding a frame is storing the octets of the packet.\<close>

lemma decode_octets:
  assumes "\<And>c s t. put c s = Some t \<Longrightarrow> slip_state t = slip_state s"
  shows "slip_state s = slip_in \<Longrightarrow> fold_opt (decode_with put) (concat (map slip_dev_put bs)) s = fold_opt put bs s"
proof (induction bs arbitrary: s)
  case (Cons b bs)
  then show ?case
    using decode_octet [OF Cons.prems, of put b] assms [of b s]
    by (auto simp: fold_opt_append split: option.splits)
qed simp

lemma decode_mark [simp]: "decode_with put SLIP_END s = Some s"
  by (simp add: decode_with_def slip_switch_def)

lemma decode_frame:
  assumes "\<And>c s t. put c s = Some t \<Longrightarrow> slip_state t = slip_state s" "slip_state s = slip_in"
  shows "fold_opt (decode_with put) (slip_frame bs) s = fold_opt put bs s"
proof -
  have "fold_opt (decode_with put) (concat (map slip_dev_put bs)) s = fold_opt put bs s"
    by (rule decode_octets [OF assms])
  then show ?thesis by (cases "fold_opt put bs s") (simp_all add: slip_frame_def fold_opt_append)
qed

lemma fold_put_slip_state:
  "(\<And>c s t. put c s = Some t \<Longrightarrow> slip_state t = slip_state s) \<Longrightarrow> fold_opt put bs s = Some t \<Longrightarrow>
   slip_state t = slip_state s"
  by (induction bs arbitrary: s) (auto split: option.splits)

lemma ring_store_slip_state: "ring_store N c s = Some t \<Longrightarrow> slip_state t = slip_state s"
  by (auto simp: ring_store_def Let_def split: option.splits if_splits)

end
