(* ===== verification/Slip.thy ===== *)
theory Slip
  imports Serial_Ring
begin

text \<open>
  The serial line driver of the target \<open>mbed_slip\<close> (\<open>drivers/slip.c\<close>, \<open>slip.h\<close>, \<open>target.h\<close>): packets on the line are framed and
  escaped as in SLIP (RFC 1055), and an interrupt handler decodes what arrives into a circular buffer, from which the
  stack reads. The processor is an ARM, whose \<open>char\<close> is unsigned.
\<close>

section \<open>Model\<close>

definition INBUF_SIZE :: nat where "INBUF_SIZE = 2048"

text \<open>The end of the handler, which does not test \<open>writePtr\<close>.\<close>

definition store_char :: "u8 \<Rightarrow> serial_line \<Rightarrow> serial_line option" where
  "store_char = ring_store INBUF_SIZE"

text \<open>One character of the line; the flag says whether the loop goes on.\<close>

definition receive_char :: "u8 \<Rightarrow> serial_line \<Rightarrow> (bool \<times> serial_line) option" where
  "receive_char c s =
    (case slip_switch c s of
       (None, s) \<Rightarrow> Some (False, s)
     | (Some c, s) \<Rightarrow> do { s \<leftarrow> store_char c s; Some (True, s) })"

text \<open>The interrupt handler, on the characters that wait in the device.\<close>

fun SERIAL_INTERRUPT_HANDLER :: "u8 list \<Rightarrow> serial_line \<Rightarrow> (u8 list \<times> serial_line) option" where
  "SERIAL_INTERRUPT_HANDLER [] s = Some ([], s)"
| "SERIAL_INTERRUPT_HANDLER (c # cs) s =
    do { (more, s) \<leftarrow> receive_char c s; if more then SERIAL_INTERRUPT_HANDLER cs s else Some (cs, s) }"

text \<open>
  \<open>dev_get\<close>, from the state at the end of its wait. An interrupt can come between its two steps.
\<close>

definition take_char :: "serial_line \<Rightarrow> u8 option \<times> serial_line" where
  "take_char = ring_take INBUF_SIZE"

definition slip_dev_get :: "serial_line \<Rightarrow> u8 option \<times> serial_line" where
  "slip_dev_get s = (if readPtr s = None then (None, s) else take_char (make_room s))"

text \<open>Interrupts until the device has no more characters: each one takes at least a character.\<close>

lemma interrupt_consumes:
  "SERIAL_INTERRUPT_HANDLER cs s = Some (rest, s') \<Longrightarrow> cs \<noteq> [] \<Longrightarrow> length rest < length cs"
proof (induction cs arbitrary: s)
  case (Cons c cs)
  then show ?case by (cases cs) (fastforce split: Option.bind_splits if_splits)+
qed simp

function slip_interrupts :: "u8 list \<Rightarrow> serial_line \<Rightarrow> serial_line option" where
  "slip_interrupts cs s =
    (if cs = [] then Some s
     else do { (rest, s) \<leftarrow> SERIAL_INTERRUPT_HANDLER cs s; slip_interrupts rest s })"
  by pat_completeness auto
termination
  by (relation "measure (\<lambda>(cs, s). length cs)") (auto dest: interrupt_consumes)

declare slip_interrupts.simps [simp del]

section \<open>The circular buffer is a queue\<close>

definition line_holds :: "u8 list \<Rightarrow> serial_line \<Rightarrow> bool" where
  "line_holds = ring_holds INBUF_SIZE"

lemma INBUF_SIZE_pos: "1 < INBUF_SIZE"
  by (simp add: INBUF_SIZE_def)

lemma slip_dev_get_ring: "slip_dev_get = ring_get INBUF_SIZE"
  by (simp add: fun_eq_iff slip_dev_get_def ring_get_def take_char_def)

interpretation line: bounded_fifo line_holds INBUF_SIZE store_char slip_dev_get
  unfolding line_holds_def store_char_def slip_dev_get_ring
proof (unfold_locales, goal_cases)
  case (1 xs s x)
  then show ?case using ring_store_room [of INBUF_SIZE xs s x] by blast
qed (simp_all add: ring_get_empty ring_get_first ring_store_full)

lemma store_char_slip_state: "store_char c s = Some t \<Longrightarrow> slip_state t = slip_state s"
  unfolding store_char_def by (rule ring_store_slip_state)

section \<open>Decoding\<close>

text \<open>The interrupts process the characters one by one, however the device groups them.\<close>

abbreviation decode_char :: "u8 \<Rightarrow> serial_line \<Rightarrow> serial_line option" where
  "decode_char \<equiv> decode_with store_char"

lemma handler_decodes:
  "fold_opt decode_char cs s =
    do { (rest, s) \<leftarrow> SERIAL_INTERRUPT_HANDLER cs s; fold_opt decode_char rest s }"
  by (induction cs arbitrary: s) (auto simp: decode_with_def receive_char_def split: option.splits prod.splits)

lemma interrupts_decode: "slip_interrupts cs s = fold_opt decode_char cs s"
proof (induction cs s rule: slip_interrupts.induct)
  case (1 cs s)
  show ?case
  proof (cases "cs = []")
    case False
    have "slip_interrupts cs s =
        do { (rest, s) \<leftarrow> SERIAL_INTERRUPT_HANDLER cs s; fold_opt decode_char rest s }"
      by (subst slip_interrupts.simps) (auto simp: False "1.IH" split: Option.bind_splits)
    then show ?thesis using handler_decodes [of cs s] by simp
  qed (simp add: slip_interrupts.simps)
qed

lemma frame_stored: "slip_state s = slip_in \<Longrightarrow> slip_interrupts (slip_frame bs) s = fold_opt store_char bs s"
  unfolding interrupts_decode by (rule decode_frame [OF store_char_slip_state])

abbreviation slip_read :: "nat \<Rightarrow> serial_line \<Rightarrow> u8 list \<times> serial_line" where
  "slip_read \<equiv> get_octets slip_dev_get"

section \<open>Properties\<close>

text \<open>
  A packet that one end sends arrives at the other: if the circular buffer has room for it, the interrupts decode the
  frame into exactly the octets of the packet, behind what the buffer held, and \<open>dev_get\<close> delivers all of
  them in order.
\<close>

lemma slip_delivers:
  assumes "line_holds xs s" and "slip_state s = slip_in" and "length xs + length bs \<le> INBUF_SIZE"
  shows "\<exists>s1 s2. slip_interrupts (slip_frame bs) s = Some s1 \<and> slip_read (length (xs @ bs)) s1 = (xs @ bs, s2)
    \<and> line_holds [] s2 \<and> slip_state s1 = slip_in"
proof -
  obtain s1 where s1: "fold_opt store_char bs s = Some s1" "line_holds (xs @ bs) s1"
    using line.put_all [OF assms(1,3)] by blast
  moreover have "slip_state s1 = slip_in" using fold_put_slip_state [OF store_char_slip_state s1(1)] assms(2) by simp
  moreover obtain s2 where "slip_read (length (xs @ bs)) s1 = (xs @ bs, s2)" "line_holds [] s2"
    using line.get_all [of "xs @ bs" "[]" s1] s1(2) by auto
  ultimately show ?thesis using frame_stored [OF assms(2)] by auto
qed

text \<open>The initial state.\<close>

lemma slip_init_line: "length (buffer s) = INBUF_SIZE \<Longrightarrow> line_holds [] (slip_init s)"
  unfolding line_holds_def by (rule slip_init_holds [OF INBUF_SIZE_pos])

definition example_line :: serial_line where
  "example_line = slip_init \<lparr>buffer = replicate INBUF_SIZE 0, writePtr = None, readPtr = None, slip_state = slip_in\<rparr>"

text \<open>
  When the buffer is full, the next octet of data is written through the null pointer: the handler does
  not test \<open>writePtr\<close>, as the one of the Arduino target does.
\<close>

theorem slip_overrun_undefined:
  assumes "line_holds xs s" and "slip_state s = slip_in" and "length xs + length bs > INBUF_SIZE"
  shows "slip_interrupts (slip_frame bs) s = None"
proof -
  let ?n = "INBUF_SIZE - length xs"
  have le: "length xs \<le> INBUF_SIZE" using assms(1) ring_holds_length by (simp add: line_holds_def)
  then have "length xs + length (take ?n bs) \<le> INBUF_SIZE" by auto
  from line.put_all [OF assms(1) this] obtain s1 where
    s1: "fold_opt store_char (take ?n bs) s = Some s1" "line_holds (xs @ take ?n bs) s1" by blast
  obtain b cs where b: "drop ?n bs = b # cs" using assms(3) le by (cases "drop ?n bs") auto
  have "store_char b s1 = None" using line.put_full [OF s1(2)] le assms(3) by simp
  then have "fold_opt store_char (take ?n bs @ drop ?n bs) s = None"
    using s1(1) unfolding b by (simp add: fold_opt_append)
  then show ?thesis using frame_stored [OF assms(2)] by simp
qed

theorem slip_overrun_undefined_witness:
  "slip_interrupts (slip_frame (replicate 2049 7)) example_line = None"
proof -
  have "line_holds [] example_line" "slip_state example_line = slip_in"
    unfolding example_line_def by (rule slip_init_line, simp) (simp add: slip_init_def)
  then show ?thesis
    using slip_overrun_undefined [of "[]" example_line "replicate 2049 7"] by (simp add: INBUF_SIZE_def)
qed

text \<open>
  \<open>dev_get\<close> does not disable the interrupts. When one brings an octet just after \<open>dev_get\<close> has made
  room in a full buffer, \<open>dev_get\<close> returns this octet instead of the oldest one, and everything that was in the buffer is
  lost.
\<close>

theorem slip_race_loses_buffer:
  assumes "line_holds xs s" and "length xs = INBUF_SIZE"
    and "c \<notin> {SLIP_END, SLIP_ESC, SLIP_ESC_END, SLIP_ESC_ESC}"
  shows "\<exists>s1 s2. SERIAL_INTERRUPT_HANDLER [c] (make_room s) = Some ([], s1) \<and> take_char s1 = (Some c, s2) \<and> line_holds [] s2"
proof -
  obtain r where r: "r < INBUF_SIZE" "length (buffer s) = INBUF_SIZE" "writePtr s = None" "readPtr s = Some r"
    using assms(1,2) INBUF_SIZE_pos by (auto simp: line_holds_def ring_holds_def ring_at_def split: if_splits)
  let ?r = "Suc r mod INBUF_SIZE"
  have nx: "?r = (if Suc r = INBUF_SIZE then 0 else Suc r)" "?r \<noteq> r" "?r < INBUF_SIZE"
    using r(1) INBUF_SIZE_pos by (auto simp: mod_Suc)
  let ?s1 = "s\<lparr>buffer := (buffer s)[r := c], writePtr := Some ?r\<rparr>"
  have "SERIAL_INTERRUPT_HANDLER [c] (make_room s) = Some ([], ?s1)"
    using r nx assms(3) by (auto simp: make_room_def receive_char_def slip_switch_def store_char_def ring_store_def Let_def)
  moreover have "take_char ?s1 = (Some c, ?s1\<lparr>readPtr := None\<rparr>)"
    using r nx by (auto simp: take_char_def ring_take_def Let_def)
  moreover have "line_holds [] (?s1\<lparr>readPtr := None\<rparr>)"
    using r nx INBUF_SIZE_pos by (auto simp: line_holds_def ring_holds_def ring_at_def)
  ultimately show ?thesis by blast
qed

definition full_line :: serial_line where
  "full_line = \<lparr>buffer = replicate INBUF_SIZE 65, writePtr = None, readPtr = Some 0, slip_state = slip_in\<rparr>"

theorem slip_race_loses_buffer_witness:
  "\<exists>s1 s2. SERIAL_INTERRUPT_HANDLER [66] (make_room full_line) = Some ([], s1) \<and> take_char s1 = (Some 66, s2) \<and> line_holds [] s2"
proof (rule slip_race_loses_buffer [of "replicate INBUF_SIZE 65"])
  show "line_holds (replicate INBUF_SIZE 65) full_line"
    using INBUF_SIZE_pos by (auto simp: line_holds_def ring_holds_def ring_at_def full_line_def intro!: exI [of _ 0])
qed (simp_all add: slip_codes)

end
