(* ===== verification/Serial_Lines.thy ===== *)
theory Serial_Lines
  imports Serial_Ring
begin

text \<open>
  The serial lines of the targets \<open>Arduino_slip\<close>, \<open>WSN430\<close>, \<open>MicaZ\<close> and \<open>GBA\<close>, and of the relay of \<open>WSN430wireless\<close>
  (\<open>serial_line.c\<close>, \<open>serial_line.h\<close> of each). Their handlers take one character and test \<open>writePtr\<close>: what does not
  fit is dropped. All but the relay frame and escape packets. \<open>dev_get\<close> is taken from the end of its wait on; the
  registers are left out, but for the mask of the interrupt of the \<open>GBA\<close>.
\<close>

section \<open>Model\<close>

definition ARDUINO_INBUF_SIZE :: nat where "ARDUINO_INBUF_SIZE = 128"
definition WSN430_INBUF_SIZE :: nat where "WSN430_INBUF_SIZE = 512"
definition MICAZ_INBUF_SIZE :: nat where "MICAZ_INBUF_SIZE = 512"
definition GBA_INBUF_SIZE :: nat where "GBA_INBUF_SIZE = 512"
definition RELAY_INBUF_SIZE :: nat where "RELAY_INBUF_SIZE = 512"

text \<open>The end of the handlers.\<close>

definition put_drop :: "nat \<Rightarrow> u8 \<Rightarrow> serial_line \<Rightarrow> serial_line option" where
  "put_drop N c s = (if writePtr s = None then Some s else ring_store N c s)"

subsection \<open>Arduino_slip\<close>

definition arduino_USART_RX :: "u8 \<Rightarrow> serial_line \<Rightarrow> serial_line option" where
  "arduino_USART_RX c s =
    (case slip_switch c s of (None, s) \<Rightarrow> Some s | (Some c, s) \<Rightarrow> put_drop ARDUINO_INBUF_SIZE c s)"

definition arduino_read_byte :: "serial_line \<Rightarrow> u8 option \<times> serial_line" where
  "arduino_read_byte s = ring_take ARDUINO_INBUF_SIZE (make_room s)"

definition arduino_dev_get :: "serial_line \<Rightarrow> u8 option \<times> serial_line" where
  "arduino_dev_get s = (if readPtr s = None then (None, s) else arduino_read_byte s)"

subsection \<open>WSN430\<close>

text \<open>\<open>rxerr\<close> is the flag of a receive error.\<close>

definition wsn430_usart1irq :: "bool \<Rightarrow> u8 \<Rightarrow> serial_line \<Rightarrow> serial_line option" where
  "wsn430_usart1irq rxerr c s =
    (if rxerr then Some s
     else case slip_switch c s of (None, s) \<Rightarrow> Some s | (Some c, s) \<Rightarrow> put_drop WSN430_INBUF_SIZE c s)"

definition wsn430_read_byte :: "serial_line \<Rightarrow> u8 option \<times> serial_line" where
  "wsn430_read_byte s = ring_take WSN430_INBUF_SIZE (make_room s)"

definition wsn430_dev_get :: "serial_line \<Rightarrow> u8 option \<times> serial_line" where
  "wsn430_dev_get s = (if readPtr s = None then (None, s) else wsn430_read_byte s)"

subsection \<open>MicaZ\<close>

definition micaz_USART0_RX :: "u8 \<Rightarrow> serial_line \<Rightarrow> serial_line option" where
  "micaz_USART0_RX c s =
    (case slip_switch c s of (None, s) \<Rightarrow> Some s | (Some c, s) \<Rightarrow> put_drop MICAZ_INBUF_SIZE c s)"

definition micaz_read_byte :: "serial_line \<Rightarrow> u8 option \<times> serial_line" where
  "micaz_read_byte s = ring_take MICAZ_INBUF_SIZE (make_room s)"

definition micaz_dev_get :: "serial_line \<Rightarrow> u8 option \<times> serial_line" where
  "micaz_dev_get s = (if readPtr s = None then (None, s) else micaz_read_byte s)"

subsection \<open>The relay of WSN430wireless\<close>

definition relay_usart1irq :: "bool \<Rightarrow> u8 \<Rightarrow> serial_line \<Rightarrow> serial_line option" where
  "relay_usart1irq rxerr c s = (if rxerr then Some s else put_drop RELAY_INBUF_SIZE c s)"

definition relay_read_byte :: "serial_line \<Rightarrow> u8 option \<times> serial_line" where
  "relay_read_byte s = ring_take RELAY_INBUF_SIZE (make_room s)"

definition relay_dev_get :: "serial_line \<Rightarrow> u8 option \<times> serial_line" where
  "relay_dev_get s = (if readPtr s = None then (None, s) else relay_read_byte s)"

subsection \<open>GBA\<close>

text \<open>
  The handler masks its interrupt in \<open>REG_IE\<close>, and so does the reader; \<open>idle\<close> is the flag \<open>SIO_RECV_DATA\<close> of a line
  without data.
\<close>

record gba =
  gba_line :: serial_line
  reg_ie :: bool

definition gba_int_serial_com :: "bool \<Rightarrow> u8 \<Rightarrow> gba \<Rightarrow> gba option" where
  "gba_int_serial_com idle c g =
    (let g = g\<lparr>reg_ie := False\<rparr>
     in if idle then Some g
        else case slip_switch c (gba_line g) of
          (None, s) \<Rightarrow> Some (g\<lparr>gba_line := s\<rparr>)
        | (Some c, s) \<Rightarrow>
            do { s \<leftarrow> put_drop GBA_INBUF_SIZE c s; Some (g\<lparr>gba_line := s, reg_ie := True\<rparr>) })"

definition gba_read_byte :: "gba \<Rightarrow> u8 option \<times> gba" where
  "gba_read_byte g =
    (let g = g\<lparr>reg_ie := False\<rparr>;
         (c, s) = ring_take GBA_INBUF_SIZE (make_room (gba_line g))
     in (c, g\<lparr>gba_line := s, reg_ie := True\<rparr>))"

definition gba_dev_get :: "gba \<Rightarrow> u8 option \<times> gba" where
  "gba_dev_get g = (if readPtr (gba_line g) = None then (None, g) else gba_read_byte g)"

text \<open>What happens at the line: a character arrives, and calls the handler unless it is masked; the stack reads.\<close>

datatype gba_event = Arrives bool u8 | Reads

fun gba_run :: "gba_event list \<Rightarrow> gba \<Rightarrow> (u8 option list \<times> gba) option" where
  "gba_run [] g = Some ([], g)"
| "gba_run (Arrives idle c # es) g =
    (if reg_ie g then do { g \<leftarrow> gba_int_serial_com idle c g; gba_run es g } else gba_run es g)"
| "gba_run (Reads # es) g =
    (let (c, g) = gba_dev_get g in do { (cs, g) \<leftarrow> gba_run es g; Some (c # cs, g) })"

section \<open>The circular buffers are queues that drop what does not fit\<close>

interpretation drop: dropping_fifo "ring_holds N" N "put_drop N" "ring_get N" for N
proof (unfold_locales, goal_cases)
  case (1 xs s x)
  moreover from 1 have "writePtr s \<noteq> None" by (auto simp: ring_holds_def ring_at_def)
  ultimately show ?case using ring_store_room [of N xs s x] by (auto simp: put_drop_def)
next
  case (4 xs s x)
  then have "writePtr s = None" by (auto simp: ring_holds_def ring_at_def)
  then show ?case by (simp add: put_drop_def)
qed (simp_all add: ring_get_empty ring_get_first ring_holds_length)

lemma put_drop_slip_state: "put_drop N c s = Some t \<Longrightarrow> slip_state t = slip_state s"
  by (auto simp: put_drop_def ring_store_slip_state split: if_splits)

text \<open>A frame that arrives and is then read.\<close>

lemma frame_delivered:
  assumes "ring_holds N xs s" "slip_state s = slip_in"
  shows "\<exists>s1 s2. fold_opt (decode_with (put_drop N)) (slip_frame bs) s = Some s1 \<and>
    get_octets (ring_get N) (length (xs @ bs)) s1 = (take N (xs @ bs), s2) \<and> ring_holds N [] s2 \<and> slip_state s1 = slip_in"
proof -
  obtain s1 s2 where s1: "fold_opt (put_drop N) bs s = Some s1"
    "get_octets (ring_get N) (length (xs @ bs)) s1 = (take N (xs @ bs), s2)" "ring_holds N [] s2"
    using drop.put_get [OF assms(1)] by blast
  moreover have "slip_state s1 = slip_in" using fold_put_slip_state [OF put_drop_slip_state s1(1)] assms(2) by simp
  moreover have "fold_opt (decode_with (put_drop N)) (slip_frame bs) s = Some s1"
    using decode_frame [OF put_drop_slip_state assms(2)] s1(1) by simp
  ultimately show ?thesis by blast
qed

text \<open>The drivers in terms of the queue.\<close>

lemma drivers_ring:
  "arduino_USART_RX = decode_with (put_drop ARDUINO_INBUF_SIZE)" "arduino_dev_get = ring_get ARDUINO_INBUF_SIZE"
  "wsn430_usart1irq False = decode_with (put_drop WSN430_INBUF_SIZE)" "wsn430_dev_get = ring_get WSN430_INBUF_SIZE"
  "micaz_USART0_RX = decode_with (put_drop MICAZ_INBUF_SIZE)" "micaz_dev_get = ring_get MICAZ_INBUF_SIZE"
  "relay_usart1irq False = put_drop RELAY_INBUF_SIZE" "relay_dev_get = ring_get RELAY_INBUF_SIZE"
  by (simp_all add: fun_eq_iff arduino_USART_RX_def decode_with_def arduino_dev_get_def arduino_read_byte_def
      wsn430_usart1irq_def wsn430_dev_get_def wsn430_read_byte_def micaz_USART0_RX_def micaz_dev_get_def
      micaz_read_byte_def relay_usart1irq_def relay_dev_get_def relay_read_byte_def ring_get_def)

lemma relay_delivers:
  assumes "ring_holds RELAY_INBUF_SIZE xs s"
  shows "\<exists>s1 s2. fold_opt (relay_usart1irq False) bs s = Some s1 \<and>
    get_octets relay_dev_get (length (xs @ bs)) s1 = (take RELAY_INBUF_SIZE (xs @ bs), s2)"
  unfolding drivers_ring using drop.put_get [OF assms] by blast

text \<open>When the GBA has masked its interrupt and has nothing to read, nothing happens any more.\<close>

lemma gba_masked:
  "\<not> reg_ie g \<Longrightarrow> readPtr (gba_line g) = None \<Longrightarrow>
   gba_run es g = Some (replicate (length (filter (\<lambda>e. e = Reads) es)) None, g)"
proof (induction es)
  case (Cons e es)
  then show ?case by (cases e) (simp_all add: gba_dev_get_def)
qed simp

section \<open>Properties\<close>

definition slip_drivers ::
    "(nat \<times> (u8 \<Rightarrow> serial_line \<Rightarrow> serial_line option) \<times> (serial_line \<Rightarrow> u8 option \<times> serial_line)) set" where
  "slip_drivers =
    {(ARDUINO_INBUF_SIZE, arduino_USART_RX, arduino_dev_get),
     (WSN430_INBUF_SIZE, wsn430_usart1irq False, wsn430_dev_get),
     (MICAZ_INBUF_SIZE, micaz_USART0_RX, micaz_dev_get)}"

text \<open>
  C32: On the Arduino, the WSN430 and the MicaZ a frame is decoded into the octets of its packet, which \<open>dev_get\<close>
  delivers in order behind those that were there; when the buffer is full the rest of the packet is dropped,
  and nothing is undefined.
\<close>

theorem serial_lines_deliver:
  assumes "(N, irq, get) \<in> slip_drivers" "ring_holds N xs s" "slip_state s = slip_in"
  shows "\<exists>s1 s2. fold_opt irq (slip_frame bs) s = Some s1 \<and>
    get_octets get (length (xs @ bs)) s1 = (take N (xs @ bs), s2) \<and> ring_holds N [] s2 \<and> slip_state s1 = slip_in"
  using frame_delivered [OF assms(2,3)] assms(1) by (auto simp: slip_drivers_def drivers_ring)

theorem serial_lines_deliver_witness:
  "\<exists>s1 s2. fold_opt arduino_USART_RX (slip_frame (0xC0 # replicate 200 7))
       (slip_init \<lparr>buffer = replicate 128 0, writePtr = None, readPtr = None, slip_state = slip_in\<rparr>) = Some s1 \<and>
     get_octets arduino_dev_get 201 s1 = (0xC0 # replicate 127 7, s2)"
proof -
  let ?s = "slip_init \<lparr>buffer = replicate 128 0, writePtr = None, readPtr = None, slip_state = slip_in\<rparr>"
  have "ring_holds ARDUINO_INBUF_SIZE [] ?s"
    by (rule slip_init_holds) (simp_all add: ARDUINO_INBUF_SIZE_def)
  moreover have "slip_state ?s = slip_in" by (simp add: slip_init_def)
  moreover have "take 128 (0xC0 # replicate 200 7) = 0xC0 # replicate 127 (7 :: u8)"
    by (simp add: take_Cons' min_def)
  ultimately show ?thesis
    using serial_lines_deliver [of ARDUINO_INBUF_SIZE arduino_USART_RX arduino_dev_get "[]" ?s "0xC0 # replicate 200 7"]
    by (auto simp: slip_drivers_def ARDUINO_INBUF_SIZE_def)
qed

text \<open>
  The handler of the GBA leaves its interrupt masked when it returns at the mark of a frame, and only a read of
  an octet removes the mask: when the buffer is empty, as it is when the first frame begins, whatever arrives afterwards
  is lost, and \<open>dev_get\<close> never returns an octet again.
\<close>

theorem gba_deaf_after_mark:
  assumes "ring_holds GBA_INBUF_SIZE [] (gba_line g)"
  shows "gba_run (Arrives False SLIP_END # es) g =
      (if reg_ie g then Some (replicate (length (filter (\<lambda>e. e = Reads) es)) None, g\<lparr>reg_ie := False\<rparr>)
       else gba_run es g)"
proof -
  have "readPtr (gba_line g) = None" using assms by (auto simp: ring_holds_def ring_at_def)
  moreover have "g\<lparr>reg_ie := False, gba_line := gba_line g\<rparr> = g\<lparr>reg_ie := False\<rparr>" by simp
  ultimately show ?thesis
    using gba_masked [of "g\<lparr>reg_ie := False\<rparr>" es]
    by (simp add: gba_int_serial_com_def slip_switch_def)
qed

definition gba_start :: gba where
  "gba_start = \<lparr>gba_line = slip_init \<lparr>buffer = replicate GBA_INBUF_SIZE 0, writePtr = None, readPtr = None, slip_state = slip_in\<rparr>,
     reg_ie = True\<rparr>"

theorem gba_deaf_after_mark_witness:
  "gba_run [Arrives False 0xC0, Arrives False 0x45, Reads, Arrives False 0xC0, Reads] gba_start =
    Some ([None, None], gba_start\<lparr>reg_ie := False\<rparr>)"
proof -
  have "ring_holds GBA_INBUF_SIZE [] (gba_line gba_start)"
    unfolding gba_start_def by (simp, rule slip_init_holds) (simp_all add: GBA_INBUF_SIZE_def)
  moreover have "reg_ie gba_start" by (simp add: gba_start_def)
  ultimately show ?thesis
    using gba_deaf_after_mark [of gba_start "[Arrives False 0x45, Reads, Arrives False 0xC0, Reads]"]
    by (simp add: SLIP_END_def numeral_2_eq_2)
qed

end
