(* ===== verification/Udp.thy ===== *)
theory Udp
  imports Packet_Handlers
begin

text \<open>
  The application \<open>apps/udp/udp.c\<close>, a handler of the IP protocol 17 on which other applications listen to UDP ports. The
  listeners are a circular list in \<open>alloc_buffer\<close>. The operands of \<open>in() << 8 | in()\<close> are evaluated from left to right.
\<close>

section \<open>Model\<close>

record udp_args =
  arg_src_port :: u16
  arg_dst_port :: u16
  arg_payload_size :: u16
  arg_chk :: u16
  connection_info :: ptr
  udp_handle :: ptr

record udp_callback =
  cb_port :: u16
  packet_in :: fptr
  packet_out :: fptr
  cb_args :: udp_args
  cb_next :: ptr
  cb_prev :: ptr

text \<open>The static variables, and the store of the blocks with callbacks.\<close>

record udp =
  callbacks :: "nat \<Rightarrow> udp_callback"
  udp_head :: ptr
  udp_output_buffer :: "u8 list"
  current_payload_size :: u16

abbreviation upd_callback :: "nat \<Rightarrow> (udp_callback \<Rightarrow> udp_callback) \<Rightarrow> udp \<Rightarrow> udp" where
  "upd_callback a f u \<equiv> u\<lparr>callbacks := (callbacks u)(a := f (callbacks u a))\<rparr>"

abbreviation upd_args :: "(udp_args \<Rightarrow> udp_args) \<Rightarrow> udp_callback \<Rightarrow> udp_callback" where
  "upd_args f x \<equiv> x\<lparr>cb_args := f (cb_args x)\<rparr>"

text \<open>A new callback at the end of the list; without memory the code writes through \<open>NULL\<close> before it tests it.\<close>

definition new_callback :: "u16 \<Rightarrow> udp \<Rightarrow> kernel \<Rightarrow> (nat \<times> udp \<times> kernel) option" where
  "new_callback sz u k =
    do { (p, k) \<leftarrow> k_alloc sz k;
         n \<leftarrow> p;
         let u = upd_callback n (\<lambda>x. x\<lparr>cb_next := None, cb_prev := None\<rparr>) u;
         u \<leftarrow> (case udp_head u of
                 None \<Rightarrow> Some (upd_callback n (\<lambda>x. x\<lparr>cb_next := Some n, cb_prev := Some n\<rparr>) (u\<lparr>udp_head := Some n\<rparr>))
               | Some h \<Rightarrow>
                  do { l \<leftarrow> cb_prev (callbacks u h);
                       let u = upd_callback l (\<lambda>x. x\<lparr>cb_next := Some n\<rparr>) u;
                       let u = upd_callback n (\<lambda>x. x\<lparr>cb_prev := cb_prev (callbacks u h)\<rparr>) u;
                       let u = upd_callback h (\<lambda>x. x\<lparr>cb_prev := Some n\<rparr>) u;
                       Some (upd_callback n (\<lambda>x. x\<lparr>cb_next := Some h\<rparr>) u) });
         Some (n, upd_callback n (upd_args (\<lambda>x. x\<lparr>udp_handle := Some n\<rparr>)) u, k) }"

text \<open>The search of the list, for a port or for a connection.\<close>

partial_function (option) find_callback :: "(udp_callback \<Rightarrow> bool) \<Rightarrow> udp \<Rightarrow> nat \<Rightarrow> ptr option" where
  "find_callback P u n =
     (if P (callbacks u n) then Some (Some n)
      else
       (case cb_next (callbacks u n) of
          None \<Rightarrow> None
        | Some m \<Rightarrow> if Some m = udp_head u then Some None else find_callback P u m))"

definition search_callback :: "(udp_callback \<Rightarrow> bool) \<Rightarrow> udp \<Rightarrow> ptr option" where
  "search_callback P u = (case udp_head u of None \<Rightarrow> Some None | Some h \<Rightarrow> find_callback P u h)"

definition get_callback :: "u16 \<Rightarrow> udp \<Rightarrow> ptr option" where
  "get_callback src_port = search_callback (\<lambda>x. cb_port x = src_port)"

definition get_callback_from_connection :: "nat \<Rightarrow> udp \<Rightarrow> ptr option" where
  "get_callback_from_connection c = search_callback (\<lambda>x. connection_info (cb_args x) = Some c)"

text \<open>
  The callbacks of an application are functions on its own state, the one of UDP and the kernel; their argument is
  the member \<open>args\<close> of the callback at an address.
\<close>

type_synonym 'd world = "'d \<times> udp \<times> kernel"

record 'd udp_apps =
  call_in :: "nat \<Rightarrow> nat \<Rightarrow> 'd world \<Rightarrow> (u8 \<times> 'd world) option"
  call_out :: "nat \<Rightarrow> nat \<Rightarrow> 'd world \<Rightarrow> 'd world option"

definition udp_packet_in :: "'d udp_apps \<Rightarrow> nat \<Rightarrow> 'd world \<Rightarrow> (u8 \<times> 'd world) option" where
  "udp_packet_in ap c w =
    (let (d, u, k) = w; (sport, k) = in_u16 k; (dport, k) = in_u16 k
     in do { p \<leftarrow> get_callback dport u;
             case p of
               None \<Rightarrow> Some (0, d, u, k)
             | Some n \<Rightarrow>
                (let (len, k) = in_u16 k; (ck, k) = in_u16 k;
                     u = upd_callback n (upd_args (\<lambda>x. x\<lparr>arg_src_port := sport, arg_dst_port := dport,
                       arg_payload_size := len - 8, arg_chk := ck, connection_info := Some c\<rparr>)) u
                 in do { f \<leftarrow> packet_in (callbacks u n); call_in ap f n (d, u, k) }) })"

text \<open>The output: the payload is collected before its length is known.\<close>

definition udp_outc :: "target \<Rightarrow> u8 \<Rightarrow> udp \<Rightarrow> udp" where
  "udp_outc tg c u =
    (if OUTPUT_BUFFER_SIZE tg \<le> current_payload_size u then u
     else u\<lparr>udp_output_buffer := (udp_output_buffer u)[unat (current_payload_size u) := c],
            current_payload_size := current_payload_size u + 1\<rparr>)"

definition udp_outa :: "target \<Rightarrow> u8 list \<Rightarrow> udp \<Rightarrow> udp" where
  "udp_outa tg cs u =
    (if unat (OUTPUT_BUFFER_SIZE tg) \<le> unat (current_payload_size u) + length cs then u
     else u\<lparr>udp_output_buffer := take (unat (current_payload_size u)) (udp_output_buffer u) @ cs
              @ drop (unat (current_payload_size u) + length cs) (udp_output_buffer u),
            current_payload_size := current_payload_size u + of_nat (length cs)\<rparr>)"

definition udp_packet_out :: "'d udp_apps \<Rightarrow> nat \<Rightarrow> 'd world \<Rightarrow> 'd world option" where
  "udp_packet_out ap c w =
    (let (d, u, k) = w
     in do { p \<leftarrow> get_callback_from_connection c u;
             case p of
               None \<Rightarrow> Some (d, u, k)
             | Some n \<Rightarrow>
                do { k \<leftarrow> out_all (u16_chars (arg_src_port (cb_args (callbacks u n)))
                         @ u16_chars (arg_dst_port (cb_args (callbacks u n)))) k;
                     f \<leftarrow> packet_out (callbacks u n);
                     (d, u, k) \<leftarrow> call_out ap f n (d, u\<lparr>current_payload_size := 0\<rparr>, k);
                     k \<leftarrow> out_all (u16_chars (current_payload_size u + 8) @ [0, 0]
                         @ take (unat (current_payload_size u)) (udp_output_buffer u)) k;
                     Some (d, u, k) } })"

definition udp_listen :: "u16 \<Rightarrow> u16 \<Rightarrow> fptr \<Rightarrow> fptr \<Rightarrow> udp \<Rightarrow> kernel \<Rightarrow> (ptr \<times> udp \<times> kernel) option" where
  "udp_listen sz prt fi fo u k =
    do { p \<leftarrow> get_callback prt u;
         case p of
           Some _ \<Rightarrow> Some (None, u, k)
         | None \<Rightarrow>
            do { (n, u, k) \<leftarrow> new_callback sz u k;
                 Some (Some n, upd_callback n (\<lambda>x. x\<lparr>cb_port := prt, packet_in := fi, packet_out := fo\<rparr>) u, k) } }"

text \<open>\<open>local\<close> is the indeterminate connection of \<open>request_packet_out_call\<close>.\<close>

definition udp_request_send :: "target \<Rightarrow> site \<Rightarrow> connection \<Rightarrow> u32 \<Rightarrow> u16 \<Rightarrow> u16 \<Rightarrow> udp \<Rightarrow> kernel \<Rightarrow> (udp \<times> kernel) option" where
  "udp_request_send tg st local dst_ip dport sport u k =
    do { p \<leftarrow> get_callback sport u;
         case p of
           None \<Rightarrow> Some (u, k)
         | Some n \<Rightarrow>
            do { (c, k) \<leftarrow> request_packet_out_call tg st local 17 dst_ip k;
                 Some (upd_callback n (upd_args (\<lambda>x. x\<lparr>connection_info := c, arg_src_port := sport, arg_dst_port := dport\<rparr>)) u, k) } }"

section \<open>The list of listeners\<close>

definition cb_linked :: "udp \<Rightarrow> nat \<Rightarrow> nat \<Rightarrow> bool" where
  "cb_linked u a b \<longleftrightarrow> cb_next (callbacks u a) = Some b \<and> cb_prev (callbacks u b) = Some a"

text \<open>The addresses of the callbacks from \<open>_head\<close> on; the ports of the listeners differ.\<close>

definition cb_ring :: "udp \<Rightarrow> nat list \<Rightarrow> bool" where
  "cb_ring u ns \<longleftrightarrow>
    udp_head u = (case ns of [] \<Rightarrow> None | n # _ \<Rightarrow> Some n) \<and> distinct ns \<and>
    (ns \<noteq> [] \<longrightarrow> successively (cb_linked u) (ns @ [hd ns]))"

definition listeners :: "udp \<Rightarrow> nat list \<Rightarrow> bool" where
  "listeners u ns \<longleftrightarrow> cb_ring u ns \<and> distinct (map (\<lambda>a. cb_port (callbacks u a)) ns)"

lemma find_callback_rest:
  assumes "successively (cb_linked u) (ms @ [h])" and "udp_head u = Some h" and "ms \<noteq> []" and "h \<notin> set (tl ms)"
  shows "find_callback P u (hd ms) = Some (List.find (\<lambda>a. P (callbacks u a)) ms)"
  using assms
proof (induction ms)
  case (Cons m ms)
  show ?case
  proof (cases ms)
    case Nil
    then show ?thesis using Cons.prems by (subst find_callback.simps) (simp add: cb_linked_def)
  next
    case (Cons b bs)
    then have "b \<noteq> h" "cb_next (callbacks u m) = Some b" using Cons.prems by (auto simp: cb_linked_def)
    moreover have "find_callback P u b = Some (List.find (\<lambda>a. P (callbacks u a)) ms)"
      using Cons.IH Cons.prems Cons by auto
    ultimately show ?thesis using Cons.prems(2) by (subst find_callback.simps) auto
  qed
qed simp

lemma search_callback_find:
  assumes "cb_ring u ns"
  shows "search_callback P u = Some (List.find (\<lambda>a. P (callbacks u a)) ns)"
proof (cases ns)
  case (Cons n ms)
  then have "find_callback P u (hd ns) = Some (List.find (\<lambda>a. P (callbacks u a)) ns)"
    using assms by (intro find_callback_rest [of u ns n]) (auto simp: cb_ring_def)
  then show ?thesis using assms Cons by (simp add: search_callback_def cb_ring_def)
qed (use assms in \<open>simp add: search_callback_def cb_ring_def\<close>)

text \<open>The links between neighbours only depend on these fields.\<close>

lemma cb_linked_cong:
  "successively (cb_linked u) (x # ns) \<Longrightarrow> \<forall>a\<in>set (butlast (x # ns)). cb_next (callbacks u' a) = cb_next (callbacks u a) \<Longrightarrow>
   \<forall>b\<in>set ns. cb_prev (callbacks u' b) = cb_prev (callbacks u b) \<Longrightarrow> successively (cb_linked u') (x # ns)"
  by (induction ns arbitrary: x) (auto simp: cb_linked_def)

lemma cb_ring_cong:
  assumes "cb_ring u ns" and "udp_head u' = udp_head u"
    and "\<And>a. cb_next (callbacks u' a) = cb_next (callbacks u a)" "\<And>a. cb_prev (callbacks u' a) = cb_prev (callbacks u a)"
  shows "cb_ring u' ns"
proof -
  have "cb_linked u' = cb_linked u" by (intro ext) (simp add: cb_linked_def assms(3,4))
  then show ?thesis using assms(1,2) by (simp add: cb_ring_def)
qed

lemma new_callback_appends:
  assumes "cb_ring u ns" and "n \<notin> set ns" and "k_alloc sz k = Some (Some n, k')"
  shows "\<exists>u'. new_callback sz u k = Some (n, u', k') \<and> cb_ring u' (ns @ [n])
    \<and> (\<forall>a. a \<noteq> n \<longrightarrow> (callbacks u' a)\<lparr>cb_next := None, cb_prev := None\<rparr> = (callbacks u a)\<lparr>cb_next := None, cb_prev := None\<rparr>)
    \<and> udp_output_buffer u' = udp_output_buffer u \<and> current_payload_size u' = current_payload_size u"
proof (cases ns)
  case Nil
  then show ?thesis using assms by (auto simp: new_callback_def cb_ring_def cb_linked_def)
next
  case (Cons h ms)
  let ?l = "last ns"
  have "successively (cb_linked u) (ns @ [h])" using assms(1) Cons by (simp add: cb_ring_def)
  then have links: "successively (cb_linked u) ns" "cb_linked u ?l h" "udp_head u = Some h" "distinct ns"
    using assms(1) Cons by (simp_all only: successively_append_iff) (auto simp: cb_ring_def)
  then have l: "cb_prev (callbacks u h) = Some ?l" by (simp add: cb_linked_def)
  have mem: "?l \<in> set ns" "h \<in> set ns" using Cons by auto
  have neq: "n \<noteq> h" "n \<noteq> ?l" using assms(2) mem by auto
  let ?u = "u\<lparr>callbacks := (callbacks u)(n := (callbacks u n)\<lparr>cb_next := None, cb_prev := None\<rparr>)\<rparr>"
  let ?u = "upd_callback ?l (\<lambda>x. x\<lparr>cb_next := Some n\<rparr>) ?u"
  let ?u = "upd_callback n (\<lambda>x. x\<lparr>cb_prev := Some ?l\<rparr>) ?u"
  let ?u = "upd_callback h (\<lambda>x. x\<lparr>cb_prev := Some n\<rparr>) ?u"
  let ?u = "upd_callback n (\<lambda>x. x\<lparr>cb_next := Some h\<rparr>) ?u"
  let ?u = "upd_callback n (upd_args (\<lambda>x. x\<lparr>udp_handle := Some n\<rparr>)) ?u"
  have new: "new_callback sz u k = Some (n, ?u, k')"
    using assms(3) links(3) l neq by (cases "h = ?l") (auto simp: new_callback_def)
  define u' where "u' = ?u"
  have u': "cb_next (callbacks u' ?l) = Some n" "cb_prev (callbacks u' n) = Some ?l" "cb_next (callbacks u' n) = Some h"
    "cb_prev (callbacks u' h) = Some n" "udp_head u' = Some h"
    "\<And>a. a \<noteq> ?l \<Longrightarrow> a \<noteq> n \<Longrightarrow> cb_next (callbacks u' a) = cb_next (callbacks u a)"
    "\<And>a. a \<noteq> h \<Longrightarrow> a \<noteq> n \<Longrightarrow> cb_prev (callbacks u' a) = cb_prev (callbacks u a)"
    "\<forall>a. a \<noteq> n \<longrightarrow> (callbacks u' a)\<lparr>cb_next := None, cb_prev := None\<rparr> = (callbacks u a)\<lparr>cb_next := None, cb_prev := None\<rparr>"
    "udp_output_buffer u' = udp_output_buffer u" "current_payload_size u' = current_payload_size u"
    using neq links(3) by (auto simp: u'_def)
  have sl: "successively (cb_linked u') (h # ms)"
  proof (rule cb_linked_cong [of u])
    show "\<forall>a\<in>set (butlast (h # ms)). cb_next (callbacks u' a) = cb_next (callbacks u a)"
      using links(4) assms(2) unfolding Cons [symmetric]
      by (metis append_butlast_last_id butlast.simps(1) distinct_append empty_iff in_set_butlastD list.set(1)
          not_distinct_conv_prefix not_distinct_decomp u'(6) distinct_butlast mem(1) set_empty)
    show "\<forall>b\<in>set ms. cb_prev (callbacks u' b) = cb_prev (callbacks u b)"
      using links(4) assms(2) u'(7) Cons by (metis distinct.simps(2) list.set_intros(2))
  qed (use links(1) Cons in simp)
  have "cb_linked u' ?l n" "cb_linked u' n h" using u'(1-4) by (simp_all add: cb_linked_def)
  with sl have "successively (cb_linked u') ((ns @ [n]) @ [h])"
    unfolding Cons [symmetric] successively_append_iff by simp
  then have "cb_ring u' (ns @ [n])" using links(4) assms(2) u'(5) Cons by (simp add: cb_ring_def)
  then show ?thesis using new [folded u'_def] u'(8-10) by blast
qed

text \<open>The live blocks of the heap include those of the listeners.\<close>

definition udp_inv :: "u16 \<Rightarrow> udp \<Rightarrow> kernel \<Rightarrow> nat list \<Rightarrow> nat \<Rightarrow> live \<Rightarrow> bool" where
  "udp_inv sz u k ns n L \<longleftrightarrow> listeners u ns \<and> live_inv n (heap k) L \<and> (\<lambda>a. (a, sz)) ` set ns \<subseteq> L \<and> 0 < unat (cells_of_size sz)"

lemma find_port:
  "distinct (map f ns) \<Longrightarrow> n \<in> set ns \<Longrightarrow> List.find (\<lambda>a. f a = f n) ns = Some n"
  by (induction ns) (auto simp: image_iff)

lemma listener_found:
  "listeners u ns \<Longrightarrow> n \<in> set ns \<Longrightarrow> get_callback (cb_port (callbacks u n)) u = Some (Some n)"
  using find_port [of "\<lambda>a. cb_port (callbacks u a)"]
  by (auto simp: get_callback_def listeners_def search_callback_find)

lemma no_listener:
  "listeners u ns \<Longrightarrow> prt \<notin> (\<lambda>a. cb_port (callbacks u a)) ` set ns \<Longrightarrow> get_callback prt u = Some None"
  by (auto simp: get_callback_def listeners_def search_callback_find find_None_iff image_iff)

section \<open>The payload\<close>

text \<open>The characters of the current payload; those behind the end of the buffer are lost.\<close>

definition udp_payload :: "udp \<Rightarrow> u8 list" where
  "udp_payload u = take (unat (current_payload_size u)) (udp_output_buffer u)"

definition udp_buffer_ok :: "target \<Rightarrow> udp \<Rightarrow> bool" where
  "udp_buffer_ok tg u \<longleftrightarrow> length (udp_output_buffer u) = unat (OUTPUT_BUFFER_SIZE tg)
    \<and> current_payload_size u \<le> OUTPUT_BUFFER_SIZE tg"

lemma length_udp_payload: "udp_buffer_ok tg u \<Longrightarrow> length (udp_payload u) = unat (current_payload_size u)"
  by (simp add: udp_payload_def udp_buffer_ok_def word_le_nat_alt)

lemma udp_outc_payload:
  assumes "udp_buffer_ok tg u"
  shows "udp_payload (udp_outc tg c u) = take (unat (OUTPUT_BUFFER_SIZE tg)) (udp_payload u @ [c])"
    and "udp_buffer_ok tg (udp_outc tg c u)"
proof -
  let ?i = "unat (current_payload_size u)" and ?m = "unat (OUTPUT_BUFFER_SIZE tg)"
  have le: "?i \<le> ?m" "length (udp_output_buffer u) = ?m" using assms by (simp_all add: udp_buffer_ok_def word_le_nat_alt)
  show "udp_payload (udp_outc tg c u) = take ?m (udp_payload u @ [c])" "udp_buffer_ok tg (udp_outc tg c u)"
  proof (atomize (full), cases "?i < ?m")
    case True
    then have "unat (current_payload_size u + 1) = Suc ?i"
      using unat_u16_lt [of "OUTPUT_BUFFER_SIZE tg"] by (simp add: unat_add_u16)
    then show "udp_payload (udp_outc tg c u) = take ?m (udp_payload u @ [c]) \<and> udp_buffer_ok tg (udp_outc tg c u)"
      using True le by (auto simp: udp_outc_def udp_payload_def udp_buffer_ok_def word_le_nat_alt take_Suc_conv_app_nth)
  next
    case False
    then show "udp_payload (udp_outc tg c u) = take ?m (udp_payload u @ [c]) \<and> udp_buffer_ok tg (udp_outc tg c u)"
      using le by (simp add: udp_outc_def udp_payload_def udp_buffer_ok_def word_le_nat_alt)
  qed
qed

lemma udp_outs_payload:
  "udp_buffer_ok tg u \<Longrightarrow>
   udp_payload (fold (udp_outc tg) cs u) = take (unat (OUTPUT_BUFFER_SIZE tg)) (udp_payload u @ cs) \<and>
   udp_buffer_ok tg (fold (udp_outc tg) cs u)"
proof (induction cs arbitrary: u)
  case Nil
  then show ?case using length_udp_payload [OF Nil] by (simp add: udp_buffer_ok_def word_le_nat_alt)
next
  case (Cons c cs)
  then show ?case using udp_outc_payload [OF Cons.prems] by (auto simp: min_def take_Cons')
qed

section \<open>Properties\<close>

text \<open>
  C30: listening keeps the invariant of the listeners, of which at most one has each port. A port that is taken is
  refused and nothing changes; else, when there is memory, the port is from then on the one of
  a new listener with the given callbacks, and the others keep theirs.
\<close>

theorem udp_listen_keeps_ports:
  assumes "udp_inv sz u k ns n L" and "udp_listen sz prt fi fo u k = Some (p, u', k')"
  shows "case p of
      None \<Rightarrow> prt \<in> (\<lambda>a. cb_port (callbacks u a)) ` set ns \<and> u' = u \<and> k' = k
    | Some a \<Rightarrow> prt \<notin> (\<lambda>a. cb_port (callbacks u a)) ` set ns \<and> udp_inv sz u' k' (ns @ [a]) n (insert (a, sz) L)
        \<and> get_callback prt u' = Some (Some a) \<and> packet_in (callbacks u' a) = fi \<and> packet_out (callbacks u' a) = fo
        \<and> (\<forall>b\<in>set ns. get_callback (cb_port (callbacks u b)) u' = Some (Some b) \<and> packet_in (callbacks u' b) = packet_in (callbacks u b))"
proof (cases "prt \<in> (\<lambda>a. cb_port (callbacks u a)) ` set ns")
  case True
  then show ?thesis using assms listener_found by (fastforce simp: udp_inv_def udp_listen_def)
next
  case False
  have inv: "listeners u ns" "live_inv n (heap k) L" "(\<lambda>a. (a, sz)) ` set ns \<subseteq> L" "0 < unat (cells_of_size sz)"
    using assms(1) by (simp_all add: udp_inv_def)
  have none: "get_callback prt u = Some None" by (rule no_listener [OF inv(1) False])
  from inv(2) show ?thesis
  proof (cases rule: k_alloc_cases [where sz = sz])
    case (fresh a h)
    have "a \<notin> set ns" using fresh(3) inv(3) by force
    then obtain u1 where u1: "new_callback sz u k = Some (a, u1, k\<lparr>heap := h\<rparr>)" "cb_ring u1 (ns @ [a])"
      "\<forall>b. b \<noteq> a \<longrightarrow> (callbacks u1 b)\<lparr>cb_next := None, cb_prev := None\<rparr> = (callbacks u b)\<lparr>cb_next := None, cb_prev := None\<rparr>"
      using new_callback_appends [OF _ \<open>a \<notin> set ns\<close> fresh(1), of u] inv(1) unfolding listeners_def by blast
    define u2 where "u2 = upd_callback a (\<lambda>x. x\<lparr>cb_port := prt, packet_in := fi, packet_out := fo\<rparr>) u1"
    have p: "p = Some a" "u' = u2" "k' = k\<lparr>heap := h\<rparr>" using assms(2) none u1(1) by (simp_all add: udp_listen_def u2_def)
    have new: "cb_port (callbacks u2 a) = prt" "packet_in (callbacks u2 a) = fi" "packet_out (callbacks u2 a) = fo"
      by (simp_all add: u2_def)
    have keep: "cb_port (callbacks u2 b) = cb_port (callbacks u b)" "packet_in (callbacks u2 b) = packet_in (callbacks u b)"
      if "b \<in> set ns" for b
    proof -
      have "b \<noteq> a" using that \<open>a \<notin> set ns\<close> by blast
      note e = u1(3) [rule_format, OF this]
      show "cb_port (callbacks u2 b) = cb_port (callbacks u b)" "packet_in (callbacks u2 b) = packet_in (callbacks u b)"
        using arg_cong [OF e, of cb_port] arg_cong [OF e, of packet_in] \<open>b \<noteq> a\<close> by (simp_all add: u2_def)
    qed
    have "cb_ring u2 (ns @ [a])" by (rule cb_ring_cong [OF u1(2)]) (simp_all add: u2_def)
    moreover have m: "map (\<lambda>b. cb_port (callbacks u2 b)) ns = map (\<lambda>b. cb_port (callbacks u b)) ns"
      using keep(1) by (intro map_cong) simp_all
    have "distinct (map (\<lambda>b. cb_port (callbacks u2 b)) ns)" unfolding m using inv(1) by (simp add: listeners_def)
    ultimately have l: "listeners u2 (ns @ [a])" using keep(1) False new(1) by (simp add: listeners_def)
    then have "udp_inv sz u' k' (ns @ [a]) n (insert (a, sz) L)"
      using inv(3,4) fresh(2) p by (auto simp: udp_inv_def)
    moreover have "get_callback (cb_port (callbacks u b)) u2 = Some (Some b)" if "b \<in> set ns" for b
      using listener_found [OF l, of b] keep(1) [OF that] that by simp
    ultimately show ?thesis
      using p False listener_found [OF l, of a] new keep by simp
  qed (use inv(4) none assms(2) in \<open>auto simp: udp_listen_def new_callback_def cells_of_size_0\<close>)
qed

theorem udp_listen_keeps_ports_witness:
  "\<exists>a u' k'. udp_listen 10 68 (Some 1) (Some 2) (undefined\<lparr>udp_head := None\<rparr>)
      (undefined\<lparr>heap := mem_reset 8192 heap_static\<rparr>) = Some (Some a, u', k') \<and> get_callback 68 u' = Some (Some a)"
proof -
  let ?u = "undefined\<lparr>udp_head := None\<rparr>" and ?k = "undefined\<lparr>heap := mem_reset 8192 heap_static\<rparr> :: kernel"
  obtain a h where "mem_alloc 10 (mem_reset 8192 heap_static) = Some (Some a, h)" by (rule first_alloc)
  then obtain u' k' where l: "udp_listen 10 68 (Some 1) (Some 2) ?u ?k = Some (Some a, u', k')"
    by (simp add: udp_listen_def get_callback_def search_callback_def new_callback_def k_alloc_def)
  have "udp_inv 10 ?u ?k [] 8192 {}"
    by (simp add: udp_inv_def listeners_def cb_ring_def live_inv_reset unat_cells_of_size)
  from udp_listen_keeps_ports [OF this l] l show ?thesis by auto
qed

text \<open>
  A datagram goes to the listener of its destination port, which finds the ports, the length without the header, the
  checksum and the connection in its arguments and the payload in front; without one the packet is dropped.
\<close>

theorem udp_packet_dispatched:
  assumes "listeners u ns"
    and "dev_in k = u16_chars sport @ u16_chars dport @ u16_chars len @ u16_chars ck @ payload"
  shows "udp_packet_in ap c (d, u, k) =
    (case List.find (\<lambda>a. cb_port (callbacks u a) = dport) ns of
       None \<Rightarrow> Some (0, d, u, k\<lparr>dev_in := u16_chars len @ u16_chars ck @ payload\<rparr>)
     | Some n \<Rightarrow>
        do { f \<leftarrow> packet_in (callbacks u n);
             call_in ap f n (d, upd_callback n (upd_args (\<lambda>x. x\<lparr>arg_src_port := sport, arg_dst_port := dport,
                 arg_payload_size := len - 8, arg_chk := ck, connection_info := Some c\<rparr>)) u,
               k\<lparr>dev_in := payload\<rparr>) })"
proof -
  have "search_callback P u = Some (List.find (\<lambda>a. P (callbacks u a)) ns)" for P
    using assms(1) by (simp add: listeners_def search_callback_find)
  then show ?thesis
    using assms(2) by (simp add: udp_packet_in_def get_callback_def u16_chars_def ui16_u16_chars split: option.split)
qed

definition one_listener :: udp where
  "one_listener = undefined\<lparr>udp_head := Some 3, callbacks := (\<lambda>_. undefined\<lparr>cb_port := 68, packet_in := Some 1, cb_next := Some 3, cb_prev := Some 3\<rparr>)\<rparr>"

theorem udp_packet_dispatched_witness:
  "udp_packet_in \<lparr>call_in = (\<lambda>f n w. Some (1, w)), call_out = (\<lambda>f n w. Some w)\<rparr> 7
      ((), one_listener, undefined\<lparr>dev_in := [0, 67, 0, 68, 0, 9, 0, 0, 42]\<rparr>) \<noteq> None"
proof -
  have "u16_chars (of_nat n) = [0, of_nat n]" if "n < 256" for n
    using that by (simp add: u16_chars_def drop_bit_eq_div word_unat_eq_iff unat_u16_to_u8 unat_div unsigned_of_nat
        take_bit_nat_eq_self take_bit_eq_mod)
  from this [of 67] this [of 68] this [of 9] this [of 0]
  have d: "dev_in (undefined\<lparr>dev_in := [0, 67, 0, 68, 0, 9, 0, 0, 42]\<rparr>) = u16_chars 67 @ u16_chars 68 @ u16_chars 9 @ u16_chars 0 @ [42]"
    by simp
  have "listeners one_listener [3]"
    by (simp add: listeners_def cb_ring_def cb_linked_def one_listener_def)
  from udp_packet_dispatched [OF this d, of _ 7 "()"] show ?thesis by (simp add: one_listener_def)
qed

end
