(* ===== verification/Dhcp.thy ===== *)
theory Dhcp
  imports Udp
begin

text \<open>
  The application \<open>apps/dhcpclient/dhcpclient.c\<close>, which gets the address of the machine from a DHCP server, on top of \<open>Udp\<close>.
  It reads with \<open>udp_in\<close>, whose result is a \<open>char\<close>: signed or not, depending on the compiler of the target
  (\<open>signed_char\<close>).
\<close>

section \<open>Model\<close>

definition DHCPDISCOVER :: u8 where "DHCPDISCOVER = 1"
definition DHCPOFFER :: u8 where "DHCPOFFER = 2"
definition DHCPREQUEST :: u8 where "DHCPREQUEST = 3"
definition DHCPACK :: u8 where "DHCPACK = 5"
definition DHCP_SERVER_PORT :: u16 where "DHCP_SERVER_PORT = 67"
definition DHCP_CLIENT_PORT :: u16 where "DHCP_CLIENT_PORT = 68"
definition BOOTREQUEST :: u8 where "BOOTREQUEST = 1"
definition OPTION_DHCP_CLIENT_FQDN :: u8 where "OPTION_DHCP_CLIENT_FQDN = 81"
definition OPTION_DHCP_CLIENT_HOSTNAME :: u8 where "OPTION_DHCP_CLIENT_HOSTNAME = 12"
definition OPTION_DHCP_REQUESTED_IP :: u8 where "OPTION_DHCP_REQUESTED_IP = 50"
definition OPTION_DHCP_MESSAGE_TYPE :: u8 where "OPTION_DHCP_MESSAGE_TYPE = 53"
definition OPTION_DHCP_SERVER_IDENTIFIER :: u8 where "OPTION_DHCP_SERVER_IDENTIFIER = 54"
definition OPTION_END :: u8 where "OPTION_END = 0xff"

lemmas dhcp_codes = DHCPDISCOVER_def DHCPOFFER_def DHCPREQUEST_def DHCPACK_def BOOTREQUEST_def
  OPTION_DHCP_CLIENT_FQDN_def OPTION_DHCP_CLIENT_HOSTNAME_def OPTION_DHCP_REQUESTED_IP_def
  OPTION_DHCP_MESSAGE_TYPE_def OPTION_DHCP_SERVER_IDENTIFIER_def OPTION_END_def

datatype dhcp_state = DHCP_STATE_INIT | DHCP_STATE_SELECTING | DHCP_STATE_REQUESTING | DHCP_STATE_BOUND

text \<open>\<open>_current_transaction\<close>, and the variable \<open>local_ip_addr\<close> of the core, which the client writes.\<close>

record dhcp =
  dhcp_st :: dhcp_state
  xid :: u32
  offered_ip :: u32
  server_ip :: u32
  my_ip :: u32

definition dhcp_commit_ip :: "dhcp \<Rightarrow> dhcp" where
  "dhcp_commit_ip d = d\<lparr>my_ip := offered_ip d\<rparr>"

text \<open>A \<open>char\<close> as the operand of \<open>|\<close> and of \<open>!=\<close>, after its promotion to \<open>int\<close>.\<close>

definition char_u32 :: "bool \<Rightarrow> u8 \<Rightarrow> u32" where
  "char_u32 signed_char b = (if signed_char then signed_take_bit 7 (u8_to_u32 b) else u8_to_u32 b)"

definition char_int :: "bool \<Rightarrow> u8 \<Rightarrow> int" where
  "char_int signed_char b = (if signed_char then sint b else uint b)"

definition in_32 :: "bool \<Rightarrow> kernel \<Rightarrow> u32 \<times> kernel" where
  "in_32 sc k =
    (let (a, k) = in_u8 k; v = push_bit 24 (char_u32 sc a);
         (a, k) = in_u8 k; v = v OR push_bit 16 (char_u32 sc a);
         (a, k) = in_u8 k; v = v OR push_bit 8 (char_u32 sc a);
         (a, k) = in_u8 k; v = v OR char_u32 sc a
     in (v, k))"

fun discard :: "nat \<Rightarrow> kernel \<Rightarrow> kernel" where
  "discard 0 k = k"
| "discard (Suc n) k = discard n (snd (in_u8 k))"

text \<open>The cookie, with a return at the first difference.\<close>

fun expect :: "bool \<Rightarrow> int list \<Rightarrow> kernel \<Rightarrow> bool \<times> kernel" where
  "expect sc [] k = (True, k)"
| "expect sc (c # cs) k = (let (a, k) = in_u8 k in if char_int sc a \<noteq> c then (False, k) else expect sc cs k)"

text \<open>What is left of the packet gets shorter.\<close>

lemma in_u8_le: "(c, k') = in_u8 k \<Longrightarrow> length (dev_in k') \<le> length (dev_in k)"
  by (cases "dev_in k") (auto simp: in_u8_def in_packet_def dev_get_def)

lemma in_u8_less: "(c, k') = in_u8 k \<Longrightarrow> c \<noteq> OPTION_END \<Longrightarrow> length (dev_in k') < length (dev_in k)"
  by (cases "dev_in k") (auto simp: in_u8_def in_packet_def dev_get_def OPTION_END_def)

lemma in_32_le: "(v, k') = in_32 sc k \<Longrightarrow> length (dev_in k') \<le> length (dev_in k)"
proof -
  have le: "length (dev_in (snd (in_u8 k))) \<le> length (dev_in k)" for k
    by (rule in_u8_le [of "fst (in_u8 k)"]) simp
  assume "(v, k') = in_32 sc k"
  then have "k' = snd (in_u8 (snd (in_u8 (snd (in_u8 (snd (in_u8 k)))))))"
    by (simp add: in_32_def Let_def case_prod_beta)
  then show ?thesis using le le_trans by metis
qed

lemma discard_le: "length (dev_in (discard n k)) \<le> length (dev_in k)"
proof (induction n arbitrary: k)
  case (Suc n)
  show ?case using le_trans [OF Suc.IH in_u8_le [of "fst (in_u8 k)" "snd (in_u8 k)" k]] by simp
qed simp

text \<open>Behind a code and a length, and what an option with a value has read of it, less is left.\<close>

lemma discard_less:
  assumes "(c, k1) = in_u8 k" and "c \<noteq> OPTION_END" and "(l, k2) = in_u8 k1"
  shows "length (dev_in (discard n k2)) < length (dev_in k)"
    and "(m, k3) = in_u8 k2 \<Longrightarrow> length (dev_in (discard n k3)) < length (dev_in k)"
    and "(v, k4) = in_32 sc k2 \<Longrightarrow> length (dev_in (discard n k4)) < length (dev_in k)"
  using in_u8_less [OF assms(1,2)] in_u8_le [OF assms(3)] in_u8_le [of m k3 k2] in_32_le [of v k4 sc k2]
    discard_le [of n k2] discard_le [of n k3] discard_le [of n k4] by linarith+

text \<open>
  The loop over the options, with the last message type; \<open>None\<close> is a return in the middle. A packet that ends early reads as 255, the end
  of the options.
\<close>

function dhcp_options :: "bool \<Rightarrow> u32 \<Rightarrow> u8 \<Rightarrow> dhcp \<Rightarrow> kernel \<Rightarrow> u8 option \<times> dhcp \<times> kernel" where
  "dhcp_options sc yiaddr message_type d k =
    (let (code, k) = in_u8 k
     in if code = OPTION_END then (Some message_type, d, k)
        else
         (let (len, k) = in_u8 k
          in if code = OPTION_DHCP_MESSAGE_TYPE then
               (let (message_type, k) = in_u8 k
                in if message_type = DHCPOFFER then
                     if dhcp_st d \<noteq> DHCP_STATE_SELECTING then (None, d, k)
                     else dhcp_options sc yiaddr message_type (d\<lparr>offered_ip := yiaddr\<rparr>) (discard (unat (len - 1)) k)
                   else if message_type = DHCPACK then
                     if dhcp_st d \<noteq> DHCP_STATE_REQUESTING then (None, d, k)
                     else dhcp_options sc yiaddr message_type d (discard (unat (len - 1)) k)
                   else (None, d, k))
             else if code = OPTION_DHCP_SERVER_IDENTIFIER then
               (let (v, k) = in_32 sc k
                in dhcp_options sc yiaddr message_type (d\<lparr>server_ip := v\<rparr>) (discard (unat (len - 4)) k))
             else dhcp_options sc yiaddr message_type d (discard (unat len) k)))"
  by pat_completeness auto

termination
  by (relation "measure (\<lambda>(sc, y, m, d, k). length (dev_in k))") (auto intro: discard_less)

declare dhcp_options.simps [simp del]

text \<open>The handler of the datagrams; \<open>a\<close> is the address of the callback with the arguments.\<close>

definition dhcp_reply :: "nat \<Rightarrow> u8 \<Rightarrow> dhcp \<Rightarrow> udp \<Rightarrow> u8 \<times> dhcp \<times> udp" where
  "dhcp_reply a message_type d u =
    (if message_type = DHCPOFFER then
       (1, d\<lparr>dhcp_st := DHCP_STATE_REQUESTING\<rparr>,
        upd_callback a (upd_args (\<lambda>x. x\<lparr>arg_src_port := DHCP_CLIENT_PORT, arg_dst_port := DHCP_SERVER_PORT\<rparr>)) u)
     else if message_type = DHCPACK then (0, (dhcp_commit_ip d)\<lparr>dhcp_st := DHCP_STATE_BOUND\<rparr>, u)
     else (0, d, u))"

definition dhcp_in :: "bool \<Rightarrow> nat \<Rightarrow> dhcp world \<Rightarrow> u8 \<times> dhcp world" where
  "dhcp_in sc a w =
    (let (d, u, k) = w
     in if dhcp_st d \<noteq> DHCP_STATE_SELECTING \<and> dhcp_st d \<noteq> DHCP_STATE_REQUESTING then (0, d, u, k)
        else
         (let (_, k) = in_32 sc k; (x, k) = in_32 sc k
          in if x \<noteq> xid d then (0, d, u, k)
             else
              (let (_, k) = in_32 sc k; (_, k) = in_32 sc k; (yiaddr, k) = in_32 sc k;
                   (_, k) = in_32 sc k; (_, k) = in_32 sc k; k = discard 208 k;
                   (cookie, k) = expect sc [99, 130, 83, 99] k
               in if \<not> cookie then (0, d, u, k)
                  else
                   (case dhcp_options sc yiaddr 0 d k of
                      (None, d, k) \<Rightarrow> (0, d, u, k)
                    | (Some message_type, d, k) \<Rightarrow>
                       (let (v, d, u) = dhcp_reply a message_type d u in (v, d, u, k))))))"

text \<open>
  The messages, as the characters that are given to \<open>udp_outc\<close> in turn; \<open>hw\<close> is \<open>LINK_LAYER_ADDRESS\<close>. The size of
  an array is a constant of 8 bits.
\<close>

definition out_32 :: "u32 \<Rightarrow> u8 list" where
  "out_32 val = [u32_to_u8 (drop_bit 24 val), u32_to_u8 (drop_bit 16 val AND 0xff), u32_to_u8 (drop_bit 8 val AND 0xff),
     u32_to_u8 (val AND 0xff)]"

definition out_16bits :: "u32 \<Rightarrow> u8 list" where
  "out_16bits val = [u32_to_u8 (drop_bit 8 val AND 0xff), u32_to_u8 (val AND 0xff)]"

definition dhcp_send_common_header :: "u8 list \<Rightarrow> dhcp \<Rightarrow> u8 list" where
  "dhcp_send_common_header hw d =
    [BOOTREQUEST, 1, of_nat (length hw), 0] @ out_32 (xid d) @ out_16bits 0 @ out_16bits 0"

definition dhcp_put_option_a :: "u8 \<Rightarrow> u8 list \<Rightarrow> u8 list" where
  "dhcp_put_option_a code val = [code, of_nat (length val)] @ val"

definition dhcp_put_option_8 :: "u8 \<Rightarrow> u8 \<Rightarrow> u8 list" where
  "dhcp_put_option_8 code val = dhcp_put_option_a code [val]"

text \<open>The value is brought into network order and written from its least significant octet on.\<close>

definition dhcp_put_option_32 :: "u8 \<Rightarrow> u32 \<Rightarrow> u8 list" where
  "dhcp_put_option_32 code val =
    (let val = drop_bit 24 val OR push_bit 24 (val AND 0xff) OR drop_bit 8 (val AND 0xff0000) OR push_bit 8 (val AND 0xff00)
     in dhcp_put_option_a code [u32_to_u8 val, u32_to_u8 (drop_bit 8 val), u32_to_u8 (drop_bit 16 val),
          u32_to_u8 (drop_bit 24 val)])"

text \<open>The name is "smews".\<close>

definition host_name :: "u8 list" where
  "host_name = [115, 109, 101, 119, 115]"

definition dhcp_send_client_fqdn_option :: "u8 list" where
  "dhcp_send_client_fqdn_option =
    [OPTION_DHCP_CLIENT_FQDN, 10, 5, 0, 0, 5] @ host_name @ [0] @ dhcp_put_option_a OPTION_DHCP_CLIENT_HOSTNAME host_name"

definition dhcp_send_common_footer :: "u8 list \<Rightarrow> u8 list" where
  "dhcp_send_common_footer hw =
    take 16 hw @ replicate (16 - min 16 (length hw)) 0 @ replicate (64 + 128) 0 @ [99, 130, 83, 99]"

definition dhcp_send_discover :: "u8 list \<Rightarrow> u32 option \<Rightarrow> dhcp \<Rightarrow> u8 list \<times> dhcp" where
  "dhcp_send_discover hw target_rand d =
    (let d = d\<lparr>xid := (case target_rand of Some x \<Rightarrow> x | None \<Rightarrow> 0xfadebeef)\<rparr>
     in (dhcp_send_common_header hw d @ concat (replicate 4 (out_32 0)) @ dhcp_send_common_footer hw
           @ dhcp_put_option_8 OPTION_DHCP_MESSAGE_TYPE DHCPDISCOVER @ dhcp_send_client_fqdn_option @ [OPTION_END],
         d\<lparr>dhcp_st := DHCP_STATE_SELECTING\<rparr>))"

definition dhcp_send_request :: "u8 list \<Rightarrow> dhcp \<Rightarrow> u8 list \<times> dhcp" where
  "dhcp_send_request hw d =
    (dhcp_send_common_header hw d @ out_32 (offered_ip d) @ out_32 0 @ out_32 (server_ip d) @ out_32 0
       @ dhcp_send_common_footer hw @ dhcp_put_option_8 OPTION_DHCP_MESSAGE_TYPE DHCPREQUEST
       @ dhcp_put_option_32 OPTION_DHCP_REQUESTED_IP (offered_ip d)
       @ dhcp_put_option_32 OPTION_DHCP_SERVER_IDENTIFIER (server_ip d) @ dhcp_send_client_fqdn_option @ [OPTION_END],
     d\<lparr>dhcp_st := DHCP_STATE_REQUESTING\<rparr>)"

definition dhcp_out :: "target \<Rightarrow> u8 list \<Rightarrow> u32 option \<Rightarrow> dhcp world \<Rightarrow> dhcp world" where
  "dhcp_out tg hw target_rand w =
    (let (d, u, k) = w;
         (cs, d) = (case dhcp_st d of
                      DHCP_STATE_INIT \<Rightarrow> dhcp_send_discover hw target_rand d
                    | DHCP_STATE_REQUESTING \<Rightarrow> dhcp_send_request hw d
                    | _ \<Rightarrow> ([], d))
     in (d, fold (udp_outc tg) cs u, k))"

text \<open>The callbacks that the client registers, with the numbers 1 and 2 for the pointers to them.\<close>

definition dhcp_apps :: "target \<Rightarrow> bool \<Rightarrow> u8 list \<Rightarrow> u32 option \<Rightarrow> dhcp udp_apps" where
  "dhcp_apps tg sc hw target_rand =
    \<lparr>call_in = (\<lambda>f a w. if f = 1 then Some (dhcp_in sc a w) else None),
     call_out = (\<lambda>f a w. if f = 2 then Some (dhcp_out tg hw target_rand w) else None)\<rparr>"

definition dhcp_init :: "target \<Rightarrow> site \<Rightarrow> u16 \<Rightarrow> connection \<Rightarrow> dhcp world \<Rightarrow> dhcp world option" where
  "dhcp_init tg st sizeof_udp_callback local w =
    (let (d, u, k) = w
     in do { (_, u, k) \<leftarrow> udp_listen sizeof_udp_callback DHCP_CLIENT_PORT (Some 1) (Some 2) u k;
             let d = d\<lparr>dhcp_st := DHCP_STATE_INIT\<rparr>;
             (u, k) \<leftarrow> udp_request_send tg st local 0xffffffff DHCP_SERVER_PORT DHCP_CLIENT_PORT u k;
             Some (d, u, k) })"

lemma length_discover: "length (fst (dhcp_send_discover hw target_rand d)) = 263"
  by (simp add: dhcp_send_discover_def dhcp_send_common_header_def dhcp_send_common_footer_def dhcp_put_option_8_def
      dhcp_put_option_a_def dhcp_send_client_fqdn_option_def host_name_def out_32_def out_16bits_def Let_def numeral_eq_Suc)

section \<open>The client follows the protocol\<close>

text \<open>
  The part of the client of RFC 2131 that the code implements: \<open>offered\<close> is the address it has been offered. Nothing but the last
  step changes the address of the machine.
\<close>

inductive dhcp_machine :: "u32 \<Rightarrow> dhcp_state \<Rightarrow> u32 \<Rightarrow> dhcp_state \<Rightarrow> u32 \<Rightarrow> bool" for offered where
  stay: "dhcp_machine offered s ip s ip"
| offer: "dhcp_machine offered DHCP_STATE_SELECTING ip DHCP_STATE_REQUESTING ip"
| ack: "dhcp_machine offered DHCP_STATE_REQUESTING ip DHCP_STATE_BOUND offered"

inductive_cases machine_from_selecting: "dhcp_machine offered DHCP_STATE_SELECTING ip s' ip'"


section \<open>A complete exchange\<close>

text \<open>Numbers are read as they are written when \<open>char\<close> is unsigned.\<close>

lemma length_out_32 [simp]: "length (out_32 x) = 4"
  by (simp add: out_32_def)

lemma in_32_out_32:
  assumes "dev_in k = out_32 x @ r"
  shows "in_32 False k = (x, k\<lparr>dev_in := r\<rparr>)"
proof -
  have "push_bit 24 (u8_to_u32 (u32_to_u8 (drop_bit 24 x))) OR push_bit 16 (u8_to_u32 (u32_to_u8 (drop_bit 16 x AND 0xff)))
      OR push_bit 8 (u8_to_u32 (u32_to_u8 (drop_bit 8 x AND 0xff))) OR u8_to_u32 (u32_to_u8 (x AND 0xff)) = x"
  proof -
    have ff: "(0xff :: u32) = mask 8" by (simp add: mask_eq_exp_minus_1)
    show ?thesis unfolding ff
    proof (rule bit_word_eqI)
      fix n assume "n < LENGTH(32)"
      consider "n < 8" | "8 \<le> n" "n < 16" | "16 \<le> n" "n < 24" | "24 \<le> n" by linarith
      then show "bit (push_bit 24 (u8_to_u32 (u32_to_u8 (drop_bit 24 x)))
          OR push_bit 16 (u8_to_u32 (u32_to_u8 (drop_bit 16 x AND mask 8)))
          OR push_bit 8 (u8_to_u32 (u32_to_u8 (drop_bit 8 x AND mask 8))) OR u8_to_u32 (u32_to_u8 (x AND mask 8))) n = bit x n"
        using \<open>n < LENGTH(32)\<close> by cases (auto simp: bit_simps)
    qed
  qed
  then show ?thesis using assms by (simp add: in_32_def out_32_def char_u32_def Let_def or.assoc)
qed

lemma discard_append: "dev_in k = xs @ r \<Longrightarrow> discard (length xs) k = k\<lparr>dev_in := r\<rparr>"
  by (induction xs arbitrary: k) simp_all

lemma expect_cookie: "dev_in k = [99, 130, 83, 99] @ r \<Longrightarrow> expect False [99, 130, 83, 99] k = (True, k\<lparr>dev_in := r\<rparr>)"
  by (simp add: char_int_def)

text \<open>
  A message of the server, as RFC 2131 lays it out: \<open>t\<close> is its type, \<open>y\<close> the address it gives and \<open>server\<close> its identifier; the
  client does not look at the other fields.
\<close>

definition server_message :: "u32 \<times> u32 \<times> u32 \<times> u32 \<times> u32 \<Rightarrow> u8 list \<Rightarrow> u32 \<Rightarrow> u32 \<Rightarrow> u8 \<Rightarrow> u32 \<Rightarrow> u8 list" where
  "server_message h names x y t server =
    (case h of (op, secs, ci, si, gi) \<Rightarrow>
       out_32 op @ out_32 x @ out_32 secs @ out_32 ci @ out_32 y @ out_32 si @ out_32 gi @ names @ [99, 130, 83, 99]
         @ [OPTION_DHCP_MESSAGE_TYPE, 1, t] @ [OPTION_DHCP_SERVER_IDENTIFIER, 4] @ out_32 server @ [OPTION_END])"

lemma options_of_message:
  assumes "dev_in k = [OPTION_DHCP_MESSAGE_TYPE, 1, t, OPTION_DHCP_SERVER_IDENTIFIER, 4] @ out_32 server @ OPTION_END # r"
    and "t = DHCPOFFER \<and> dhcp_st d = DHCP_STATE_SELECTING \<or> t = DHCPACK \<and> dhcp_st d = DHCP_STATE_REQUESTING"
  shows "dhcp_options False y 0 d k = (Some t,
    (if t = DHCPOFFER then d\<lparr>offered_ip := y, server_ip := server\<rparr> else d\<lparr>server_ip := server\<rparr>), k\<lparr>dev_in := r\<rparr>)"
proof -
  have last: "dhcp_options False y m e j = (Some m, e, j\<lparr>dev_in := r\<rparr>)" if "dev_in j = OPTION_END # r" for m e j
    using that by (subst dhcp_options.simps) simp
  have id: "dhcp_options False y m e j = (Some m, e\<lparr>server_ip := server\<rparr>, j\<lparr>dev_in := r\<rparr>)"
    if "dev_in j = [OPTION_DHCP_SERVER_IDENTIFIER, 4] @ out_32 server @ OPTION_END # r" for m e j
    using that by (subst dhcp_options.simps) (simp add: in_32_out_32 last, simp add: dhcp_codes)
  show ?thesis
  proof (cases "t = DHCPOFFER")
    case True
    then have "dhcp_st d = DHCP_STATE_SELECTING" using assms(2) by (auto simp: dhcp_codes)
    with True show ?thesis using assms(1) id [of _ DHCPOFFER "d\<lparr>offered_ip := y\<rparr>"]
      by (subst dhcp_options.simps) (simp add: dhcp_codes)
  next
    case False
    then have "t = DHCPACK" "dhcp_st d = DHCP_STATE_REQUESTING" using assms(2) by auto
    with False show ?thesis using assms(1) id [of _ DHCPACK d]
      by (subst dhcp_options.simps) (simp add: dhcp_codes)
  qed
qed

lemma dhcp_in_message:
  assumes "dev_in k = server_message h names (xid d) y t server @ r" and "length names = 208"
    and "t = DHCPOFFER \<and> dhcp_st d = DHCP_STATE_SELECTING \<or> t = DHCPACK \<and> dhcp_st d = DHCP_STATE_REQUESTING"
  shows "dhcp_in False a (d, u, k) =
    (let (v, d, u) = dhcp_reply a t
        (if t = DHCPOFFER then d\<lparr>offered_ip := y, server_ip := server\<rparr> else d\<lparr>server_ip := server\<rparr>) u
     in (v, d, u, k\<lparr>dev_in := r\<rparr>))"
proof -
  obtain op secs ci si gi where h: "h = (op, secs, ci, si, gi)" by (cases h)
  let ?opts = "[OPTION_DHCP_MESSAGE_TYPE, 1, t, OPTION_DHCP_SERVER_IDENTIFIER, 4] @ out_32 server @ OPTION_END # r"
  have "expect False [99, 130, 83, 99] (k\<lparr>dev_in := [99, 130, 83, 99] @ ?opts\<rparr>) = (True, k\<lparr>dev_in := ?opts\<rparr>)"
    by (subst expect_cookie) simp_all
  moreover have "discard 208 (k\<lparr>dev_in := names @ [99, 130, 83, 99] @ ?opts\<rparr>) = k\<lparr>dev_in := [99, 130, 83, 99] @ ?opts\<rparr>"
    unfolding assms(2) [symmetric] by (subst discard_append) simp_all
  moreover have "dhcp_options False y 0 d (k\<lparr>dev_in := ?opts\<rparr>) = (Some t,
      (if t = DHCPOFFER then d\<lparr>offered_ip := y, server_ip := server\<rparr> else d\<lparr>server_ip := server\<rparr>), k\<lparr>dev_in := r\<rparr>)"
    using options_of_message [OF _ assms(3), of "k\<lparr>dev_in := ?opts\<rparr>"] by simp
  ultimately show ?thesis
    using assms(1,3) by (auto simp: dhcp_in_def server_message_def h in_32_out_32 simp del: expect.simps)
qed


lemma dhcp_out_init:
  assumes "dhcp_st d = DHCP_STATE_INIT"
  shows "\<exists>u'. dhcp_out tg hw target_rand (d, u, k) =
    (d\<lparr>xid := (case target_rand of Some x \<Rightarrow> x | None \<Rightarrow> 0xfadebeef), dhcp_st := DHCP_STATE_SELECTING\<rparr>, u', k)"
  using assms by (simp add: dhcp_out_def dhcp_send_discover_def Let_def)

lemma dhcp_out_requesting:
  assumes "dhcp_st d = DHCP_STATE_REQUESTING"
  shows "\<exists>u'. dhcp_out tg hw target_rand (d, u, k) = (d, u', k)"
  using assms by (simp add: dhcp_out_def dhcp_send_request_def Let_def)

section \<open>Properties\<close>


text \<open>
  Against a server that follows RFC 2131, and with unsigned characters, the client gets its address: it discovers, takes the offer,
  requests, and after the acknowledgement has the address it was offered.
\<close>

theorem dhcp_handshake:
  assumes "dhcp_st d = DHCP_STATE_INIT" and "x = (case target_rand of Some x \<Rightarrow> x | None \<Rightarrow> 0xfadebeef)"
    and "dev_in k1 = server_message h1 names1 x ip DHCPOFFER server" and "length names1 = 208"
    and "dev_in k2 = server_message h2 names2 x ip DHCPACK server" and "length names2 = 208"
  shows "case dhcp_out tg hw target_rand (d, u, k) of (d, u, _) \<Rightarrow>
    (case dhcp_in False a (d, u, k1) of (v, d, u, _) \<Rightarrow>
      v = 1 \<and>
      (case dhcp_out tg hw target_rand (d, u, k) of (d, u, _) \<Rightarrow>
        (case dhcp_in False a (d, u, k2) of (v, d, u, _) \<Rightarrow>
          v = 0 \<and> dhcp_st d = DHCP_STATE_BOUND \<and> my_ip d = ip)))"
proof -
  let ?d1 = "d\<lparr>xid := x, dhcp_st := DHCP_STATE_SELECTING\<rparr>"
  let ?d2 = "?d1\<lparr>offered_ip := ip, server_ip := server, dhcp_st := DHCP_STATE_REQUESTING\<rparr>"
  obtain u1 where 1: "dhcp_out tg hw target_rand (d, u, k) = (?d1, u1, k)"
    using dhcp_out_init [OF assms(1)] assms(2) by blast
  obtain u2 where 2: "dhcp_in False a (?d1, u1, k1) = (1, ?d2, u2, k1\<lparr>dev_in := []\<rparr>)"
    using dhcp_in_message [of k1 h1 names1 ?d1 ip DHCPOFFER server "[]" a u1] assms(3,4)
    by (simp add: dhcp_reply_def)
  obtain u3 where 3: "dhcp_out tg hw target_rand (?d2, u2, k) = (?d2, u3, k)"
    using dhcp_out_requesting [where d = ?d2 and u = u2] by fastforce
  have "DHCPACK \<noteq> DHCPOFFER" by (simp add: dhcp_codes)
  then obtain d4 u4 where 4: "dhcp_in False a (?d2, u3, k2) = (0, d4, u4, k2\<lparr>dev_in := []\<rparr>)"
    "dhcp_st d4 = DHCP_STATE_BOUND" "my_ip d4 = ip"
    using dhcp_in_message [of k2 h2 names2 ?d2 ip DHCPACK server "[]" a u3] assms(5,6)
    by (simp add: dhcp_reply_def dhcp_commit_ip_def)
  show ?thesis by (simp only: 1 2 3 4 prod.case simp_thms)
qed

theorem dhcp_handshake_witness:
  "case dhcp_out example_target [1, 2, 3, 4, 5, 6] None (undefined\<lparr>dhcp_st := DHCP_STATE_INIT\<rparr>, undefined, undefined) of (d, u, _) \<Rightarrow>
    (case dhcp_in False 0 (d, u, undefined\<lparr>dev_in :=
        server_message (0, 0, 0, 0, 0) (replicate 208 0) 0xfadebeef 0xC0A80164 DHCPOFFER 0xC0A80101\<rparr>) of (v, d, u, _) \<Rightarrow>
      v = 1 \<and>
      (case dhcp_out example_target [1, 2, 3, 4, 5, 6] None (d, u, undefined) of (d, u, _) \<Rightarrow>
        (case dhcp_in False 0 (d, u, undefined\<lparr>dev_in :=
            server_message (0, 0, 0, 0, 0) (replicate 208 0) 0xfadebeef 0xC0A80164 DHCPACK 0xC0A80101\<rparr>) of (v, d, u, _) \<Rightarrow>
          v = 0 \<and> dhcp_st d = DHCP_STATE_BOUND \<and> my_ip d = 0xC0A80164)))"
  by (rule dhcp_handshake [where ?names1.0 = "replicate 208 0" and ?names2.0 = "replicate 208 0"]) simp_all

text \<open>
  With signed characters the second octet of the magic cookie, 130, is read as a negative number: the client drops
  every message, whatever it is, and never gets an address.
\<close>

theorem dhcp_signed_char_deaf:
  "\<exists>k'. dhcp_in True a (d, u, k) = (0, d, u, k')"
proof -
  have "sint b < 128" for b :: u8
    using sint_lt [of b] by simp
  then have "char_int True b \<noteq> 130" for b :: u8
    by (metis char_int_def less_irrefl numeral_less_iff order.strict_trans semiring_norm(76) semiring_norm(78) semiring_norm(81))
  then have "\<not> fst (expect True [99, 130, 83, 99] j)" for j
    by (auto simp: Let_def split: prod.split)
  then show ?thesis
    by (auto simp: dhcp_in_def Let_def simp del: expect.simps split: prod.split) (metis fst_conv)+
qed

text \<open>
  The message that discovers the servers has 263 octets. With an output buffer smaller than that it loses its end without any
  error, and no option is ended.
\<close>

theorem dhcp_discover_truncated:
  assumes "dhcp_st d = DHCP_STATE_INIT" and "udp_buffer_ok tg u" and "current_payload_size u = 0"
  shows "case dhcp_out tg hw target_rand (d, u, k) of (d', u', k') \<Rightarrow>
    udp_payload u' = take (unat (OUTPUT_BUFFER_SIZE tg)) (fst (dhcp_send_discover hw target_rand d))
    \<and> (udp_payload u' = fst (dhcp_send_discover hw target_rand d) \<longleftrightarrow> 263 \<le> unat (OUTPUT_BUFFER_SIZE tg))"
proof -
  let ?cs = "fst (dhcp_send_discover hw target_rand d)" and ?m = "unat (OUTPUT_BUFFER_SIZE tg)"
  have "udp_payload u = []" using assms(3) by (simp add: udp_payload_def)
  then have "udp_payload (fold (udp_outc tg) ?cs u) = take ?m ?cs"
    using udp_outs_payload [OF assms(2), of ?cs] by simp
  moreover have "take ?m ?cs = ?cs \<longleftrightarrow> 263 \<le> ?m"
    by (simp add: take_all_iff length_discover)
  ultimately show ?thesis using assms(1) by (simp add: dhcp_out_def case_prod_beta)
qed

definition small_target :: target where "small_target = undefined\<lparr>OUTPUT_BUFFER_SIZE := 200\<rparr>"
definition first_dhcp :: dhcp where "first_dhcp = undefined\<lparr>dhcp_st := DHCP_STATE_INIT\<rparr>"
definition first_udp :: udp where "first_udp = undefined\<lparr>udp_output_buffer := replicate 200 0, current_payload_size := 0\<rparr>"

theorem dhcp_discover_truncated_witness:
  "\<forall>k. case dhcp_out small_target [1, 2, 3, 4, 5, 6] None (first_dhcp, first_udp, k) of (d', u', k') \<Rightarrow>
     udp_payload u' = take 200 (fst (dhcp_send_discover [1, 2, 3, 4, 5, 6] None first_dhcp))"
proof
  fix k
  have "dhcp_st first_dhcp = DHCP_STATE_INIT" "udp_buffer_ok small_target first_udp" "current_payload_size first_udp = 0"
    "unat (OUTPUT_BUFFER_SIZE small_target) = 200"
    by (simp_all add: first_dhcp_def small_target_def first_udp_def udp_buffer_ok_def)
  with dhcp_discover_truncated [OF this(1-3), of "[1, 2, 3, 4, 5, 6]" None k]
  show "case dhcp_out small_target [1, 2, 3, 4, 5, 6] None (first_dhcp, first_udp, k) of (d', u', k') \<Rightarrow>
     udp_payload u' = take 200 (fst (dhcp_send_discover [1, 2, 3, 4, 5, 6] None first_dhcp))" by auto
qed

end
