(* ===== verification/Mbed_Frames.thy ===== *)
theory Mbed_Frames
  imports Prelude
begin

text \<open>
  The frame headers of the mbed Ethernet target, \<open>targets/mbed_ethernet/drivers/\<close>: the macros of
  \<open>protocols.h\<close> and \<open>ethernet.h\<close> that read and write big-endian integers and link layer
  addresses, and \<open>ethernet.c\<close>, \<open>arp.c\<close> and \<open>ip.c\<close> that use them.

  A buffer is a function from offsets to octets, and a pointer into it an offset. Every macro of
  the code takes the index by name and leaves it behind the octets it used; here it returns it.
\<close>

section \<open>Model\<close>

type_synonym buffer = "nat \<Rightarrow> u8"

text \<open>\<open>EthAddr\<close> holds six octets.\<close>
type_synonym EthAddr = "u8 list"

definition GET_TWO :: "buffer \<Rightarrow> nat \<Rightarrow> u16 \<times> nat" where
  "GET_TWO src idx =
     (push_bit 8 (u8_to_u16 (src idx)) OR u8_to_u16 (src (idx + 1)), idx + 2)"

definition GET_FOUR :: "buffer \<Rightarrow> nat \<Rightarrow> u32 \<times> nat" where
  "GET_FOUR src idx =
     (push_bit 24 (u8_to_u32 (src idx)) OR push_bit 16 (u8_to_u32 (src (idx + 1)))
        OR push_bit 8 (u8_to_u32 (src (idx + 2))) OR u8_to_u32 (src (idx + 3)), idx + 4)"

definition PUT_TWO :: "buffer \<Rightarrow> nat \<Rightarrow> u16 \<Rightarrow> buffer \<times> nat" where
  "PUT_TWO dst idx v =
     (dst(idx := u16_to_u8 (drop_bit 8 v AND 0xFF), idx + 1 := u16_to_u8 (v AND 0xFF)), idx + 2)"

definition PUT_FOUR :: "buffer \<Rightarrow> nat \<Rightarrow> u32 \<Rightarrow> buffer \<times> nat" where
  "PUT_FOUR dst idx v =
     (dst(idx := u32_to_u8 (drop_bit 24 v AND 0xFF), idx + 1 := u32_to_u8 (drop_bit 16 v AND 0xFF),
          idx + 2 := u32_to_u8 (drop_bit 8 v AND 0xFF), idx + 3 := u32_to_u8 (v AND 0xFF)), idx + 4)"

definition GET_MAC :: "buffer \<Rightarrow> nat \<Rightarrow> EthAddr \<times> nat" where
  "GET_MAC src idx =
     ([src idx, src (idx + 1), src (idx + 2), src (idx + 3), src (idx + 4), src (idx + 5)], idx + 6)"

definition PUT_MAC :: "buffer \<Rightarrow> nat \<Rightarrow> EthAddr \<Rightarrow> buffer \<times> nat" where
  "PUT_MAC dst idx a =
     (dst(idx := a ! 0, idx + 1 := a ! 1, idx + 2 := a ! 2, idx + 3 := a ! 3, idx + 4 := a ! 4,
          idx + 5 := a ! 5), idx + 6)"

subsection \<open>The Ethernet header\<close>

definition PROTO_MAC_HLEN :: nat where
  "PROTO_MAC_HLEN = 14"

record EthHead =
  eth_src :: EthAddr
  eth_dst :: EthAddr
  eth_type :: u16

definition proto_eth_demangle :: "buffer \<Rightarrow> EthHead" where
  "proto_eth_demangle data =
    (let idx = 0;
         (d, idx) = GET_MAC data idx;
         (s, idx) = GET_MAC data idx;
         (t, idx) = GET_TWO data idx
     in \<lparr>eth_src = s, eth_dst = d, eth_type = t\<rparr>)"

definition proto_eth_mangle :: "EthHead \<Rightarrow> buffer \<Rightarrow> buffer" where
  "proto_eth_mangle eh data =
    (let idx = 0;
         (data, idx) = PUT_MAC data idx (eth_dst eh);
         (data, idx) = PUT_MAC data idx (eth_src eh);
         (data, idx) = PUT_TWO data idx (eth_type eh)
     in data)"

definition proto_eth_addr_equal :: "EthAddr \<Rightarrow> EthAddr \<Rightarrow> bool" where
  "proto_eth_addr_equal a1 a2 \<longleftrightarrow>
     a1 ! 0 = a2 ! 0 \<and> a1 ! 1 = a2 ! 1 \<and> a1 ! 2 = a2 ! 2 \<and> a1 ! 3 = a2 ! 3 \<and> a1 ! 4 = a2 ! 4 \<and>
     a1 ! 5 = a2 ! 5"

definition proto_eth_addr_is_multicast :: "EthAddr \<Rightarrow> bool" where
  "proto_eth_addr_is_multicast a \<longleftrightarrow> a ! 0 AND 1 \<noteq> 0"

subsection \<open>ARP packets\<close>

definition PROTO_ARP_HLEN :: nat where
  "PROTO_ARP_HLEN = 28"

definition PROTO_ARP :: u16 where
  "PROTO_ARP = 0x0806"

definition PROTO_IP :: u16 where
  "PROTO_IP = 0x0800"

record ArpHead =
  hard_type :: u16
  protocol_type :: u16
  hlen :: u8
  plen :: u8
  opcode :: u16
  sender_mac :: EthAddr
  sender_ip :: u32
  target_mac :: EthAddr
  target_ip :: u32

text \<open>The packet starts \<open>base\<close> octets into the buffer.\<close>

definition proto_arp_demangle :: "buffer \<Rightarrow> nat \<Rightarrow> ArpHead" where
  "proto_arp_demangle data base =
    (let idx = base;
         (ht, idx) = GET_TWO data idx;
         (pt, idx) = GET_TWO data idx;
         hl = data idx; idx = idx + 1;
         pl = data idx; idx = idx + 1;
         (op, idx) = GET_TWO data idx;
         (sm, idx) = GET_MAC data idx;
         (si, idx) = GET_FOUR data idx;
         (tm, idx) = GET_MAC data idx;
         (ti, idx) = GET_FOUR data idx
     in \<lparr>hard_type = ht, protocol_type = pt, hlen = hl, plen = pl, opcode = op, sender_mac = sm,
         sender_ip = si, target_mac = tm, target_ip = ti\<rparr>)"

definition proto_arp_mangle :: "ArpHead \<Rightarrow> buffer \<Rightarrow> nat \<Rightarrow> buffer" where
  "proto_arp_mangle ah data base =
    (let idx = base;
         (data, idx) = PUT_TWO data idx (hard_type ah);
         (data, idx) = PUT_TWO data idx (protocol_type ah);
         data = data(idx := hlen ah); idx = idx + 1;
         data = data(idx := plen ah); idx = idx + 1;
         (data, idx) = PUT_TWO data idx (opcode ah);
         (data, idx) = PUT_MAC data idx (sender_mac ah);
         (data, idx) = PUT_FOUR data idx (sender_ip ah);
         (data, idx) = PUT_MAC data idx (target_mac ah);
         (data, idx) = PUT_FOUR data idx (target_ip ah)
     in data)"

subsection \<open>Fields of the IPv4 header\<close>

definition IP_DST_OFFSET :: nat where
  "IP_DST_OFFSET = 16"

definition IP_SRC_OFFSET :: nat where
  "IP_SRC_OFFSET = 12"

definition IP_SIZE_OFFSET :: nat where
  "IP_SIZE_OFFSET = 2"

definition proto_ip_get_dst :: "buffer \<Rightarrow> nat \<Rightarrow> u32" where
  "proto_ip_get_dst data base = fst (GET_FOUR data (base + IP_DST_OFFSET))"

definition proto_ip_get_src :: "buffer \<Rightarrow> nat \<Rightarrow> u32" where
  "proto_ip_get_src data base = fst (GET_FOUR data (base + IP_SRC_OFFSET))"

definition proto_ip_get_size :: "buffer \<Rightarrow> nat \<Rightarrow> u16" where
  "proto_ip_get_size data base = fst (GET_TWO data (base + IP_SIZE_OFFSET))"

section \<open>Reading back what was written\<close>

text \<open>The octets of a buffer from an offset on.\<close>

definition octets_at :: "buffer \<Rightarrow> nat \<Rightarrow> nat \<Rightarrow> u8 list" where
  "octets_at b base n = map b [base..<base + n]"

lemma length_octets_at [simp]: "length (octets_at b base n) = n"
  by (simp add: octets_at_def)

lemma nth_octets_at: "i < n \<Longrightarrow> octets_at b base n ! i = b (base + i)"
  by (simp add: octets_at_def)

lemma octets_at_Suc: "octets_at b base (Suc n) = b base # octets_at b (Suc base) n"
  unfolding octets_at_def by (subst upt_conv_Cons) auto

lemma octets_at_cong: "(\<And>i. i < n \<Longrightarrow> b (base + i) = c (base + i)) \<Longrightarrow> octets_at b base n = octets_at c base n"
  by (rule nth_equalityI) (auto simp: nth_octets_at)

lemma octet_mask: "(0xFF :: u16) = mask 8" "(0xFF :: u32) = mask 8"
  by (simp_all add: mask_eq_exp_minus_1)

lemma octet_of_and: "u16_to_u8 (a AND 0xFF) = u16_to_u8 a" "u32_to_u8 (c AND 0xFF) = u32_to_u8 c"
  unfolding octet_mask by (rule bit_word_eqI; auto simp: bit_simps)+

lemma get_two_of_octets:
  "push_bit 8 (u8_to_u16 (u16_to_u8 (drop_bit 8 v))) OR u8_to_u16 (u16_to_u8 v) = v"
  by (rule bit_word_eqI) (auto simp: bit_simps)

lemma get_four_of_octets:
  "push_bit 24 (u8_to_u32 (u32_to_u8 (drop_bit 24 v))) OR push_bit 16 (u8_to_u32 (u32_to_u8 (drop_bit 16 v)))
     OR push_bit 8 (u8_to_u32 (u32_to_u8 (drop_bit 8 v))) OR u8_to_u32 (u32_to_u8 v) = v"
proof (rule bit_word_eqI)
  fix n assume "n < LENGTH(32)"
  then consider "n < 8" | "8 \<le> n" "n < 16" | "16 \<le> n" "n < 24" | "24 \<le> n" "n < 32" by force
  then show "bit (push_bit 24 (u8_to_u32 (u32_to_u8 (drop_bit 24 v)))
      OR push_bit 16 (u8_to_u32 (u32_to_u8 (drop_bit 16 v)))
      OR push_bit 8 (u8_to_u32 (u32_to_u8 (drop_bit 8 v))) OR u8_to_u32 (u32_to_u8 v)) n = bit v n"
    by cases (auto simp: bit_simps)
qed

lemma mac_nths:
  "length a = 6 \<Longrightarrow> [a ! 0, a ! Suc 0, a ! 2, a ! 3, a ! 4, a ! 5] = (a :: EthAddr)"
  by (rule nth_equalityI) (auto simp: less_Suc_eq numeral_eq_Suc)

lemmas frame_macros = GET_TWO_def GET_FOUR_def PUT_TWO_def PUT_FOUR_def GET_MAC_def PUT_MAC_def

lemma eth_addr_equal_iff:
  assumes "length a = 6" "length b = 6"
  shows "proto_eth_addr_equal a b \<longleftrightarrow> a = b"
proof
  assume eq: "proto_eth_addr_equal a b"
  show "a = b"
  proof (rule nth_equalityI)
    fix i assume "i < length a"
    then consider "i = 0" | "i = 1" | "i = 2" | "i = 3" | "i = 4" | "i = 5"
      using assms(1) by (force simp: less_Suc_eq numeral_eq_Suc)
    then show "a ! i = b ! i" using eq by cases (simp_all add: proto_eth_addr_equal_def)
  qed (simp add: assms)
qed (simp add: proto_eth_addr_equal_def)

definition eth_head_ok :: "EthHead \<Rightarrow> bool" where
  "eth_head_ok eh \<longleftrightarrow> length (eth_src eh) = 6 \<and> length (eth_dst eh) = 6"

definition arp_head_ok :: "ArpHead \<Rightarrow> bool" where
  "arp_head_ok ah \<longleftrightarrow> length (sender_mac ah) = 6 \<and> length (target_mac ah) = 6"

lemma eth_roundtrip: "eth_head_ok eh \<Longrightarrow> proto_eth_demangle (proto_eth_mangle eh data) = eh"
  using mac_nths [of "eth_src eh"] mac_nths [of "eth_dst eh"]
  by (cases eh) (simp add: proto_eth_demangle_def proto_eth_mangle_def frame_macros Let_def
      octet_of_and get_two_of_octets eth_head_ok_def)

lemma arp_roundtrip: "arp_head_ok ah \<Longrightarrow> proto_arp_demangle (proto_arp_mangle ah data base) base = ah"
  using mac_nths [of "sender_mac ah"] mac_nths [of "target_mac ah"]
  by (cases ah) (simp add: proto_arp_demangle_def proto_arp_mangle_def frame_macros Let_def
      octet_of_and get_two_of_octets get_four_of_octets arp_head_ok_def)

lemma arp_mangle_below: "i < base \<Longrightarrow> proto_arp_mangle ah data base i = data i"
  by (simp add: proto_arp_mangle_def frame_macros Let_def)

lemma eth_mangle_beyond: "i \<ge> 14 \<Longrightarrow> proto_eth_mangle eh data i = data i"
  by (simp add: proto_eth_mangle_def frame_macros Let_def)

lemma eth_demangle_cong: "(\<And>i. i < 14 \<Longrightarrow> b i = c i) \<Longrightarrow> proto_eth_demangle b = proto_eth_demangle c"
  by (simp add: proto_eth_demangle_def frame_macros Let_def)

lemma eth_demangle_ok [simp]: "eth_head_ok (proto_eth_demangle data)"
  by (simp add: proto_eth_demangle_def eth_head_ok_def frame_macros Let_def)

lemma arp_demangle_ok [simp]: "arp_head_ok (proto_arp_demangle data base)"
  by (simp add: proto_arp_demangle_def arp_head_ok_def frame_macros Let_def)

end
