(* ===== verification/Mbed_Ethernet.thy ===== *)
theory Mbed_Ethernet
  imports Mbed_Frames Link_Layer_Cache
begin

text \<open>
  The Ethernet driver of the mbed target, \<open>targets/mbed_ethernet/drivers/\<close>, in its IPv4 build:
  the reception of frames and their delivery octet by octet to Smews (\<open>eth_input.c\<close>), the answers
  to ARP requests (\<open>arp.c\<close>), the transmission buffers (\<open>out_buffers.c\<close>), the output of packets
  (\<open>eth_output.c\<close>) and the interrupt handler (\<open>hardware.c\<close>).

  The controller and its library \<open>rflpc\<close> are not in the repository. What their functions return is
  an argument of the model (the frames received, the descriptor of the ring that is available, the
  status words the controller writes), what the code asks of them is recorded in \<open>calls\<close>.
\<close>

section \<open>Model\<close>

subsection \<open>State\<close>

definition DEV_MTU :: u32 where
  "DEV_MTU = 1500"

definition RX_DESCRIPTORS :: nat where
  "RX_DESCRIPTORS = 10"

definition TX_BUFFER_COUNT :: nat where
  "TX_BUFFER_COUNT = 10"

definition TX_DESCRIPTORS :: nat where
  "TX_DESCRIPTORS = 20"

definition DMA_THRESHOLD :: nat where
  "DMA_THRESHOLD = 64"

definition PACKET_BEEING_SENT_MAGIC :: u32 where
  "PACKET_BEEING_SENT_MAGIC = 0xFACADE00"

text \<open>What a transmission descriptor points to: one of the three kinds of buffers of the driver.\<close>

datatype tx_ptr = Ethernet_header | Arp_reply_buffer | Tx_buffer nat

text \<open>
  A descriptor of the transmission ring with its status word. The control word is kept as the
  arguments of \<open>rflpc_eth_set_tx_control_word\<close>: a size, and whether the fragment is the last one.
\<close>

record tx_descriptor =
  packet :: "tx_ptr option"
  control :: "u32 \<times> bool"
  status_info :: u32

datatype rflpc_call = Done_rx | Trigger_rx | Done_tx nat

text \<open>A copy asked of the DMA controller: the channel, the buffer and the offset it goes to, the octets.\<close>

record dma_copy =
  dma_channel :: nat
  dma_dest :: nat
  dma_offset :: nat
  dma_octets :: "u8 list"

text \<open>
  A reception buffer is named by the number of its descriptor (\<open>_rx_buffers + RX_BUFFER_SIZE * i\<close>),
  a transmission buffer by its index in \<open>_tx_buffers\<close>.
\<close>

record mbed =
  local_eth_addr :: EthAddr
  local_ip_addr :: u32
  rx_buffers :: "nat \<Rightarrow> buffer"
  current_rx_frame :: "nat option"
  current_rx_frame_size :: u32
  current_rx_frame_idx :: u32
  link_cache :: ll_cache
  tx_in_use :: "bool list"
  tx_buffers :: "nat \<Rightarrow> buffer"
  tx_descriptors :: "tx_descriptor list"
  current_buffer_ptr :: "nat option"
  current_buffer_size :: u32
  ethernet_header :: buffer
  header_first :: bool
  arp_reply_buffer :: buffer
  dma_copies :: "dma_copy list"
  calls :: "rflpc_call list"

definition call :: "rflpc_call \<Rightarrow> mbed \<Rightarrow> mbed" where
  "call c s = s\<lparr>calls := calls s @ [c]\<rparr>"

definition upd_descriptor :: "nat \<Rightarrow> (tx_descriptor \<Rightarrow> tx_descriptor) \<Rightarrow> mbed \<Rightarrow> mbed" where
  "upd_descriptor d f s = s\<lparr>tx_descriptors := (tx_descriptors s)[d := f (tx_descriptors s ! d)]\<rparr>"

subsection \<open>Reception\<close>

text \<open>
  \<open>avail\<close> is what \<open>rflpc_eth_rx_available\<close> answers. The result is an \<open>int16_t\<close>. \<open>between\<close> is what
  an interrupt does between the reset of the frame and the release of its descriptor; \<open>id\<close> when
  there is none.
\<close>

definition mbed_eth_get_byte_irq :: "(mbed \<Rightarrow> mbed) \<Rightarrow> bool \<Rightarrow> mbed \<Rightarrow> u16 \<times> mbed" where
  "mbed_eth_get_byte_irq between avail s =
    (case current_rx_frame s of
       None \<Rightarrow> (- 1, s)
     | Some f \<Rightarrow>
        (let byte = rx_buffers s f (unat (current_rx_frame_idx s));
             s = s\<lparr>current_rx_frame_idx := current_rx_frame_idx s + 1\<rparr>
         in if current_rx_frame_idx s \<ge> current_rx_frame_size s
            then (let s = s\<lparr>current_rx_frame := None, current_rx_frame_size := 0, current_rx_frame_idx := 0\<rparr>;
                      s = call Done_rx (between s)
                  in (u8_to_u16 byte, if avail then call Trigger_rx s else s))
            else (u8_to_u16 byte, s)))"

definition mbed_eth_get_byte :: "bool \<Rightarrow> mbed \<Rightarrow> u16 \<times> mbed" where
  "mbed_eth_get_byte avail s = mbed_eth_get_byte_irq (\<lambda>s. s) avail s"

definition mbed_eth_byte_available :: "bool \<Rightarrow> mbed \<Rightarrow> bool \<times> mbed" where
  "mbed_eth_byte_available avail s =
    (let s = (if current_rx_frame s = None \<and> avail then call Trigger_rx s else s)
     in (current_rx_frame s \<noteq> None, s))"

text \<open>
  \<open>answer\<close> is the descriptor \<open>rflpc_eth_get_current_tx_packet_descriptor\<close> gives for the reply, if
  one is available; \<open>clock\<close> is the time for the link layer cache.
\<close>

definition mbed_process_arp ::
    "u32 option \<Rightarrow> nat option \<Rightarrow> EthHead \<Rightarrow> nat \<Rightarrow> mbed \<Rightarrow> mbed" where
  "mbed_process_arp clock answer eth f s =
    (let arp_rcv = proto_arp_demangle (rx_buffers s f) PROTO_MAC_HLEN;
         learn = (\<lambda>s. s\<lparr>link_cache :=
           add_link_layer_address clock (sender_ip arp_rcv) (sender_mac arp_rcv) (link_cache s)\<rparr>)
     in if target_ip arp_rcv \<noteq> local_ip_addr s then s
        else if opcode arp_rcv = 1 then
          (case answer of
             None \<Rightarrow> s
           | Some d \<Rightarrow>
              (let eth = eth\<lparr>eth_dst := eth_src eth, eth_src := local_eth_addr s\<rparr>;
                   arp_send = \<lparr>hard_type = 1, protocol_type = PROTO_IP, hlen = 6, plen = 4, opcode = 2,
                     sender_mac = local_eth_addr s, sender_ip = target_ip arp_rcv,
                     target_mac = sender_mac arp_rcv, target_ip = sender_ip arp_rcv\<rparr>;
                   s = s\<lparr>arp_reply_buffer := proto_eth_mangle eth (arp_reply_buffer s)\<rparr>;
                   s = s\<lparr>arp_reply_buffer := proto_arp_mangle arp_send (arp_reply_buffer s) PROTO_MAC_HLEN\<rparr>;
                   s = upd_descriptor d (\<lambda>x. x\<lparr>control := (of_nat (PROTO_MAC_HLEN + PROTO_ARP_HLEN), True)\<rparr>) s;
                   s = upd_descriptor d (\<lambda>x. x\<lparr>packet := Some Arp_reply_buffer\<rparr>) s;
                   s = call (Done_tx 1) s
               in learn s))
        else learn s)"

text \<open>The result tells whether the packet is kept (\<open>ETH_INPUT_KEEP_PACKET\<close>) or freed.\<close>

definition mbed_process_input :: "u32 option \<Rightarrow> nat option \<Rightarrow> nat \<Rightarrow> mbed \<Rightarrow> bool \<times> mbed" where
  "mbed_process_input clock answer f s =
    (if current_rx_frame s = Some f then (True, s)
     else
       (let eth = proto_eth_demangle (rx_buffers s f)
        in if eth_type eth = PROTO_ARP then (False, mbed_process_arp clock answer eth f s)
           else if eth_type eth \<noteq> PROTO_IP then (False, s)
           else if \<not> proto_eth_addr_is_multicast (eth_dst eth) \<and>
                   \<not> proto_eth_addr_equal (eth_dst eth) (local_eth_addr s) then (False, s)
           else
             (let src_ip = proto_ip_get_src (rx_buffers s f) PROTO_MAC_HLEN;
                  s = s\<lparr>link_cache := add_link_layer_address clock src_ip (eth_src eth) (link_cache s)\<rparr>;
                  s = s\<lparr>current_rx_frame := Some f,
                    current_rx_frame_size :=
                      u16_to_u32 (proto_ip_get_size (rx_buffers s f) PROTO_MAC_HLEN) + of_nat PROTO_MAC_HLEN\<rparr>;
                  s = (if current_rx_frame_size s \<ge> DEV_MTU then s\<lparr>current_rx_frame_size := DEV_MTU\<rparr> else s);
                  s = s\<lparr>current_rx_frame_idx := of_nat PROTO_MAC_HLEN\<rparr>
              in (True, s))))"

subsection \<open>Transmission buffers\<close>

definition mbed_eth_is_releasable_buffer :: "tx_ptr \<Rightarrow> bool" where
  "mbed_eth_is_releasable_buffer p =
    (case p of Tx_buffer i \<Rightarrow> i < TX_BUFFER_COUNT | _ \<Rightarrow> False)"

definition mbed_eth_init_tx_buffers :: "mbed \<Rightarrow> mbed" where
  "mbed_eth_init_tx_buffers s = s\<lparr>tx_in_use := replicate TX_BUFFER_COUNT False\<rparr>"

fun first_unused :: "bool list \<Rightarrow> nat \<Rightarrow> nat option" where
  "first_unused [] i = None"
| "first_unused (u # us) i = (if \<not> u then Some i else first_unused us (Suc i))"

definition mbed_eth_get_tx_buffer :: "mbed \<Rightarrow> nat option \<times> mbed" where
  "mbed_eth_get_tx_buffer s =
    (case first_unused (tx_in_use s) 0 of
       None \<Rightarrow> (None, s)
     | Some i \<Rightarrow> (Some i, s\<lparr>tx_in_use := (tx_in_use s)[i := True]\<rparr>))"

definition mbed_eth_release_tx_buffer :: "tx_ptr \<Rightarrow> mbed \<Rightarrow> mbed" where
  "mbed_eth_release_tx_buffer p s =
    (case p of Tx_buffer i \<Rightarrow> s\<lparr>tx_in_use := (tx_in_use s)[i := False]\<rparr> | _ \<Rightarrow> s)"

text \<open>One turn of the loop of \<open>mbed_eth_garbage_tx_buffers\<close>; the register holds the last index.\<close>

definition garbage_descriptor :: "nat \<Rightarrow> mbed \<Rightarrow> mbed" where
  "garbage_descriptor i s =
    (let d = tx_descriptors s ! i
     in case packet d of
          None \<Rightarrow> s
        | Some p \<Rightarrow>
            if status_info d \<noteq> PACKET_BEEING_SENT_MAGIC
            then (let s = (if mbed_eth_is_releasable_buffer p then mbed_eth_release_tx_buffer p s else s)
                  in upd_descriptor i (\<lambda>x. x\<lparr>packet := None\<rparr>) s)
            else s)"

definition mbed_eth_garbage_tx_buffers :: "nat \<Rightarrow> mbed \<Rightarrow> mbed" where
  "mbed_eth_garbage_tx_buffers last_descriptor s =
     fold garbage_descriptor [0..<Suc last_descriptor] s"

definition init_tx_descriptors :: "mbed \<Rightarrow> mbed" where
  "init_tx_descriptors s =
     fold (\<lambda>i. upd_descriptor i (\<lambda>x. x\<lparr>packet := None\<rparr>)) [0..<TX_DESCRIPTORS] s"

subsection \<open>Output\<close>

definition mbed_eth_fill_header :: "u32 \<Rightarrow> mbed \<Rightarrow> mbed" where
  "mbed_eth_fill_header ip s =
    (let s = (if header_first s
              then (let (h, idx) = PUT_MAC (ethernet_header s) 6 (local_eth_addr s);
                        (h, idx) = PUT_TWO h idx PROTO_IP
                    in s\<lparr>ethernet_header := h, header_first := False\<rparr>)
              else s);
         dst_addr = (case get_link_layer_address ip (link_cache s) of
                       Some a \<Rightarrow> a
                     | None \<Rightarrow> replicate 6 0xff)
     in s\<lparr>ethernet_header := fst (PUT_MAC (ethernet_header s) 0 dst_addr)\<rparr>)"

text \<open>
  The wait for a descriptor: the successive answers of the library, up to the first that gives
  one. \<open>None\<close> is a wait that has not ended.
\<close>

fun wait_descriptor :: "nat option list \<Rightarrow> nat option" where
  "wait_descriptor [] = None"
| "wait_descriptor (None # answers) = wait_descriptor answers"
| "wait_descriptor (Some d # answers) = Some d"

text \<open>\<open>between\<close> is what an interrupt does after the pointer is stored and before the status is.\<close>

definition mbed_eth_prepare_fragment_irq ::
    "(mbed \<Rightarrow> mbed) \<Rightarrow> nat option list \<Rightarrow> tx_ptr \<Rightarrow> u32 \<Rightarrow> bool \<Rightarrow> mbed \<Rightarrow> mbed option" where
  "mbed_eth_prepare_fragment_irq between answers data n lst s =
    (case wait_descriptor answers of
       None \<Rightarrow> None
     | Some d \<Rightarrow>
        (let s = upd_descriptor d (\<lambda>x. x\<lparr>packet := Some data\<rparr>) s;
             s = between s;
             s = upd_descriptor d (\<lambda>x. x\<lparr>status_info := PACKET_BEEING_SENT_MAGIC\<rparr>) s
         in Some (upd_descriptor d (\<lambda>x. x\<lparr>control := (n, lst)\<rparr>) s)))"

definition mbed_eth_prepare_fragment ::
    "nat option list \<Rightarrow> tx_ptr \<Rightarrow> u32 \<Rightarrow> bool \<Rightarrow> mbed \<Rightarrow> mbed option" where
  "mbed_eth_prepare_fragment answers data n lst s =
     mbed_eth_prepare_fragment_irq (\<lambda>s. s) answers data n lst s"

text \<open>
  The loop of \<open>mbed_eth_prepare_output\<close>: before every collection the controller writes the status
  words it has finished with, the next element of \<open>hw\<close>. \<open>None\<close> is a wait that has not ended.
\<close>

definition hw_status :: "u32 list \<Rightarrow> mbed \<Rightarrow> mbed" where
  "hw_status ws s = s\<lparr>tx_descriptors := map2 (\<lambda>d w. d\<lparr>status_info := w\<rparr>) (tx_descriptors s) ws
      @ drop (length ws) (tx_descriptors s)\<rparr>"

fun wait_tx_buffer :: "nat \<Rightarrow> u32 list list \<Rightarrow> mbed \<Rightarrow> mbed option" where
  "wait_tx_buffer last_descriptor hw s =
    (case mbed_eth_get_tx_buffer s of
       (Some i, s) \<Rightarrow> Some (s\<lparr>current_buffer_ptr := Some i\<rparr>)
     | (None, s) \<Rightarrow>
        (case hw of
           [] \<Rightarrow> None
         | ws # hw \<Rightarrow>
             wait_tx_buffer last_descriptor hw (mbed_eth_garbage_tx_buffers last_descriptor (hw_status ws s))))"

declare wait_tx_buffer.simps [simp del]

definition mbed_eth_prepare_output :: "nat \<Rightarrow> u32 list list \<Rightarrow> mbed \<Rightarrow> mbed option" where
  "mbed_eth_prepare_output last_descriptor hw s =
    (if current_buffer_ptr s \<noteq> None then Some s
     else map_option (\<lambda>s. s\<lparr>current_buffer_size := 0\<rparr>) (wait_tx_buffer last_descriptor hw s))"

definition upd_buffer :: "nat \<Rightarrow> (buffer \<Rightarrow> buffer) \<Rightarrow> mbed \<Rightarrow> mbed" where
  "upd_buffer b f s = s\<lparr>tx_buffers := (tx_buffers s)(b := f (tx_buffers s b))\<rparr>"

definition mbed_eth_put_byte :: "u8 \<Rightarrow> mbed \<Rightarrow> mbed" where
  "mbed_eth_put_byte byte s =
    (case current_buffer_ptr s of
       None \<Rightarrow> s
     | Some b \<Rightarrow>
        (let s = upd_buffer b (\<lambda>m. m(unat (current_buffer_size s) := byte)) s
         in s\<lparr>current_buffer_size := current_buffer_size s + 1\<rparr>))"

text \<open>\<open>memcpy\<close>: the octets one after the other.\<close>

fun memcpy :: "u8 list \<Rightarrow> nat \<Rightarrow> buffer \<Rightarrow> buffer" where
  "memcpy [] at m = m"
| "memcpy (x # xs) at m = memcpy xs (Suc at) (m(at := x))"

text \<open>
  \<open>memcpy_dma\<close> tries the eight channels in turn: \<open>ready\<close> holds what \<open>rflpc_dma_channel_ready\<close>
  answers. It starts the copy and does not wait for it; \<open>dma_done\<close> is its completion.
\<close>

fun find_channel :: "bool list \<Rightarrow> nat \<Rightarrow> nat option" where
  "find_channel [] ch = None"
| "find_channel (r # ready) ch =
    (if r then Some ch else find_channel ready (if ch = 7 then 0 else ch + 1))"

definition memcpy_dma :: "bool list \<Rightarrow> nat \<Rightarrow> nat \<Rightarrow> u8 list \<Rightarrow> mbed \<Rightarrow> mbed option" where
  "memcpy_dma ready b at bytes s =
    (case find_channel ready 0 of
       None \<Rightarrow> None
     | Some ch \<Rightarrow> Some (s\<lparr>dma_copies := dma_copies s @
         [\<lparr>dma_channel = ch, dma_dest = b, dma_offset = at, dma_octets = bytes\<rparr>]\<rparr>))"

definition dma_write :: "dma_copy \<Rightarrow> mbed \<Rightarrow> mbed" where
  "dma_write c = upd_buffer (dma_dest c) (memcpy (dma_octets c) (dma_offset c))"

definition dma_done :: "mbed \<Rightarrow> mbed" where
  "dma_done s = fold dma_write (dma_copies s) (s\<lparr>dma_copies := []\<rparr>)"

definition mbed_eth_put_nbytes :: "bool list \<Rightarrow> u8 list \<Rightarrow> mbed \<Rightarrow> mbed option" where
  "mbed_eth_put_nbytes ready bytes s =
    (case current_buffer_ptr s of
       None \<Rightarrow> Some s
     | Some b \<Rightarrow>
        (let at = unat (current_buffer_size s);
             r = (if length bytes \<ge> DMA_THRESHOLD then memcpy_dma ready b at bytes s
                  else Some (upd_buffer b (memcpy bytes at) s))
         in map_option (\<lambda>s. s\<lparr>current_buffer_size := current_buffer_size s + of_nat (length bytes)\<rparr>) r))"

text \<open>
  \<open>dst_ip\<close> is what \<open>get_current_remote_ip\<close> gives. A null pointer as the buffer is undefined here:
  Smews calls this only behind \<open>mbed_eth_prepare_output\<close>.
\<close>

definition mbed_eth_output_done ::
    "u32 \<Rightarrow> nat option list \<Rightarrow> nat option list \<Rightarrow> mbed \<Rightarrow> mbed option" where
  "mbed_eth_output_done dst_ip answers0 answers1 s =
    (let s = mbed_eth_fill_header dst_ip s
     in case mbed_eth_prepare_fragment answers0 Ethernet_header (of_nat PROTO_MAC_HLEN) False s of
          None \<Rightarrow> None
        | Some s \<Rightarrow>
           (case current_buffer_ptr s of
              None \<Rightarrow> None
            | Some b \<Rightarrow>
               (case mbed_eth_prepare_fragment answers1 (Tx_buffer b) (current_buffer_size s) True s of
                  None \<Rightarrow> None
                | Some s \<Rightarrow>
                    Some ((call (Done_tx 2) s)\<lparr>current_buffer_ptr := None, current_buffer_size := 0\<rparr>))))"

subsection \<open>The interrupt handler\<close>

text \<open>
  \<open>pending\<close> holds the reception descriptors the library goes through, each with what it answers
  when the ARP code asks for a transmission descriptor. The loop handles at most
  \<open>TX_DESCRIPTORS\<close> of them and stops at the first packet that is kept.
\<close>

fun rx_loop :: "u32 option \<Rightarrow> nat \<Rightarrow> (nat \<times> nat option) list \<Rightarrow> mbed \<Rightarrow> mbed" where
  "rx_loop clock i [] s = s"
| "rx_loop clock i ((f, answer) # pending) s =
    (if i < TX_DESCRIPTORS
     then (case mbed_process_input clock answer f s of
             (False, s) \<Rightarrow> rx_loop clock (Suc i) pending (call Done_rx s)
           | (True, s) \<Rightarrow> s)
     else s)"

definition eth_irq_handler ::
    "u32 option \<Rightarrow> nat \<Rightarrow> bool \<Rightarrow> bool \<Rightarrow> (nat \<times> nat option) list \<Rightarrow> mbed \<Rightarrow> mbed" where
  "eth_irq_handler clock last_descriptor rx_done tx_done pending s =
    (let s = (if rx_done then rx_loop clock 0 pending s else s)
     in if tx_done then mbed_eth_garbage_tx_buffers last_descriptor s else s)"

subsection \<open>The start of the driver\<close>

text \<open>
  The static variables, \<open>rx\<close> being what the reception buffers hold, and what
  \<open>mbed_configure_eth\<close> does with them; \<open>serial\<close> is the serial number the library reads, if it can.
\<close>

definition mbed_static :: "EthAddr \<Rightarrow> u32 \<Rightarrow> (nat \<Rightarrow> buffer) \<Rightarrow> mbed" where
  "mbed_static mac ip rx =
     \<lparr>local_eth_addr = mac, local_ip_addr = ip, rx_buffers = rx, current_rx_frame = None,
      current_rx_frame_size = 0, current_rx_frame_idx = 0, link_cache = ll_static,
      tx_in_use = replicate TX_BUFFER_COUNT True, tx_buffers = (\<lambda>_ _. 0),
      tx_descriptors = replicate TX_DESCRIPTORS \<lparr>packet = None, control = (0, False), status_info = 0\<rparr>,
      current_buffer_ptr = None, current_buffer_size = 0, ethernet_header = (\<lambda>_. 0), header_first = True,
      arp_reply_buffer = (\<lambda>_. 0), dma_copies = [], calls = []\<rparr>"

definition mbed_auto_set_mac :: "u32 list option \<Rightarrow> EthAddr \<Rightarrow> EthAddr" where
  "mbed_auto_set_mac serial mac =
    (case serial of
       None \<Rightarrow> mac
     | Some w \<Rightarrow> [2, 3, u32_to_u8 (w ! 0 AND 0xFF), u32_to_u8 (w ! 1 AND 0xFF),
                   u32_to_u8 (w ! 2 AND 0xFF), u32_to_u8 (w ! 3 AND 0xFF)])"

definition mbed_configure_eth :: "u32 list option \<Rightarrow> mbed \<Rightarrow> mbed" where
  "mbed_configure_eth serial s =
    (let s = mbed_eth_init_tx_buffers s;
         s = s\<lparr>local_eth_addr := mbed_auto_set_mac serial (local_eth_addr s)\<rparr>
     in init_tx_descriptors s)"

text \<open>A node with address 10.0.0.2 and the frame it has received.\<close>

definition frame_at :: "u8 list \<Rightarrow> buffer" where
  "frame_at xs i = (if i < length xs then xs ! i else 0)"

definition example_node :: "u8 list \<Rightarrow> mbed" where
  "example_node frame = mbed_configure_eth (Some [1, 2, 3, 4]) (mbed_static [0, 0, 0, 0, 0, 0] 0x0A000002 (\<lambda>_. frame_at frame))"

section \<open>Reading a frame\<close>

text \<open>\<open>DEV_GET\<close> as often as Smews asks for an octet; no other frame is waiting.\<close>

fun read_bytes :: "nat \<Rightarrow> mbed \<Rightarrow> u16 list \<times> mbed" where
  "read_bytes 0 s = ([], s)"
| "read_bytes (Suc n) s =
    (let (c, s) = mbed_eth_get_byte False s; (cs, s) = read_bytes n s in (c # cs, s))"

lemma get_byte_inside:
  assumes "current_rx_frame s = Some f" "current_rx_frame_idx s + 1 < current_rx_frame_size s"
  shows "mbed_eth_get_byte avail s =
    (u8_to_u16 (rx_buffers s f (unat (current_rx_frame_idx s))),
     s\<lparr>current_rx_frame_idx := current_rx_frame_idx s + 1\<rparr>)"
  using assms by (simp add: mbed_eth_get_byte_def mbed_eth_get_byte_irq_def Let_def)

lemma get_byte_last:
  assumes "current_rx_frame s = Some f" "current_rx_frame_size s \<le> current_rx_frame_idx s + 1"
  shows "mbed_eth_get_byte False s =
    (u8_to_u16 (rx_buffers s f (unat (current_rx_frame_idx s))),
     call Done_rx (s\<lparr>current_rx_frame := None, current_rx_frame_size := 0, current_rx_frame_idx := 0\<rparr>))"
  using assms by (simp add: mbed_eth_get_byte_def mbed_eth_get_byte_irq_def Let_def)

lemma read_frame:
  assumes "current_rx_frame s = Some f" "unat (current_rx_frame_size s) = i + Suc n"
    "unat (current_rx_frame_idx s) = i"
  shows "read_bytes (Suc n) s =
    (map u8_to_u16 (octets_at (rx_buffers s f) i (Suc n)),
     call Done_rx (s\<lparr>current_rx_frame := None, current_rx_frame_size := 0, current_rx_frame_idx := 0\<rparr>))"
  using assms
proof (induction n arbitrary: i s)
  case 0
  have "current_rx_frame_size s = current_rx_frame_idx s + 1"
    using 0 unat_u32_lt [of "current_rx_frame_size s"] by (simp add: word_unat_eq_iff unat_add_u32)
  then have "current_rx_frame_size s \<le> current_rx_frame_idx s + 1" by simp
  from get_byte_last [OF 0(1) this] 0(3) show ?case
    by (simp add: octets_at_Suc) (simp add: octets_at_def)
next
  case (Suc n)
  have idx: "unat (current_rx_frame_idx s + 1) = Suc i"
    using Suc.prems unat_u32_lt [of "current_rx_frame_size s"] by (simp add: unat_add_u32)
  then have "current_rx_frame_idx s + 1 < current_rx_frame_size s"
    using Suc.prems by (simp add: word_less_nat_alt)
  note step = get_byte_inside [OF Suc.prems(1) this, of False]
  let ?s = "s\<lparr>current_rx_frame_idx := current_rx_frame_idx s + 1\<rparr>"
  have "read_bytes (Suc n) ?s = (map u8_to_u16 (octets_at (rx_buffers ?s f) (Suc i) (Suc n)),
      call Done_rx (?s\<lparr>current_rx_frame := None, current_rx_frame_size := 0, current_rx_frame_idx := 0\<rparr>))"
    by (rule Suc.IH) (use Suc.prems idx in simp_all)
  then show ?case
    using step Suc.prems(3)
    by (subst read_bytes.simps) (simp add: octets_at_Suc [of _ i] del: read_bytes.simps)
qed

text \<open>A frame for this node: to its address or to a group, and of the type of IP.\<close>

definition ip_frame_for :: "nat \<Rightarrow> mbed \<Rightarrow> bool" where
  "ip_frame_for f s \<longleftrightarrow>
     (let eth = proto_eth_demangle (rx_buffers s f)
      in eth_type eth = PROTO_IP \<and>
         (proto_eth_addr_is_multicast (eth_dst eth) \<or> eth_dst eth = local_eth_addr s))"

lemma PROTO_neq: "PROTO_IP \<noteq> PROTO_ARP"
  by (simp add: PROTO_IP_def PROTO_ARP_def)

lemma process_ip_frame:
  assumes "ip_frame_for f s" "current_rx_frame s \<noteq> Some f"
  shows "\<exists>c sz. mbed_process_input clock answer f s =
    (True, s\<lparr>link_cache := c, current_rx_frame := Some f, current_rx_frame_size := sz,
             current_rx_frame_idx := 14\<rparr>) \<and>
    unat sz = 14 + min (unat (proto_ip_get_size (rx_buffers s f) 14)) 1486"
proof -
  let ?n = "proto_ip_get_size (rx_buffers s f) 14"
  have n: "unat (u16_to_u32 ?n + 14) = unat ?n + 14"
    using unat_u16_lt [of ?n] by (simp add: unat_add_u32)
  have dst: "\<not> (\<not> proto_eth_addr_is_multicast (eth_dst (proto_eth_demangle (rx_buffers s f)))
     \<and> \<not> proto_eth_addr_equal (eth_dst (proto_eth_demangle (rx_buffers s f))) (local_eth_addr s))"
    using assms(1) by (auto simp: ip_frame_for_def Let_def proto_eth_addr_equal_def)
  have type: "eth_type (proto_eth_demangle (rx_buffers s f)) = PROTO_IP"
    using assms(1) by (simp add: ip_frame_for_def Let_def)
  define sz where "sz = (if u16_to_u32 ?n + 14 \<ge> DEV_MTU then DEV_MTU else u16_to_u32 ?n + 14)"
  have "unat sz = 14 + min (unat ?n) 1486"
    using n by (auto simp: sz_def DEV_MTU_def word_le_nat_alt)
  moreover have "\<exists>c. mbed_process_input clock answer f s =
      (True, s\<lparr>link_cache := c, current_rx_frame := Some f, current_rx_frame_size := sz,
               current_rx_frame_idx := 14\<rparr>)"
    using assms(2) type dst PROTO_neq
    by (auto simp: mbed_process_input_def Let_def PROTO_MAC_HLEN_def sz_def)
  ultimately show ?thesis by blast
qed

lemma call_keeps [simp]:
  "tx_in_use (call c s) = tx_in_use s" "tx_descriptors (call c s) = tx_descriptors s"
  "current_buffer_ptr (call c s) = current_buffer_ptr s" "tx_buffers (call c s) = tx_buffers s"
  "ethernet_header (call c s) = ethernet_header s" "rx_buffers (call c s) = rx_buffers s"
  "link_cache (call c s) = link_cache s" "arp_reply_buffer (call c s) = arp_reply_buffer s"
  "current_rx_frame (call c s) = current_rx_frame s" "calls (call c s) = calls s @ [c]"
  "dma_copies (call c s) = dma_copies s" "header_first (call c s) = header_first s"
  "local_eth_addr (call c s) = local_eth_addr s" "local_ip_addr (call c s) = local_ip_addr s"
  by (simp_all add: call_def)

lemma upd_descriptor_fields [simp]:
  "tx_in_use (upd_descriptor d f s) = tx_in_use s"
  "current_buffer_ptr (upd_descriptor d f s) = current_buffer_ptr s"
  "tx_buffers (upd_descriptor d f s) = tx_buffers s"
  "ethernet_header (upd_descriptor d f s) = ethernet_header s"
  "header_first (upd_descriptor d f s) = header_first s"
  "arp_reply_buffer (upd_descriptor d f s) = arp_reply_buffer s"
  "link_cache (upd_descriptor d f s) = link_cache s"
  "current_buffer_size (upd_descriptor d f s) = current_buffer_size s"
  "local_eth_addr (upd_descriptor d f s) = local_eth_addr s"
  "length (tx_descriptors (upd_descriptor d f s)) = length (tx_descriptors s)"
  "calls (upd_descriptor d f s) = calls s"
  "dma_copies (upd_descriptor d f s) = dma_copies s"
  by (simp_all add: upd_descriptor_def)

lemma wait_descriptor_Some: "wait_descriptor (replicate n None @ Some d # answers) = Some d"
  by (induction n) simp_all

section \<open>Properties\<close>

text \<open>
  C26: An IP packet reaches Smews octet by octet. When Smews is not reading a frame, a frame that is
  addressed to this node or to a group and carries an IP packet is kept; reading then gives the
  octets of the packet in order, as many as its header says but no more than 1486, and after the
  last one the frame goes back to the controller and nothing more is to be read.
\<close>

theorem ip_frame_delivered:
  assumes "ip_frame_for f s" "current_rx_frame s = None"
    "min (unat (proto_ip_get_size (rx_buffers s f) 14)) 1486 = Suc n"
  shows "\<exists>t u. mbed_process_input clock answer f s = (True, t) \<and>
    read_bytes (Suc n) t = (map u8_to_u16 (octets_at (rx_buffers s f) 14 (Suc n)), u) \<and>
    calls u = calls s @ [Done_rx] \<and> fst (mbed_eth_byte_available False u) = False \<and>
    mbed_eth_get_byte False u = (- 1, u)"
proof -
  from process_ip_frame [OF assms(1), of clock answer] assms(2) obtain c sz where
    t: "mbed_process_input clock answer f s = (True, s\<lparr>link_cache := c, current_rx_frame := Some f,
      current_rx_frame_size := sz, current_rx_frame_idx := 14\<rparr>)" and sz: "unat sz = 14 + Suc n"
    using assms(3) by auto
  let ?t = "s\<lparr>link_cache := c, current_rx_frame := Some f, current_rx_frame_size := sz, current_rx_frame_idx := 14\<rparr>"
  have "read_bytes (Suc n) ?t = (map u8_to_u16 (octets_at (rx_buffers ?t f) 14 (Suc n)),
      call Done_rx (?t\<lparr>current_rx_frame := None, current_rx_frame_size := 0, current_rx_frame_idx := 0\<rparr>))"
    by (rule read_frame) (use sz in simp_all)
  with t show ?thesis
    by (intro exI conjI) (assumption | simp add: mbed_eth_byte_available_def mbed_eth_get_byte_def
        mbed_eth_get_byte_irq_def Let_def)+
qed

definition ip_example :: "u8 list" where
  "ip_example = [2, 3, 1, 2, 3, 4, 2, 3, 9, 9, 9, 9, 8, 0, 0x45, 0, 0, 5, 7]"

lemma fold_descriptors_keep [simp]:
  "tx_in_use (fold (\<lambda>i. upd_descriptor i f) is s) = tx_in_use s"
  "rx_buffers (fold (\<lambda>i. upd_descriptor i f) is s) = rx_buffers s"
  "current_rx_frame (fold (\<lambda>i. upd_descriptor i f) is s) = current_rx_frame s"
  "local_eth_addr (fold (\<lambda>i. upd_descriptor i f) is s) = local_eth_addr s"
  "local_ip_addr (fold (\<lambda>i. upd_descriptor i f) is s) = local_ip_addr s"
  "link_cache (fold (\<lambda>i. upd_descriptor i f) is s) = link_cache s"
  "length (tx_descriptors (fold (\<lambda>i. upd_descriptor i f) is s)) = length (tx_descriptors s)"
  "current_buffer_ptr (fold (\<lambda>i. upd_descriptor i f) is s) = current_buffer_ptr s"
  by (induction "is" arbitrary: s) (simp_all add: upd_descriptor_def)

lemma example_node_fields:
  "rx_buffers (example_node xs) = (\<lambda>_. frame_at xs)" "current_rx_frame (example_node xs) = None"
  "local_eth_addr (example_node xs) = [2, 3, 1, 2, 3, 4]" "local_ip_addr (example_node xs) = 0x0A000002"
  "link_cache (example_node xs) = ll_static" "length (tx_descriptors (example_node xs)) = 20"
  by (simp_all add: example_node_def mbed_configure_eth_def mbed_static_def init_tx_descriptors_def
      mbed_eth_init_tx_buffers_def mbed_auto_set_mac_def TX_DESCRIPTORS_def Let_def)

theorem ip_frame_delivered_witness:
  "\<exists>t u. mbed_process_input None None 3 (example_node ip_example) = (True, t) \<and>
     read_bytes 5 t = ([0x45, 0, 0, 5, 7], u) \<and> mbed_eth_get_byte False u = (- 1, u)"
proof -
  let ?s = "example_node ip_example"
  have 1: "ip_frame_for 3 ?s"
    by (simp add: ip_frame_for_def example_node_fields ip_example_def frame_at_def proto_eth_demangle_def
        frame_macros PROTO_IP_def Let_def)
  have 3: "min (unat (proto_ip_get_size (rx_buffers ?s 3) 14)) 1486 = Suc 4"
    by (simp add: example_node_fields ip_example_def frame_at_def proto_ip_get_size_def IP_SIZE_OFFSET_def
        frame_macros)
  have oct: "map u8_to_u16 (octets_at (rx_buffers ?s 3) 14 (Suc 4)) = [0x45, 0, 0, 5, 7]"
    by (simp add: example_node_fields ip_example_def frame_at_def octets_at_def upt_conv_Cons)
  from ip_frame_delivered [OF 1 example_node_fields(2) 3, of None None, unfolded oct] show ?thesis
    by (auto simp: eval_nat_numeral)
qed

text \<open>
  C27: An ARP request for the address of this node is answered and its sender is remembered. With a
  transmission descriptor available, the controller is given one descriptor, whose fragment is
  the reply buffer; it holds a reply from this node to the sender of the request, and the link
  layer cache now knows the sender.
\<close>

theorem arp_request_answered:
  assumes "current_rx_frame s \<noteq> Some f"
    "eth_type (proto_eth_demangle (rx_buffers s f)) = PROTO_ARP"
    "proto_arp_demangle (rx_buffers s f) 14 = req" "opcode req = 1" "target_ip req = local_ip_addr s"
    "length (local_eth_addr s) = 6" "d < length (tx_descriptors s)" "ll_inv (link_cache s)" "sender_ip req \<noteq> 0"
  shows "\<exists>t. mbed_process_input clock (Some d) f s = (False, t) \<and> calls t = calls s @ [Done_tx 1] \<and>
    packet (tx_descriptors t ! d) = Some Arp_reply_buffer \<and> control (tx_descriptors t ! d) = (42, True) \<and>
    proto_eth_demangle (arp_reply_buffer t) = \<lparr>eth_src = local_eth_addr s,
      eth_dst = eth_src (proto_eth_demangle (rx_buffers s f)), eth_type = PROTO_ARP\<rparr> \<and>
    proto_arp_demangle (arp_reply_buffer t) 14 = \<lparr>hard_type = 1, protocol_type = PROTO_IP, hlen = 6,
      plen = 4, opcode = 2, sender_mac = local_eth_addr s, sender_ip = local_ip_addr s,
      target_mac = sender_mac req, target_ip = sender_ip req\<rparr> \<and>
    get_link_layer_address (sender_ip req) (link_cache t) = Some (sender_mac req)"
proof -
  let ?eth = "(proto_eth_demangle (rx_buffers s f))\<lparr>eth_dst := eth_src (proto_eth_demangle (rx_buffers s f)),
    eth_src := local_eth_addr s\<rparr>"
  let ?arp = "\<lparr>hard_type = 1, protocol_type = PROTO_IP, hlen = 6, plen = 4, opcode = 2,
    sender_mac = local_eth_addr s, sender_ip = local_ip_addr s, target_mac = sender_mac req,
    target_ip = sender_ip req\<rparr>"
  let ?b = "proto_eth_mangle ?eth (arp_reply_buffer s)"
  have "eth_head_ok ?eth"
    using eth_demangle_ok [of "rx_buffers s f"] assms(6) by (simp add: eth_head_ok_def del: eth_demangle_ok)
  then have eth: "proto_eth_demangle (proto_arp_mangle ?arp ?b 14) = ?eth"
    using eth_demangle_cong [of "proto_arp_mangle ?arp ?b 14" ?b] by (simp add: arp_mangle_below eth_roundtrip)
  have "arp_head_ok ?arp"
    using arp_demangle_ok [of "rx_buffers s f" 14] assms(3,6) by (simp add: arp_head_ok_def del: arp_demangle_ok)
  then have arp: "proto_arp_demangle (proto_arp_mangle ?arp ?b 14) 14 = ?arp" by (rule arp_roundtrip)
  have "(of_nat (PROTO_MAC_HLEN + PROTO_ARP_HLEN) :: u32) = 42"
    by (simp add: PROTO_MAC_HLEN_def PROTO_ARP_HLEN_def)
  then show ?thesis
    using assms eth arp get_after_add [OF assms(8,9), of clock "sender_mac req"]
    by (simp add: mbed_process_input_def mbed_process_arp_def Let_def PROTO_MAC_HLEN_def upd_descriptor_def)
qed

definition arp_example :: "u8 list" where
  "arp_example = [255, 255, 255, 255, 255, 255, 2, 3, 9, 9, 9, 9, 8, 6,
     0, 1, 8, 0, 6, 4, 0, 1, 2, 3, 9, 9, 9, 9, 10, 0, 0, 1, 0, 0, 0, 0, 0, 0, 10, 0, 0, 2]"

theorem arp_request_answered_witness:
  "\<exists>t. mbed_process_input None (Some 0) 3 (example_node arp_example) = (False, t) \<and>
     packet (tx_descriptors t ! 0) = Some Arp_reply_buffer \<and>
     target_mac (proto_arp_demangle (arp_reply_buffer t) 14) = [2, 3, 9, 9, 9, 9] \<and>
     get_link_layer_address 0x0A000001 (link_cache t) = Some [2, 3, 9, 9, 9, 9]"
proof -
  let ?s = "example_node arp_example"
  define req where "req = \<lparr>hard_type = 1, protocol_type = PROTO_IP, hlen = 6, plen = 4, opcode = 1,
    sender_mac = [2, 3, 9, 9, 9, 9], sender_ip = 0x0A000001, target_mac = [0, 0, 0, 0, 0, 0], target_ip = 0x0A000002\<rparr>"
  have 2: "eth_type (proto_eth_demangle (rx_buffers ?s 3)) = PROTO_ARP"
    by (simp add: example_node_fields arp_example_def frame_at_def proto_eth_demangle_def frame_macros
        PROTO_ARP_def Let_def)
  have 3: "proto_arp_demangle (rx_buffers ?s 3) 14 = req"
    by (simp add: example_node_fields arp_example_def frame_at_def proto_arp_demangle_def frame_macros
        PROTO_IP_def Let_def req_def)
  have "\<exists>t. mbed_process_input None (Some 0) 3 ?s = (False, t) \<and> calls t = calls ?s @ [Done_tx 1] \<and>
    packet (tx_descriptors t ! 0) = Some Arp_reply_buffer \<and> control (tx_descriptors t ! 0) = (42, True) \<and>
    proto_eth_demangle (arp_reply_buffer t) = \<lparr>eth_src = local_eth_addr ?s,
      eth_dst = eth_src (proto_eth_demangle (rx_buffers ?s 3)), eth_type = PROTO_ARP\<rparr> \<and>
    proto_arp_demangle (arp_reply_buffer t) 14 = \<lparr>hard_type = 1, protocol_type = PROTO_IP, hlen = 6,
      plen = 4, opcode = 2, sender_mac = local_eth_addr ?s, sender_ip = local_ip_addr ?s,
      target_mac = sender_mac req, target_ip = sender_ip req\<rparr> \<and>
    get_link_layer_address (sender_ip req) (link_cache t) = Some (sender_mac req)"
    by (rule arp_request_answered [OF _ 2 3]) (simp_all add: req_def example_node_fields ll_inv_static)
  then show ?thesis by (auto simp: req_def)
qed

text \<open>
  Between the reset of the frame and the release of its descriptor an interrupt finds the frame
  again as the first of the ring: it is taken for a new one, and its descriptor is released while
  Smews reads it once more.
\<close>

lemma get_byte_race:
  assumes "ip_frame_for f s" "current_rx_frame s = Some f" "current_rx_frame_size s \<le> current_rx_frame_idx s + 1"
  shows "\<exists>c t. mbed_eth_get_byte_irq (eth_irq_handler clock n True False [(f, answer)]) False s = (c, t) \<and>
    calls t = calls s @ [Done_rx] \<and> current_rx_frame t = Some f \<and> current_rx_frame_idx t = 14"
proof -
  let ?s = "s\<lparr>current_rx_frame := None, current_rx_frame_size := 0, current_rx_frame_idx := 0\<rparr>"
  have "ip_frame_for f ?s" using assms(1) by (simp add: ip_frame_for_def)
  from process_ip_frame [OF this, of clock answer] obtain c sz where
    "mbed_process_input clock answer f ?s = (True, ?s\<lparr>link_cache := c, current_rx_frame := Some f,
      current_rx_frame_size := sz, current_rx_frame_idx := 14\<rparr>)" by auto
  then show ?thesis using assms(2,3)
    by (simp add: mbed_eth_get_byte_irq_def eth_irq_handler_def Let_def TX_DESCRIPTORS_def call_def)
qed

end
