(* ===== verification/Mbed_Transmission.thy ===== *)
theory Mbed_Transmission
  imports Mbed_Ethernet
begin

text \<open>
  The transmission side of the mbed Ethernet driver: no two packets share a buffer, whatever the
  order of the calls of Smews and of the interrupts between them; what a packet looks like on the
  wire; and what goes wrong when an interrupt or a second packet comes at the wrong time.
\<close>

section \<open>Exclusive use of the transmission buffers\<close>

abbreviation packets :: "mbed \<Rightarrow> tx_ptr option list" where
  "packets s \<equiv> map packet (tx_descriptors s)"

text \<open>
  A buffer that a descriptor points to is in use and no other descriptor points to it; so is the
  buffer being filled, which no descriptor points to.
\<close>

definition exclusive :: "bool list \<Rightarrow> tx_ptr option list \<Rightarrow> nat option \<Rightarrow> bool" where
  "exclusive use ps cur \<longleftrightarrow> length use = TX_BUFFER_COUNT \<and> length ps = TX_DESCRIPTORS \<and>
     (\<forall>i b. i < length ps \<and> ps ! i = Some (Tx_buffer b) \<longrightarrow> b < length use \<and> use ! b) \<and>
     (\<forall>i j b. i < length ps \<and> j < length ps \<and> ps ! i = Some (Tx_buffer b) \<and> ps ! j = Some (Tx_buffer b) \<longrightarrow> i = j) \<and>
     (\<forall>b. cur = Some b \<longrightarrow> b < length use \<and> use ! b \<and> Some (Tx_buffer b) \<notin> set ps)"

definition tx_inv :: "mbed \<Rightarrow> bool" where
  "tx_inv s = exclusive (tx_in_use s) (packets s) (current_buffer_ptr s)"

lemma exclusive_lengths:
  "exclusive use ps cur \<Longrightarrow> length use = TX_BUFFER_COUNT" "exclusive use ps cur \<Longrightarrow> length ps = TX_DESCRIPTORS"
  by (simp_all add: exclusive_def)

lemma exclusive_use:
  "exclusive use ps cur \<Longrightarrow> i < length ps \<Longrightarrow> ps ! i = Some (Tx_buffer b) \<Longrightarrow> b < length use \<and> use ! b"
  unfolding exclusive_def by blast

lemma exclusive_inj:
  "exclusive use ps cur \<Longrightarrow> i < length ps \<Longrightarrow> j < length ps \<Longrightarrow> ps ! i = Some (Tx_buffer b) \<Longrightarrow>
   ps ! j = Some (Tx_buffer b) \<Longrightarrow> i = j"
  unfolding exclusive_def by blast

lemma exclusive_cur:
  "exclusive use ps (Some b) \<Longrightarrow> b < length use \<and> use ! b \<and> (\<forall>i<length ps. ps ! i \<noteq> Some (Tx_buffer b))"
  by (simp only: exclusive_def) (metis nth_mem)

lemma exclusiveI:
  assumes "length use = TX_BUFFER_COUNT" "length ps = TX_DESCRIPTORS"
    "\<And>i b. i < length ps \<Longrightarrow> ps ! i = Some (Tx_buffer b) \<Longrightarrow> b < length use \<and> use ! b"
    "\<And>i j b. i < length ps \<Longrightarrow> j < length ps \<Longrightarrow> ps ! i = Some (Tx_buffer b) \<Longrightarrow>
       ps ! j = Some (Tx_buffer b) \<Longrightarrow> i = j"
    "\<And>b. cur = Some b \<Longrightarrow> b < length use \<and> use ! b"
    "\<And>b i. cur = Some b \<Longrightarrow> i < length ps \<Longrightarrow> ps ! i \<noteq> Some (Tx_buffer b)"
  shows "exclusive use ps cur"
  unfolding exclusive_def in_set_conv_nth using assms by metis

lemma upd_at: "i < length ps \<Longrightarrow> ps[d := p] ! i = (if d = i then p else ps ! i)"
  by (simp add: nth_list_update)

lemma first_unused_Some: "first_unused us k = Some i \<Longrightarrow> k \<le> i \<and> i - k < length us \<and> \<not> us ! (i - k)"
proof (induction us arbitrary: k)
  case (Cons u us)
  then show ?case
    by (cases u) (auto simp: Suc_diff_Suc Suc_le_eq dest!: Cons.IH split: if_splits)
qed simp

lemma exclusive_claim:
  assumes "exclusive use ps None" "first_unused use 0 = Some b"
  shows "exclusive (use[b := True]) ps (Some b)"
proof (rule exclusiveI, goal_cases)
  case (3 i c)
  then show ?case using exclusive_use [OF assms(1), of i c] by (simp add: upd_at)
next
  case (4 i j c)
  then show ?case using exclusive_inj [OF assms(1)] by blast
next
  case (5 c)
  then show ?case using first_unused_Some [OF assms(2)] by simp
next
  case (6 c i)
  then show ?case using first_unused_Some [OF assms(2)] exclusive_use [OF assms(1), of i c] by auto
qed (use assms(1) in \<open>simp_all add: exclusive_lengths\<close>)

lemma exclusive_queue:
  assumes "exclusive use ps (Some b)"
  shows "exclusive use (ps[d := Some (Tx_buffer b)]) None"
proof (rule exclusiveI, goal_cases)
  case (3 i c)
  then show ?case using exclusive_use [OF assms, of i c] exclusive_cur [OF assms]
    by (auto simp: upd_at split: if_splits)
next
  case (4 i j c)
  then show ?case using exclusive_inj [OF assms, of i j c] exclusive_cur [OF assms]
    by (auto simp: upd_at split: if_splits)
qed (use assms in \<open>simp_all add: exclusive_lengths\<close>)

lemma exclusive_other:
  assumes "exclusive use ps cur" "\<And>b. p \<noteq> Some (Tx_buffer b)"
  shows "exclusive use (ps[d := p]) cur"
proof (rule exclusiveI, goal_cases)
  case (3 i c)
  then show ?case using exclusive_use [OF assms(1), of i c] assms(2) by (auto simp: upd_at split: if_splits)
next
  case (4 i j c)
  then show ?case using exclusive_inj [OF assms(1), of i j c] assms(2)
    by (auto simp: upd_at split: if_splits)
next
  case (5 c)
  then show ?case using exclusive_cur assms(1) by blast
next
  case (6 c i)
  then show ?case using exclusive_cur [of use ps c] assms by (auto simp: upd_at split: if_splits)
qed (use assms(1) in \<open>simp_all add: exclusive_lengths\<close>)

lemma exclusive_release:
  assumes "exclusive use ps cur" "d < length ps" "ps ! d = Some (Tx_buffer b)"
  shows "exclusive (use[b := False]) (ps[d := None]) cur"
proof -
  have cur: "cur \<noteq> Some b" using exclusive_cur [of use ps b] assms by blast
  show ?thesis
  proof (rule exclusiveI, goal_cases)
    case (3 i c)
    then have "i \<noteq> d" "ps ! i = Some (Tx_buffer c)" by (auto simp: upd_at split: if_splits)
    with 3 exclusive_use [OF assms(1), of i c] exclusive_inj [OF assms(1), of i d b] assms(2,3)
    show ?case by (auto simp: upd_at)
  next
    case (4 i j c)
    then show ?case using exclusive_inj [OF assms(1), of i j c] by (auto simp: upd_at split: if_splits)
  next
    case (5 c)
    then show ?case using exclusive_cur [of use ps c] assms(1) cur by (auto simp: upd_at)
  next
    case (6 c i)
    then show ?case using exclusive_cur [of use ps c] assms by (auto simp: upd_at split: if_splits)
  qed (use assms(1) in \<open>simp_all add: exclusive_lengths\<close>)
qed

lemma map_update_id: "(map g xs)[d := g (xs ! d)] = map g xs"
  by (rule nth_equalityI) (auto simp: upd_at)

lemma packets_upd:
  "packets (upd_descriptor d (\<lambda>x. x\<lparr>packet := p\<rparr>) s) = (packets s)[d := p]"
  "packets (upd_descriptor d (\<lambda>x. x\<lparr>control := c\<rparr>) s) = packets s"
  "packets (upd_descriptor d (\<lambda>x. x\<lparr>status_info := w\<rparr>) s) = packets s"
  by (simp_all add: upd_descriptor_def map_update map_update_id)

lemma packets_hw: "packets (hw_status ws s) = packets s"
proof -
  have "map packet (map2 (\<lambda>d w. d\<lparr>status_info := w\<rparr>) ds ws @ drop (length ws) ds) = map packet ds" for ds :: "tx_descriptor list"
  proof (induction ds arbitrary: ws)
    case (Cons d ds)
    then show ?case by (cases ws) simp_all
  qed simp
  then show ?thesis by (simp add: hw_status_def)
qed

lemma tx_inv_garbage:
  assumes "tx_inv s" "i < TX_DESCRIPTORS"
  shows "tx_inv (garbage_descriptor i s)"
proof (cases "packet (tx_descriptors s ! i)")
  case None
  then show ?thesis using assms by (simp add: garbage_descriptor_def Let_def)
next
  case (Some p)
  have ex: "exclusive (tx_in_use s) (packets s) (current_buffer_ptr s)" using assms by (simp add: tx_inv_def)
  have i: "i < length (packets s)" using exclusive_lengths [OF ex] assms(2) by simp
  then have pi: "packets s ! i = Some p" using Some by simp
  show ?thesis
  proof (cases p)
    case (Tx_buffer b)
    have "b < TX_BUFFER_COUNT"
      using exclusive_use [OF ex i] pi Tx_buffer exclusive_lengths [OF ex] by simp
    then show ?thesis
      using exclusive_release [OF ex i] pi Tx_buffer assms Some
      by (simp add: garbage_descriptor_def Let_def tx_inv_def packets_upd mbed_eth_is_releasable_buffer_def
          mbed_eth_release_tx_buffer_def)
  qed (use exclusive_other [OF ex, of None i] assms Some in
      \<open>simp_all add: garbage_descriptor_def Let_def tx_inv_def packets_upd mbed_eth_is_releasable_buffer_def\<close>)
qed

lemma tx_inv_same:
  "tx_inv s \<Longrightarrow> tx_in_use t = tx_in_use s \<Longrightarrow> packets t = packets s \<Longrightarrow>
   current_buffer_ptr t = current_buffer_ptr s \<Longrightarrow> tx_inv t"
  by (simp add: tx_inv_def)

lemma garbage_descriptor_keeps [simp]:
  "current_buffer_ptr (garbage_descriptor i s) = current_buffer_ptr s"
  by (simp add: garbage_descriptor_def Let_def mbed_eth_release_tx_buffer_def split: option.splits tx_ptr.splits)

lemma tx_inv_garbage_all:
  assumes "tx_inv s" "n < TX_DESCRIPTORS"
  shows "tx_inv (mbed_eth_garbage_tx_buffers n s) \<and>
    current_buffer_ptr (mbed_eth_garbage_tx_buffers n s) = current_buffer_ptr s"
proof -
  have "tx_inv (fold garbage_descriptor is s) \<and>
      current_buffer_ptr (fold garbage_descriptor is s) = current_buffer_ptr s"
    if "\<forall>i\<in>set is. i < TX_DESCRIPTORS" for "is"
    using that assms(1) by (induction "is" arbitrary: s) (simp_all add: tx_inv_garbage)
  moreover have "\<forall>i\<in>set [0..<Suc n]. i < TX_DESCRIPTORS" using assms(2) by simp
  ultimately show ?thesis unfolding mbed_eth_garbage_tx_buffers_def by blast
qed

lemma hw_status_keeps [simp]:
  "tx_in_use (hw_status ws s) = tx_in_use s" "current_buffer_ptr (hw_status ws s) = current_buffer_ptr s"
  by (simp_all add: hw_status_def)

lemma tx_inv_hw: "tx_inv s \<Longrightarrow> tx_inv (hw_status ws s)"
  by (erule tx_inv_same) (simp_all add: packets_hw)

lemma get_tx_buffer_cases:
  assumes "tx_inv s" "current_buffer_ptr s = None"
  obtains "mbed_eth_get_tx_buffer s = (None, s)"
  | b t where "mbed_eth_get_tx_buffer s = (Some b, t)" "tx_inv (t\<lparr>current_buffer_ptr := Some b\<rparr>)"
proof (cases "first_unused (tx_in_use s) 0")
  case None
  then show ?thesis by (intro that(1)) (simp add: mbed_eth_get_tx_buffer_def)
next
  case (Some b)
  with assms exclusive_claim [OF _ Some, of "packets s"] show ?thesis
    by (intro that(2) [of b "s\<lparr>tx_in_use := (tx_in_use s)[b := True]\<rparr>"])
      (simp_all add: mbed_eth_get_tx_buffer_def tx_inv_def)
qed

lemma tx_inv_wait:
  "tx_inv s \<Longrightarrow> current_buffer_ptr s = None \<Longrightarrow> n < TX_DESCRIPTORS \<Longrightarrow> wait_tx_buffer n hw s = Some t \<Longrightarrow>
   tx_inv t"
proof (induction hw arbitrary: s)
  case Nil
  from Nil.prems(1,2) show ?case
    by (rule get_tx_buffer_cases) (use Nil.prems(4) in \<open>simp_all add: wait_tx_buffer.simps\<close>)
next
  case (Cons ws hw)
  from Cons.prems(1,2) show ?case
  proof (rule get_tx_buffer_cases)
    assume none: "mbed_eth_get_tx_buffer s = (None, s)"
    let ?s = "mbed_eth_garbage_tx_buffers n (hw_status ws s)"
    have "tx_inv ?s" "current_buffer_ptr ?s = None"
      using tx_inv_garbage_all [OF tx_inv_hw [OF Cons.prems(1)] Cons.prems(3)] Cons.prems(2) by simp_all
    then show ?thesis
      by (rule Cons.IH) (use Cons.prems(3,4) none in \<open>simp_all add: wait_tx_buffer.simps [of _ "ws # hw"]\<close>)
  next
    fix b u assume "mbed_eth_get_tx_buffer s = (Some b, u)" "tx_inv (u\<lparr>current_buffer_ptr := Some b\<rparr>)"
    then show ?thesis using Cons.prems(4) by (simp add: wait_tx_buffer.simps)
  qed
qed

lemma tx_inv_size [simp]: "tx_inv (s\<lparr>current_buffer_size := n\<rparr>) = tx_inv s"
  by (simp add: tx_inv_def)

lemma tx_inv_prepare:
  "tx_inv s \<Longrightarrow> n < TX_DESCRIPTORS \<Longrightarrow> mbed_eth_prepare_output n hw s = Some t \<Longrightarrow> tx_inv t"
  by (cases "current_buffer_ptr s") (auto simp: mbed_eth_prepare_output_def intro: tx_inv_wait)

lemma upd_buffer_keeps [simp]:
  "tx_in_use (upd_buffer b f s) = tx_in_use s" "tx_descriptors (upd_buffer b f s) = tx_descriptors s"
  "current_buffer_ptr (upd_buffer b f s) = current_buffer_ptr s"
  "current_buffer_size (upd_buffer b f s) = current_buffer_size s"
  "tx_buffers (upd_buffer b f s) = (tx_buffers s)(b := f (tx_buffers s b))"
  "ethernet_header (upd_buffer b f s) = ethernet_header s"
  "header_first (upd_buffer b f s) = header_first s"
  "link_cache (upd_buffer b f s) = link_cache s"
  "local_eth_addr (upd_buffer b f s) = local_eth_addr s"
  "dma_copies (upd_buffer b f s) = dma_copies s"
  by (simp_all add: upd_buffer_def)

lemma tx_inv_put_byte: "tx_inv s \<Longrightarrow> tx_inv (mbed_eth_put_byte c s)"
  by (erule tx_inv_same) (auto simp: mbed_eth_put_byte_def Let_def split: option.splits)

lemma tx_inv_put_nbytes: "tx_inv s \<Longrightarrow> mbed_eth_put_nbytes ready xs s = Some t \<Longrightarrow> tx_inv t"
  by (cases "current_buffer_ptr s"; cases "find_channel ready 0"; cases "length xs \<ge> DMA_THRESHOLD")
    (clarsimp simp: mbed_eth_put_nbytes_def Let_def memcpy_dma_def tx_inv_def)+

lemma dma_writes_keep:
  "tx_in_use (fold dma_write cs u) = tx_in_use u \<and> tx_descriptors (fold dma_write cs u) = tx_descriptors u \<and>
   current_buffer_ptr (fold dma_write cs u) = current_buffer_ptr u \<and>
   ethernet_header (fold dma_write cs u) = ethernet_header u"
  by (induction cs arbitrary: u) (simp_all add: dma_write_def)

lemma dma_done_keeps [simp]:
  "tx_in_use (dma_done s) = tx_in_use s" "tx_descriptors (dma_done s) = tx_descriptors s"
  "current_buffer_ptr (dma_done s) = current_buffer_ptr s"
  "ethernet_header (dma_done s) = ethernet_header s"
  by (simp_all add: dma_done_def dma_writes_keep)

lemma tx_inv_dma: "tx_inv s \<Longrightarrow> tx_inv (dma_done s)"
  by (erule tx_inv_same) simp_all

lemma tx_inv_get: "tx_inv s \<Longrightarrow> tx_inv (snd (mbed_eth_get_byte avail s))"
  by (erule tx_inv_same)
    (simp_all add: mbed_eth_get_byte_def mbed_eth_get_byte_irq_def Let_def split: option.splits)

lemma tx_inv_available: "tx_inv s \<Longrightarrow> tx_inv (snd (mbed_eth_byte_available avail s))"
  by (erule tx_inv_same) (simp_all add: mbed_eth_byte_available_def Let_def)

lemma tx_inv_arp: "tx_inv s \<Longrightarrow> tx_inv (mbed_process_arp clock answer eth f s)"
  using exclusive_other [of "tx_in_use s" "packets s" "current_buffer_ptr s" "Some Arp_reply_buffer"]
  by (auto simp: mbed_process_arp_def Let_def tx_inv_def packets_upd split: option.splits)

lemma tx_inv_input: "tx_inv s \<Longrightarrow> tx_inv (snd (mbed_process_input clock answer f s))"
  by (auto simp: mbed_process_input_def Let_def tx_inv_arp intro: tx_inv_same)

lemma tx_inv_rx_loop: "tx_inv s \<Longrightarrow> tx_inv (rx_loop clock i pending s)"
proof (induction clock i pending s rule: rx_loop.induct)
  case (2 clock i f answer pending s)
  obtain kept t where step: "mbed_process_input clock answer f s = (kept, t)" by fastforce
  then have "tx_inv t" using tx_inv_input [OF 2(2), of clock answer f] by simp
  then have "tx_inv (call Done_rx t)" by (rule tx_inv_same) simp_all
  then show ?case using 2 step \<open>tx_inv t\<close> by (cases kept) simp_all
qed simp

lemma tx_inv_irq:
  "tx_inv s \<Longrightarrow> n < TX_DESCRIPTORS \<Longrightarrow> tx_inv (eth_irq_handler clock n rx tx pending s)"
  by (simp add: eth_irq_handler_def Let_def tx_inv_rx_loop tx_inv_garbage_all)

lemma fill_header_keeps [simp]:
  "tx_in_use (mbed_eth_fill_header ip s) = tx_in_use s"
  "tx_descriptors (mbed_eth_fill_header ip s) = tx_descriptors s"
  "current_buffer_ptr (mbed_eth_fill_header ip s) = current_buffer_ptr s"
  "current_buffer_size (mbed_eth_fill_header ip s) = current_buffer_size s"
  "tx_buffers (mbed_eth_fill_header ip s) = tx_buffers s"
  "dma_copies (mbed_eth_fill_header ip s) = dma_copies s"
  "link_cache (mbed_eth_fill_header ip s) = link_cache s"
  "local_eth_addr (mbed_eth_fill_header ip s) = local_eth_addr s"
  by (auto simp: mbed_eth_fill_header_def Let_def split: prod.splits)

text \<open>What a call of \<open>mbed_eth_output_done\<close> that returns has done.\<close>

definition descriptor_set :: "nat \<Rightarrow> tx_ptr \<Rightarrow> u32 \<Rightarrow> bool \<Rightarrow> mbed \<Rightarrow> mbed" where
  "descriptor_set d p n lst =
     upd_descriptor d (\<lambda>x. x\<lparr>packet := Some p, status_info := PACKET_BEEING_SENT_MAGIC, control := (n, lst)\<rparr>)"

lemma prepare_fragment_returns:
  "mbed_eth_prepare_fragment answers p n lst s = map_option (\<lambda>d. descriptor_set d p n lst s) (wait_descriptor answers)"
proof -
  have "upd_descriptor d f (upd_descriptor d g s) = upd_descriptor d (f \<circ> g) s" for d f g s
    by (cases "d < length (tx_descriptors s)") (simp_all add: upd_descriptor_def list_update_beyond)
  then show ?thesis
    by (simp add: mbed_eth_prepare_fragment_def mbed_eth_prepare_fragment_irq_def Let_def descriptor_set_def
        comp_def split: option.splits)
qed

lemma output_done_returns:
  "mbed_eth_output_done ip a0 a1 s = Some t \<longleftrightarrow>
   (\<exists>d0 d1 b. wait_descriptor a0 = Some d0 \<and> wait_descriptor a1 = Some d1 \<and> current_buffer_ptr s = Some b \<and>
     t = (call (Done_tx 2) (descriptor_set d1 (Tx_buffer b) (current_buffer_size s) True
            (descriptor_set d0 Ethernet_header 14 False (mbed_eth_fill_header ip s))))
          \<lparr>current_buffer_ptr := None, current_buffer_size := 0\<rparr>)"
  by (auto simp: mbed_eth_output_done_def Let_def prepare_fragment_returns PROTO_MAC_HLEN_def descriptor_set_def
      split: option.splits)

lemma tx_inv_output: "tx_inv s \<Longrightarrow> mbed_eth_output_done ip a0 a1 s = Some t \<Longrightarrow> tx_inv t"
proof -
  assume inv: "tx_inv s" and out: "mbed_eth_output_done ip a0 a1 s = Some t"
  from out obtain d0 d1 b where cur: "current_buffer_ptr s = Some b" and t: "t = (call (Done_tx 2)
      (descriptor_set d1 (Tx_buffer b) (current_buffer_size s) True
      (descriptor_set d0 Ethernet_header 14 False (mbed_eth_fill_header ip s))))
      \<lparr>current_buffer_ptr := None, current_buffer_size := 0\<rparr>"
    by (auto simp: output_done_returns)
  have "exclusive (tx_in_use s) ((packets s)[d0 := Some Ethernet_header]) (Some b)"
    using exclusive_other [of _ _ "Some b" "Some Ethernet_header"] inv cur by (simp add: tx_inv_def)
  from exclusive_queue [OF this, of d1] show ?thesis
    by (simp add: t tx_inv_def descriptor_set_def upd_descriptor_def map_update)
qed

section \<open>Calls of Smews and interrupts in any order\<close>

text \<open>
  The operations of the driver as Smews, the controller and the interrupt handler call them: the
  answers of the library and the status words the controller has written are part of the call.
  The register of the controller holds \<open>TX_DESCRIPTORS - 1\<close>.
\<close>

datatype mbed_op =
    Get bool
  | Available bool
  | Prepare "u32 list list"
  | Put u8
  | Putn "bool list" "u8 list"
  | Output u32 "nat option list" "nat option list"
  | Irq "u32 list" "u32 option" bool bool "(nat \<times> nat option) list"
  | Dma

fun run_op :: "mbed_op \<Rightarrow> mbed \<Rightarrow> mbed option" where
  "run_op (Get avail) s = Some (snd (mbed_eth_get_byte avail s))"
| "run_op (Available avail) s = Some (snd (mbed_eth_byte_available avail s))"
| "run_op (Prepare hw) s = mbed_eth_prepare_output (TX_DESCRIPTORS - 1) hw s"
| "run_op (Put c) s = Some (mbed_eth_put_byte c s)"
| "run_op (Putn ready xs) s = mbed_eth_put_nbytes ready xs s"
| "run_op (Output ip a0 a1) s = mbed_eth_output_done ip a0 a1 s"
| "run_op (Irq ws clock rx tx pending) s =
     Some (eth_irq_handler clock (TX_DESCRIPTORS - 1) rx tx pending (hw_status ws s))"
| "run_op Dma s = Some (dma_done s)"

lemma tx_inv_run_op: "tx_inv s \<Longrightarrow> run_op op s = Some t \<Longrightarrow> tx_inv t"
proof (cases op)
  case (Prepare hw)
  assume "tx_inv s" "run_op op s = Some t"
  then show ?thesis using tx_inv_prepare [of s "TX_DESCRIPTORS - 1" hw t] Prepare by (simp add: TX_DESCRIPTORS_def)
next
  case (Irq ws clock rx tx pending)
  assume "tx_inv s" "run_op op s = Some t"
  then show ?thesis using tx_inv_irq [OF tx_inv_hw, of s "TX_DESCRIPTORS - 1"] Irq by (auto simp: TX_DESCRIPTORS_def)
qed (auto intro: tx_inv_get tx_inv_available tx_inv_put_byte tx_inv_put_nbytes tx_inv_output tx_inv_dma)

lemma tx_inv_run: "tx_inv s \<Longrightarrow> fold_opt run_op ops s = Some t \<Longrightarrow> tx_inv t"
  by (induction ops arbitrary: s) (auto split: option.splits intro: tx_inv_run_op)

lemma packets_init: "packets (fold (\<lambda>i. upd_descriptor i (\<lambda>x. x\<lparr>packet := None\<rparr>)) is s)
    = fold (\<lambda>i ps. ps[i := None]) is (packets s)"
  by (induction "is" arbitrary: s) (simp_all add: packets_upd)

lemma tx_inv_boot: "tx_inv (mbed_configure_eth serial (mbed_static mac ip rx))"
proof -
  have "fold (\<lambda>i ps. ps[i := None]) is (replicate n None) = (replicate n None :: tx_ptr option list)" for "is" n
  proof (induction "is")
    case (Cons i "is")
    have "(replicate n None)[i := None] = (replicate n None :: tx_ptr option list)"
      by (rule nth_equalityI) (auto simp: upd_at)
    with Cons show ?case by simp
  qed simp
  then show ?thesis
    by (auto simp: tx_inv_def mbed_configure_eth_def init_tx_descriptors_def Let_def packets_init mbed_static_def
        mbed_eth_init_tx_buffers_def exclusive_def)
qed

section \<open>What goes over the wire\<close>

text \<open>
  The octets of a descriptor are those its buffer holds when the controller fetches them; a frame
  is gathered from the descriptors up to the last fragment.
\<close>

definition fragment :: "mbed \<Rightarrow> nat \<Rightarrow> u8 list" where
  "fragment s d =
    (let n = unat (fst (control (tx_descriptors s ! d)))
     in case packet (tx_descriptors s ! d) of
          None \<Rightarrow> []
        | Some Ethernet_header \<Rightarrow> octets_at (ethernet_header s) 0 n
        | Some Arp_reply_buffer \<Rightarrow> octets_at (arp_reply_buffer s) 0 n
        | Some (Tx_buffer b) \<Rightarrow> octets_at (tx_buffers s b) 0 n)"

text \<open>The link layer address a packet goes to, and the precomputed part of the header.\<close>

definition destination :: "mbed \<Rightarrow> u32 \<Rightarrow> u8 list" where
  "destination s ip = (case get_link_layer_address ip (link_cache s) of Some a \<Rightarrow> a | None \<Rightarrow> replicate 6 0xff)"

definition header_ready :: "mbed \<Rightarrow> bool" where
  "header_ready s \<longleftrightarrow> length (local_eth_addr s) = 6 \<and>
     (header_first s \<or> octets_at (ethernet_header s) 6 8 = local_eth_addr s @ [8, 0])"

lemma octets_14: "octets_at h 0 14 = [h 0, h 1, h 2, h 3, h 4, h 5] @ octets_at h 6 8"
  by (simp add: octets_at_def upt_conv_Cons eval_nat_numeral)

lemma fill_header_octets:
  assumes "header_ready s" "length (destination s ip) = 6"
  shows "octets_at (ethernet_header (mbed_eth_fill_header ip s)) 0 14 = destination s ip @ local_eth_addr s @ [8, 0]"
    "header_first (mbed_eth_fill_header ip s) = False"
proof -
  let ?h = "if header_first s then fst (PUT_TWO (fst (PUT_MAC (ethernet_header s) 6 (local_eth_addr s))) 12 PROTO_IP)
    else ethernet_header s"
  have eq: "ethernet_header (mbed_eth_fill_header ip s) = fst (PUT_MAC ?h 0 (destination s ip))"
    "header_first (mbed_eth_fill_header ip s) = False"
    by (simp_all add: mbed_eth_fill_header_def Let_def destination_def frame_macros)
  have "octets_at ?h 6 8 = local_eth_addr s @ [8, 0]"
    using assms(1) mac_nths [of "local_eth_addr s"]
    by (auto simp: header_ready_def frame_macros octets_at_def upt_conv_Cons PROTO_IP_def)
  then have "octets_at (fst (PUT_MAC ?h 0 (destination s ip))) 6 8 = local_eth_addr s @ [8, 0]"
    by (simp add: octets_at_def frame_macros upt_conv_Cons)
  then show "octets_at (ethernet_header (mbed_eth_fill_header ip s)) 0 14 = destination s ip @ local_eth_addr s @ [8, 0]"
    using mac_nths [OF assms(2)] unfolding eq octets_14 by (simp add: frame_macros)
  show "header_first (mbed_eth_fill_header ip s) = False" by (rule eq)
qed

lemma memcpy_nth: "memcpy xs at m i = (if at \<le> i \<and> i < at + length xs then xs ! (i - at) else m i)"
proof (induction xs arbitrary: at m)
  case (Cons x xs)
  then show ?case by (cases "i = at") (auto simp: nth_Cons' Suc_le_eq diff_Suc split: nat.splits)
qed auto

lemma memcpy_append: "memcpy (xs @ ys) at m = memcpy ys (at + length xs) (memcpy xs at m)"
  by (induction xs arbitrary: at m) simp_all

lemma octets_memcpy: "octets_at (memcpy xs 0 m) 0 (length xs) = xs"
  by (rule nth_equalityI) (simp_all add: nth_octets_at memcpy_nth)

lemma put_bytes:
  assumes "current_buffer_ptr s = Some b" "unat (current_buffer_size s) + length xs < 4294967296"
  shows "fold mbed_eth_put_byte xs s =
    (upd_buffer b (memcpy xs (unat (current_buffer_size s))) s)
      \<lparr>current_buffer_size := current_buffer_size s + of_nat (length xs)\<rparr>"
  using assms
proof (induction xs arbitrary: s)
  case Nil
  then show ?case by (simp add: upd_buffer_def)
next
  case (Cons x xs)
  have "unat (current_buffer_size s + 1) = Suc (unat (current_buffer_size s))"
    using Cons.prems(2) by (simp add: unat_add_u32)
  with Cons show ?case by (simp add: mbed_eth_put_byte_def Let_def upd_buffer_def add.commute add.left_commute)
qed

text \<open>The octets put by \<open>DEV_PUT\<close> and then by \<open>DEV_PUTN\<close>, once the copies of the DMA are done.\<close>

lemma put_block:
  assumes "current_buffer_ptr s = Some b" "current_buffer_size s = 0" "dma_copies s = []"
    "length xs + length ys < 4294967296" "mbed_eth_put_nbytes ready ys (fold mbed_eth_put_byte xs s) = Some t"
  shows "tx_buffers (fold dma_write (dma_copies t) t) b = memcpy (xs @ ys) 0 (tx_buffers s b)"
    "current_buffer_ptr t = Some b" "unat (current_buffer_size t) = length (xs @ ys)"
    "tx_descriptors t = tx_descriptors s" "header_ready t = header_ready s" "link_cache t = link_cache s"
    "local_eth_addr t = local_eth_addr s"
proof -
  let ?s = "(upd_buffer b (memcpy xs 0) s)\<lparr>current_buffer_size := of_nat (length xs)\<rparr>"
  have s: "fold mbed_eth_put_byte xs s = ?s"
    using put_bytes [OF assms(1), of xs] assms(2,4) by simp
  have lx: "unat (of_nat (length xs) :: u32) = length xs" "unat (of_nat (length ys) :: u32) = length ys"
    using assms(4) by (simp_all add: unat_u32_of_nat)
  have sz: "unat (of_nat (length xs) + of_nat (length ys) :: u32) = length (xs @ ys)"
    using assms(4) lx by (simp add: unat_add_u32)
  have "\<exists>cs m. t = ?s\<lparr>tx_buffers := m, dma_copies := cs, current_buffer_size := of_nat (length xs) + of_nat (length ys)\<rparr> \<and>
     tx_buffers (fold dma_write cs t) b = memcpy (xs @ ys) 0 (tx_buffers s b)"
  proof (cases "length ys \<ge> DMA_THRESHOLD")
    case True
    then obtain ch where "t = ?s\<lparr>dma_copies := [\<lparr>dma_channel = ch, dma_dest = b, dma_offset = length xs, dma_octets = ys\<rparr>],
        current_buffer_size := of_nat (length xs) + of_nat (length ys)\<rparr>"
      using assms(1,3,5) lx by (auto simp: s mbed_eth_put_nbytes_def memcpy_dma_def Let_def upd_buffer_def split: option.splits)
    then show ?thesis
      by (intro exI [of _ "[\<lparr>dma_channel = ch, dma_dest = b, dma_offset = length xs, dma_octets = ys\<rparr>]"]
          exI [of _ "tx_buffers ?s"]) (simp add: dma_write_def memcpy_append)
  next
    case False
    then have "t = (upd_buffer b (memcpy ys (length xs)) ?s)
        \<lparr>current_buffer_size := of_nat (length xs) + of_nat (length ys)\<rparr>"
      using assms(1,5) lx by (simp add: s mbed_eth_put_nbytes_def Let_def)
    then show ?thesis using assms(3)
      by (intro exI [of _ "[]"] exI [of _ "tx_buffers t"]) (simp add: memcpy_append upd_buffer_def)
  qed
  then obtain cs m where t: "t = ?s\<lparr>tx_buffers := m, dma_copies := cs,
      current_buffer_size := of_nat (length xs) + of_nat (length ys)\<rparr>"
    and buf: "tx_buffers (fold dma_write cs t) b = memcpy (xs @ ys) 0 (tx_buffers s b)" by blast
  show "tx_buffers (fold dma_write (dma_copies t) t) b = memcpy (xs @ ys) 0 (tx_buffers s b)"
    using buf by (simp add: t)
  show "current_buffer_ptr t = Some b" "unat (current_buffer_size t) = length (xs @ ys)"
    "tx_descriptors t = tx_descriptors s" "header_ready t = header_ready s" "link_cache t = link_cache s"
    "local_eth_addr t = local_eth_addr s"
    using assms(1) sz by (simp_all add: t header_ready_def)
qed

lemma dma_writes_buffers:
  "tx_buffers u = tx_buffers t \<Longrightarrow> tx_buffers (fold dma_write cs u) = tx_buffers (fold dma_write cs t)"
  by (induction cs arbitrary: u t) (simp_all add: dma_write_def)

lemma fragment_simps:
  "packet (tx_descriptors s ! d) = Some Ethernet_header \<Longrightarrow> fst (control (tx_descriptors s ! d)) = n \<Longrightarrow>
   fragment s d = octets_at (ethernet_header s) 0 (unat n)"
  "packet (tx_descriptors s ! d) = Some (Tx_buffer b) \<Longrightarrow> fst (control (tx_descriptors s ! d)) = n \<Longrightarrow>
   fragment s d = octets_at (tx_buffers s b) 0 (unat n)"
  by (simp_all add: fragment_def Let_def)

section \<open>Properties\<close>

text \<open>
  C28: No two packets share a transmission buffer. After any sequence of calls of Smews, interrupts,
  completed transmissions and completed copies from the start of the driver, a buffer that a
  descriptor of the ring points to is marked as used, no other descriptor points to it, and it is
  not the buffer Smews is filling.
\<close>

theorem tx_buffers_exclusive:
  assumes "fold_opt run_op ops (mbed_configure_eth serial (mbed_static mac ip rx)) = Some s"
    "i < TX_DESCRIPTORS" "packet (tx_descriptors s ! i) = Some (Tx_buffer b)"
  shows "tx_in_use s ! b \<and> current_buffer_ptr s \<noteq> Some b \<and>
    (\<forall>j<TX_DESCRIPTORS. j \<noteq> i \<longrightarrow> packet (tx_descriptors s ! j) \<noteq> Some (Tx_buffer b))"
proof -
  have ex: "exclusive (tx_in_use s) (packets s) (current_buffer_ptr s)"
    using tx_inv_run [OF tx_inv_boot assms(1)] by (simp add: tx_inv_def)
  have len: "length (tx_descriptors s) = TX_DESCRIPTORS" using exclusive_lengths [OF ex] by simp
  then have i: "i < length (packets s)" "packets s ! i = Some (Tx_buffer b)" using assms(2,3) by simp_all
  have "current_buffer_ptr s \<noteq> Some b" using exclusive_cur [of "tx_in_use s" "packets s" b] ex i by auto
  moreover have "packet (tx_descriptors s ! j) \<noteq> Some (Tx_buffer b)" if "j < TX_DESCRIPTORS" "j \<noteq> i" for j
    using exclusive_inj [OF ex i(1) _ i(2), of j] that len by auto
  ultimately show ?thesis using exclusive_use [OF ex i] by blast
qed

definition ops_example :: "mbed_op list" where
  "ops_example = [Prepare [], Put 5, Output 1 [None, Some 0] [Some 1], Prepare []]"

lemma ops_example_runs:
  "map_option (\<lambda>s. packet (tx_descriptors s ! 1))
     (fold_opt run_op ops_example (mbed_configure_eth None (mbed_static [2, 3, 1, 2, 3, 4] 7 (\<lambda>_ _. 0))))
   = Some (Some (Tx_buffer 0))"
  by code_simp

theorem tx_buffers_exclusive_witness:
  "\<exists>s. fold_opt run_op ops_example (mbed_configure_eth None (mbed_static [2, 3, 1, 2, 3, 4] 7 (\<lambda>_ _. 0))) = Some s \<and>
     tx_in_use s ! 0 \<and> current_buffer_ptr s \<noteq> Some 0"
proof -
  from ops_example_runs obtain s where
    s: "fold_opt run_op ops_example (mbed_configure_eth None (mbed_static [2, 3, 1, 2, 3, 4] 7 (\<lambda>_ _. 0))) = Some s"
    and p: "packet (tx_descriptors s ! 1) = Some (Tx_buffer 0)" by auto
  have "1 < TX_DESCRIPTORS" by (simp add: TX_DESCRIPTORS_def)
  from tx_buffers_exclusive [OF s this p] s show ?thesis by blast
qed

text \<open>
  A packet leaves as one Ethernet frame. The octets Smews puts one by one and then as a block
  into an empty buffer go out, once the copies of the DMA controller are done, behind a header of
  14 octets: the link layer address the cache holds for the remote address (the broadcast address
  when it holds none), the address of this node, and the type of IP.
\<close>

theorem packet_sent_as_frame:
  assumes "current_buffer_ptr s = Some b" "current_buffer_size s = 0" "dma_copies s = []"
    "length xs + length ys < 4294967296" "header_ready s" "length (destination s ip) = 6"
    "mbed_eth_put_nbytes ready ys (fold mbed_eth_put_byte xs s) = Some t"
    "wait_descriptor a0 = Some d0" "wait_descriptor a1 = Some d1" "d0 \<noteq> d1"
    "d0 < length (tx_descriptors s)" "d1 < length (tx_descriptors s)"
  shows "\<exists>u. mbed_eth_output_done ip a0 a1 t = Some u \<and>
    fragment (dma_done u) d0 @ fragment (dma_done u) d1 =
      destination s ip @ local_eth_addr s @ [8, 0] @ xs @ ys \<and>
    snd (control (tx_descriptors u ! d1)) \<and> current_buffer_ptr u = None"
proof -
  note put = put_block [OF assms(1-4,7)]
  let ?f = "mbed_eth_fill_header ip t"
  let ?u = "(call (Done_tx 2) (descriptor_set d1 (Tx_buffer b) (current_buffer_size t) True
      (descriptor_set d0 Ethernet_header 14 False ?f)))\<lparr>current_buffer_ptr := None, current_buffer_size := 0\<rparr>"
  have u: "mbed_eth_output_done ip a0 a1 t = Some ?u"
    using assms(8,9) put(2) by (simp add: output_done_returns)
  have dst: "destination t ip = destination s ip" by (simp add: destination_def put)
  have hdr: "octets_at (ethernet_header ?f) 0 14 = destination s ip @ local_eth_addr s @ [8, 0]"
    using fill_header_octets(1) [of t ip] assms(5,6) put(5,7) dst by simp
  have ds: "packet (tx_descriptors ?u ! d0) = Some Ethernet_header" "fst (control (tx_descriptors ?u ! d0)) = 14"
    "packet (tx_descriptors ?u ! d1) = Some (Tx_buffer b)" "fst (control (tx_descriptors ?u ! d1)) = current_buffer_size t"
    "snd (control (tx_descriptors ?u ! d1))"
    using assms(10-12) put(4) by (simp_all add: descriptor_set_def upd_descriptor_def)
  have "tx_buffers (dma_done ?u) b = tx_buffers (fold dma_write (dma_copies t) t) b"
    using dma_writes_buffers [of "?u\<lparr>dma_copies := []\<rparr>" t "dma_copies t"]
    by (simp add: dma_done_def descriptor_set_def)
  then have buf: "tx_buffers (dma_done ?u) b = memcpy (xs @ ys) 0 (tx_buffers s b)" using put(1) by simp
  have "fragment (dma_done ?u) d0 = octets_at (ethernet_header ?f) 0 14"
    using fragment_simps(1) [of "dma_done ?u" d0 14] ds by (simp add: descriptor_set_def)
  moreover have "fragment (dma_done ?u) d1 = xs @ ys"
    using fragment_simps(2) [of "dma_done ?u" d1 b "current_buffer_size t"] ds buf put(3)
    by (simp only: dma_done_keeps octets_memcpy)
  ultimately show ?thesis using u hdr ds(5) by (intro exI [of _ ?u]) simp
qed

definition filling_node :: mbed where
  "filling_node = (example_node [])\<lparr>current_buffer_ptr := Some 0\<rparr>"

lemma filling_node_fields:
  "current_buffer_ptr filling_node = Some 0" "current_buffer_size filling_node = 0" "dma_copies filling_node = []"
  "header_ready filling_node" "destination filling_node 7 = replicate 6 0xff"
  "local_eth_addr filling_node = [2, 3, 1, 2, 3, 4]" "length (tx_descriptors filling_node) = 20"
proof -
  have "current_buffer_size (fold (\<lambda>i. upd_descriptor i f) is s) = current_buffer_size s \<and>
      dma_copies (fold (\<lambda>i. upd_descriptor i f) is s) = dma_copies s \<and>
      header_first (fold (\<lambda>i. upd_descriptor i f) is s) = header_first s" for f "is" s
    by (induction "is" arbitrary: s) simp_all
  moreover have "map_of (replicate n (0 :: u32, [] :: u8 list)) 7 = None" for n
    by (induction n) simp_all
  ultimately show "current_buffer_ptr filling_node = Some 0" "current_buffer_size filling_node = 0" "dma_copies filling_node = []"
    "header_ready filling_node" "destination filling_node 7 = replicate 6 0xff"
    "local_eth_addr filling_node = [2, 3, 1, 2, 3, 4]" "length (tx_descriptors filling_node) = 20"
    by (simp_all add: filling_node_def example_node_fields header_ready_def destination_def
        get_link_layer_address_def find_entry_map_of ll_static_def)
      (simp_all add: example_node_def mbed_configure_eth_def init_tx_descriptors_def mbed_static_def Let_def
        mbed_eth_init_tx_buffers_def)
qed

theorem packet_sent_as_frame_witness:
  "\<exists>t u. mbed_eth_put_nbytes [] [3] (fold mbed_eth_put_byte [1, 2] filling_node) = Some t \<and>
     mbed_eth_output_done 7 [Some 4] [None, Some 5] t = Some u \<and>
     fragment (dma_done u) 4 @ fragment (dma_done u) 5 =
       [255, 255, 255, 255, 255, 255, 2, 3, 1, 2, 3, 4, 8, 0, 1, 2, 3]"
proof -
  note f = filling_node_fields
  obtain t where t: "mbed_eth_put_nbytes [] [3] (fold mbed_eth_put_byte [1, 2] filling_node) = Some t"
    using put_bytes [OF f(1), of "[1, 2]"] f
    by (simp add: mbed_eth_put_nbytes_def Let_def DMA_THRESHOLD_def)
  have "\<exists>u. mbed_eth_output_done 7 [Some 4] [None, Some 5] t = Some u \<and>
      fragment (dma_done u) 4 @ fragment (dma_done u) 5 =
        destination filling_node 7 @ local_eth_addr filling_node @ [8, 0] @ [1, 2] @ [3] \<and>
      snd (control (tx_descriptors u ! 5)) \<and> current_buffer_ptr u = None"
    by (rule packet_sent_as_frame [OF f(1-3) _ f(4) _ t]) (simp_all add: f)
  then show ?thesis using t by (auto simp: f eval_nat_numeral)
qed

text \<open>
  The header is one buffer for all frames. When a packet is output while the descriptors of an
  earlier frame still wait for the controller, the earlier frame goes out with the link layer
  address of the later packet.
\<close>

theorem queued_frame_redirected:
  assumes "packet (tx_descriptors s ! d0) = Some Ethernet_header" "fst (control (tx_descriptors s ! d0)) = 14"
    "header_ready s" "length (destination s ip) = 6" "mbed_eth_output_done ip a0 a1 s = Some t"
    "wait_descriptor a0 \<noteq> Some d0" "wait_descriptor a1 \<noteq> Some d0"
  shows "fragment t d0 = destination s ip @ local_eth_addr s @ [8, 0]"
proof -
  from assms(5) obtain d2 d3 b where d: "d2 \<noteq> d0" "d3 \<noteq> d0" and t: "t = (call (Done_tx 2)
      (descriptor_set d3 (Tx_buffer b) (current_buffer_size s) True
      (descriptor_set d2 Ethernet_header 14 False (mbed_eth_fill_header ip s))))
      \<lparr>current_buffer_ptr := None, current_buffer_size := 0\<rparr>"
    using assms(6,7) by (auto simp: output_done_returns)
  have "fragment t d0 = octets_at (ethernet_header (mbed_eth_fill_header ip s)) 0 14"
    using fragment_simps(1) [of t d0 14] assms(1,2) d by (simp add: t descriptor_set_def upd_descriptor_def)
  with fill_header_octets(1) [OF assms(3,4)] show ?thesis by simp
qed

definition queued_node :: mbed where
  "queued_node = descriptor_set 0 Ethernet_header 14 False filling_node"

theorem queued_frame_redirected_witness:
  "\<exists>t. mbed_eth_output_done 7 [Some 2] [Some 3] queued_node = Some t \<and>
     fragment t 0 = [255, 255, 255, 255, 255, 255, 2, 3, 1, 2, 3, 4, 8, 0]"
proof -
  note f = filling_node_fields
  obtain t where t: "mbed_eth_output_done 7 [Some 2] [Some 3] queued_node = Some t"
    using output_done_returns [of 7 "[Some 2]" "[Some 3]" queued_node] f
    by (simp add: queued_node_def descriptor_set_def)
  have "fragment t 0 = destination queued_node 7 @ local_eth_addr queued_node @ [8, 0]"
    by (rule queued_frame_redirected [OF _ _ _ _ t])
      (use f in \<open>simp_all add: queued_node_def descriptor_set_def upd_descriptor_def header_ready_def destination_def\<close>)
  then show ?thesis using t f by (simp add: queued_node_def descriptor_set_def destination_def eval_nat_numeral)
qed

text \<open>
  The pointer of a descriptor is stored before its status. An interrupt in between finds the
  status of the transmission before, takes the packet for sent and releases its buffer.
\<close>

lemma garbage_one:
  assumes "packet (tx_descriptors s ! d) = Some (Tx_buffer b)" "b < TX_BUFFER_COUNT"
    "status_info (tx_descriptors s ! d) \<noteq> PACKET_BEEING_SENT_MAGIC" "d < length (tx_descriptors s)"
    "length (tx_in_use s) = TX_BUFFER_COUNT"
  shows "packet (tx_descriptors (garbage_descriptor d s) ! d) = None \<and> \<not> tx_in_use (garbage_descriptor d s) ! b"
  using assms by (simp add: garbage_descriptor_def Let_def mbed_eth_is_releasable_buffer_def
      mbed_eth_release_tx_buffer_def upd_descriptor_def)

lemma upd_descriptor_at:
  "d < length (tx_descriptors s) \<Longrightarrow> tx_descriptors (upd_descriptor d f s) ! d = f (tx_descriptors s ! d)"
  by (simp add: upd_descriptor_def)

lemma length_garbage [simp]: "length (tx_descriptors (garbage_descriptor d s)) = length (tx_descriptors s)"
  by (simp add: garbage_descriptor_def Let_def mbed_eth_release_tx_buffer_def split: option.splits tx_ptr.splits)

lemma fragment_race:
  assumes "wait_descriptor answers = Some d" "d < length (tx_descriptors s)" "b < TX_BUFFER_COUNT"
    "length (tx_in_use s) = TX_BUFFER_COUNT" "status_info (tx_descriptors s ! d) \<noteq> PACKET_BEEING_SENT_MAGIC"
    "mbed_eth_prepare_fragment_irq (garbage_descriptor d) answers (Tx_buffer b) n lst s = Some t"
  shows "packet (tx_descriptors t ! d) = None \<and> \<not> tx_in_use t ! b"
proof -
  let ?s = "upd_descriptor d (\<lambda>x. x\<lparr>packet := Some (Tx_buffer b)\<rparr>) s"
  have g: "packet (tx_descriptors (garbage_descriptor d ?s) ! d) = None" "\<not> tx_in_use (garbage_descriptor d ?s) ! b"
    using garbage_one [of ?s d b] assms(2-5) by (simp_all add: upd_descriptor_at)
  have "t = upd_descriptor d (\<lambda>x. x\<lparr>control := (n, lst)\<rparr>)
      (upd_descriptor d (\<lambda>x. x\<lparr>status_info := PACKET_BEEING_SENT_MAGIC\<rparr>) (garbage_descriptor d ?s))"
    using assms(1,6) by (simp add: mbed_eth_prepare_fragment_irq_def Let_def)
  with g assms(2) show ?thesis by (simp add: upd_descriptor_at)
qed

end
