(* ===== verification/Linux_Devices.thy ===== *)
theory Linux_Devices
  imports Prelude
begin

text \<open>
  The devices of the targets that run on a host: \<open>targets/linux\<close> sends and receives packets through a tunnel
  interface, \<open>targets/linuxUdp\<close> through datagrams, as a node of the simulator \<open>misc/wsnSimulator\<close>. Both have the
  same \<open>dev_get\<close> and the same output, but for the four octets of the header of a tunnel.

  What the system calls return is an argument: \<open>None\<close> when \<open>select\<close> times out, \<open>Some None\<close> when \<open>read\<close> fails, and
  otherwise the octets \<open>read\<close> has for the buffer. A failing \<open>select\<close> or \<open>write\<close> ends the program (\<open>check\<close>), so here they
  succeed.
\<close>

section \<open>Model\<close>

definition INBUF_SIZE :: nat where "INBUF_SIZE = 2048"
definition TUN_OUTBUF_SIZE :: nat where "TUN_OUTBUF_SIZE = 1516"
definition UDP_OUTBUF_SIZE :: nat where "UDP_OUTBUF_SIZE = 2048"

record device =
  in_buffer :: "u8 list"
  out_buffer :: "u8 list"
  in_curr :: int
  out_curr :: nat
  in_nbytes :: int
  sent :: "u8 list list"

type_synonym input = "u8 list option option"

text \<open>
  \<open>dev_get\<close> with a header of \<open>h\<close> octets. The octet behind an index outside the buffer is undefined.
\<close>

definition next_octet :: "device \<Rightarrow> (int \<times> device) option" where
  "next_octet s =
    (let s = s\<lparr>in_curr := in_curr s + 1\<rparr>
     in if 0 \<le> in_curr s \<and> nat (in_curr s) < length (in_buffer s)
        then Some (uint (in_buffer s ! nat (in_curr s)), s) else None)"

definition dev_get :: "int \<Rightarrow> input \<Rightarrow> device \<Rightarrow> (int \<times> device) option" where
  "dev_get h answer s =
    (if in_curr s \<ge> in_nbytes s - 1 then
       (case answer of
          Some (Some data) \<Rightarrow>
            (let got = take INBUF_SIZE data;
                 s = s\<lparr>in_buffer := got @ drop (length got) (in_buffer s),
                       in_nbytes := int (length got), in_curr := h - 1\<rparr>
             in next_octet s)
        | _ \<Rightarrow> Some (- 1, s))
     else next_octet s)"

definition tun_dev_get :: "input \<Rightarrow> device \<Rightarrow> (int \<times> device) option" where
  "tun_dev_get = dev_get 4"

definition udp_dev_get :: "input \<Rightarrow> device \<Rightarrow> (int \<times> device) option" where
  "udp_dev_get = dev_get 0"

definition dev_data_to_read :: "bool \<Rightarrow> device \<Rightarrow> bool" where
  "dev_data_to_read ready s = ready"

definition dev_prepare_output :: "nat \<Rightarrow> device \<Rightarrow> device" where
  "dev_prepare_output h s = s\<lparr>out_curr := h\<rparr>"

text \<open>The macros \<open>DEV_PUT\<close> and \<open>DEV_PUTN\<close>; a write behind the buffer is undefined.\<close>

definition DEV_PUT :: "u8 \<Rightarrow> device \<Rightarrow> device option" where
  "DEV_PUT c s =
    (if out_curr s < length (out_buffer s)
     then Some (s\<lparr>out_buffer := (out_buffer s)[out_curr s := c], out_curr := out_curr s + 1\<rparr>) else None)"

definition DEV_PUTN :: "u8 list \<Rightarrow> device \<Rightarrow> device option" where
  "DEV_PUTN cs s =
    (if out_curr s + length cs \<le> length (out_buffer s)
     then Some (s\<lparr>out_buffer := take (out_curr s) (out_buffer s) @ cs @ drop (out_curr s + length cs) (out_buffer s),
                  out_curr := out_curr s + length cs\<rparr>) else None)"

definition dev_output_done :: "device \<Rightarrow> device" where
  "dev_output_done s = s\<lparr>sent := sent s @ [take (out_curr s) (out_buffer s)]\<rparr>"

text \<open>The initial states: \<open>dev_init\<close> of \<open>linuxUdp\<close> sends an empty datagram.\<close>

definition tun_init :: "u8 list \<Rightarrow> device" where
  "tun_init b = \<lparr>in_buffer = replicate INBUF_SIZE 0, out_buffer = [0, 0, 8, 0] @ b, in_curr = 0, out_curr = 4,
     in_nbytes = 0, sent = []\<rparr>"

definition udp_init :: device where
  "udp_init = dev_output_done \<lparr>in_buffer = replicate INBUF_SIZE 0, out_buffer = replicate UDP_OUTBUF_SIZE 0, in_curr = 0,
     out_curr = 0, in_nbytes = 0, sent = []\<rparr>"

text \<open>The address of the node \<open>SMEWS_ID\<close> of a simulation, the low byte first; \<open>smewsId\<close> is not negative.\<close>

definition node_address :: "nat \<Rightarrow> u8 list" where
  "node_address smewsId = [of_nat (smewsId mod 0xff), 1 + of_nat (smewsId div 256), 168, 192]"

section \<open>Input\<close>

text \<open>The octets \<open>xs\<close> are still to be read.\<close>

definition unread :: "u8 list \<Rightarrow> device \<Rightarrow> bool" where
  "unread xs s \<longleftrightarrow> (\<exists>i. in_curr s + 1 = int i \<and> in_nbytes s = int (i + length xs) \<and>
     i + length xs \<le> length (in_buffer s) \<and> take (length xs) (drop i (in_buffer s)) = xs)"

lemma next_unread:
  assumes "unread (x # xs) s"
  shows "\<exists>t. next_octet s = Some (uint x, t) \<and> unread xs t \<and> length (in_buffer t) = length (in_buffer s) \<and>
    in_curr t + int (length xs) = in_nbytes t - 1"
proof -
  obtain i where i: "in_curr s + 1 = int i" "in_nbytes s = int (i + Suc (length xs))"
    "i + Suc (length xs) \<le> length (in_buffer s)" "take (Suc (length xs)) (drop i (in_buffer s)) = x # xs"
    using assms by (auto simp: unread_def)
  have "drop i (in_buffer s) = in_buffer s ! i # drop (Suc i) (in_buffer s)"
    using i(3) by (simp add: Cons_nth_drop_Suc)
  then have x: "in_buffer s ! i = x" "take (length xs) (drop (Suc i) (in_buffer s)) = xs" using i(4) by simp_all
  let ?t = "s\<lparr>in_curr := in_curr s + 1\<rparr>"
  have "next_octet s = Some (uint x, ?t)" using i x by (simp add: next_octet_def)
  moreover have "unread xs ?t" unfolding unread_def
    using i x(2) by (intro exI [of _ "Suc i"]) simp
  ultimately show ?thesis using i by auto
qed

text \<open>\<open>n\<close> calls of \<open>dev_get\<close> while nothing more arrives.\<close>

fun get_all :: "int \<Rightarrow> nat \<Rightarrow> device \<Rightarrow> (int list \<times> device) option" where
  "get_all h 0 s = Some ([], s)"
| "get_all h (Suc n) s =
    (case dev_get h None s of
       None \<Rightarrow> None
     | Some (c, s) \<Rightarrow> (case get_all h n s of None \<Rightarrow> None | Some (cs, s) \<Rightarrow> Some (c # cs, s)))"

lemma get_all_unread:
  "unread xs s \<Longrightarrow> in_curr s + int (length xs) = in_nbytes s - 1 \<Longrightarrow>
   \<exists>t. get_all h (length xs) s = Some (map uint xs, t) \<and> unread [] t \<and> in_curr t = in_nbytes t - 1"
proof (induction xs arbitrary: s)
  case (Cons x xs)
  then obtain t where t: "next_octet s = Some (uint x, t)" "unread xs t" "in_curr t + int (length xs) = in_nbytes t - 1"
    using next_unread by blast
  have "dev_get h None s = next_octet s" using Cons.prems(2) by (simp add: dev_get_def)
  with t Cons.IH [OF t(2,3)] show ?case by auto
qed simp

section \<open>Output\<close>

lemma put_octets:
  "out_curr s + length cs \<le> length (out_buffer s) \<Longrightarrow> fold_opt DEV_PUT cs s = DEV_PUTN cs s"
proof (induction cs arbitrary: s)
  case Nil
  then show ?case by (simp add: DEV_PUTN_def)
next
  case (Cons c cs)
  let ?s = "s\<lparr>out_buffer := (out_buffer s)[out_curr s := c], out_curr := out_curr s + 1\<rparr>"
  have i: "out_curr s < length (out_buffer s)" using Cons.prems by simp
  have "fold_opt DEV_PUT cs ?s = DEV_PUTN cs ?s" using Cons.prems by (intro Cons.IH) simp
  moreover have "take (Suc (out_curr s)) ((out_buffer s)[out_curr s := c]) = take (out_curr s) (out_buffer s) @ [c]"
    using i by (simp add: take_Suc_conv_app_nth)
  moreover have "DEV_PUT c s = Some ?s" using i by (simp add: DEV_PUT_def)
  ultimately show ?case using Cons.prems by (simp add: DEV_PUTN_def)
qed

section \<open>Properties\<close>

text \<open>
  A packet of the tunnel is delivered octet by octet. When the buffer is read up, the next packet is
  read behind the header of the tunnel; \<open>dev_get\<close> gives its octets in order, and then times out.
\<close>

theorem tunnel_packet_delivered:
  assumes "in_curr s \<ge> in_nbytes s - 1" "length (in_buffer s) = INBUF_SIZE" "length head = 4"
    "length (head @ x # xs) \<le> INBUF_SIZE"
  shows "\<exists>t u. tun_dev_get (Some (Some (head @ x # xs))) s = Some (uint x, t) \<and>
    get_all 4 (length xs) t = Some (map uint xs, u) \<and> tun_dev_get None u = Some (- 1, u)"
proof -
  let ?d = "head @ x # xs"
  let ?s = "s\<lparr>in_buffer := ?d @ drop (length ?d) (in_buffer s), in_nbytes := int (length ?d), in_curr := 4 - 1\<rparr>"
  have get: "tun_dev_get (Some (Some ?d)) s = next_octet ?s"
    using assms(1,4) by (simp add: tun_dev_get_def dev_get_def Let_def)
  have "unread (x # xs) ?s" unfolding unread_def
    using assms(2-4) by (intro exI [of _ 4]) simp
  then obtain t where t: "next_octet ?s = Some (uint x, t)" "unread xs t" "in_curr t + int (length xs) = in_nbytes t - 1"
    using next_unread by blast
  from get_all_unread [OF t(2,3), of 4] obtain u where
    "get_all 4 (length xs) t = Some (map uint xs, u)" "in_curr u = in_nbytes u - 1" by blast
  with get t(1) show ?thesis by (auto simp: tun_dev_get_def dev_get_def)
qed

text \<open>
  A packet is written in one piece: what \<open>DEV_PUT\<close> and then \<open>DEV_PUTN\<close> are given goes to the tunnel behind
  the header of IPv4, if it fits in the buffer; otherwise it is written behind it, which is undefined.
\<close>

theorem tunnel_packet_written:
  assumes "take 4 (out_buffer s) = [0, 0, 8, 0]" "length (out_buffer s) = TUN_OUTBUF_SIZE"
    "length xs + length ys \<le> 1512"
  shows "\<exists>t u. fold_opt DEV_PUT xs (dev_prepare_output 4 s) = Some t \<and> DEV_PUTN ys t = Some u \<and>
    sent (dev_output_done u) = sent s @ [[0, 0, 8, 0] @ xs @ ys] \<and> take 4 (out_buffer u) = [0, 0, 8, 0]"
proof -
  have "take (4 + length zs) ([0, 0, 8, 0] @ zs @ us) = [0, 0, 8, 0] @ zs" for zs us :: "u8 list"
    by (simp add: numeral_eq_Suc)
  from this [of xs] this [of "xs @ ys"] show ?thesis
    using assms put_octets [of "dev_prepare_output 4 s" xs]
    by (simp add: dev_prepare_output_def DEV_PUTN_def TUN_OUTBUF_SIZE_def dev_output_done_def add.assoc
        del: append.simps)
qed

theorem tunnel_packet_delivered_witness:
  "\<exists>t u. tun_dev_get (Some (Some [0, 0, 8, 0, 0x45, 7])) (tun_init []) = Some (0x45, t) \<and>
     get_all 4 1 t = Some ([7], u) \<and> tun_dev_get None u = Some (- 1, u)"
  using tunnel_packet_delivered [of "tun_init []" "[0, 0, 8, 0]" "0x45" "[7]"]
  by (simp add: tun_init_def INBUF_SIZE_def)

theorem tunnel_packet_written_witness:
  "\<exists>t u. fold_opt DEV_PUT [0x45] (dev_prepare_output 4 (tun_init (replicate 1512 0))) = Some t \<and>
     DEV_PUTN [1, 2] t = Some u \<and> sent (dev_output_done u) = [[0, 0, 8, 0, 0x45, 1, 2]]"
  using tunnel_packet_written [of "tun_init (replicate 1512 0)" "[0x45]" "[1, 2]"]
  by (auto simp: tun_init_def TUN_OUTBUF_SIZE_def)

text \<open>
  An empty datagram, which every node sends when it starts, is answered by \<open>dev_get\<close> with an octet of
  an earlier packet.
\<close>

lemma empty_datagram_is_read:
  assumes "in_curr s \<ge> in_nbytes s - 1" "length (in_buffer s) = INBUF_SIZE"
  shows "\<exists>t. udp_dev_get (Some (Some [])) s = Some (uint (in_buffer s ! 0), t)"
  using assms by (simp add: udp_dev_get_def dev_get_def next_octet_def Let_def INBUF_SIZE_def)

text \<open>
  Two nodes of a simulation have the same address exactly when the first is a multiple of 256 and the other is
  255 behind it: the low byte is taken modulo 255 instead of 256.
\<close>

theorem node_addresses_collide:
  assumes "i < j" "j < 65280"
  shows "node_address i = node_address j \<longleftrightarrow> i mod 256 = 0 \<and> j = i + 255"
proof -
  have low: "(of_nat a :: u8) = of_nat b \<longleftrightarrow> a = b" if "a < 256" "b < 256" for a b
    using that by (simp add: word_unat_eq_iff unat_of_nat)
  have "i div 256 < 256" "j div 256 < 256" using assms by simp_all
  then have "node_address i = node_address j \<longleftrightarrow> i mod 255 = j mod 255 \<and> i div 256 = j div 256"
    by (simp add: node_address_def low)
  also have "\<dots> \<longleftrightarrow> i mod 256 = 0 \<and> j = i + 255"
  proof
    assume eq: "i mod 255 = j mod 255 \<and> i div 256 = j div 256"
    then have "255 dvd j - i" using assms(1) mod_eq_dvd_iff_nat [of i j 255] by simp
    moreover have "j - i < 256" "j - i = j mod 256 - i mod 256"
      using eq assms(1) mult_div_mod_eq [of 256 i] mult_div_mod_eq [of 256 j] by linarith+
    ultimately have "j - i = 255"
      using assms(1) by (auto elim!: dvdE)
    moreover have "j mod 256 < 256" by simp
    ultimately show "i mod 256 = 0 \<and> j = i + 255"
      using \<open>j - i = j mod 256 - i mod 256\<close> assms(1) by linarith
  next
    assume "i mod 256 = 0 \<and> j = i + 255"
    moreover then obtain k where "i = 256 * k" by (auto elim!: dvdE simp: mod_eq_0_iff_dvd)
    ultimately show "i mod 255 = j mod 255 \<and> i div 256 = j div 256" by simp
  qed
  finally show ?thesis .
qed

theorem node_addresses_collide_witness:
  "node_address 0 = node_address 255 \<and> node_address 0 \<noteq> node_address 1"
  using node_addresses_collide [of 0 255] node_addresses_collide [of 0 1] by simp

end
