(* ===== verification/Icmp6.thy ===== *)
theory Icmp6
  imports Packet_Handlers
begin

text \<open>
  The application \<open>apps/icmpv6/icmpv6.c\<close>, a handler of the IP protocol 58 of the IPv6 build: it answers
  neighbour solicitations for the address of the machine, as ARP does for IPv4. It uses the kernel only through \<open>in\<close>,
  \<open>out_c\<close> and the checksum; the two addresses, which \<open>get_local_ip\<close> and \<open>get_remote_ip\<close> give, are arguments here, with
  the highest octet at index 15, and so is the link layer address of the target.
\<close>

section \<open>Model\<close>

definition ICMP6_ECHO_REQUEST :: u8 where "ICMP6_ECHO_REQUEST = 128"
definition ICMP_NEIGHBOR_SOLICITATION :: u8 where "ICMP_NEIGHBOR_SOLICITATION = 135"
definition ICMP_NEIGHBOR_ADVERTISEMENT :: u8 where "ICMP_NEIGHBOR_ADVERTISEMENT = 136"

text \<open>\<open>n\<close> calls of \<open>in\<close>.\<close>

fun in_octets :: "nat \<Rightarrow> kernel \<Rightarrow> u8 list \<times> kernel" where
  "in_octets 0 k = ([], k)"
| "in_octets (Suc n) k = (let (c, k) = in_u8 k; (cs, k) = in_octets n k in (c # cs, k))"

definition icmp6_decode_ns :: "u8 list \<Rightarrow> u8 list \<Rightarrow> kernel \<Rightarrow> u8 \<times> kernel" where
  "icmp6_decode_ns ll local k =
    (let (_, k) = in_octets 1 k;
         (_, k) = in_octets 2 k;
         (_, k) = in_octets 4 k;
         (t, k) = in_octets 16 k;
         target_ip = rev t;
         (_, k) = in_octets (length ll) k
     in (if local \<noteq> target_ip then 0 else ICMP_NEIGHBOR_SOLICITATION, k))"

definition icmp6_packet_in :: "u8 list \<Rightarrow> u8 list \<Rightarrow> kernel \<Rightarrow> u8 \<times> kernel" where
  "icmp6_packet_in ll local k =
    (let k = k\<lparr>chk := checksum_init\<rparr>;
         (type, k) = in_u8 k;
         k = k\<lparr>chk := checksum_add type (chk k)\<rparr>
     in if type = ICMP6_ECHO_REQUEST then (0, k)
        else if type = ICMP_NEIGHBOR_SOLICITATION then icmp6_decode_ns ll local k
        else (0, k))"

text \<open>The checksum of the advertisement, over the pseudo header of IPv6 and the message.\<close>

definition na_checksum :: "u8 list \<Rightarrow> u8 list \<Rightarrow> u8 list \<Rightarrow> checksum" where
  "na_checksum ll local remote =
    (let c = checksum_init;
         c = fold checksum_add (rev local) c;
         c = fold checksum_add (rev remote) c;
         c = checksum_add16 0 c;
         c = checksum_add16 (of_nat (length ll + 2 + 16 + 8)) c;
         c = checksum_add16 0 c;
         c = checksum_add 0 c;
         c = checksum_add 58 c;
         c = checksum_add ICMP_NEIGHBOR_ADVERTISEMENT c;
         c = checksum_add 0 c;
         c = checksum_add 0x60 c;
         c = checksum_add 0 c;
         c = checksum_add16 0 c;
         c = fold checksum_add (rev local) c;
         c = checksum_add 2 c;
         c = checksum_add (of_nat ((length ll + 2) div 8)) c;
         c = fold checksum_add ll c
     in checksum_end c)"

definition na_octets :: "u8 list \<Rightarrow> u8 list \<Rightarrow> u16 \<Rightarrow> u8 list" where
  "na_octets ll local c =
    [ICMP_NEIGHBOR_ADVERTISEMENT, 0] @ u16_chars c @ [0x60, 0, 0, 0] @ rev local
      @ [2, of_nat ((length ll + 2) div 8)] @ ll"

definition icmp6_send_na :: "u8 list \<Rightarrow> u8 list \<Rightarrow> u8 list \<Rightarrow> kernel \<Rightarrow> (u8 \<times> kernel) option" where
  "icmp6_send_na ll local remote k =
    (let k = k\<lparr>chk := na_checksum ll local remote\<rparr>;
         c = NOT (current_checksum (chk k))
     in case out_all (na_octets ll local c) k of None \<Rightarrow> None | Some k \<Rightarrow> Some (0, k))"

definition icmp6_packet_out ::
    "site \<Rightarrow> u8 list \<Rightarrow> u8 list \<Rightarrow> u8 list \<Rightarrow> connection \<Rightarrow> kernel \<Rightarrow> (u8 \<times> kernel) option" where
  "icmp6_packet_out st ll local remote c k =
    (if get_send_code st c = ICMP_NEIGHBOR_SOLICITATION then icmp6_send_na ll local remote k else Some (0, k))"

section \<open>The checksum of the advertisement\<close>

text \<open>The octets that the receiver sums: the pseudo header of RFC 2460 and the message.\<close>

definition na_pseudo_header :: "u8 list \<Rightarrow> u8 list \<Rightarrow> u8 list \<Rightarrow> u8 list" where
  "na_pseudo_header ll local remote =
     rev local @ rev remote @ [0, 0] @ u16_chars (of_nat (length ll + 2 + 16 + 8)) @ [0, 0, 0, 58]"

lemma fold_add8: "fold checksum_add xs c = fold chk_step (map Add8 xs) c"
  by (induction xs arbitrary: c) simp_all

lemma octets_add8: "concat (map (octets \<circ> Add8) xs) = xs"
  by (induction xs) simp_all

lemma aligned_add8: "aligned e (map Add8 xs)"
  by (induction xs arbitrary: e) simp_all

lemma na_checksum_value:
  assumes "length local = 16" "length remote = 16"
  shows "unat (current_checksum (na_checksum ll local remote)) =
    ocs (be_sum True (na_pseudo_header ll local remote @ na_octets ll local 0))"
proof -
  let ?n = "of_nat (length ll + 2 + 16 + 8) :: u16"
  let ?ops = "map Add8 (rev local) @ map Add8 (rev remote) @
    [Add16 0, Add16 ?n, Add16 0, Add8 0, Add8 58, Add8 136, Add8 0, Add8 0x60, Add8 0, Add16 0] @
    map Add8 (rev local) @ [Add8 2, Add8 (of_nat ((length ll + 2) div 8))] @ map Add8 ll"
  have "na_checksum ll local remote = checksum_end (fold chk_step ?ops checksum_init)"
    by (simp add: na_checksum_def Let_def fold_add8 ICMP_NEIGHBOR_ADVERTISEMENT_def)
  moreover have "aligned True ?ops"
    using assms by (simp add: aligned_append aligned_add8 octets_add8)
  moreover have "concat (map octets ?ops) = rev local @ rev remote @ [0, 0] @ u16_chars ?n @ [0, 0, 0, 58] @
      [136, 0, 0x60, 0, 0, 0] @ rev local @ [2, of_nat ((length ll + 2) div 8)] @ ll"
    by (simp add: octets_add8 u16_chars_def)
  moreover have "be_sum True (concat (map octets ?ops)) =
      be_sum True (na_pseudo_header ll local remote @ na_octets ll local 0)"
    using assms unfolding \<open>concat (map octets ?ops) = _\<close>
    by (simp add: na_pseudo_header_def na_octets_def be_sum_append u16_chars_def ICMP_NEIGHBOR_ADVERTISEMENT_def)
  ultimately show ?thesis using checksum_fold_init [of ?ops] by simp
qed

lemma na_verifies:
  assumes "length local = 16" "length remote = 16"
  shows "ocs (be_sum True (na_pseudo_header ll local remote @
    na_octets ll local (NOT (current_checksum (na_checksum ll local remote))))) = 65535"
proof -
  let ?c = "NOT (current_checksum (na_checksum ll local remote))"
  let ?n = "be_sum True (na_pseudo_header ll local remote @ na_octets ll local 0)"
  have "be_sum True (na_pseudo_header ll local remote @ na_octets ll local ?c) = ?n + unat ?c"
    using assms octet_sum_u16 [of ?c]
    by (simp add: na_pseudo_header_def na_octets_def be_sum_append u16_chars_def)
  also have "unat ?c = 65535 - ocs ?n" using na_checksum_value [OF assms, of ll] by (simp add: unat_not_u16)
  finally show ?thesis by (simp only: ocs_complement)
qed

lemma na_octets_parts:
  "take 2 (na_octets ll local c) = [136, 0]"
  "drop 8 (na_octets ll local c) = rev local @ [2, of_nat ((length ll + 2) div 8)] @ ll"
  by (simp_all add: na_octets_def u16_chars_def ICMP_NEIGHBOR_ADVERTISEMENT_def)

lemma in_octets_read: "dev_in k = xs @ rest \<Longrightarrow> length xs = n \<Longrightarrow> in_octets n k = (xs, k\<lparr>dev_in := rest\<rparr>)"
proof (induction n arbitrary: xs k)
  case 0
  then have "k\<lparr>dev_in := rest\<rparr> = k" by simp
  with 0 show ?case by simp
next
  case (Suc n)
  then obtain x ys where "xs = x # ys" by (cases xs) auto
  with Suc.IH [of "k\<lparr>dev_in := ys @ rest\<rparr>" ys] Suc.prems show ?case by simp
qed

section \<open>Properties\<close>

text \<open>
  C38: A neighbour solicitation is answered exactly when it asks for the address of this machine; the
  advertisement it is answered with carries this address and the link layer address, and its checksum verifies.
\<close>

theorem solicitation_is_answered:
  assumes "dev_in k = [135] @ head @ rev target @ opt @ rest" "length head = 7" "length target = 16"
    "length opt = length ll" "length local = 16" "length remote = 16"
    "get_send_code st c = 135" "prepared_output m k2" "26 + length ll \<le> unat m"
  shows "fst (icmp6_packet_in ll local k) = (if target = local then 135 else 0) \<and>
    (\<exists>k3. icmp6_packet_out st ll local remote c k2 = Some (0, k3) \<and>
      take 2 (written k3) = [136, 0] \<and> drop 8 (written k3) = rev local @ [2, of_nat ((length ll + 2) div 8)] @ ll \<and>
      ocs (be_sum True (na_pseudo_header ll local remote @ written k3)) = 65535)"
proof -
  obtain h s1 s2 r where head: "head = [h] @ [s1, s2] @ r" "length r = 4"
    using assms(2) by (auto simp: numeral_eq_Suc length_Suc_conv)
  let ?k = "k\<lparr>dev_in := head @ rev target @ opt @ rest, chk := checksum_add 135 checksum_init\<rparr>"
  have "in_octets 1 ?k = ([h], ?k\<lparr>dev_in := [s1, s2] @ r @ rev target @ opt @ rest\<rparr>)"
    by (rule in_octets_read) (simp_all add: head)
  moreover have "in_octets 2 (?k\<lparr>dev_in := [s1, s2] @ r @ rev target @ opt @ rest\<rparr>) =
      ([s1, s2], ?k\<lparr>dev_in := r @ rev target @ opt @ rest\<rparr>)"
    using in_octets_read [of "?k\<lparr>dev_in := [s1, s2] @ r @ rev target @ opt @ rest\<rparr>" "[s1, s2]"] by simp
  moreover have "in_octets 4 (?k\<lparr>dev_in := r @ rev target @ opt @ rest\<rparr>) = (r, ?k\<lparr>dev_in := rev target @ opt @ rest\<rparr>)"
    using in_octets_read [of "?k\<lparr>dev_in := r @ rev target @ opt @ rest\<rparr>" r] head(2) by simp
  moreover have "in_octets 16 (?k\<lparr>dev_in := rev target @ opt @ rest\<rparr>) = (rev target, ?k\<lparr>dev_in := opt @ rest\<rparr>)"
    using in_octets_read [of "?k\<lparr>dev_in := rev target @ opt @ rest\<rparr>" "rev target"] assms(3) by simp
  moreover have "in_octets (length ll) (?k\<lparr>dev_in := opt @ rest\<rparr>) = (opt, ?k\<lparr>dev_in := rest\<rparr>)"
    using in_octets_read [of "?k\<lparr>dev_in := opt @ rest\<rparr>" opt] assms(4) by simp
  ultimately have "fst (icmp6_decode_ns ll local ?k) = (if local \<noteq> target then 0 else 135)"
    unfolding icmp6_decode_ns_def Let_def by (simp add: ICMP_NEIGHBOR_SOLICITATION_def del: in_octets.simps)
  moreover have "icmp6_packet_in ll local k = icmp6_decode_ns ll local ?k"
    using assms(1) by (simp add: icmp6_packet_in_def Let_def ICMP6_ECHO_REQUEST_def ICMP_NEIGHBOR_SOLICITATION_def)
  ultimately have solicited: "fst (icmp6_packet_in ll local k) = (if target = local then 135 else 0)" by simp
  let ?c = "NOT (current_checksum (na_checksum ll local remote))"
  have "prepared_output m (k2\<lparr>chk := na_checksum ll local remote\<rparr>)"
    using assms(8) by (simp add: prepared_output_def)
  moreover have "length (na_octets ll local ?c) \<le> unat m" using assms(5,9) by (simp add: na_octets_def u16_chars_def)
  ultimately obtain k3 where "out_all (na_octets ll local ?c) (k2\<lparr>chk := na_checksum ll local remote\<rparr>) = Some k3"
    "written k3 = na_octets ll local ?c"
    using out_all_written [of "unat m" "k2\<lparr>chk := na_checksum ll local remote\<rparr>" "na_octets ll local ?c"]
      prepared_output_room by fastforce
  then have "\<exists>k3. icmp6_packet_out st ll local remote c k2 = Some (0, k3) \<and>
      take 2 (written k3) = [136, 0] \<and> drop 8 (written k3) = rev local @ [2, of_nat ((length ll + 2) div 8)] @ ll \<and>
      ocs (be_sum True (na_pseudo_header ll local remote @ written k3)) = 65535"
    using na_verifies [OF assms(5,6), of ll] assms(7) na_octets_parts [of ll local ?c]
    by (intro exI [of _ k3])
      (simp add: icmp6_packet_out_def icmp6_send_na_def Let_def ICMP_NEIGHBOR_SOLICITATION_def del: append.simps)
  with solicited show ?thesis by blast
qed

text \<open>A connection of the protocol 58 with a solicitation to answer.\<close>

definition ns_connection :: connection where
  "ns_connection = undefined\<lparr>output_handler := Some (Resource 0), gpip := undefined\<lparr>want_to_send := 135\<rparr>\<rparr>"

definition ns_site :: site where
  "ns_site = undefined\<lparr>resource := (\<lambda>_. undefined\<lparr>handler_type := type_general_ip_handler\<rparr>)\<rparr>"

definition ns_kernel :: "u8 list \<Rightarrow> kernel" where
  "ns_kernel os = undefined\<lparr>dev_in := os, curr_output := undefined\<lparr>out_buffer := Buffer_gpip, out_max_bytes := 100,
     out_content_length := 0, out_service := None\<rparr>, gpip_output_buffer := replicate 100 0\<rparr>"

theorem solicitation_is_answered_witness:
  "fst (icmp6_packet_in [1, 2, 3, 4, 5, 6] (replicate 16 7)
      (ns_kernel ([135] @ replicate 7 0 @ rev (replicate 16 7) @ [9, 9, 9, 9, 9, 9] @ []))) = 135 \<and>
   (\<exists>k3. icmp6_packet_out ns_site [1, 2, 3, 4, 5, 6] (replicate 16 7) (replicate 16 8) ns_connection (ns_kernel []) = Some (0, k3) \<and>
      ocs (be_sum True (na_pseudo_header [1, 2, 3, 4, 5, 6] (replicate 16 7) (replicate 16 8) @ written k3)) = 65535)"
proof -
  let ?ns = "[135] @ replicate 7 0 @ rev (replicate 16 7) @ [9, 9, 9, 9, 9, 9] @ []"
  have "dev_in (ns_kernel ?ns) = ?ns" by (simp add: ns_kernel_def)
  moreover have "get_send_code ns_site ns_connection = 135"
    by (simp add: get_send_code_def IS_GPIP_def IS_GPIP_HANDLER_def ns_site_def ns_connection_def)
  moreover have "prepared_output 100 (ns_kernel [])" by (simp add: prepared_output_def ns_kernel_def)
  ultimately show ?thesis
    using solicitation_is_answered [of "ns_kernel ?ns" "replicate 7 0" "replicate 16 7" "[9, 9, 9, 9, 9, 9]" "[]"
        "[1, 2, 3, 4, 5, 6]" "replicate 16 7" "replicate 16 8" ns_site ns_connection 100 "ns_kernel []"] by auto
qed

end
