(* ===== verification/Kernel_Console.thy ===== *)
theory Kernel_Console
  imports Generators
begin

text \<open>
  The application \<open>apps/kernel_console/kernel_console.c\<close>: a command line on the serial port of a target, with its line
  editor, its table of commands, and the command that changes the address of the machine. The interrupt handler of the port
  gives it one character at a time.

  A pointer into the line is an index into \<open>console_buffer\<close>, and a read outside of it is undefined (\<open>None\<close>). What is
  printed is a list of events. The handlers that only print are events; those that other parts of the program
  have added are the parameter \<open>ext\<close>.
\<close>

section \<open>Model\<close>

definition CONSOLE_BUFFER_SIZE :: nat where "CONSOLE_BUFFER_SIZE = 64"
definition KERNEL_CONSOLE_COMMAND_SIZE :: nat where "KERNEL_CONSOLE_COMMAND_SIZE = 10"

datatype console_handler =
    kernel_console_help
  | kernel_console_mem_state
  | kernel_console_ll_state
  | kernel_console_connections_state
  | kernel_console_ressource_index
  | kernel_console_ip
  | added_handler nat

text \<open>An entry of the table; a \<open>NULL\<close> command ends it.\<close>

record console_command =
  command :: "u8 list option"
  shortcut :: "u8 list"
  cmd_handler :: console_handler

datatype console_event =
    Echo u8
  | Newline
  | Erase
  | Prompt
  | Bad_command "u8 list"
  | Called console_handler "nat option"
  | Shown_address "u8 list"

record console =
  console_buffer :: "u8 list"
  console_buffer_idx :: nat
  console_commands :: "console_command list"
  console_ip_addr :: "u8 list"
  console_events :: "console_event list"

definition ascii :: "char list \<Rightarrow> u8 list" where
  "ascii = map of_char"

definition console_entry :: "char list \<Rightarrow> char list \<Rightarrow> console_handler \<Rightarrow> console_command" where
  "console_entry c s h = \<lparr>command = Some (ascii c), shortcut = ascii s, cmd_handler = h\<rparr>"

definition no_entry :: console_command where
  "no_entry = \<lparr>command = None, shortcut = [], cmd_handler = kernel_console_help\<rparr>"

definition initial_commands :: "console_command list" where
  "initial_commands =
    [console_entry ''help'' ''h'' kernel_console_help,
     console_entry ''mem_state'' ''ms'' kernel_console_mem_state,
     console_entry ''ll_state'' ''ls'' kernel_console_ll_state,
     console_entry ''connections_state'' ''cs'' kernel_console_connections_state,
     console_entry ''ressource_index'' ''ri'' kernel_console_ressource_index,
     console_entry ''ip'' ''ip'' kernel_console_ip,
     no_entry, no_entry, no_entry, no_entry]"

definition event :: "console_event \<Rightarrow> console \<Rightarrow> console" where
  "event e s = s\<lparr>console_events := console_events s @ [e]\<rparr>"

definition kernel_console_prompt :: "console \<Rightarrow> console" where
  "kernel_console_prompt s = event Prompt (s\<lparr>console_buffer_idx := 0\<rparr>)"

definition kernel_console_init :: "u8 list \<Rightarrow> console" where
  "kernel_console_init ip = kernel_console_prompt
     \<lparr>console_buffer = replicate CONSOLE_BUFFER_SIZE 0, console_buffer_idx = 0, console_commands = initial_commands,
      console_ip_addr = ip, console_events = []\<rparr>"

subsection \<open>Numbers and strings\<close>

definition is_digit :: "u8 \<Rightarrow> bool" where
  "is_digit c \<longleftrightarrow> 48 \<le> c \<and> c \<le> 57"

definition char_at :: "u8 list \<Rightarrow> nat \<Rightarrow> u8 option" where
  "char_at b p = (if p < length b then Some (b ! p) else None)"

text \<open>The first loop of \<open>kernel_console_atoi\<close>: the index behind the digits.\<close>

function skip_digits :: "u8 list \<Rightarrow> nat \<Rightarrow> nat option" where
  "skip_digits b p =
    (if p < length b then (if is_digit (b ! p) then skip_digits b (Suc p) else Some p) else None)"
  by pat_completeness auto
termination by (relation "measure (\<lambda>(b, p). length b - p)") auto

declare skip_digits.simps [simp del]

text \<open>
  The second loop, from the last digit down, on the digits in this order; \<open>int\<close> has 32 bits, and its overflow is
  undefined.
\<close>

definition INT_MAX :: int where "INT_MAX = 2147483647"

fun atoi_loop :: "u8 list \<Rightarrow> int \<Rightarrow> int \<Rightarrow> int option" where
  "atoi_loop [] v mul = Some v"
| "atoi_loop (c # cs) v mul =
    (let v = v + (uint c - 48) * mul; mul = mul * 10
     in if v > INT_MAX \<or> mul > INT_MAX then None else atoi_loop cs v mul)"

text \<open>The result is the pointer behind the number (\<open>None\<close> for \<open>NULL\<close>) and the value it stores, if any.\<close>

definition kernel_console_atoi :: "u8 list \<Rightarrow> nat option \<Rightarrow> (nat option \<times> int option) option" where
  "kernel_console_atoi b arg =
    (case arg of
       None \<Rightarrow> Some (None, None)
     | Some a \<Rightarrow>
        do { p \<leftarrow> skip_digits b a;
             if p = a then Some (None, None)
             else do { v \<leftarrow> atoi_loop (rev (take (p - a) (drop a b))) 0 1; Some (Some p, Some v) } })"

text \<open>Strings are the characters before the end marker.\<close>

fun kernel_console_strcmp :: "u8 list \<Rightarrow> u8 list \<Rightarrow> int" where
  "kernel_console_strcmp (x # xs) (y # ys) = (if x = y then kernel_console_strcmp xs ys else uint x - uint y)"
| "kernel_console_strcmp (x # xs) [] = uint x"
| "kernel_console_strcmp [] (y # ys) = - uint y"
| "kernel_console_strcmp [] [] = 0"

definition cstring :: "u8 list \<Rightarrow> u8 list" where
  "cstring b = takeWhile (\<lambda>c. c \<noteq> 0) b"

fun kernel_console_strchr :: "u8 list \<Rightarrow> u8 \<Rightarrow> nat \<Rightarrow> nat option" where
  "kernel_console_strchr [] c i = None"
| "kernel_console_strchr (x # xs) c i = (if x \<noteq> c then kernel_console_strchr xs c (Suc i) else Some i)"

subsection \<open>Commands\<close>

text \<open>
  The loop of \<open>kernel_console_ip\<close> for the bytes from \<open>n - 1\<close> down to 0. When there is no number
  \<open>val\<close> is not set, and \<open>args++\<close> makes a pointer out of \<open>NULL\<close>: undefined.
\<close>

fun ip_loop :: "nat \<Rightarrow> u8 list \<Rightarrow> nat \<Rightarrow> u8 list \<Rightarrow> u8 list option" where
  "ip_loop 0 b a ip = Some ip"
| "ip_loop (Suc n) b a ip =
    (case kernel_console_atoi b (Some a) of
       Some (Some a, Some val) \<Rightarrow> ip_loop n b (a + 1) (ip[n := word_of_int val])
     | _ \<Rightarrow> None)"

definition console_set_ip :: "nat option \<Rightarrow> console \<Rightarrow> console option" where
  "console_set_ip arg s =
    do { ip \<leftarrow> (case arg of
                  None \<Rightarrow> Some (console_ip_addr s)
                | Some a \<Rightarrow> ip_loop 4 (console_buffer s) a (console_ip_addr s));
         Some (event (Shown_address (rev ip)) (s\<lparr>console_ip_addr := ip\<rparr>)) }"

definition call_handler ::
    "(nat \<Rightarrow> nat option \<Rightarrow> console \<Rightarrow> console option) \<Rightarrow> console_handler \<Rightarrow> nat option \<Rightarrow> console \<Rightarrow> console option" where
  "call_handler ext h arg s =
    (let s = event (Called h arg) s
     in case h of
          kernel_console_ip \<Rightarrow> console_set_ip arg s
        | added_handler n \<Rightarrow> ext n arg s
        | _ \<Rightarrow> Some s)"

text \<open>The search of a command in the table, up to its end or its \<open>NULL\<close>.\<close>

fun find_command :: "u8 list \<Rightarrow> console_command list \<Rightarrow> console_handler option" where
  "find_command line [] = None"
| "find_command line (c # cs) =
    (case command c of
       None \<Rightarrow> None
     | Some cmd \<Rightarrow>
         if kernel_console_strcmp line cmd = 0 \<or> kernel_console_strcmp line (shortcut c) = 0
         then Some (cmd_handler c) else find_command line cs)"

definition kernel_console_parse_command ::
    "(nat \<Rightarrow> nat option \<Rightarrow> console \<Rightarrow> console option) \<Rightarrow> console \<Rightarrow> console option" where
  "kernel_console_parse_command ext s =
    (let args = kernel_console_strchr (cstring (console_buffer s)) 32 0;
         s = (case args of None \<Rightarrow> s | Some i \<Rightarrow> s\<lparr>console_buffer := (console_buffer s)[i := 0]\<rparr>);
         args = map_option Suc args
     in case find_command (cstring (console_buffer s)) (console_commands s) of
          Some h \<Rightarrow> call_handler ext h args s
        | None \<Rightarrow> Some (event (Bad_command (cstring (console_buffer s))) s))"

definition kernel_console_add_char ::
    "(nat \<Rightarrow> nat option \<Rightarrow> console \<Rightarrow> console option) \<Rightarrow> u8 \<Rightarrow> console \<Rightarrow> console option" where
  "kernel_console_add_char ext c s =
    (let s = event (if c \<noteq> 13 then Echo c else Newline) s
     in if c = 8 then
          Some (if console_buffer_idx s \<noteq> 0
                then event Erase (s\<lparr>console_buffer_idx := console_buffer_idx s - 1\<rparr>) else s)
        else if c = 13 \<or> console_buffer_idx s = CONSOLE_BUFFER_SIZE - 1 then
          do { s \<leftarrow> kernel_console_parse_command ext
                   (s\<lparr>console_buffer := (console_buffer s)[console_buffer_idx s := 0]\<rparr>);
               Some (kernel_console_prompt s) }
        else Some (s\<lparr>console_buffer := (console_buffer s)[console_buffer_idx s := c],
                     console_buffer_idx := console_buffer_idx s + 1\<rparr>))"

text \<open>The index of the first free entry, or the size of the table.\<close>

fun free_entry :: "console_command list \<Rightarrow> nat" where
  "free_entry [] = 0"
| "free_entry (c # cs) = (if command c \<noteq> None then Suc (free_entry cs) else 0)"

definition kernel_console_add_handler ::
    "u8 list option \<Rightarrow> u8 list option \<Rightarrow> u8 list option \<Rightarrow> console_handler option \<Rightarrow> console \<Rightarrow> bool \<times> console" where
  "kernel_console_add_handler cmd sc help h s =
    (case (cmd, sc, help, h) of
       (Some cmd, Some sc, Some help, Some h) \<Rightarrow>
        (let i = free_entry (console_commands s)
         in if i = KERNEL_CONSOLE_COMMAND_SIZE then (False, s)
            else
             (let cs = (console_commands s)[i := \<lparr>command = Some cmd, shortcut = sc, cmd_handler = h\<rparr>];
                  cs = (if i < KERNEL_CONSOLE_COMMAND_SIZE - 1 then cs[i + 1 := (cs ! (i + 1))\<lparr>command := None\<rparr>] else cs)
              in (True, s\<lparr>console_commands := cs\<rparr>)))
     | _ \<Rightarrow> (False, s))"

section \<open>The line\<close>

text \<open>What has been typed since the prompt, and what a key makes of it.\<close>

definition line_is :: "u8 list \<Rightarrow> console \<Rightarrow> bool" where
  "line_is l s \<longleftrightarrow> length (console_buffer s) = CONSOLE_BUFFER_SIZE \<and> console_buffer_idx s = length l \<and>
     length l < CONSOLE_BUFFER_SIZE \<and> take (length l) (console_buffer s) = l"



text \<open>Two states that differ in the line and in what was printed only.\<close>

definition same_console :: "console \<Rightarrow> console \<Rightarrow> bool" where
  "same_console s t \<longleftrightarrow> console_commands t = console_commands s \<and> console_ip_addr t = console_ip_addr s"

lemma event_simps [simp]:
  "console_buffer (event e s) = console_buffer s" "console_buffer_idx (event e s) = console_buffer_idx s"
  "console_commands (event e s) = console_commands s" "console_ip_addr (event e s) = console_ip_addr s"
  by (simp_all add: event_def)

lemma CONSOLE_BUFFER_SIZE_pos: "0 < CONSOLE_BUFFER_SIZE"
  by (simp add: CONSOLE_BUFFER_SIZE_def)



lemma strcmp_eq: "0 \<notin> set a \<Longrightarrow> 0 \<notin> set b \<Longrightarrow> kernel_console_strcmp a b = 0 \<longleftrightarrow> a = b"
proof (induction a b rule: kernel_console_strcmp.induct)
  case (1 x xs y ys)
  have "uint x - uint y = 0 \<longleftrightarrow> x = y" by (simp add: word_uint_eq_iff)
  with 1 show ?case by simp
qed (simp_all add: uint_0_iff)

lemma cstring_end: "0 \<notin> set xs \<Longrightarrow> cstring (xs @ 0 # ys) = xs"
  by (induction xs) (simp_all add: cstring_def)

lemma strchr_None: "c \<notin> set xs \<Longrightarrow> kernel_console_strchr xs c i = None"
  by (induction xs arbitrary: i) auto

lemma strchr_Some: "c \<notin> set xs \<Longrightarrow> kernel_console_strchr (xs @ c # ys) c i = Some (i + length xs)"
  by (induction xs arbitrary: i) auto

lemma line_closed:
  "line_is l s \<Longrightarrow> \<exists>old. (console_buffer s)[length l := 0] = l @ 0 # old"
  by (simp add: line_is_def upd_conv_take_nth_drop)

lemma line_is_prompt:
  "length (console_buffer s) = CONSOLE_BUFFER_SIZE \<Longrightarrow> line_is [] (kernel_console_prompt s)"
  by (simp add: line_is_def kernel_console_prompt_def CONSOLE_BUFFER_SIZE_def)

lemma prompt_keeps [simp]:
  "console_ip_addr (kernel_console_prompt s) = console_ip_addr s"
  "console_commands (kernel_console_prompt s) = console_commands s"
  by (simp_all add: kernel_console_prompt_def)

abbreviation command_name :: "u8 list \<Rightarrow> u8 list" where
  "command_name l \<equiv> takeWhile (\<lambda>c. c \<noteq> 32) l"

abbreviation command_rest :: "u8 list \<Rightarrow> u8 list" where
  "command_rest l \<equiv> drop (Suc (length (command_name l))) l"

lemma name_and_rest: "32 \<in> set l \<Longrightarrow> l = command_name l @ 32 # command_rest l"
proof (induction l)
  case (Cons c l)
  then show ?case by (cases "c = 32") auto
qed simp

text \<open>The end of the line.\<close>

lemma line_parsed:
  assumes "line_is l s" "0 \<notin> set l" "find_command (command_name l) (console_commands s) = Some h"
  shows "\<exists>t old. kernel_console_add_char ext 13 s =
      Option.bind (call_handler ext h (if 32 \<in> set l then Some (Suc (length (command_name l))) else None) t)
        (\<lambda>u. Some (kernel_console_prompt u)) \<and> same_console s t \<and>
      length (console_buffer t) = CONSOLE_BUFFER_SIZE \<and>
      console_buffer t = (if 32 \<in> set l then command_name l @ 0 # command_rest l @ 0 # old else l @ 0 # old)"
proof -
  from line_closed [OF assms(1)] obtain old where old: "(console_buffer s)[length l := 0] = l @ 0 # old" by blast
  have len: "length (l @ 0 # old) = CONSOLE_BUFFER_SIZE"
    using assms(1) arg_cong [OF old, of length] by (simp add: line_is_def)
  define s1 where "s1 = (event Newline s)\<lparr>console_buffer := l @ 0 # old\<rparr>"
  have cr: "kernel_console_add_char ext 13 s =
      Option.bind (kernel_console_parse_command ext s1) (\<lambda>u. Some (kernel_console_prompt u))"
    using assms(1) old by (simp add: kernel_console_add_char_def Let_def s1_def line_is_def)
  have s1: "same_console s s1" "console_buffer s1 = l @ 0 # old" by (simp_all add: s1_def same_console_def)
  show ?thesis
  proof (cases "32 \<in> set l")
    case False
    then have n: "command_name l = l" by (auto simp: takeWhile_eq_all_conv)
    have "kernel_console_parse_command ext s1 = call_handler ext h None s1"
      using s1 assms(2) assms(3) [unfolded n] strchr_None [OF False]
      by (simp add: kernel_console_parse_command_def Let_def cstring_end same_console_def)
    then show ?thesis using False cr s1 len by (intro exI [of _ s1] exI [of _ old]) simp
  next
    case True
    let ?n = "command_name l" and ?r = "command_rest l"
    have l: "l = ?n @ 32 # ?r" using name_and_rest [OF True] .
    have nn: "32 \<notin> set ?n" "0 \<notin> set ?n"
      using assms(2) set_takeWhileD [of _ "\<lambda>c. c \<noteq> 32" l] by auto
    have "kernel_console_strchr l 32 0 = Some (length ?n)"
      using strchr_Some [OF nn(1), of ?r 0] l by simp
    moreover have "(l @ 0 # old)[length ?n := 0] = ?n @ 0 # ?r @ 0 # old"
      by (subst l) (simp add: list_update_append)
    ultimately have "kernel_console_parse_command ext s1 =
        call_handler ext h (Some (Suc (length ?n))) (s1\<lparr>console_buffer := ?n @ 0 # ?r @ 0 # old\<rparr>)"
      using s1 assms(2,3) nn(2)
      by (simp add: kernel_console_parse_command_def Let_def cstring_end same_console_def)
    moreover have "length (?n @ 0 # ?r @ 0 # old) = CONSOLE_BUFFER_SIZE"
      using len l by (metis length_append length_Cons add_Suc_right append.assoc append_Cons)
    ultimately show ?thesis using True cr s1
      by (intro exI [of _ "s1\<lparr>console_buffer := ?n @ 0 # ?r @ 0 # old\<rparr>"] exI [of _ old])
        (simp add: same_console_def)
  qed
qed

section \<open>Numbers\<close>

definition numeral_string :: "u8 list \<Rightarrow> bool" where
  "numeral_string ds \<longleftrightarrow> ds \<noteq> [] \<and> length ds \<le> 9 \<and> (\<forall>d\<in>set ds. is_digit d)"

lemma drop_Cons_nth: "drop a b = c # cs \<Longrightarrow> a < length b \<and> b ! a = c \<and> drop (Suc a) b = cs"
  by (cases "a < length b") (auto simp flip: Cons_nth_drop_Suc)

lemma skip_digits_number:
  "\<forall>d\<in>set ds. is_digit d \<Longrightarrow> \<not> is_digit c \<Longrightarrow> drop a b = ds @ c # rest \<Longrightarrow> skip_digits b a = Some (a + length ds)"
proof (induction ds arbitrary: a)
  case Nil
  then show ?case using drop_Cons_nth [of a b c rest] by (simp add: skip_digits.simps)
next
  case (Cons d ds)
  then show ?case using drop_Cons_nth [of a b d "ds @ c # rest"] by (simp add: skip_digits.simps)
qed

lemma digit_value: "is_digit d \<Longrightarrow> uint d - 48 = int (unat d - 48) \<and> unat d - 48 \<le> 9"
  by (simp add: is_digit_def word_le_nat_alt) linarith

lemma decimal_bound: "\<forall>d\<in>set ds. is_digit d \<Longrightarrow> decimal ds < 10 ^ length ds"
proof (induction ds rule: rev_induct)
  case (snoc d ds)
  then show ?case using digit_value [of d] by (simp add: decimal_snoc)
qed (simp add: decimal_def)

lemma atoi_loop_number:
  "\<forall>d\<in>set ds. is_digit d \<Longrightarrow> length ds + k \<le> 9 \<Longrightarrow> v < 10 ^ k \<Longrightarrow>
   atoi_loop (rev ds) (int v) (10 ^ k) = Some (int (v + decimal ds * 10 ^ k))"
proof (induction ds arbitrary: k v rule: rev_induct)
  case (snoc d ds)
  let ?v = "v + (unat d - 48) * 10 ^ k"
  have d: "uint d - 48 = int (unat d - 48)" "unat d - 48 \<le> 9" using digit_value [of d] snoc.prems(1) by auto
  have "(unat d - 48) * 10 ^ k \<le> 9 * 10 ^ k" using d(2) by (rule mult_le_mono1)
  then have v: "?v < 10 ^ Suc k" using snoc.prems(3) unfolding power_Suc by linarith
  have "(10 :: nat) ^ Suc k \<le> 10 ^ 9" using snoc.prems(2) by (intro power_increasing) auto
  then have b: "(10 :: nat) ^ Suc k \<le> 1000000000" by simp
  have vi: "int v + (uint d - 48) * 10 ^ k = int ?v" using d(1) by simp
  have mi: "(10 :: int) ^ k * 10 = 10 ^ Suc k" by simp
  have "int ?v \<le> int 1000000000" using b v unfolding of_nat_le_iff by linarith
  moreover have "int (10 ^ Suc k) \<le> int 1000000000" using b by (simp only: of_nat_le_iff)
  moreover have "int 1000000000 \<le> INT_MAX" by (simp add: INT_MAX_def)
  ultimately have "int ?v \<le> INT_MAX" "(10 :: int) ^ Suc k \<le> INT_MAX" by (auto simp only: of_nat_power of_nat_numeral)
  then have "atoi_loop (rev (ds @ [d])) (int v) (10 ^ k) = atoi_loop (rev ds) (int ?v) (10 ^ Suc k)"
    unfolding rev_append rev.simps append.simps atoi_loop.simps Let_def vi mi by simp
  also have "\<dots> = Some (int (?v + decimal ds * 10 ^ Suc k))"
    using snoc.IH [of "Suc k" ?v] snoc.prems v by simp
  also have "?v + decimal ds * 10 ^ Suc k = v + decimal (ds @ [d]) * 10 ^ k"
    by (simp add: decimal_snoc algebra_simps)
  finally show ?case .
qed (simp add: decimal_def)

lemma atoi_number:
  assumes "numeral_string ds" "\<not> is_digit c" "drop a b = ds @ c # rest"
  shows "kernel_console_atoi b (Some a) = Some (Some (a + length ds), Some (int (decimal ds)))"
proof -
  have "skip_digits b a = Some (a + length ds)"
    using skip_digits_number [OF _ assms(2,3)] assms(1) by (simp add: numeral_string_def)
  moreover have "atoi_loop (rev ds) 0 1 = Some (int (decimal ds))"
    using atoi_loop_number [of ds 0 0] assms(1) by (simp add: numeral_string_def)
  ultimately show ?thesis using assms(1,3) by (simp add: kernel_console_atoi_def numeral_string_def)
qed

lemma drop_further: "drop a b = xs @ c # ys \<Longrightarrow> drop (Suc (a + length xs)) b = ys"
  by (metis add_Suc_right append.assoc append_Cons append_Nil drop_drop add.commute drop_append length_append_singleton
      append_eq_conv_conj drop_eq_Nil2)

section \<open>The table of commands\<close>

lemma find_command_at:
  "\<forall>c\<in>set xs. \<exists>n. command c = Some n \<and> kernel_console_strcmp l n \<noteq> 0 \<and> kernel_console_strcmp l (shortcut c) \<noteq> 0 \<Longrightarrow>
   command e = Some n \<Longrightarrow> kernel_console_strcmp l n = 0 \<or> kernel_console_strcmp l (shortcut e) = 0 \<Longrightarrow>
   find_command l (xs @ e # ys) = Some (cmd_handler e)"
  by (induction xs) auto

lemma free_entry_length: "free_entry cs \<le> length cs"
  by (induction cs) auto

lemma before_free_entry: "c \<in> set (take (free_entry cs) cs) \<Longrightarrow> command c \<noteq> None"
  by (induction cs) (auto split: if_splits)

text \<open>
  A command can be added as long as the table has an entry for it; it is then found by its name and by its shortcut,
  unless an earlier command has the same.
\<close>

lemma added_command_found:
  assumes "length (console_commands s) = KERNEL_CONSOLE_COMMAND_SIZE"
    "kernel_console_add_handler (Some cmd) (Some sc) (Some help) (Some h) s = (True, t)"
    "l = cmd \<or> l = sc" "0 \<notin> set cmd" "0 \<notin> set sc"
    "\<forall>c\<in>set (take (free_entry (console_commands s)) (console_commands s)).
       kernel_console_strcmp l (the (command c)) \<noteq> 0 \<and> kernel_console_strcmp l (shortcut c) \<noteq> 0"
  shows "find_command l (console_commands t) = Some h"
    "length (console_commands t) = KERNEL_CONSOLE_COMMAND_SIZE"
proof -
  let ?cs = "console_commands s" and ?e = "\<lparr>command = Some cmd, shortcut = sc, cmd_handler = h\<rparr>"
  let ?i = "free_entry ?cs"
  have i: "?i < length ?cs"
    using assms(1,2) free_entry_length [of ?cs] by (auto simp: kernel_console_add_handler_def Let_def split: if_splits)
  have cs: "?cs[?i := ?e] = take ?i ?cs @ ?e # drop (Suc ?i) ?cs" by (rule upd_conv_take_nth_drop [OF i])
  have "\<exists>ys. console_commands t = take ?i ?cs @ ?e # ys"
    using assms(1,2) i by (auto simp: kernel_console_add_handler_def Let_def cs list_update_append split: if_splits)
  then obtain ys where t: "console_commands t = take ?i ?cs @ ?e # ys" by blast
  have "\<forall>c\<in>set (take ?i ?cs). \<exists>n. command c = Some n \<and> kernel_console_strcmp l n \<noteq> 0 \<and>
      kernel_console_strcmp l (shortcut c) \<noteq> 0"
    using assms(6) before_free_entry [of _ ?cs] by fastforce
  moreover have "kernel_console_strcmp l cmd = 0 \<or> kernel_console_strcmp l sc = 0"
    using assms(3-5) strcmp_eq by blast
  ultimately show "find_command l (console_commands t) = Some h"
    using find_command_at [of "take ?i ?cs" l ?e cmd ys] t by simp
  show "length (console_commands t) = KERNEL_CONSOLE_COMMAND_SIZE"
    using assms(1,2) by (auto simp: kernel_console_add_handler_def Let_def split: if_splits)
qed

section \<open>Properties\<close>



text \<open>
  The command \<open>ip\<close> sets the address to the four decimal numbers it is given, separated by one character that is no
  digit, first to last from the highest byte.
\<close>

theorem ip_command_sets_address:
  assumes "line_is (ascii ''ip '' @ n3 @ c3 # n2 @ c2 # n1 @ c1 # n0) s"
    "list_all numeral_string [n3, n2, n1, n0]" "list_all (\<lambda>c. \<not> is_digit c \<and> c \<noteq> 0) [c3, c2, c1]"
    "console_commands s = initial_commands" "length (console_ip_addr s) = 4"
  shows "\<exists>t. kernel_console_add_char ext 13 s = Some t \<and> line_is [] t \<and>
    console_ip_addr t = map (\<lambda>n. of_nat (decimal n)) [n0, n1, n2, n3]"
proof -
  let ?l = "ascii ''ip '' @ n3 @ c3 # n2 @ c2 # n1 @ c1 # n0"
  have z: "\<not> is_digit 0" by (simp add: is_digit_def)
  have d: "0 \<notin> set n" if "numeral_string n" for n using that z by (auto simp: numeral_string_def)
  have nz: "0 \<notin> set ?l" using assms(2,3) d by (auto simp: ascii_def)
  have name: "command_name ?l = ascii ''ip''" "command_rest ?l = n3 @ c3 # n2 @ c2 # n1 @ c1 # n0" "32 \<in> set ?l"
    by (simp_all add: ascii_def)
  have "find_command (command_name ?l) (console_commands s) = Some kernel_console_ip"
    by (simp add: name assms(4) initial_commands_def console_entry_def ascii_def)
  from line_parsed [OF assms(1) nz this, of ext] obtain t old where t: "kernel_console_add_char ext 13 s =
      Option.bind (call_handler ext kernel_console_ip (Some 3) t) (\<lambda>u. Some (kernel_console_prompt u))"
    "same_console s t" "length (console_buffer t) = CONSOLE_BUFFER_SIZE"
    "console_buffer t = ascii ''ip'' @ 0 # (n3 @ c3 # n2 @ c2 # n1 @ c1 # n0) @ 0 # old"
    using name by (auto simp: ascii_def numeral_3_eq_3)
  have b3: "drop 3 (console_buffer t) = n3 @ c3 # n2 @ c2 # n1 @ c1 # n0 @ 0 # old"
    using t(4) by (simp add: ascii_def)
  note b2 = drop_further [OF b3]
  note b1 = drop_further [OF b2]
  note b0 = drop_further [OF b1]
  have n: "numeral_string n3" "numeral_string n2" "numeral_string n1" "numeral_string n0"
    "\<not> is_digit c3" "\<not> is_digit c2" "\<not> is_digit c1" using assms(2,3) by auto
  obtain i0 i1 i2 i3 where ip: "console_ip_addr t = [i0, i1, i2, i3]"
    using t(2) assms(5) by (auto simp: same_console_def length_Suc_conv numeral_eq_Suc)
  have "ip_loop 4 (console_buffer t) 3 (console_ip_addr t) = Some (map (\<lambda>n. of_nat (decimal n)) [n0, n1, n2, n3])"
    using atoi_number [OF n(1,5) b3] atoi_number [OF n(2,6) b2] atoi_number [OF n(3,7) b1]
      atoi_number [OF n(4) z b0]
    by (simp add: ip eval_nat_numeral)
  then show ?thesis using t(1,3)
    by (simp add: call_handler_def Let_def console_set_ip_def line_is_prompt)
qed

definition typed_address :: console where
  "typed_address = (kernel_console_init [1, 2, 3, 4])
     \<lparr>console_buffer := ascii ''ip 10.0.2.15'' @ replicate 52 0, console_buffer_idx := 12\<rparr>"

theorem ip_command_sets_address_witness:
  "\<exists>t. kernel_console_add_char (\<lambda>_ _ _. None) 13 typed_address = Some t \<and> console_ip_addr t = [15, 2, 0, 10]"
proof -
  have "line_is (ascii ''ip '' @ ascii ''10'' @ 46 # ascii ''0'' @ 46 # ascii ''2'' @ 46 # ascii ''15'') typed_address"
    by (simp add: line_is_def typed_address_def ascii_def CONSOLE_BUFFER_SIZE_def)
  moreover have "list_all numeral_string [ascii ''10'', ascii ''0'', ascii ''2'', ascii ''15'']"
    by (simp add: numeral_string_def ascii_def is_digit_def)
  moreover have "list_all (\<lambda>c. \<not> is_digit c \<and> c \<noteq> 0) [46, 46, 46]" by (simp add: is_digit_def)
  moreover have "console_commands typed_address = initial_commands" "length (console_ip_addr typed_address) = 4"
    by (simp_all add: typed_address_def kernel_console_init_def)
  ultimately obtain t where "kernel_console_add_char (\<lambda>_ _ _. None) 13 typed_address = Some t"
    "console_ip_addr t = map (\<lambda>n. of_nat (decimal n)) [ascii ''15'', ascii ''2'', ascii ''0'', ascii ''10'']"
    using ip_command_sets_address by blast
  then show ?thesis by (simp add: decimal_def ascii_def)
qed

text \<open>
  An address that is too short is completed by what an earlier line has left in the buffer: the fourth number is read
  behind the end of the line, and becomes the last byte of the address.
\<close>

theorem short_address_reads_old_line:
  "map_option console_ip_addr
     (fold_opt (kernel_console_add_char ext) (ascii ''ip 192.168.0.77'' @ [13] @ ascii ''ip 1.2.3'' @ [13])
       (kernel_console_init [i0, i1, i2, i3])) = Some [8, 3, 2, 1]"
  by code_simp

end
