(* ===== verification/Pan_Manager.thy ===== *)
theory Pan_Manager
  imports Slip
begin

text \<open>
  The other end of the serial line: \<open>panManager/src/panManager.c\<close>, which carries packets between the tunnel
  interface of the host and a device, with the plugin \<open>panManager/plugins/slip/slip.c\<close> for a serial line. Together with the
  driver of \<open>Slip\<close> this is the whole way of a packet between the host and the stack.

  The tunnel and the line are files: what \<open>read\<close> returns is an argument, what is written is appended to
  \<open>tun_out\<close> and \<open>line_out\<close>. A system call that fails ends the program (\<open>check\<close>), so every call here succeeds.
\<close>

section \<open>Model\<close>

definition PAN_MTU :: nat where
  "PAN_MTU = 1500"

text \<open>
  The buffers have four octets in front of the packet, the header of the tunnel. \<open>scurr\<close> is the index into
  \<open>dbuffer\<close> of the next octet from the line; its initial \<open>NULL\<close> is replaced by the start of the buffer before
  it is used, and is 0 here.
\<close>

record pan =
  tbuffer_shadow :: "u8 list"
  dbuffer_shadow :: "u8 list"
  pan_state :: slip_state
  scurr :: nat
  tun_out :: "u8 list list"
  line_out :: "u8 list"

text \<open>The static variables, and the protocol that \<open>main\<close> stores in the header: IPv6 when the address has a colon.\<close>

definition pan_static :: pan where
  "pan_static = \<lparr>tbuffer_shadow = replicate (PAN_MTU + 4) 0, dbuffer_shadow = replicate (PAN_MTU + 4) 0,
     pan_state = slip_in, scurr = 0, tun_out = [], line_out = []\<rparr>"

fun has_colon :: "char list \<Rightarrow> bool" where
  "has_colon [] = False"
| "has_colon (_ # []) = False"
| "has_colon (_ # c # cs) = (c = CHR '':'' \<or> has_colon (c # cs))"

definition pan_protocol :: "char list \<Rightarrow> pan \<Rightarrow> pan" where
  "pan_protocol ipaddr s =
    (if has_colon ipaddr then s\<lparr>dbuffer_shadow := (dbuffer_shadow s)[2 := 0x86, 3 := 0xDD]\<rparr>
     else s\<lparr>dbuffer_shadow := (dbuffer_shadow s)[2 := 0x08, 3 := 0x00]\<rparr>)"

definition forward_to_tun :: "nat \<Rightarrow> pan \<Rightarrow> pan" where
  "forward_to_tun n s = s\<lparr>tun_out := tun_out s @ [take (n + 4) (dbuffer_shadow s)]\<rparr>"

definition writeserial :: "u8 \<Rightarrow> pan \<Rightarrow> pan" where
  "writeserial c s = s\<lparr>line_out := line_out s @ [c]\<rparr>"

text \<open>A turn of the loop of \<open>forward_to_slip\<close>, and the function.\<close>

definition forward_octet :: "u8 \<Rightarrow> pan \<Rightarrow> pan" where
  "forward_octet b s =
    (if b = SLIP_END then writeserial SLIP_ESC_END (writeserial SLIP_ESC s)
     else if b = SLIP_ESC then writeserial SLIP_ESC_ESC (writeserial SLIP_ESC s)
     else writeserial b s)"

definition forward_to_slip :: "nat \<Rightarrow> pan \<Rightarrow> pan" where
  "forward_to_slip n s =
    (let s = writeserial SLIP_END s;
         s = fold forward_octet (take n (drop 4 (tbuffer_shadow s))) s
     in writeserial SLIP_END s)"

text \<open>\<open>read\<close> of a tunnel gives one packet behind its header, at most \<open>PAN_MTU\<close> octets of both.\<close>

definition tun_input :: "u8 list \<Rightarrow> pan \<Rightarrow> pan" where
  "tun_input data s =
    (let got = take PAN_MTU data;
         s = s\<lparr>tbuffer_shadow := got @ drop (length got) (tbuffer_shadow s)\<rparr>
     in forward_to_slip (length got - 4) s)"

text \<open>One octet of the line, in \<open>read_from_slip\<close>.\<close>

definition pan_octet :: "u8 \<Rightarrow> pan \<Rightarrow> pan" where
  "pan_octet c s =
    (let ended = (c = SLIP_END \<and> scurr s \<noteq> 0);
         isChar = (c \<noteq> SLIP_END \<and> c \<noteq> SLIP_ESC);
         esc_end = (c = SLIP_ESC_END \<and> pan_state s = slip_escaped);
         esc_esc = (c = SLIP_ESC_ESC \<and> pan_state s = slip_escaped);
         s = (if c = SLIP_ESC then s\<lparr>pan_state := slip_escaped\<rparr>
              else if esc_end \<or> esc_esc then s\<lparr>pan_state := slip_in\<rparr> else s);
         c = (if esc_end then SLIP_END else if esc_esc then SLIP_ESC else c);
         s = (if isChar \<and> scurr s < PAN_MTU
              then s\<lparr>dbuffer_shadow := (dbuffer_shadow s)[4 + scurr s := c], scurr := scurr s + 1\<rparr> else s)
     in if ended then (forward_to_tun (scurr s) s)\<lparr>scurr := 0\<rparr> else s)"

text \<open>\<open>reads\<close> are the octets each call of \<open>read\<close> gives, at most 64, until one gives none.\<close>

definition read_from_slip :: "u8 list list \<Rightarrow> pan \<Rightarrow> pan" where
  "read_from_slip reads s = fold (fold pan_octet) (takeWhile (\<lambda>r. r \<noteq> []) reads) s"

section \<open>Encoding\<close>

lemma forward_octets: "fold forward_octet bs s = s\<lparr>line_out := line_out s @ concat (map slip_dev_put bs)\<rparr>"
  by (induction bs arbitrary: s) (auto simp: forward_octet_def writeserial_def slip_dev_put_def)

lemma forward_to_slip_frame:
  "forward_to_slip n s = s\<lparr>line_out := line_out s @ slip_frame (take n (drop 4 (tbuffer_shadow s)))\<rparr>"
  by (simp add: forward_to_slip_def Let_def forward_octets writeserial_def slip_frame_def)

lemma tun_input_frame:
  assumes "length head = 4" "length bs \<le> 1496"
  shows "line_out (tun_input (head @ bs) s) = line_out s @ slip_frame bs"
  using assms by (simp add: tun_input_def Let_def forward_to_slip_frame PAN_MTU_def)

lemma tun_input_cuts:
  assumes "length head = 4" "length bs > 1496"
  shows "line_out (tun_input (head @ bs) s) = line_out s @ slip_frame (take 1496 bs)"
  using assms by (simp add: tun_input_def Let_def forward_to_slip_frame PAN_MTU_def min_def)

section \<open>Decoding\<close>

text \<open>A packet is partly read: its octets are in the buffer.\<close>

definition pan_reads :: "u8 list \<Rightarrow> u8 list \<Rightarrow> u8 list list \<Rightarrow> pan \<Rightarrow> bool" where
  "pan_reads head xs outs s \<longleftrightarrow> length (dbuffer_shadow s) = PAN_MTU + 4 \<and> length head = 4 \<and>
     take 4 (dbuffer_shadow s) = head \<and> scurr s = length xs \<and> length xs \<le> PAN_MTU \<and>
     take (length xs) (drop 4 (dbuffer_shadow s)) = xs \<and> pan_state s = slip_in \<and> tun_out s = outs"

lemma buffer_grows:
  assumes "take (length xs) (drop 4 b) = xs" "4 + length xs < length b"
  shows "take (Suc (length xs)) (drop 4 (b[4 + length xs := c])) = xs @ [c]"
    "take 4 (b[4 + length xs := c]) = take 4 b"
  using assms by (simp_all add: drop_update_swap take_Suc_conv_app_nth)

lemma pan_stores:
  assumes "pan_reads head xs outs s" "length xs < PAN_MTU"
  shows "pan_reads head (xs @ [c]) outs
    (s\<lparr>dbuffer_shadow := (dbuffer_shadow s)[4 + scurr s := c], scurr := scurr s + 1\<rparr>)"
  using assms buffer_grows [of xs "dbuffer_shadow s" c] by (simp add: pan_reads_def)

lemma pan_octet_read:
  assumes "pan_reads head xs outs s" "length xs < PAN_MTU"
  shows "pan_reads head (xs @ [b]) outs (fold pan_octet (slip_dev_put b) s)"
proof -
  have st: "pan_state s = slip_in" "scurr s < PAN_MTU" "s\<lparr>pan_state := slip_in\<rparr> = s"
    using assms by (simp_all add: pan_reads_def)
  have upd: "s\<lparr>pan_state := slip_in, dbuffer_shadow := d, scurr := n\<rparr> = s\<lparr>dbuffer_shadow := d, scurr := n\<rparr>" for d n
    using st(1) by simp
  from pan_stores [OF assms, of b] show ?thesis
    using st by (auto simp: slip_dev_put_def pan_octet_def Let_def slip_codes upd)
qed

lemma pan_octets_read:
  "pan_reads head xs outs s \<Longrightarrow> length xs + length bs \<le> PAN_MTU \<Longrightarrow>
   pan_reads head (xs @ bs) outs (fold pan_octet (concat (map slip_dev_put bs)) s)"
proof (induction bs arbitrary: xs s)
  case (Cons b bs)
  with pan_octet_read [of head xs outs s b] Cons.IH [of "xs @ [b]" "fold pan_octet (slip_dev_put b) s"]
  show ?case by simp
qed simp

lemma pan_end_empty: "pan_reads head [] outs s \<Longrightarrow> pan_octet SLIP_END s = s"
  by (simp add: pan_octet_def pan_reads_def Let_def slip_codes)

lemma pan_end_forwards:
  assumes "pan_reads head xs outs s" "xs \<noteq> []"
  shows "pan_reads head [] (outs @ [head @ xs]) (pan_octet SLIP_END s)"
proof -
  have "take (length xs + 4) (dbuffer_shadow s) = head @ xs"
    using assms(1) take_add [of 4 "length xs" "dbuffer_shadow s"] by (simp add: pan_reads_def add.commute)
  then show ?thesis using assms
    by (simp add: pan_octet_def Let_def slip_codes pan_reads_def forward_to_tun_def)
qed

lemma pan_frame_read:
  assumes "pan_reads head [] outs s" "bs \<noteq> []" "length bs \<le> PAN_MTU"
  shows "pan_reads head [] (outs @ [head @ bs]) (fold pan_octet (slip_frame bs) s)"
  using pan_octets_read [of head "[]" outs s bs] pan_end_forwards [of head bs outs] assms
  by (simp add: slip_frame_def pan_end_empty)

lemma pan_frames_read:
  "pan_reads head [] outs s \<Longrightarrow> \<forall>p\<in>set ps. p \<noteq> [] \<and> length p \<le> PAN_MTU \<Longrightarrow>
   pan_reads head [] (outs @ map (\<lambda>p. head @ p) ps) (fold pan_octet (concat (map slip_frame ps)) s)"
proof (induction ps arbitrary: outs s)
  case (Cons p ps)
  with pan_frame_read [of head outs s p] Cons.IH [of "outs @ [head @ p]" "fold pan_octet (slip_frame p) s"]
  show ?case by simp
qed simp

lemma read_from_slip_concat:
  "\<forall>r\<in>set reads. r \<noteq> [] \<Longrightarrow> read_from_slip reads s = fold pan_octet (concat reads) s"
proof -
  assume "\<forall>r\<in>set reads. r \<noteq> []"
  then have "takeWhile (\<lambda>r. r \<noteq> []) reads = reads" by (simp add: takeWhile_eq_all_conv)
  then show ?thesis by (simp add: read_from_slip_def) (induction reads arbitrary: s, simp_all)
qed

lemma pan_start: "pan_reads [0, 0, 8, 0] [] [] (pan_protocol ''10.0.0.1'' pan_static)"
  by (simp add: pan_reads_def pan_protocol_def pan_static_def PAN_MTU_def numeral_eq_Suc)

section \<open>Properties\<close>

text \<open>
  C39: A packet of the host reaches the stack. What the plugin writes on the line for a packet of the
  tunnel of at most 1496 octets is decoded by the interrupts of the machine into exactly its octets, and
  \<open>dev_get\<close> delivers them in order behind what was already there.
\<close>

theorem packet_reaches_stack:
  assumes "length head = 4" "length bs \<le> 1496" "line_out s = []"
    "line_holds xs l" "slip_state l = slip_in" "length xs + length bs \<le> INBUF_SIZE"
  shows "\<exists>l1 l2. slip_interrupts (line_out (tun_input (head @ bs) s)) l = Some l1 \<and>
    slip_read (length (xs @ bs)) l1 = (xs @ bs, l2) \<and> line_holds [] l2 \<and> slip_state l1 = slip_in"
  using slip_delivers [OF assms(4-6)] tun_input_frame [OF assms(1,2)] assms(3) by simp

text \<open>
  The packets of the stack reach the host. However the line cuts the frames that the machine sends
  into pieces, the tunnel gets the packets one by one, each behind the header of the tunnel, and nothing else.
\<close>

theorem packets_reach_tunnel:
  assumes "pan_reads head [] [] s" "\<forall>p\<in>set ps. p \<noteq> [] \<and> length p \<le> PAN_MTU"
    "concat reads = concat (map slip_frame ps)" "\<forall>r\<in>set reads. r \<noteq> []"
  shows "tun_out (read_from_slip reads s) = map (\<lambda>p. head @ p) ps"
  using pan_frames_read [OF assms(1,2)] read_from_slip_concat [OF assms(4), of s] assms(3)
  by (simp add: pan_reads_def)

theorem packet_reaches_stack_witness:
  "\<exists>l1 l2. slip_interrupts (line_out (tun_input [0, 0, 8, 0, 0xC0, 1] pan_static)) example_line = Some l1 \<and>
    slip_read 2 l1 = ([0xC0, 1], l2)"
proof -
  have l: "line_holds [] example_line" "slip_state example_line = slip_in"
    unfolding example_line_def by (rule slip_init_line, simp) (simp add: slip_init_def)
  have "line_out pan_static = []" by (simp add: pan_static_def)
  from packet_reaches_stack [OF _ _ this l, of "[0, 0, 8, 0]" "[0xC0, 1]"] show ?thesis
    by (auto simp: INBUF_SIZE_def numeral_2_eq_2)
qed

theorem packets_reach_tunnel_witness:
  "tun_out (read_from_slip [[0xC0, 7, 0xDB], [0xDD, 0xC0, 0xC0], [9, 0xC0]] (pan_protocol ''10.0.0.1'' pan_static)) =
    [[0, 0, 8, 0, 7, 0xDB], [0, 0, 8, 0, 9]]"
  using packets_reach_tunnel [OF pan_start, of "[[7, 0xDB], [9]]" "[[0xC0, 7, 0xDB], [0xDD, 0xC0, 0xC0], [9, 0xC0]]"]
  by (simp add: slip_frame_def slip_dev_put_def slip_codes PAN_MTU_def)

end
