(* ===== verification/Wsn_Simulator.thy ===== *)
theory Wsn_Simulator
  imports Linux_Devices
begin

text \<open>
  The simulator of a wireless network, \<open>misc/wsnSimulator/src/simu.c\<close>: it places the nodes, starts a server of the target
  \<open>linuxUdp\<close> for each of them, and forwards every datagram of a node to the nodes in its range; the first node is
  also connected to a tunnel interface of the host.

  The random numbers are arguments: for each attempt to place a node, which of the earlier nodes it is near to
  (\<open>ABS_DIST <= nodeRange\<close>, on floating point numbers), and for each transmission whether it is lost.
\<close>

section \<open>Model\<close>

definition SIM_BUFSIZE :: nat where "SIM_BUFSIZE = 2048"

text \<open>The nodes are their numbers; the lists of neighbours have the last one added first.\<close>

record simulator =
  neighbours :: "nat list list"
  datagrams :: "(nat \<times> u8 list) list"
  tun_packets :: "u8 list list"

definition add_neighbour :: "nat \<Rightarrow> nat \<Rightarrow> nat list list \<Rightarrow> nat list list" where
  "add_neighbour n1 n2 ns = ns[n1 := n2 # ns ! n1]"

definition near_step :: "nat \<Rightarrow> bool list \<Rightarrow> nat \<Rightarrow> nat list list \<Rightarrow> nat list list" where
  "near_step i near j ns = (if near ! j then add_neighbour j i (add_neighbour i j ns) else ns)"

text \<open>The loop that places the node \<open>i\<close>; \<open>None\<close> is a loop that has not ended with these attempts.\<close>

fun place_node :: "nat \<Rightarrow> bool list list \<Rightarrow> nat list list \<Rightarrow> nat list list option" where
  "place_node i [] ns = None"
| "place_node i (near # attempts) ns =
    (let ns = fold (near_step i near) [0..<i] ns
     in if i \<noteq> 0 \<and> ns ! i = [] then place_node i attempts ns else Some ns)"

definition create_node :: "bool list list \<Rightarrow> nat list list \<Rightarrow> nat list list option" where
  "create_node attempts ns = place_node (length ns) attempts (ns @ [[]])"

definition create_nodes :: "bool list list list \<Rightarrow> nat list list option" where
  "create_nodes attempts = fold_opt create_node attempts []"

text \<open>
  A packet of the tunnel goes to the first node, as \<open>read\<close> gives it; a datagram of a node, which
  its port tells, goes to its neighbours and, from the first node, to the tunnel behind a header.
\<close>

definition tunnel_input :: "bool \<Rightarrow> u8 list \<Rightarrow> simulator \<Rightarrow> simulator" where
  "tunnel_input lost data s =
    (if lost then s else s\<lparr>datagrams := datagrams s @ [(1025, take SIM_BUFSIZE data)]\<rparr>)"

definition node_input :: "(nat \<Rightarrow> bool) \<Rightarrow> bool \<Rightarrow> nat \<Rightarrow> u8 list \<Rightarrow> simulator \<Rightarrow> simulator" where
  "node_input lost tun_lost port data s =
    (let data = take SIM_BUFSIZE data;
         emitterN = int port - 1025
     in if emitterN \<ge> 0 \<and> nat emitterN < length (neighbours s)
        then
          (let e = nat emitterN;
               s = s\<lparr>datagrams := datagrams s @
                 map (\<lambda>n. (1025 + n, data)) (filter (\<lambda>n. \<not> lost n) (neighbours s ! e))\<rparr>
           in if e = 0 \<and> \<not> tun_lost then s\<lparr>tun_packets := tun_packets s @ [[0, 0, 8, 0] @ data]\<rparr> else s)
        else s)"

section \<open>The network\<close>

definition edges :: "nat list list \<Rightarrow> (nat \<times> nat) set" where
  "edges ns = {(a, b). a < length ns \<and> b \<in> set (ns ! a)}"

text \<open>The neighbour relation is symmetric and irreflexive, on the nodes there are, and reaches all of them.\<close>

definition network :: "nat list list \<Rightarrow> bool" where
  "network ns \<longleftrightarrow> (\<forall>(a, b) \<in> edges ns. (b, a) \<in> edges ns \<and> a \<noteq> b) \<and>
     (\<forall>b < length ns. (0, b) \<in> (edges ns)\<^sup>*)"

lemma length_add_neighbour [simp]: "length (add_neighbour a b ns) = length ns"
  by (simp add: add_neighbour_def)

lemma edges_add_neighbour: "a < length ns \<Longrightarrow> edges (add_neighbour a b ns) = insert (a, b) (edges ns)"
  by (auto simp: edges_def add_neighbour_def nth_list_update split: if_splits)

lemma near_steps:
  assumes "i < length ns"
  shows "length (fold (near_step i near) js ns) = length ns \<and>
    (set js \<subseteq> {..<length ns} \<longrightarrow>
     edges (fold (near_step i near) js ns) = edges ns \<union> {(i, j) | j. j \<in> set js \<and> near ! j} \<union> {(j, i) | j. j \<in> set js \<and> near ! j})"
  using assms
proof (induction js arbitrary: ns)
  case (Cons j js)
  have "length (near_step i near j ns) = length ns" by (simp add: near_step_def)
  moreover have "j < length ns \<Longrightarrow> edges (near_step i near j ns) = edges ns \<union> (if near ! j then {(i, j), (j, i)} else {})"
    using Cons.prems by (simp add: near_step_def edges_add_neighbour insert_commute)
  ultimately show ?case using Cons.IH [of "near_step i near j ns"] Cons.prems by auto
qed simp

text \<open>A node that has been placed: its edges, and one of them if it is not the first.\<close>

lemma place_node_edges:
  "place_node i attempts ns = Some ms \<Longrightarrow> i < length ns \<Longrightarrow> ns ! i = [] \<Longrightarrow>
   \<exists>J. J \<subseteq> {..<i} \<and> length ms = length ns \<and> edges ms = edges ns \<union> {(i, j) | j. j \<in> J} \<union> {(j, i) | j. j \<in> J} \<and>
     (i \<noteq> 0 \<longrightarrow> J \<noteq> {})"
proof (induction attempts arbitrary: ns)
  case (Cons near attempts)
  let ?ns = "fold (near_step i near) [0..<i] ns"
  let ?J = "{j. j < i \<and> near ! j}"
  have ns: "length ?ns = length ns" "edges ?ns = edges ns \<union> {(i, j) | j. j \<in> ?J} \<union> {(j, i) | j. j \<in> ?J}"
    using near_steps [OF Cons.prems(2), of near "[0..<i]"] Cons.prems(2) by auto
  have "j \<in> set (?ns ! i)" if "j \<in> ?J" for j
  proof -
    have "(i, j) \<in> edges ?ns" using ns(2) that by blast
    then show ?thesis by (simp add: edges_def)
  qed
  then have none: "?ns ! i = [] \<Longrightarrow> ?J = {}" by auto
  show ?case
  proof (cases "i \<noteq> 0 \<and> ?ns ! i = []")
    case True
    then have "?J = {}" using none by simp
    then have "edges ?ns = edges ns" unfolding ns(2) by blast
    with Cons.IH [of ?ns] Cons.prems True ns(1) show ?thesis by (simp add: Let_def)
  next
    case False
    have "?J \<noteq> {}" if pos: "i \<noteq> 0"
    proof
      assume "?J = {}"
      then have "edges ?ns = edges ns" unfolding ns(2) by blast
      moreover obtain j where "j \<in> set (?ns ! i)" using False pos by (cases "?ns ! i") auto
      ultimately have "(i, j) \<in> edges ns" using Cons.prems(2) ns(1) by (auto simp: edges_def)
      then show False using Cons.prems(3) by (simp add: edges_def)
    qed
    then show ?thesis using False Cons.prems(1) ns
      by (intro exI [of _ ?J]) (auto simp: Let_def)
  qed
qed simp

lemma edges_snoc: "edges (ns @ [[]]) = edges ns"
  by (auto simp: edges_def nth_append split: if_splits)

lemma create_node_network:
  assumes "network ns" "create_node attempts ns = Some ms"
  shows "network ms \<and> length ms = Suc (length ns)"
proof -
  let ?i = "length ns"
  from place_node_edges [of ?i attempts "ns @ [[]]" ms] assms(2) obtain J where
    J: "J \<subseteq> {..<?i}" "?i \<noteq> 0 \<longrightarrow> J \<noteq> {}" and len: "length ms = Suc ?i"
    and e: "edges ms = edges ns \<union> {(?i, j) | j. j \<in> J} \<union> {(j, ?i) | j. j \<in> J}"
    by (auto simp: create_node_def edges_snoc)
  have "\<forall>(a, b) \<in> edges ms. (b, a) \<in> edges ms \<and> a \<noteq> b"
    using assms(1) J(1) unfolding e network_def by blast
  moreover have old: "(0, b) \<in> (edges ms)\<^sup>*" if "b < ?i" for b
  proof -
    have "edges ns \<subseteq> edges ms" unfolding e by blast
    moreover have "(0, b) \<in> (edges ns)\<^sup>*" using assms(1) that by (simp add: network_def)
    ultimately show ?thesis using rtrancl_mono by blast
  qed
  moreover have "(0, ?i) \<in> (edges ms)\<^sup>*"
  proof (cases "?i = 0")
    case False
    then obtain j where "j \<in> J" "j < ?i" using J by blast
    then have "(0, j) \<in> (edges ms)\<^sup>*" "(j, ?i) \<in> edges ms" using old e by auto
    then show ?thesis by (rule rtrancl_into_rtrancl)
  qed simp
  ultimately show ?thesis using len by (auto simp: network_def less_Suc_eq)
qed

lemma create_nodes_network:
  "fold_opt create_node attempts ns = Some ms \<Longrightarrow> network ns \<Longrightarrow> network ms \<and> length ms = length ns + length attempts"
proof (induction attempts arbitrary: ns)
  case (Cons t ts)
  then obtain ns1 where ns1: "create_node t ns = Some ns1" "fold_opt create_node ts ns1 = Some ms"
    by (auto split: option.splits)
  with Cons.IH [OF ns1(2)] create_node_network [OF Cons.prems(2) ns1(1)] show ?case by simp
qed simp

section \<open>Properties\<close>

text \<open>
  The network that the simulator creates is symmetric and connected, whatever the random numbers: a node hears the
  nodes that hear it, never itself, and every node can be reached from the one at the tunnel.
\<close>

theorem simulated_network_connected:
  assumes "create_nodes attempts = Some ns"
  shows "length ns = length attempts \<and>
    (\<forall>a b. (a, b) \<in> edges ns \<longrightarrow> (b, a) \<in> edges ns \<and> a \<noteq> b) \<and> (\<forall>b < length ns. (0, b) \<in> (edges ns)\<^sup>*)"
proof -
  have "network []" by (simp add: network_def edges_def)
  with create_nodes_network [of attempts "[]" ns] assms show ?thesis
    by (auto simp: create_nodes_def network_def)
qed

theorem simulated_network_connected_witness:
  "\<exists>ns. create_nodes [[[]], [[False], [True]], [[False, True]]] = Some ns \<and> (0, 2) \<in> (edges ns)\<^sup>*"
proof -
  have "create_nodes [[[]], [[False], [True]], [[False, True]]] = Some [[1], [2, 0], [1]]" by code_simp
  from simulated_network_connected [OF this] this show ?thesis by auto
qed

text \<open>
  The header of the tunnel is read into the buffer where the packet is expected: the first octet that
  the node at the tunnel gets of a packet is the first one of this header.
\<close>

lemma tunnel_header_reaches_node:
  assumes "length data \<le> SIM_BUFSIZE" "data \<noteq> []" "in_curr d \<ge> in_nbytes d - 1" "length (in_buffer d) = 2048"
  shows "datagrams (tunnel_input False data s) = datagrams s @ [(1025, data)] \<and>
    (\<exists>t. udp_dev_get (Some (Some data)) d = Some (uint (hd data), t))"
  using assms
  by (simp add: tunnel_input_def udp_dev_get_def dev_get_def next_octet_def Let_def SIM_BUFSIZE_def INBUF_SIZE_def
      nth_append hd_conv_nth)

end
