(* ===== verification/Enc_Registers.thy ===== *)
theory Enc_Registers
  imports Prelude "HOL-Library.Monad_Syntax"
begin

text \<open>
  The registers of the Ethernet controller of the target \<open>Arduino_ethernet\<close>, behind its serial port (\<open>enc624J600.c\<close>, \<open>enc624J600.h\<close>): they are in
  four banks, of which the driver remembers the one it has selected. The memory of the controller is in \<open>Arduino_Ethernet\<close>.

  The controller answers an exchange of octets as its documentation says of the instructions that are used:
  the first octet is an instruction of one octet, from \<open>0xC0\<close> on, or it has in its three high bits what to do with the register of
  its five low bits in the selected bank. A register is named by the octet of its bank and its place in it.
\<close>

section \<open>Model\<close>

definition BANK_MASK :: u8 where "BANK_MASK = 0x60"
definition READ_CONTROL_REGISTER :: u8 where "READ_CONTROL_REGISTER = 0x00"
definition WRITE_CONTROL_REGISTER :: u8 where "WRITE_CONTROL_REGISTER = 0x40"
definition BIT_FIELD_SET :: u8 where "BIT_FIELD_SET = 0x80"
definition ETH_RESET :: u8 where "ETH_RESET = 0xCA"
definition ENABLE_RX :: u8 where "ENABLE_RX = 0xE8"
definition MACON2L :: u8 where "MACON2L = 0x42"

lemmas instruction_defs = BANK_MASK_def READ_CONTROL_REGISTER_def WRITE_CONTROL_REGISTER_def BIT_FIELD_SET_def
  ETH_RESET_def ENABLE_RX_def MACON2L_def

subsection \<open>The controller\<close>

record enc_chip =
  bank :: u8
  regs :: "u8 \<Rightarrow> u8"
  reset_regs :: "u8 \<Rightarrow> u8"
  instructions :: "u8 list"

definition single_byte :: "u8 \<Rightarrow> enc_chip \<Rightarrow> enc_chip" where
  "single_byte c h =
    (let h = h\<lparr>instructions := instructions h @ [c]\<rparr>
     in if c = 0xC0 then h\<lparr>bank := 0x00\<rparr>
        else if c = 0xC2 then h\<lparr>bank := 0x20\<rparr>
        else if c = 0xC4 then h\<lparr>bank := 0x40\<rparr>
        else if c = 0xC6 then h\<lparr>bank := 0x60\<rparr>
        else if c = ETH_RESET then h\<lparr>bank := 0x00, regs := reset_regs h\<rparr>
        else h)"

text \<open>An exchange of two octets, with the one that is read; behind an instruction of one octet the second has no effect.\<close>

definition two_bytes :: "u8 \<Rightarrow> u8 \<Rightarrow> enc_chip \<Rightarrow> u8 \<times> enc_chip" where
  "two_bytes c d h =
    (let r = bank h OR (c AND 0x1F)
     in if c AND 0xC0 = 0xC0 then (0, single_byte c h)
        else if c AND 0xE0 = READ_CONTROL_REGISTER then (regs h r, h)
        else if c AND 0xE0 = WRITE_CONTROL_REGISTER then (0, h\<lparr>regs := (regs h)(r := d)\<rparr>)
        else if c AND 0xE0 = BIT_FIELD_SET then (0, h\<lparr>regs := (regs h)(r := regs h r OR d)\<rparr>)
        else (0, h))"

subsection \<open>Access to the registers\<close>

record enc_io =
  chip :: enc_chip
  ENC624J600Bank :: u8

definition ENC624J600SBI :: "u8 \<Rightarrow> enc_io \<Rightarrow> enc_io" where
  "ENC624J600SBI c s = s\<lparr>chip := single_byte c (chip s)\<rparr>"

definition ENC624J600ReadOp :: "u8 \<Rightarrow> u8 \<Rightarrow> enc_io \<Rightarrow> u8 \<times> enc_io" where
  "ENC624J600ReadOp op a s = (let (d, h) = two_bytes (op OR a) 0x00 (chip s) in (d, s\<lparr>chip := h\<rparr>))"

definition ENC624J600WriteOp :: "u8 \<Rightarrow> u8 \<Rightarrow> u8 \<Rightarrow> enc_io \<Rightarrow> enc_io" where
  "ENC624J600WriteOp op a d s = s\<lparr>chip := snd (two_bytes (op OR a) d (chip s))\<rparr>"

definition ENC624J600SetBank :: "u8 \<Rightarrow> enc_io \<Rightarrow> enc_io" where
  "ENC624J600SetBank a s =
    (if a AND BANK_MASK \<noteq> ENC624J600Bank s then
       (let s = s\<lparr>ENC624J600Bank := a AND BANK_MASK\<rparr>; b = drop_bit 5 (ENC624J600Bank s)
        in if b = 0 then ENC624J600SBI 0xC0 s
           else if b = 1 then ENC624J600SBI 0xC2 s
           else if b = 2 then ENC624J600SBI 0xC4 s
           else if b = 3 then ENC624J600SBI 0xC6 s
           else s)
     else s)"

definition ENC624J600Read :: "u8 \<Rightarrow> enc_io \<Rightarrow> u8 \<times> enc_io" where
  "ENC624J600Read a s = ENC624J600ReadOp READ_CONTROL_REGISTER (a AND 0x1F) (ENC624J600SetBank a s)"

definition ENC624J600Write :: "u8 \<Rightarrow> u8 \<Rightarrow> enc_io \<Rightarrow> enc_io" where
  "ENC624J600Write a d s = ENC624J600WriteOp WRITE_CONTROL_REGISTER (a AND 0x1F) d (ENC624J600SetBank a s)"

subsection \<open>Initialisation\<close>

text \<open>The loops that wait for the controller, and the registers that are written, in their order.\<close>

partial_function (option) wait_eudast :: "enc_io \<Rightarrow> enc_io option" where
  "wait_eudast s =
    (let (l, s) = ENC624J600Read 0x16 s;
         (wrong, s) = (if l \<noteq> 0x34 then (True, s) else let (h, s) = ENC624J600Read 0x17 s in (h \<noteq> 0x12, s))
     in if wrong then wait_eudast (ENC624J600Write 0x17 0x12 (ENC624J600Write 0x16 0x34 s)) else Some s)"

partial_function (option) wait_clock :: "enc_io \<Rightarrow> enc_io option" where
  "wait_clock s =
    (let (h, s) = ENC624J600Read 0x1B s in if unat h AND 0x1000 \<noteq> 0 then wait_clock s else Some s)"

definition write_all :: "(u8 \<times> u8) list \<Rightarrow> enc_io \<Rightarrow> enc_io" where
  "write_all ws s = fold (\<lambda>(a, d). ENC624J600Write a d) ws s"

definition buffer_writes :: "(u8 \<times> u8) list" where
  "buffer_writes =
    [(0x04, 0x40), (0x05, 0x13), (0x06, 0xFE), (0x07, 0x5F),
     (0x16, 0x29), (0x17, 0x00), (0x18, 0x00), (0x19, 0x00)]"

definition pattern_writes :: "u16 option \<Rightarrow> (u8 \<times> u8) list" where
  "pattern_writes ck =
    (case ck of
       None \<Rightarrow> []
     | Some k \<Rightarrow>
        [(0x32, 0x00), (0x33, 0x00), (0x28, 0x3F), (0x29, 0xF0), (0x2A, 0x3F), (0x2B, 0x00), (0x2C, 0xC0), (0x2D, 0x03),
         (0x2E, 0x00), (0x2F, 0x00), (0x30, u16_to_u8 (k AND 0xFF)), (0x31, u16_to_u8 (drop_bit 8 k))])"

definition mac_writes :: "u8 list \<Rightarrow> (u8 \<times> u8) list" where
  "mac_writes mac =
    [(0x4A, 0xEE), (0x4B, 0x05),
     (0x64, mac ! 0), (0x65, mac ! 1), (0x62, mac ! 2), (0x63, mac ! 3), (0x60, mac ! 4), (0x61, mac ! 5),
     (0x6F, 0xA0), (0x72, 0x40), (0x73, 0x80)]"

definition enc_init :: "u8 list \<Rightarrow> u16 option \<Rightarrow> enc_io \<Rightarrow> enc_io option" where
  "enc_init mac ck s = do {
     s \<leftarrow> wait_eudast (ENC624J600Write 0x17 0x12 (ENC624J600Write 0x16 0x34 s));
     s \<leftarrow> wait_clock s;
     let s = ENC624J600SBI ETH_RESET s;
     let (l, s) = ENC624J600Read 0x16 s;
     let (zero, s) = (if l = 0 then let (h, s) = ENC624J600Read 0x17 s in (h = 0, s) else (False, s));
     Some (if zero then
        (let s = write_all buffer_writes s;
             s = write_all ((0x34, 0x58) # pattern_writes ck @ [(0x35, 0x01)]) s;
             s = ENC624J600WriteOp BIT_FIELD_SET MACON2L 0x74 s;
             s = write_all (mac_writes mac) s
         in ENC624J600SBI ENABLE_RX s)
      else s)
   }"

section \<open>Registers that are written and read\<close>

text \<open>
  The interface of the registers: what is written is read again, and nothing else changes. \<open>regs_of\<close> is the value of every register.
\<close>

locale register_file =
  fixes good :: "'s \<Rightarrow> bool"
    and valid :: "'a \<Rightarrow> bool"
    and regs_of :: "'s \<Rightarrow> 'a \<Rightarrow> 'v"
    and rd :: "'a \<Rightarrow> 's \<Rightarrow> 'v \<times> 's"
    and wr :: "'a \<Rightarrow> 'v \<Rightarrow> 's \<Rightarrow> 's"
  assumes wr_good: "good s \<Longrightarrow> valid a \<Longrightarrow> good (wr a v s)"
    and wr_regs: "good s \<Longrightarrow> valid a \<Longrightarrow> regs_of (wr a v s) = (regs_of s)(a := v)"
    and rd_good: "good s \<Longrightarrow> valid a \<Longrightarrow> good (snd (rd a s))"
    and rd_regs: "good s \<Longrightarrow> valid a \<Longrightarrow> regs_of (snd (rd a s)) = regs_of s"
    and rd_value: "good s \<Longrightarrow> valid a \<Longrightarrow> fst (rd a s) = regs_of s a"
begin

lemma writes:
  "good s \<Longrightarrow> \<forall>x \<in> set ws. valid (fst x) \<Longrightarrow>
   good (fold (\<lambda>(a, v). wr a v) ws s) \<and>
   regs_of (fold (\<lambda>(a, v). wr a v) ws s) = (\<lambda>a. case map_of (rev ws) a of Some v \<Rightarrow> v | None \<Rightarrow> regs_of s a)"
proof (induction ws arbitrary: s)
  case (Cons x ws)
  obtain a v where x: "x = (a, v)" by (cases x)
  then have "good (wr a v s)" "regs_of (wr a v s) = (regs_of s)(a := v)"
    using Cons.prems wr_good wr_regs by simp_all
  then show ?case using Cons.IH [of "wr a v s"] Cons.prems(2) x
    by (auto simp: fun_eq_iff map_add_def split: option.splits)
qed simp

lemma read_written: "good s \<Longrightarrow> valid a \<Longrightarrow> fst (rd a (wr a v s)) = v"
  using wr_good [of s a v] wr_regs [of s a v] rd_value [of "wr a v s" a] by simp

end

definition in_step :: "enc_io \<Rightarrow> bool" where
  "in_step s \<longleftrightarrow> ENC624J600Bank s = bank (chip s) \<and> bank (chip s) \<in> {0x00, 0x20, 0x40, 0x60}"

text \<open>The names of registers have seven bits.\<close>

definition register_name :: "u8 \<Rightarrow> bool" where
  "register_name a \<longleftrightarrow> a AND 0x7F = a"

lemma octet_eqI:
  "(\<And>i. i < 8 \<Longrightarrow> bit a i = bit b i) \<Longrightarrow> a = b" for a b :: u8
  by (rule bit_word_eqI) simp

lemma octet_cases: "i < 8 \<Longrightarrow> i \<in> {0, 1, 2, 3, 4, 5, 6, 7 :: nat}"
  by auto

lemma instruction_octets:
  "(0x40 OR (a AND 0x1F)) AND 0xE0 = (0x40 :: u8)" "(0x40 OR (a AND 0x1F)) AND 0xC0 = (0x40 :: u8)"
  "(0x40 OR (a AND 0x1F)) AND 0x1F = a AND (0x1F :: u8)" "(a AND 0x1F) AND 0xE0 = (0 :: u8)" "(a AND 0x1F) AND 0xC0 = (0 :: u8)" "(a AND 0x1F) AND 0x1F = a AND (0x1F :: u8)"
  "(a AND 0x60) OR (a AND 0x1F) = a AND (0x7F :: u8)"
  by (rule octet_eqI, drule octet_cases, auto simp: bit_simps)+

lemma bank_cases: "a AND 0x60 \<in> {0x00, 0x20, 0x40, 0x60 :: u8}"
proof -
  have "a AND 0x60 = (if bit a 5 then 0x20 else 0) OR (if bit a 6 then 0x40 else (0 :: u8))"
    by (rule octet_eqI, drule octet_cases, auto simp: bit_simps)
  then show ?thesis by simp
qed

lemma selected:
  assumes "in_step s" "t = ENC624J600SetBank a s"
  shows "in_step t \<and> bank (chip t) = a AND 0x60 \<and> regs (chip t) = regs (chip s) \<and> reset_regs (chip t) = reset_regs (chip s)"
proof -
  consider "a AND 0x60 = 0x00" | "a AND 0x60 = 0x20" | "a AND 0x60 = 0x40" | "a AND 0x60 = 0x60"
    using bank_cases [of a] by auto
  then show ?thesis
    using assms
    by cases (auto simp: in_step_def ENC624J600SetBank_def BANK_MASK_def ENC624J600SBI_def single_byte_def Let_def drop_bit_eq_div)
qed

lemma written:
  assumes "in_step s" "register_name a" "t = ENC624J600Write a d s"
  shows "in_step t \<and> regs (chip t) = (regs (chip s))(a := d) \<and> reset_regs (chip t) = reset_regs (chip s) \<and>
    bank (chip t) = a AND 0x60"
  using selected [OF assms(1) refl, of a] assms(2,3) bank_cases [of a]
  by (simp add: ENC624J600Write_def ENC624J600WriteOp_def two_bytes_def instruction_defs instruction_octets Let_def
      in_step_def register_name_def)

lemma was_read:
  assumes "in_step s" "register_name a"
  shows "fst (ENC624J600Read a s) = regs (chip s) a \<and> in_step (snd (ENC624J600Read a s)) \<and>
    regs (chip (snd (ENC624J600Read a s))) = regs (chip s) \<and> reset_regs (chip (snd (ENC624J600Read a s))) = reset_regs (chip s)"
  using selected [OF assms(1) refl, of a] assms(2) bank_cases [of a]
  by (simp add: ENC624J600Read_def ENC624J600ReadOp_def two_bytes_def instruction_defs instruction_octets Let_def
      in_step_def register_name_def)

interpretation enc: register_file in_step register_name "\<lambda>s. regs (chip s)" ENC624J600Read ENC624J600Write
  by unfold_locales (simp_all add: written [OF _ _ refl] was_read)

section \<open>Initialisation\<close>

definition updated :: "(u8 \<times> u8) list \<Rightarrow> (u8 \<Rightarrow> u8) \<Rightarrow> u8 \<Rightarrow> u8" where
  "updated ws r = (\<lambda>a. case map_of (rev ws) a of Some v \<Rightarrow> v | None \<Rightarrow> r a)"

lemma updated_append: "updated (xs @ ys) r = updated ys (updated xs r)"
  by (auto simp: updated_def fun_eq_iff map_add_def split: option.splits)

lemma updated_one: "updated [(a, v)] r = r(a := v)"
  by (simp add: updated_def fun_eq_iff)

lemma write_all_regs:
  assumes "in_step s" "\<forall>x \<in> set ws. register_name (fst x)"
  shows "in_step (write_all ws s) \<and> regs (chip (write_all ws s)) = updated ws (regs (chip s))"
  using enc.writes [OF assms] by (simp add: write_all_def updated_def)

text \<open>
  The bits of \<open>MACON2L\<close> are set with the name of the register, which has the bits of its bank, instead of its place in the bank: what
  is sent is the instruction that selects bank 1. The register stays as it is, and the bank is by chance the one selected before.
\<close>

lemma bits_not_set:
  "ENC624J600WriteOp BIT_FIELD_SET MACON2L d s = s\<lparr>chip := (chip s)\<lparr>instructions := instructions (chip s) @ [0xC2], bank := 0x20\<rparr>\<rparr>"
  by (simp add: ENC624J600WriteOp_def two_bytes_def single_byte_def instruction_defs Let_def)

text \<open>The test of the clock is of a bit that an octet does not have: nothing is waited for.\<close>

lemma clock_not_awaited: "wait_clock s = Some (snd (ENC624J600Read 0x1B s))"
proof -
  have "unat h AND 0x1000 = 0" for h :: u8
  proof (rule bit_eqI)
    fix n
    have "(0x1000 :: nat) = 2 ^ 12" by simp
    then have "bit (0x1000 :: nat) n \<longleftrightarrow> n = 12" by (simp only: bit_exp_iff) auto
    moreover have "take_bit 8 (unat h) = unat h" using unat_u8_lt [of h] by (simp add: take_bit_nat_eq_self)
    then have "\<not> bit (unat h) 12" using bit_take_bit_iff [of 8 "unat h" 12] by simp
    ultimately show "bit (unat h AND 0x1000) n \<longleftrightarrow> bit (0 :: nat) n" by (auto simp: bit_and_iff)
  qed
  then show ?thesis by (subst wait_clock.simps) (simp add: split_beta Let_def)
qed

lemma names: "register_name 0x16" "register_name 0x17" "register_name 0x1B"
  by (simp_all add: register_name_def)

lemma init_names:
  "\<forall>x \<in> set buffer_writes. register_name (fst x)" "\<forall>x \<in> set ((0x34, 0x58) # pattern_writes ck). register_name (fst x)"
  "\<forall>x \<in> set (mac_writes mac). register_name (fst x)"
  by (auto simp: register_name_def buffer_writes_def pattern_writes_def mac_writes_def split: option.splits)

lemma eudast_written:
  assumes "in_step s"
  shows "\<exists>t. wait_eudast (ENC624J600Write 0x17 0x12 (ENC624J600Write 0x16 0x34 s)) = Some t \<and> in_step t \<and>
    reset_regs (chip t) = reset_regs (chip s)"
proof -
  define u where "u = ENC624J600Write 0x17 0x12 (ENC624J600Write 0x16 0x34 s)"
  have u: "in_step u" "regs (chip u) 0x16 = 0x34" "regs (chip u) 0x17 = 0x12" "reset_regs (chip u) = reset_regs (chip s)"
    using written [where a = "0x16" and s = s and d = "0x34", OF assms names(1) refl]
      written [where a = "0x17" and s = "ENC624J600Write 0x16 0x34 s" and d = "0x12", OF _ names(2) refl] by (simp_all add: u_def)
  note l = was_read [OF u(1) names(1)]
  note h = was_read [where s = "snd (ENC624J600Read 0x16 u)", OF _ names(2)]
  have "wait_eudast u = Some (snd (ENC624J600Read 0x17 (snd (ENC624J600Read 0x16 u))))"
    using l h u by (subst wait_eudast.simps) (simp add: split_beta Let_def)
  then show ?thesis using l h u unfolding u_def [symmetric] by simp
qed

definition init_writes :: "u8 list \<Rightarrow> u16 option \<Rightarrow> (u8 \<times> u8) list" where
  "init_writes mac ck = buffer_writes @ ((0x34, 0x58) # pattern_writes ck @ [(0x35, 0x01)]) @ mac_writes mac"

text \<open>
  When the controller has been reset, \<open>ENC624J600Init\<close> returns, and every register has the value that it wrote there last or else the one of
  the reset; in particular the register \<open>MACON2L\<close>, whose bits it means to set, is as the reset left it.
\<close>

lemma init_sets_registers:
  assumes "in_step s" "reset_regs (chip s) 0x16 = 0" "reset_regs (chip s) 0x17 = 0"
  shows "\<exists>t. enc_init mac ck s = Some t \<and> in_step t \<and> last (instructions (chip t)) = ENABLE_RX \<and>
    regs (chip t) = updated (init_writes mac ck) (reset_regs (chip s)) \<and>
    regs (chip t) MACON2L = reset_regs (chip s) MACON2L"
proof -
  obtain s1 where s1: "wait_eudast (ENC624J600Write 0x17 0x12 (ENC624J600Write 0x16 0x34 s)) = Some s1" "in_step s1"
    "reset_regs (chip s1) = reset_regs (chip s)" using eudast_written [OF assms(1)] by blast
  define s2 where "s2 = snd (ENC624J600Read 0x1B s1)"
  have s2: "in_step s2" "reset_regs (chip s2) = reset_regs (chip s)" using was_read [OF s1(2) names(3)] s1(3) by (simp_all add: s2_def)
  have b2: "ENC624J600Bank s2 = 0"
    using selected [where a = "0x1B", OF s1(2) refl] s2(1)
    by (simp add: s2_def ENC624J600Read_def ENC624J600ReadOp_def split_beta Let_def in_step_def)
  define s3 where "s3 = ENC624J600SBI ETH_RESET s2"
  have s3: "in_step s3" "regs (chip s3) = reset_regs (chip s)"
    using s2 b2 by (simp_all add: s3_def ENC624J600SBI_def single_byte_def in_step_def Let_def ETH_RESET_def)
  define s4 where "s4 = snd (ENC624J600Read 0x17 (snd (ENC624J600Read 0x16 s3)))"
  have z: "fst (ENC624J600Read 0x16 s3) = 0" "fst (ENC624J600Read 0x17 (snd (ENC624J600Read 0x16 s3))) = 0"
    and s4: "in_step s4" "regs (chip s4) = reset_regs (chip s)"
    using was_read [OF s3(1) names(1)] was_read [where s = "snd (ENC624J600Read 0x16 s3)", OF _ names(2)] names s3(2) assms(2,3)
    by (simp_all add: s4_def)
  define s5 where "s5 = write_all ((0x34, 0x58) # pattern_writes ck) (write_all buffer_writes s4)"
  define s6 where "s6 = ENC624J600Write 0x35 0x01 s5"
  define s7 where "s7 = ENC624J600WriteOp BIT_FIELD_SET MACON2L 0x74 s6"
  define s8 where "s8 = write_all (mac_writes mac) s7"
  let ?r = "reset_regs (chip s)"
  have s5: "in_step s5" "regs (chip s5) = updated (buffer_writes @ (0x34, 0x58) # pattern_writes ck) ?r"
    using write_all_regs [OF s4(1) init_names(1)] write_all_regs [OF _ init_names(2), of "write_all buffer_writes s4"] s4(2)
    by (simp_all add: s5_def updated_append)
  have n: "register_name 0x35" by (simp add: register_name_def)
  have s6: "in_step s6" "bank (chip s6) = 0x20" "regs (chip s6) = updated (buffer_writes @ (0x34, 0x58) # pattern_writes ck @ [(0x35, 0x01)]) ?r"
    using written [OF s5(1) n s6_def] s5(2)
      updated_append [of "buffer_writes @ (0x34, 0x58) # pattern_writes ck" "[(0x35, 0x01)]" ?r]
    by (simp_all add: updated_one)
  have s7: "in_step s7" "regs (chip s7) = regs (chip s6)"
    using s6(1,2) by (auto simp: s7_def bits_not_set in_step_def)
  have s8: "in_step s8" "regs (chip s8) = updated (init_writes mac ck) ?r"
    using write_all_regs [OF s7(1) init_names(3)] s6(3) s7(2)
      updated_append [of "buffer_writes @ (0x34, 0x58) # pattern_writes ck @ [(0x35, 0x01)]" "mac_writes mac" ?r]
    by (simp_all add: s8_def init_writes_def)
  have "enc_init mac ck s = Some (ENC624J600SBI ENABLE_RX s8)"
    using s1(1) z
    by (simp add: enc_init_def clock_not_awaited s2_def [symmetric] s3_def [symmetric] s4_def [symmetric] split_beta Let_def)
      (simp add: s8_def s7_def s6_def s5_def write_all_def)
  moreover have "in_step (ENC624J600SBI ENABLE_RX s8)" "regs (chip (ENC624J600SBI ENABLE_RX s8)) = regs (chip s8)"
    "last (instructions (chip (ENC624J600SBI ENABLE_RX s8))) = ENABLE_RX"
    using s8(1) by (simp_all add: ENC624J600SBI_def single_byte_def in_step_def ENABLE_RX_def ETH_RESET_def Let_def)
  moreover have "updated (init_writes mac ck) ?r MACON2L = ?r MACON2L"
    by (cases ck) (simp_all add: updated_def init_writes_def buffer_writes_def pattern_writes_def mac_writes_def MACON2L_def)
  ultimately show ?thesis using s8(2) by auto
qed

end
