(* ===== verification/Arduino_Ethernet.thy ===== *)
theory Arduino_Ethernet
  imports Prelude
begin

unbundle bit_operations_syntax

text \<open>
  The Ethernet driver of the target \<open>Arduino_ethernet\<close> (\<open>dev.c\<close> and the part of \<open>enc624J600.c\<close> behind the access to registers),
  for IPv4: a controller with 24 kilobytes of memory and its own pointers, an interrupt handler that sorts the packets received,
  and \<open>dev_get\<close> and \<open>dev_put\<close>, which move them through buffers of 64 octets.

  The memory of the controller is \<open>mem\<close>, with the areas of \<open>enc624J600.h\<close>: the prepared ARP answer, two packets to send, and
  from \<open>RXSTART\<close> on the packets received. As its documentation says, \<open>erxrdpt\<close> advances over the octets read and goes from the
  last one to \<open>RXSTART\<close>, and \<open>egpwrpt\<close> over those written. Frames that are sent are collected in \<open>frames\<close>, the calls of
  \<open>add_link_layer_address\<close> in \<open>added\<close>; \<open>get_link_layer_address\<close> is the argument \<open>cache\<close>.
\<close>

section \<open>Model\<close>

definition MAX_PACKET :: nat where "MAX_PACKET = 10"
definition MAX_TAMPON :: nat where "MAX_TAMPON = 64"
definition USER_START :: nat where "USER_START = 0"
definition TXSTART :: nat where "TXSTART = 0x30"
definition TXSTART_2 :: nat where "TXSTART_2 = 0x0A00"
definition RXSTART :: nat where "RXSTART = 0x1340"
definition RXSTOP :: nat where "RXSTOP = 0x5FFE"
definition MEM_END :: nat where "MEM_END = 0x6000"

lemmas area_defs = USER_START_def TXSTART_def TXSTART_2_def RXSTART_def MEM_END_def

record packet_t =
  packetPtr :: nat
  nextPtr :: nat
  psize :: u16

record enc =
  mem :: "nat \<Rightarrow> u8"
  erxrdpt :: nat
  egpwrpt :: nat
  erxtail :: nat
  frames :: "u8 list list"
  pktdec :: nat
  NextPacketPtr :: nat
  PacketPtr :: nat
  IPPacketTab :: "packet_t list"
  read_idx :: nat
  write_idx :: nat
  added :: "(u8 list \<times> u8 list) list"
  packet_size :: nat
  tampon :: "u8 list"
  indice_write :: nat
  tampon_read :: "u8 list"
  indice_read :: nat
  first :: bool
  choix_TX :: nat

subsection \<open>The controller\<close>

definition rx_next :: "nat \<Rightarrow> nat" where
  "rx_next a = (if a = MEM_END - 1 then RXSTART else a + 1)"

fun rx_octets :: "(nat \<Rightarrow> u8) \<Rightarrow> nat \<Rightarrow> nat \<Rightarrow> u8 list" where
  "rx_octets m a 0 = []"
| "rx_octets m a (Suc n) = m a # rx_octets m (rx_next a) n"

text \<open>The address \<open>0xFFFF\<close> stands for the place where the last access ended.\<close>

definition ENC624J600ReadRXBuffer :: "nat \<Rightarrow> nat \<Rightarrow> enc \<Rightarrow> u8 list \<times> enc" where
  "ENC624J600ReadRXBuffer addr n s =
    (let a = (if addr \<noteq> 0xFFFF then addr else erxrdpt s)
     in (rx_octets (mem s) a n, s\<lparr>erxrdpt := (rx_next ^^ n) a\<rparr>))"

fun gp_store :: "nat \<Rightarrow> u8 list \<Rightarrow> (nat \<Rightarrow> u8) \<Rightarrow> (nat \<Rightarrow> u8)" where
  "gp_store a [] m = m"
| "gp_store a (c # cs) m = gp_store ((a + 1) mod MEM_END) cs (m(a := c))"

definition ENC624J600WriteGPBuffer :: "nat \<Rightarrow> u8 list \<Rightarrow> enc \<Rightarrow> enc" where
  "ENC624J600WriteGPBuffer addr d s =
    (let a = (if addr \<noteq> 0xFFFF then addr else egpwrpt s)
     in s\<lparr>mem := gp_store (a mod MEM_END) d (mem s), egpwrpt := (a + length d) mod MEM_END\<rparr>)"

definition ENC624J600WriteUser :: "nat \<Rightarrow> u8 \<Rightarrow> enc \<Rightarrow> enc" where
  "ENC624J600WriteUser addr c s = ENC624J600WriteGPBuffer addr [c] s"

definition ENC624J600Send :: "nat \<Rightarrow> nat \<Rightarrow> enc \<Rightarrow> enc" where
  "ENC624J600Send addr n s = s\<lparr>frames := frames s @ [map (\<lambda>i. mem s ((addr + i) mod MEM_END)) [0..<n]]\<rparr>"

definition write_tail :: "nat \<Rightarrow> enc \<Rightarrow> enc" where
  "write_tail p s = s\<lparr>erxtail := p - 2\<rparr>"

subsection \<open>The interrupt handler\<close>

definition ENC624J600FreedUpMemory :: "enc \<Rightarrow> enc" where
  "ENC624J600FreedUpMemory s =
    (let i = (if write_idx s = 0 then MAX_PACKET - 1 else write_idx s - 1)
     in if psize (IPPacketTab s ! i) \<noteq> 0
        then s\<lparr>IPPacketTab := (IPPacketTab s)[i := (IPPacketTab s ! i)\<lparr>nextPtr := NextPacketPtr s\<rparr>]\<rparr>
        else write_tail (NextPacketPtr s) s)"

text \<open>The answer that \<open>ENC624J600Init\<close> prepares: an ARP reply without the addresses of the node that asks.\<close>

definition arpResponse :: "u8 list \<Rightarrow> u8 list \<Rightarrow> u8 list" where
  "arpResponse mac ip_addr =
    [0xFF, 0xFF, 0xFF, 0xFF, 0xFF, 0xFF, 0x08, 0x06, 0x00, 0x01, 0x08, 0x00, 0x06, 0x04, 0x00, 0x02] @ mac @ ip_addr @
    [0, 0, 0, 0, 0, 0, 0, 0, 0, 0]"

text \<open>\<open>reset\<close> says whether the controller has been found reset; the other registers are in \<open>Enc_Registers\<close>.\<close>

definition ENC624J600Init :: "u8 list \<Rightarrow> u8 list \<Rightarrow> bool \<Rightarrow> enc \<Rightarrow> enc" where
  "ENC624J600Init mac ip_addr reset s =
    (let s = (if reset then ENC624J600WriteGPBuffer USER_START (arpResponse mac ip_addr)
                (s\<lparr>NextPacketPtr := RXSTART, erxtail := RXSTOP\<rparr>) else s)
     in s\<lparr>write_idx := 0, read_idx := 0\<rparr>)"

definition arduino_eth_dev_init :: "u8 list \<Rightarrow> u8 list \<Rightarrow> bool \<Rightarrow> enc \<Rightarrow> enc" where
  "arduino_eth_dev_init mac ip_addr reset s = ENC624J600Init mac ip_addr reset (s\<lparr>choix_TX := TXSTART\<rparr>)"

definition answer_arp :: "enc \<Rightarrow> enc" where
  "answer_arp s =
    (let (mac, s) = ENC624J600ReadRXBuffer (PacketPtr s + 8 + 6) 6 s;
         s = ENC624J600WriteGPBuffer USER_START mac s;
         s = ENC624J600WriteGPBuffer (USER_START + 26) mac s;
         (ip, s) = ENC624J600ReadRXBuffer (PacketPtr s + 8 + 28) 4 s;
         s = ENC624J600WriteGPBuffer (USER_START + 32) ip s;
         s = ENC624J600Send USER_START (42 - 6) s
     in ENC624J600FreedUpMemory s)"

definition answer_ping :: "u8 list \<Rightarrow> nat \<Rightarrow> enc \<Rightarrow> enc" where
  "answer_ping ip_addr len s =
    (let s = ENC624J600WriteUser (PacketPtr s + 7 + 35) 0 s;
         (head, s) = ENC624J600ReadRXBuffer (PacketPtr s + 8 + 26) 4 s;
         s = ENC624J600WriteGPBuffer (PacketPtr s + 8 + 30) head s;
         s = ENC624J600WriteUser (PacketPtr s + 8 + 26) (ip_addr ! 0) s;
         s = ENC624J600WriteUser (PacketPtr s + 8 + 27) (ip_addr ! 1) s;
         s = ENC624J600WriteUser (PacketPtr s + 8 + 28) (ip_addr ! 2) s;
         s = ENC624J600WriteUser (PacketPtr s + 8 + 29) (ip_addr ! 3) s;
         s = ENC624J600Send (PacketPtr s + 8 + 6) (len - 10) s
     in ENC624J600FreedUpMemory s)"

definition enqueue_packet :: "u16 \<Rightarrow> enc \<Rightarrow> enc" where
  "enqueue_packet len s =
    (let s = s\<lparr>IPPacketTab := (IPPacketTab s)[write_idx s :=
           \<lparr>packetPtr = PacketPtr s, nextPtr = NextPacketPtr s, psize = len - 18\<rparr>]\<rparr>;
         (mac, s) = ENC624J600ReadRXBuffer (PacketPtr s + 8 + 6) 6 s;
         (ip, s) = ENC624J600ReadRXBuffer (PacketPtr s + 8 + 14 + 12) 4 s;
         s = s\<lparr>added := added s @ [(rev ip, mac)]\<rparr>
     in s\<lparr>write_idx := (if write_idx s < MAX_PACKET - 1 then write_idx s + 1 else 0)\<rparr>)"

definition join16 :: "u8 \<Rightarrow> u8 \<Rightarrow> u16" where
  "join16 hi lo = push_bit 8 (u8_to_u16 hi) OR u8_to_u16 lo"

definition ENC624J600PacketReceive :: "u8 list \<Rightarrow> bool \<Rightarrow> enc \<Rightarrow> enc" where
  "ENC624J600PacketReceive ip_addr pktif s =
    (if \<not> pktif then s
     else
      (let saved_rd = erxrdpt s; saved_wr = egpwrpt s;
           s = s\<lparr>PacketPtr := NextPacketPtr s\<rparr>;
           (head, s) = ENC624J600ReadRXBuffer (PacketPtr s) 8 s;
           s = s\<lparr>NextPacketPtr := unat (join16 (head ! 1) (head ! 0))\<rparr>;
           len = join16 (head ! 3) (head ! 2);
           (type, s) = ENC624J600ReadRXBuffer (PacketPtr s + 8 + 12) 2 s;
           s = (if type = [8, 6] then answer_arp s
                else if type = [8, 0] then
                  (let (proto, s) = ENC624J600ReadRXBuffer (PacketPtr s + 8 + 23) 1 s
                   in if proto ! 0 = 1 then answer_ping ip_addr (unat len) s else enqueue_packet len s)
                else s);
           s = s\<lparr>pktdec := pktdec s + 1\<rparr>
       in s\<lparr>erxrdpt := saved_rd, egpwrpt := saved_wr\<rparr>))"

subsection \<open>Reading\<close>

text \<open>The first octets of a packet, and the next ones when the buffer has been read.\<close>

definition read_first :: "enc \<Rightarrow> enc" where
  "read_first s =
    (if first s then
       (let p = IPPacketTab s ! read_idx s;
            n = min MAX_TAMPON (unat (psize p));
            (d, s) = ENC624J600ReadRXBuffer (packetPtr p + 8 + 14) n s
        in s\<lparr>tampon_read := d @ drop n (tampon_read s), indice_read := 0, first := False\<rparr>)
     else s)"

definition read_more :: "enc \<Rightarrow> enc" where
  "read_more s =
    (if indice_read s = MAX_TAMPON then
       (let n = min MAX_TAMPON (unat (psize (IPPacketTab s ! read_idx s)));
            (d, s) = ENC624J600ReadRXBuffer 0xFFFF n s
        in s\<lparr>tampon_read := d @ drop n (tampon_read s), indice_read := 0\<rparr>)
     else s)"

definition end_packet :: "enc \<Rightarrow> enc" where
  "end_packet s =
    (let s = write_tail (nextPtr (IPPacketTab s ! read_idx s)) (s\<lparr>first := True\<rparr>)
     in s\<lparr>read_idx := (if read_idx s < MAX_PACKET - 1 then read_idx s + 1 else 0)\<rparr>)"

definition arduino_eth_dev_get :: "enc \<Rightarrow> int \<times> enc" where
  "arduino_eth_dev_get s =
    (if psize (IPPacketTab s ! read_idx s) = 0 then (- 1, s)
     else
      (let s = read_more (read_first s);
           byte = tampon_read s ! indice_read s;
           p = IPPacketTab s ! read_idx s;
           s = s\<lparr>indice_read := indice_read s + 1,
                 IPPacketTab := (IPPacketTab s)[read_idx s := p\<lparr>psize := psize p - 1\<rparr>]\<rparr>;
           s = (if psize (IPPacketTab s ! read_idx s) = 0 then end_packet s else s)
       in (uint byte, s)))"

definition data_available :: "enc \<Rightarrow> bool" where
  "data_available s \<longleftrightarrow> psize (IPPacketTab s ! read_idx s) > 0"

subsection \<open>Writing\<close>

definition arduino_eth_prepare_output :: "nat \<Rightarrow> enc \<Rightarrow> enc" where
  "arduino_eth_prepare_output n s =
    (let s = ENC624J600WriteGPBuffer (choix_TX s + 6) [8, 0] (s\<lparr>packet_size := n + 8\<rparr>)
     in s\<lparr>indice_write := 0\<rparr>)"

definition arduino_eth_dev_put :: "u8 \<Rightarrow> enc \<Rightarrow> enc" where
  "arduino_eth_dev_put c s =
    (let s = s\<lparr>tampon := (tampon s)[indice_write s := c], indice_write := indice_write s + 1\<rparr>
     in if indice_write s = MAX_TAMPON
        then (ENC624J600WriteGPBuffer 0xFFFF (take MAX_TAMPON (tampon s)) s)\<lparr>indice_write := 0\<rparr> else s)"

text \<open>The last octets, which are still in the buffer.\<close>

definition flush_tampon :: "enc \<Rightarrow> enc" where
  "flush_tampon s = (if indice_write s \<noteq> 0 then ENC624J600WriteGPBuffer 0xFFFF (take (indice_write s) (tampon s)) s else s)"

definition arduino_eth_output_done :: "(u8 list \<Rightarrow> u8 list option) \<Rightarrow> u8 list \<Rightarrow> enc \<Rightarrow> enc" where
  "arduino_eth_output_done cache dst_ip s =
    (let s = flush_tampon s;
         dst = (case cache dst_ip of Some mac \<Rightarrow> mac | None \<Rightarrow> take 4 dst_ip @ [dst_ip ! 0, dst_ip ! 1]);
         s = ENC624J600WriteGPBuffer (choix_TX s) dst s;
         s = ENC624J600Send (choix_TX s) (packet_size s) s
     in s\<lparr>choix_TX := (if choix_TX s = TXSTART then TXSTART_2 else TXSTART)\<rparr>)"

section \<open>Reading a packet\<close>

lemma length_rx_octets [simp]: "length (rx_octets m a n) = n"
  by (induction n arbitrary: a) simp_all

lemma nth_rx_octets: "i < n \<Longrightarrow> rx_octets m a n ! i = m ((rx_next ^^ i) a)"
proof (induction n arbitrary: a i)
  case (Suc n)
  then show ?case by (cases i) (simp_all add: funpow_swap1)
qed simp

lemma rx_octets_part: "k + n \<le> l \<Longrightarrow> rx_octets m ((rx_next ^^ k) a) n = take n (drop k (rx_octets m a l))"
  by (rule nth_equalityI) (simp_all add: nth_rx_octets add.commute [of k] funpow_add)

text \<open>
  \<open>k\<close> octets of the packet \<open>os\<close> in the first slot have been read: the buffer has the part in which the
  last of them was, and the controller points behind this part.
\<close>

definition buffered :: "u8 list \<Rightarrow> nat \<Rightarrow> nat \<Rightarrow> enc \<Rightarrow> bool" where
  "buffered os a c s \<longleftrightarrow> length (tampon_read s) = MAX_TAMPON \<and>
     (\<forall>i < MAX_TAMPON. 64 * c + i < length os \<longrightarrow> tampon_read s ! i = os ! (64 * c + i)) \<and>
     erxrdpt s = (rx_next ^^ min (length os) (64 * c + 64)) a"

definition part_read :: "u8 list \<Rightarrow> nat \<Rightarrow> nat \<Rightarrow> enc \<Rightarrow> bool" where
  "part_read os p k s \<longleftrightarrow> length (IPPacketTab s) = MAX_PACKET \<and> read_idx s < MAX_PACKET \<and>
     packetPtr (IPPacketTab s ! read_idx s) = p \<and> unat (psize (IPPacketTab s ! read_idx s)) = length os - k \<and>
     k < length os \<and> p + 22 < MEM_END \<and> rx_octets (mem s) (p + 22) (length os) = os \<and> first s = (k = 0) \<and>
     length (tampon_read s) = MAX_TAMPON \<and>
     (0 < k \<longrightarrow> indice_read s = (k - 1) mod 64 + 1 \<and> buffered os (p + 22) ((k - 1) div 64) s)"

lemma buffer_part:
  assumes "rx_octets (mem s) a (length os) = os" "64 * c < length os" "length b = MAX_TAMPON"
    "n = min 64 (length os - 64 * c)"
  shows "buffered os a c (s\<lparr>tampon_read := rx_octets (mem s) ((rx_next ^^ (64 * c)) a) n @ drop n b, indice_read := i,
    erxrdpt := (rx_next ^^ n) ((rx_next ^^ (64 * c)) a), first := f\<rparr>)"
proof -
  have "rx_octets (mem s) ((rx_next ^^ (64 * c)) a) n = take n (drop (64 * c) os)"
    using rx_octets_part [of "64 * c" n "length os" "mem s" a] assms by simp
  moreover have "n + 64 * c = min (length os) (64 * c + 64)" using assms(2,4) by simp
  then have "(rx_next ^^ n) ((rx_next ^^ (64 * c)) a) = (rx_next ^^ min (length os) (64 * c + 64)) a"
    by (metis funpow_add o_apply)
  moreover have "64 * c + k < length os \<Longrightarrow> k < 64 \<Longrightarrow> k < n" for k using assms(4) by simp
  ultimately show ?thesis using assms(3,4) by (auto simp: buffered_def MAX_TAMPON_def nth_append)
qed

lemma index_part: "(k - 1) div 64 = k div 64" "(k - 1) mod 64 + 1 = k mod 64" if "0 < k" "k mod 64 \<noteq> 0" for k :: nat
  using that by (cases k; simp add: div_Suc mod_Suc split: if_splits)+

lemma part_end: "(k - 1) mod 64 = 63" "(k - 1) div 64 + 1 = k div 64" if "0 < k" "k mod 64 = 0" for k :: nat
  using that by (cases k; simp add: div_Suc mod_Suc split: if_splits)+

text \<open>The two reads of \<open>dev_get\<close>.\<close>

lemma refilled:
  assumes "part_read os p k s" "t = read_more (read_first s)"
  shows "buffered os (p + 22) (k div 64) t \<and> indice_read t = k mod 64 \<and> \<not> first t \<and> mem t = mem s \<and>
    IPPacketTab t = IPPacketTab s \<and> read_idx t = read_idx s \<and> write_idx t = write_idx s \<and> NextPacketPtr t = NextPacketPtr s"
proof -
  note r = assms(1) [unfolded part_read_def]
  have n: "p + 8 + 14 \<noteq> 0xFFFF" "p + 22 \<noteq> 0xFFFF" using r by (auto simp: MEM_END_def)
  consider "k = 0" | "0 < k" "k mod 64 \<noteq> 0" | "0 < k" "k mod 64 = 0" by fastforce
  then show ?thesis
  proof cases
    case 1
    have "0 < length os" using r 1 by simp
    moreover have "read_first s = s\<lparr>tampon_read := rx_octets (mem s) (p + 22) (min 64 (length os)) @ drop (min 64 (length os)) (tampon_read s),
        indice_read := 0, erxrdpt := (rx_next ^^ min 64 (length os)) (p + 22), first := False\<rparr>"
      using r n 1 by (cases s) (simp add: read_first_def ENC624J600ReadRXBuffer_def MAX_TAMPON_def Let_def add.commute)
    ultimately show ?thesis
      using 1 r assms(2) buffer_part [of s "p + 22" os 0 "tampon_read s" "min 64 (length os)" False 0]
      by (simp add: read_more_def MAX_TAMPON_def)
  next
    case 2
    moreover have "k mod 64 \<noteq> 64" using mod_less_divisor [of 64 k] by linarith
    ultimately show ?thesis using index_part [of k] r assms(2) by (simp add: read_first_def read_more_def MAX_TAMPON_def)
  next
    case 3
    then have m: "(k - 1) mod 64 + 1 = 64" "(k - 1) div 64 + 1 = k div 64" "64 * (k div 64) = k"
      using part_end [of k] by auto
    have "64 * ((k - 1) div 64) + 64 = k" using m by linarith
    moreover have "buffered os (p + 22) ((k - 1) div 64) s" "k < length os" using r 3 by auto
    ultimately have e: "erxrdpt s = (rx_next ^^ k) (p + 22)" "indice_read s = 64" "\<not> first s" "k < length os"
      using 3 r m(1) unfolding buffered_def by (metis min.absorb2 less_imp_le_nat, auto)
    let ?n = "min 64 (length os - k)"
    have "read_more (read_first s) = s\<lparr>tampon_read := rx_octets (mem s) ((rx_next ^^ k) (p + 22)) ?n @ drop ?n (tampon_read s),
        indice_read := 0, erxrdpt := (rx_next ^^ ?n) ((rx_next ^^ k) (p + 22)), first := False\<rparr>"
      using r e by (cases s) (simp add: read_first_def read_more_def ENC624J600ReadRXBuffer_def MAX_TAMPON_def Let_def add.commute)
    then show ?thesis
      using 3 r e assms(2) m buffer_part [of s "p + 22" os "k div 64" "tampon_read s" ?n False 0] by simp
  qed
qed

lemma dev_get_reading:
  assumes "part_read os p k s"
  shows "\<exists>t. arduino_eth_dev_get s = (uint (os ! k), t) \<and> write_idx t = write_idx s \<and> NextPacketPtr t = NextPacketPtr s \<and>
    (if Suc k < length os then part_read os p (Suc k) t \<and> read_idx t = read_idx s
     else first t \<and> read_idx t = (if read_idx s < MAX_PACKET - 1 then read_idx s + 1 else 0) \<and>
       psize (IPPacketTab t ! read_idx s) = 0)"
proof -
  note r = assms [unfolded part_read_def]
  define u where "u = read_more (read_first s)"
  note f = refilled [OF assms u_def]
  have pos: "psize (IPPacketTab s ! read_idx s) \<noteq> 0" using r by auto
  then have dec: "unat (psize (IPPacketTab s ! read_idx s) - 1) = length os - Suc k"
    using r by (simp add: unat_minus_one)
  then have z: "psize (IPPacketTab s ! read_idx s) - 1 = 0 \<longleftrightarrow> \<not> Suc k < length os"
    using r by (metis unat_eq_zero Suc_lessI diff_is_0_eq diff_self_eq_0 not_less_eq_eq linorder_not_less)
  have byte: "tampon_read u ! indice_read u = os ! k"
    using f r by (simp add: buffered_def MAX_TAMPON_def)
  show ?thesis
    using f r pos dec z byte
    by (auto simp: arduino_eth_dev_get_def u_def [symmetric] Let_def part_read_def buffered_def end_packet_def write_tail_def)
qed

section \<open>Receiving while a packet is read\<close>

text \<open>What the interrupt handler leaves: the place of the packet, its slot and the buffer.\<close>

definition undisturbed :: "nat \<Rightarrow> nat \<Rightarrow> enc \<Rightarrow> enc \<Rightarrow> bool" where
  "undisturbed r x s t \<longleftrightarrow> mem t x = mem s x \<and> read_idx t = read_idx s \<and> first t = first s \<and>
     tampon_read t = tampon_read s \<and> indice_read t = indice_read s \<and> length (IPPacketTab t) = length (IPPacketTab s) \<and>
     packetPtr (IPPacketTab t ! r) = packetPtr (IPPacketTab s ! r) \<and> psize (IPPacketTab t ! r) = psize (IPPacketTab s ! r)"

lemma gp_store_other:
  "\<forall>i < length d. (a + i) mod MEM_END \<noteq> x \<Longrightarrow> gp_store (a mod MEM_END) d m x = m x"
proof (induction d arbitrary: a m)
  case (Cons c d)
  have "\<forall>i < length d. (Suc a + i) mod MEM_END \<noteq> x" using Cons.prems by (metis add_Suc_shift length_Cons Suc_less_eq)
  moreover have "a mod MEM_END \<noteq> x" using Cons.prems [rule_format, of 0] by simp
  moreover have "(a mod MEM_END + 1) mod MEM_END = Suc a mod MEM_END" by (simp add: mod_Suc_eq)
  ultimately show ?case using Cons.IH [of "Suc a"] by simp
qed simp

lemma nth_updated: "xs[i := y] ! r = (if i = r \<and> i < length xs then y else xs ! r)"
  by (cases "i < length xs") (auto simp: nth_list_update list_update_beyond)

lemma nextPtr_updated:
  "packetPtr (tab[i := (tab ! i)\<lparr>nextPtr := n\<rparr>] ! r) = packetPtr (tab ! r)"
  "psize (tab[i := (tab ! i)\<lparr>nextPtr := n\<rparr>] ! r) = psize (tab ! r)"
  by (simp_all add: nth_updated)

lemma freed_undisturbed: "undisturbed r x s t \<Longrightarrow> undisturbed r x s (ENC624J600FreedUpMemory t)"
  by (simp add: undisturbed_def ENC624J600FreedUpMemory_def Let_def write_tail_def nextPtr_updated)

lemma read_undisturbed: "undisturbed r x s t \<Longrightarrow> undisturbed r x s (snd (ENC624J600ReadRXBuffer a n t))"
  by (simp add: undisturbed_def ENC624J600ReadRXBuffer_def Let_def)

lemma write_undisturbed:
  "undisturbed r x s t \<Longrightarrow> a \<noteq> 0xFFFF \<Longrightarrow> \<forall>i < length d. (a + i) mod MEM_END \<noteq> x \<Longrightarrow>
   undisturbed r x s (ENC624J600WriteGPBuffer a d t)"
  by (simp add: undisturbed_def ENC624J600WriteGPBuffer_def Let_def gp_store_other)

lemma send_undisturbed: "undisturbed r x s t \<Longrightarrow> undisturbed r x s (ENC624J600Send a n t)"
  by (simp add: undisturbed_def ENC624J600Send_def)

lemmas undisturbed_intros = freed_undisturbed send_undisturbed write_undisturbed read_undisturbed

lemma octets_read [simp]: "length (fst (ENC624J600ReadRXBuffer a n s)) = n"
  by (simp add: ENC624J600ReadRXBuffer_def Let_def)

lemma pointers_kept [simp]:
  "PacketPtr (snd (ENC624J600ReadRXBuffer a n s)) = PacketPtr s" "PacketPtr (ENC624J600WriteGPBuffer a d s) = PacketPtr s"
  "write_idx (snd (ENC624J600ReadRXBuffer a n s)) = write_idx s"
  "IPPacketTab (snd (ENC624J600ReadRXBuffer a n s)) = IPPacketTab s"
  by (simp_all add: ENC624J600ReadRXBuffer_def ENC624J600WriteGPBuffer_def Let_def)

lemma arp_undisturbed: "undisturbed r x s t \<Longrightarrow> RXSTART \<le> x \<Longrightarrow> undisturbed r x s (answer_arp t)"
  by (auto simp: answer_arp_def Let_def split_beta area_defs intro!: undisturbed_intros)

lemma enqueue_undisturbed:
  "undisturbed r x s t \<Longrightarrow> r \<noteq> write_idx t \<Longrightarrow> undisturbed r x s (enqueue_packet n t)"
  by (simp add: enqueue_packet_def Let_def split_beta undisturbed_def ENC624J600ReadRXBuffer_def)

lemma ping_undisturbed:
  assumes "undisturbed r x s t" "PacketPtr t < MEM_END" "\<forall>j < 9. (PacketPtr t + 34 + j) mod MEM_END \<noteq> x"
  shows "undisturbed r x s (answer_ping ip n t)"
proof -
  have a: "PacketPtr t + k \<noteq> 0xFFFF" if "k < 100" for k using assms(2) that by (simp add: MEM_END_def)
  have p: "(PacketPtr t + k) mod MEM_END \<noteq> x" if "34 \<le> k" "k < 43" for k
    using assms(3) [rule_format, of "k - 34"] that by (simp add: add.assoc)
  show ?thesis
    by (simp add: answer_ping_def Let_def split_beta ENC624J600WriteUser_def add.assoc)
      (intro undisturbed_intros assms(1); simp add: a p add.assoc)
qed

lemma receive_undisturbed:
  assumes "r \<noteq> write_idx s" "RXSTART \<le> x" "NextPacketPtr s < MEM_END"
    "\<forall>j < 9. (NextPacketPtr s + 34 + j) mod MEM_END \<noteq> x"
  shows "undisturbed r x s (ENC624J600PacketReceive ip pktif s) \<and> erxrdpt (ENC624J600PacketReceive ip pktif s) = erxrdpt s"
proof -
  define u where "u = s\<lparr>PacketPtr := NextPacketPtr s\<rparr>"
  define h where "h = fst (ENC624J600ReadRXBuffer (PacketPtr u) 8 u)"
  define v where "v = (snd (ENC624J600ReadRXBuffer (PacketPtr u) 8 u))\<lparr>NextPacketPtr := unat (join16 (h ! 1) (h ! 0))\<rparr>"
  have "undisturbed r x s u" by (simp add: undisturbed_def u_def)
  then have v: "undisturbed r x s v" unfolding v_def
    using read_undisturbed [of r x s u "PacketPtr u" 8] by (simp add: undisturbed_def)
  have i: "PacketPtr v = NextPacketPtr s" "write_idx v = write_idx s" by (simp_all add: v_def u_def)
  note step = read_undisturbed [OF v]
  have e: "undisturbed r x s t \<Longrightarrow> undisturbed r x s (t\<lparr>pktdec := m, erxrdpt := a, egpwrpt := b\<rparr>)" for t m a b
    by (simp add: undisturbed_def)
  show ?thesis
    unfolding ENC624J600PacketReceive_def Let_def split_beta u_def [symmetric] h_def [symmetric] v_def [symmetric]
    using assms v i by (simp add: undisturbed_def [of r x s s] e arp_undisturbed ping_undisturbed enqueue_undisturbed step read_undisturbed)
qed

lemma reading_undisturbed:
  assumes "part_read os p k s" "\<And>i. i < length os \<Longrightarrow> undisturbed (read_idx s) ((rx_next ^^ i) (p + 22)) s t" "erxrdpt t = erxrdpt s"
  shows "part_read os p k t"
proof -
  have "0 < length os" using assms(1) by (auto simp: part_read_def)
  then have "undisturbed (read_idx s) (p + 22) s t" using assms(2) [of 0] by simp
  moreover have "rx_octets (mem t) (p + 22) (length os) = rx_octets (mem s) (p + 22) (length os)"
    using assms(2) by (intro nth_equalityI) (auto simp: nth_rx_octets undisturbed_def)
  ultimately show ?thesis using assms(1,3) by (auto simp: part_read_def undisturbed_def buffered_def)
qed

fun gets :: "nat \<Rightarrow> enc \<Rightarrow> int list \<times> enc" where
  "gets 0 s = ([], s)"
| "gets (Suc n) s = (let (c, s) = arduino_eth_dev_get s; (cs, s) = gets n s in (c # cs, s))"

lemma gets_reading:
  "part_read os p k s \<Longrightarrow> k + n \<le> length os \<Longrightarrow>
   fst (gets n s) = map uint (take n (drop k os)) \<and> write_idx (snd (gets n s)) = write_idx s \<and>
   NextPacketPtr (snd (gets n s)) = NextPacketPtr s \<and>
   (k + n < length os \<longrightarrow> part_read os p (k + n) (snd (gets n s)) \<and> read_idx (snd (gets n s)) = read_idx s)"
proof (induction n arbitrary: k s)
  case (Suc n)
  obtain t where t: "arduino_eth_dev_get s = (uint (os ! k), t)" "write_idx t = write_idx s" "NextPacketPtr t = NextPacketPtr s"
    "if Suc k < length os then part_read os p (Suc k) t \<and> read_idx t = read_idx s else True"
    using dev_get_reading [OF Suc.prems(1)] by (metis (full_types))
  have d: "drop k os = os ! k # drop (Suc k) os" using Suc.prems(2) by (simp add: Cons_nth_drop_Suc)
  show ?case
  proof (cases "Suc k < length os")
    case True
    then show ?thesis using Suc.IH [of "Suc k" t] Suc.prems t by (simp add: d split_beta Let_def)
  next
    case False
    then show ?thesis using Suc.prems t by (cases n) (simp_all add: d split_beta Let_def)
  qed
qed (simp add: part_read_def)

definition listening :: "enc \<Rightarrow> bool" where
  "listening s \<longleftrightarrow> length (IPPacketTab s) = MAX_PACKET \<and> write_idx s < MAX_PACKET \<and> read_idx s = write_idx s \<and> first s \<and>
     length (tampon_read s) = MAX_TAMPON"

lemma listening_initially:
  "length (IPPacketTab s) = MAX_PACKET \<Longrightarrow> first s \<Longrightarrow> length (tampon_read s) = MAX_TAMPON \<Longrightarrow>
   listening (arduino_eth_dev_init mac ip_addr True s)"
  by (simp add: listening_def arduino_eth_dev_init_def ENC624J600Init_def ENC624J600WriteGPBuffer_def Let_def MAX_PACKET_def)

lemma rx_octets_straight: "a + n \<le> MEM_END \<Longrightarrow> rx_octets m a n = map m [a..<a + n]"
proof (induction n arbitrary: a)
  case (Suc n)
  show ?case
  proof (cases n)
    case (Suc l)
    then have "rx_next a = Suc a" using Suc.prems by (simp add: rx_next_def MEM_END_def)
    then show ?thesis using Suc.prems Suc.IH [of "Suc a"] by (simp add: upt_conv_Cons del: upt_Suc)
  qed simp
qed simp

lemma read_at:
  "a \<noteq> 0xFFFF \<Longrightarrow> ENC624J600ReadRXBuffer a n s = (rx_octets (mem s) a n, s\<lparr>erxrdpt := (rx_next ^^ n) a\<rparr>)"
  by (simp add: ENC624J600ReadRXBuffer_def)

lemma enqueued:
  "let t = enqueue_packet n s in mem t = mem s \<and> read_idx t = read_idx s \<and> first t = first s \<and> tampon_read t = tampon_read s \<and>
     NextPacketPtr t = NextPacketPtr s \<and> write_idx t = (if write_idx s < MAX_PACKET - 1 then write_idx s + 1 else 0) \<and>
     IPPacketTab t = (IPPacketTab s)[write_idx s := \<lparr>packetPtr = PacketPtr s, nextPtr = NextPacketPtr s, psize = n - 18\<rparr>]"
  by (simp add: enqueue_packet_def Let_def split_beta ENC624J600ReadRXBuffer_def)

lemma packet_queued:
  assumes "listening s" "NextPacketPtr s + 42 < MEM_END"
    "mem s (NextPacketPtr s + 20) = 8" "mem s (NextPacketPtr s + 21) = 0" "mem s (NextPacketPtr s + 31) \<noteq> 1"
    "n = unat (join16 (mem s (NextPacketPtr s + 3)) (mem s (NextPacketPtr s + 2)))" "18 < n"
    "t = ENC624J600PacketReceive ip True s"
  shows "part_read (rx_octets (mem s) (NextPacketPtr s + 22) (n - 18)) (NextPacketPtr s) 0 t \<and> read_idx t = write_idx s \<and>
    write_idx t \<noteq> write_idx s \<and> mem t = mem s \<and>
    NextPacketPtr t = unat (join16 (mem s (NextPacketPtr s + 1)) (mem s (NextPacketPtr s)))"
proof -
  let ?N = "NextPacketPtr s" and ?m = "mem s"
  have h: "rx_octets ?m ?N 8 ! i = ?m (?N + i)" if "i < 8" for i
    using rx_octets_straight [of ?N 8 ?m] that assms(2) by simp
  have y: "rx_octets ?m (?N + 8 + 12) 2 = [8, 0]"
    using rx_octets_straight [of "?N + 20" 2 ?m] assms(2-4) by (simp add: upt_conv_Cons add.commute)
  have z: "rx_octets ?m (?N + 8 + 23) 1 ! 0 \<noteq> 1"
    using assms(5) by (simp add: add.commute)
  have a: "?N + 8 + 12 \<noteq> 0xFFFF" "?N \<noteq> 0xFFFF" "?N + 8 + 23 \<noteq> 0xFFFF" using assms(2) by (simp_all add: MEM_END_def)
  have l: "unat (join16 (?m (?N + 3)) (?m (?N + 2)) - 18) = n - 18"
    using assms(6,7) by (simp add: unat_sub word_le_nat_alt)
  let ?p = "\<lparr>packetPtr = ?N, nextPtr = unat (join16 (?m (?N + 1)) (?m ?N)), psize = join16 (?m (?N + 3)) (?m (?N + 2)) - 18\<rparr>"
  have "IPPacketTab t = (IPPacketTab s)[write_idx s := ?p]" "mem t = ?m" "read_idx t = write_idx s" "first t"
      "tampon_read t = tampon_read s" "write_idx t = (if write_idx s < MAX_PACKET - 1 then write_idx s + 1 else 0)"
      "NextPacketPtr t = unat (join16 (?m (?N + 1)) (?m ?N))"
    using assms(1,8) y z a h [of 0] h [of 1] h [of 2] h [of 3] enqueued [unfolded Let_def]
    by (simp_all add: ENC624J600PacketReceive_def read_at Let_def listening_def)
  then show ?thesis
    using assms(1,2,7) l by (auto simp: part_read_def listening_def MAX_PACKET_def)
qed

lemma addresses_above: "RXSTART \<le> a \<Longrightarrow> RXSTART \<le> (rx_next ^^ i) a"
  by (induction i) (auto simp: rx_next_def)

text \<open>
  C33: The packet received is what \<open>dev_get\<close> hands out, octet by octet, also when the interrupt handler receives another frame after any
  number \<open>k\<close> of calls: it stores its packet in another slot of the table and puts the pointers of the controller back. The answer it writes
  into the frame of a ping must not reach the packet that is read.
\<close>

theorem interrupted_packet_delivered:
  assumes "listening s" "p = NextPacketPtr s" "RXSTART \<le> p" "p + 42 < MEM_END"
    and "mem s (p + 20) = 8" "mem s (p + 21) = 0" "mem s (p + 31) \<noteq> 1"
    and "n = unat (join16 (mem s (p + 3)) (mem s (p + 2)))" "18 < n"
    and "q = unat (join16 (mem s (p + 1)) (mem s p))" "q < MEM_END"
    and "\<And>i j. i < n - 18 \<Longrightarrow> j < 9 \<Longrightarrow> (q + 34 + j) mod MEM_END \<noteq> (rx_next ^^ i) (p + 22)"
    and "t = ENC624J600PacketReceive ip True s" "k \<le> n - 18" "u = ENC624J600PacketReceive ip pktif (snd (gets k t))"
  shows "fst (gets k t) @ fst (gets (n - 18 - k) u) = map uint (rx_octets (mem s) (p + 22) (n - 18))"
proof -
  let ?os = "rx_octets (mem s) (p + 22) (n - 18)" and ?v = "snd (gets k t)"
  have t: "part_read ?os p 0 t" "read_idx t = write_idx s" "write_idx t \<noteq> write_idx s" "NextPacketPtr t = q"
    using packet_queued [OF assms(1) _ _ _ _ _ assms(9,13)] assms(2-10) by simp_all
  note g = gets_reading [OF t(1), of k]
  show ?thesis
  proof (cases "k < n - 18")
    case True
    then have v: "part_read ?os p k ?v" "read_idx ?v = write_idx s" "write_idx ?v \<noteq> write_idx s" "NextPacketPtr ?v = q"
      using g t by simp_all
    have "undisturbed (read_idx ?v) ((rx_next ^^ i) (p + 22)) ?v u \<and> erxrdpt u = erxrdpt ?v" if "i < n - 18" for i
      unfolding assms(15) by (rule receive_undisturbed) (use v assms(3,11,12) that addresses_above [of "p + 22"] in auto)
    then have "part_read ?os p k u" using True by (intro reading_undisturbed [OF v(1)]) auto
    from gets_reading [OF this, of "n - 18 - k"] show ?thesis
      using g True by (simp flip: map_append)
  next
    case False
    then show ?thesis using g assms(14) by simp
  qed
qed

text \<open>A packet of three octets, and a ping received after the first of them has been read.\<close>

definition example_memory :: "nat \<Rightarrow> u8" where
  "example_memory = (\<lambda>_. 0)(4928 := 128, 4929 := 19, 4930 := 21, 4948 := 8, 4950 := 65, 4951 := 66, 4952 := 67,
     4994 := 74, 5012 := 8, 5023 := 1)"

definition example_frames :: enc where
  "example_frames = \<lparr>mem = example_memory,
     erxrdpt = 0, egpwrpt = 0, erxtail = RXSTOP, frames = [], pktdec = 0, NextPacketPtr = RXSTART, PacketPtr = 0,
     IPPacketTab = replicate MAX_PACKET \<lparr>packetPtr = 0, nextPtr = 0, psize = 0\<rparr>, read_idx = 0, write_idx = 0, added = [],
     packet_size = 0, tampon = replicate MAX_TAMPON 0, indice_write = 0, tampon_read = replicate MAX_TAMPON 0, indice_read = 0,
     first = True, choix_TX = TXSTART\<rparr>"

lemma example_fields: "mem example_frames = example_memory" "NextPacketPtr example_frames = 4928" "listening example_frames"
  by (simp_all add: example_frames_def RXSTART_def listening_def MAX_PACKET_def)

lemma example_octets: "map example_memory [4950..<4953] = [65, 66, 67]"
  by (simp add: example_memory_def upt_conv_Cons)

lemma example_joined: "unat (join16 0 21) = 21" "unat (join16 19 128) = 4992"
  by (simp_all add: join16_def push_bit_eq_mult)

lemma example_places: "i < 3 \<Longrightarrow> (rx_next ^^ i) 4950 = 4950 + i"
proof (induction i)
  case (Suc i)
  then show ?case by (simp add: rx_next_def MEM_END_def)
qed simp

lemma interrupted_packet_delivered_witness:
  "let t = ENC624J600PacketReceive [10, 0, 0, 1] True example_frames; u = ENC624J600PacketReceive [10, 0, 0, 1] True (snd (gets 1 t))
   in fst (gets 1 t) @ fst (gets 2 u) = [65, 66, 67]"
proof -
  have o: "rx_octets example_memory 4950 3 = [65, 66, 67]"
    using rx_octets_straight [of 4950 3 example_memory] example_octets by (simp add: MEM_END_def)
  have m: "example_memory 4948 = 8" "example_memory 4949 = 0" "example_memory 4959 \<noteq> 1" "example_memory 4931 = 0"
    "example_memory 4930 = 21" "example_memory 4929 = 19" "example_memory 4928 = 128"
    by (simp_all add: example_memory_def)
  have d: "(4992 + 34 + j) mod MEM_END \<noteq> (rx_next ^^ i) (4928 + 22)" if "i < 21 - 18" "j < 9" for i j
    using that by (simp add: example_places MEM_END_def)
  have "fst (gets 1 t) @ fst (gets (21 - 18 - 1) u) = map uint (rx_octets (mem example_frames) (4928 + 22) (21 - 18))"
    if "t = ENC624J600PacketReceive [10, 0, 0, 1] True example_frames" "u = ENC624J600PacketReceive [10, 0, 0, 1] True (snd (gets 1 t))"
    for t u
    by (rule interrupted_packet_delivered [OF example_fields(3) example_fields(2) [symmetric] _ _ _ _ _ _ _ _ _ d that(1) _ that(2)])
      (simp_all add: RXSTART_def MEM_END_def example_fields m example_joined)
  then show ?thesis by (simp add: o example_fields Let_def del: gets.simps)
qed

section \<open>Sending\<close>

text \<open>The octets written by \<open>dev_put\<close>: those of the buffer, and the others in the memory of the controller.\<close>

definition writing :: "u8 list \<Rightarrow> enc \<Rightarrow> enc \<Rightarrow> bool" where
  "writing os s t \<longleftrightarrow> length (tampon t) = MAX_TAMPON \<and> indice_write t = length os mod 64 \<and>
     take (length os mod 64) (tampon t) = drop (64 * (length os div 64)) os \<and>
     egpwrpt t = egpwrpt s + 64 * (length os div 64) \<and>
     (\<forall>i < 64 * (length os div 64). mem t (egpwrpt s + i) = os ! i) \<and> (\<forall>x < egpwrpt s. mem t x = mem s x) \<and>
     frames t = frames s \<and> choix_TX t = choix_TX s \<and> packet_size t = packet_size s"

lemma gp_store_straight:
  "a + length d \<le> MEM_END \<Longrightarrow> gp_store a d m x = (if a \<le> x \<and> x < a + length d then d ! (x - a) else m x)"
proof (induction d arbitrary: a m)
  case (Cons c d)
  show ?case
  proof (cases d)
    case (Cons e l)
    then have "(a + 1) mod MEM_END = a + 1" using Cons.prems by simp
    then show ?thesis using Cons.prems Cons.IH [of "a + 1"] by (auto simp: nth_Cons')
  qed auto
qed auto

lemma block_full:
  fixes l :: nat
  assumes "(l + 1) mod 64 = 0"
  shows "l mod 64 + 1 = 64 \<and> 64 * ((l + 1) div 64) = l + 1 \<and> 64 * (l div 64) + 64 = l + 1"
proof -
  have "l mod 64 = 63" using assms by (simp add: mod_Suc split: if_splits)
  moreover from this have "64 * (l div 64) + 63 = l" by (metis mult_div_mod_eq)
  ultimately show ?thesis by (simp add: div_Suc mod_Suc)
qed

lemma block_open: "(l + 1) mod 64 \<noteq> 0 \<Longrightarrow> l mod 64 + 1 = (l + 1) mod 64 \<and> (l + 1) div 64 = l div 64 \<and> l mod 64 + 1 \<noteq> 64"
  for l :: nat by (simp add: mod_Suc div_Suc split: if_splits)

lemma put_writing:
  assumes "writing os s t" "egpwrpt s + length os + 1 < MEM_END"
  shows "writing (os @ [c]) s (arduino_eth_dev_put c t)"
proof -
  note w = assms(1) [unfolded writing_def MAX_TAMPON_def]
  let ?l = "length os" and ?b = "(tampon t)[indice_write t := c]"
  have e: "64 * (?l div 64) \<le> ?l" by simp
  have b: "take (?l mod 64 + 1) ?b = drop (64 * (?l div 64)) (os @ [c])"
    using w e by (simp add: take_Suc_conv_app_nth)
  show ?thesis
  proof (cases "(?l + 1) mod 64 = 0")
    case True
    note f = block_full [OF True]
    have t: "take 64 ?b = drop (64 * (?l div 64)) (os @ [c])" using b f by simp
    have "length (take 64 ?b) = 64" using w by simp
    show ?thesis
      using w t f assms(2) True
      by (auto simp: writing_def arduino_eth_dev_put_def MAX_TAMPON_def Let_def ENC624J600WriteGPBuffer_def gp_store_straight nth_append)
  next
    case False
    note f = block_open [OF False]
    have "indice_write t + 1 \<noteq> 64" using w f by simp
    then show ?thesis
      using w b f assms(2) by (auto simp: writing_def arduino_eth_dev_put_def MAX_TAMPON_def Let_def nth_append)
  qed
qed

lemma puts_writing:
  "indice_write s = 0 \<Longrightarrow> length (tampon s) = MAX_TAMPON \<Longrightarrow> egpwrpt s + length os < MEM_END \<Longrightarrow>
   writing os s (fold arduino_eth_dev_put os s)"
proof (induction os rule: rev_induct)
  case (snoc c os)
  then show ?case using put_writing [of os s] by simp
qed (simp add: writing_def)

lemma flushed:
  assumes "writing os s t" "egpwrpt s + length os < MEM_END" "u = flush_tampon t"
  shows "(\<forall>i < length os. mem u (egpwrpt s + i) = os ! i) \<and> (\<forall>x < egpwrpt s. mem u x = mem s x) \<and>
    frames u = frames s \<and> choix_TX u = choix_TX s \<and> packet_size u = packet_size s"
proof -
  note w = assms(1) [unfolded writing_def MAX_TAMPON_def]
  let ?q = "64 * (length os div 64)"
  have l: "?q + length os mod 64 = length os" by simp
  show ?thesis
  proof (cases "length os mod 64 = 0")
    case True
    then show ?thesis using w l assms(3) by (auto simp: flush_tampon_def)
  next
    case False
    have "drop ?q os ! (i - ?q) = os ! i" if "?q \<le> i" for i using that l by simp
    then show ?thesis
      using w l assms(2,3) False
      by (auto simp: flush_tampon_def ENC624J600WriteGPBuffer_def Let_def gp_store_straight)
  qed
qed

lemma packet_framed:
  assumes "length (tampon s) = MAX_TAMPON" "choix_TX s + 8 + length os < MEM_END" "length dst = 6" "cache ip = Some dst"
    "t = arduino_eth_output_done cache ip (fold arduino_eth_dev_put os (arduino_eth_prepare_output (length os) s))"
  shows "frames t = frames s @ [dst @ [8, 0] @ os]"
proof -
  let ?c = "choix_TX s"
  define p where "p = arduino_eth_prepare_output (length os) s"
  define u where "u = flush_tampon (fold arduino_eth_dev_put os p)"
  define v where "v = ENC624J600WriteGPBuffer ?c dst u"
  have p: "indice_write p = 0" "length (tampon p) = MAX_TAMPON" "egpwrpt p = ?c + 8" "choix_TX p = ?c"
      "packet_size p = length os + 8" "frames p = frames s" "mem p (?c + 6) = 8" "mem p (?c + 7) = 0"
    using assms(1,2)
    by (simp_all add: p_def arduino_eth_prepare_output_def ENC624J600WriteGPBuffer_def Let_def gp_store_straight MEM_END_def)
  have u: "\<forall>i < length os. mem u (?c + 8 + i) = os ! i" "\<forall>x < ?c + 8. mem u x = mem p x" "frames u = frames s" "choix_TX u = ?c"
      "packet_size u = length os + 8"
    using flushed [OF puts_writing _ u_def] p assms(2) by simp_all
  have v: "mem v (?c + i) = (dst @ [8, 0] @ os) ! i" if "i < length os + 8" for i
  proof -
    consider "i < 6" | "i = 6" | "i = 7" | "8 \<le> i" by fastforce
    then show ?thesis
    proof cases
      case 4
      then have "mem u (?c + i) = os ! (i - 8)" using u(1) [rule_format, of "i - 8"] that by simp
      then show ?thesis using 4 assms(2,3)
        by (simp add: v_def ENC624J600WriteGPBuffer_def Let_def gp_store_straight nth_append MEM_END_def nth_Cons')
    qed (use u(2) p(7,8) assms(2,3) in \<open>simp_all add: v_def ENC624J600WriteGPBuffer_def Let_def gp_store_straight nth_append MEM_END_def\<close>)
  qed
  have "map (\<lambda>i. mem v ((?c + i) mod MEM_END)) [0..<length os + 8] = dst @ [8, 0] @ os"
    using v assms(2,3) by (intro nth_equalityI) (simp_all del: upt_Suc)
  moreover have "frames v = frames s" "choix_TX v = ?c" "packet_size v = length os + 8"
    using u by (simp_all add: v_def ENC624J600WriteGPBuffer_def Let_def)
  ultimately show ?thesis
    using u(4) assms(4,5) p_def u_def v_def
    by (simp add: arduino_eth_output_done_def ENC624J600Send_def Let_def)
qed

section \<open>Answering ARP\<close>

text \<open>
  Any ARP frame that passes the filters of the controller is answered as a request: neither its operation nor the address that it
  asks for is looked at, so that a reply is answered too.
\<close>

lemma write_low:
  "a + length d \<le> 36 \<Longrightarrow>
   mem (ENC624J600WriteGPBuffer a d s) x = (if a \<le> x \<and> x < a + length d then d ! (x - a) else mem s x)"
  by (simp add: ENC624J600WriteGPBuffer_def Let_def gp_store_straight MEM_END_def)

lemma fields_kept [simp]:
  "frames (ENC624J600WriteGPBuffer a d s) = frames s" "frames (snd (ENC624J600ReadRXBuffer a n s)) = frames s"
  "mem (snd (ENC624J600ReadRXBuffer a n s)) = mem s" "frames (ENC624J600FreedUpMemory s) = frames s"
  by (simp_all add: ENC624J600WriteGPBuffer_def ENC624J600ReadRXBuffer_def ENC624J600FreedUpMemory_def write_tail_def Let_def)

lemma answer_arp_frames:
  assumes "RXSTART \<le> PacketPtr s" "PacketPtr s + 46 < MEM_END" "p = PacketPtr s"
  shows "frames (answer_arp s) = frames s @ [map (mem s) [p + 14..<p + 20] @ map (mem s) [6..<26] @
    map (mem s) [p + 14..<p + 20] @ map (mem s) [p + 36..<p + 40]]"
proof -
  define mac where "mac = map (mem s) [p + 14..<p + 20]"
  define ip where "ip = map (mem s) [p + 36..<p + 40]"
  define mid where "mid = map (mem s) [6..<26]"
  have mid: "length mid = 20" by (simp add: mid_def)
  have mid_nth: "mid ! i = mem s (i + 6)" if "i < 20" for i
    unfolding mid_def using that by (subst nth_map_upt) (simp_all add: add.commute)
  define s1 where "s1 = ENC624J600WriteGPBuffer USER_START mac (snd (ENC624J600ReadRXBuffer (p + 8 + 6) 6 s))"
  define s2 where "s2 = ENC624J600WriteGPBuffer (USER_START + 26) mac s1"
  define s3 where "s3 = ENC624J600WriteGPBuffer (USER_START + 32) ip (snd (ENC624J600ReadRXBuffer (p + 8 + 28) 4 s2))"
  have l: "length mac = 6" "length ip = 4" by (simp_all add: mac_def ip_def)
  have r1: "fst (ENC624J600ReadRXBuffer (p + 8 + 6) 6 s) = mac"
    using assms rx_octets_straight [of "p + 14" 6 "mem s"]
    by (simp add: read_at MEM_END_def mac_def add.commute)
  have low: "mem s2 x = mem s x" if "RXSTART \<le> x" for x
    using that l by (simp add: s2_def s1_def write_low area_defs)
  have "fst (ENC624J600ReadRXBuffer (p + 8 + 28) 4 s2) = map (mem s2) [p + 36..<p + 40]"
    using assms rx_octets_straight [of "p + 36" 4 "mem s2"] by (simp add: read_at MEM_END_def add.commute)
  then have r2: "fst (ENC624J600ReadRXBuffer (p + 8 + 28) 4 s2) = ip" using low assms by (simp add: ip_def)
  have m: "mem s3 x = (if x < 6 then mac ! x else if x < 26 then mem s x else if x < 32 then mac ! (x - 26) else ip ! (x - 32))"
    if "x < 36" for x
    using that l by (simp add: s3_def s2_def s1_def write_low USER_START_def)
  have "map (\<lambda>i. mem s3 ((USER_START + i) mod MEM_END)) [0..<42 - 6] = mac @ mid @ mac @ ip"
    using m l mid mid_nth by (intro nth_equalityI) (auto simp: USER_START_def MEM_END_def nth_append del: upt_Suc)
  moreover have "frames s3 = frames s" by (simp add: s3_def s2_def s1_def)
  moreover have "answer_arp s = ENC624J600FreedUpMemory (ENC624J600Send USER_START (42 - 6) s3)"
    using r1 r2 assms(3)
    by (simp only: answer_arp_def Let_def split_beta s3_def s2_def s1_def pointers_kept)
  ultimately show ?thesis by (simp only: fields_kept ENC624J600Send_def) (simp add: mac_def ip_def mid_def)
qed

lemma arp_answer_prepared:
  assumes "length mac = 6" "length ip_addr = 4" "t = arduino_eth_dev_init mac ip_addr True s"
  shows "map (mem t) [0..<36] = arpResponse mac ip_addr"
proof -
  have "length (arpResponse mac ip_addr) = 36" using assms by (simp add: arpResponse_def)
  then show ?thesis
    unfolding assms(3) arduino_eth_dev_init_def ENC624J600Init_def Let_def
    by (intro nth_equalityI) (simp_all add: write_low USER_START_def del: upt_Suc)
qed

lemma arp_answered:
  assumes "length mac = 6" "length ip_addr = 4" "map (mem s) [0..<36] = arpResponse mac ip_addr"
    "p = NextPacketPtr s" "RXSTART \<le> p" "p + 46 < MEM_END" "mem s (p + 20) = 8" "mem s (p + 21) = 6"
    "t = ENC624J600PacketReceive ip_addr True s"
  shows "frames t = frames s @ [map (mem s) [p + 14..<p + 20] @ [8, 6, 0, 1, 8, 0, 6, 4, 0, 2] @ mac @ ip_addr @
    map (mem s) [p + 14..<p + 20] @ map (mem s) [p + 36..<p + 40]]"
proof -
  have "map (mem s) [6..<26] = take 20 (drop 6 (map (mem s) [0..<36]))" by (simp add: drop_map take_map del: upt_Suc)
  then have t: "map (mem s) [6..<26] = [8, 6, 0, 1, 8, 0, 6, 4, 0, 2] @ mac @ ip_addr"
    unfolding assms(3) using assms(1,2) by (simp add: arpResponse_def)
  have y: "rx_octets (mem s) (p + 8 + 12) 2 = [8, 6]"
    using rx_octets_straight [of "p + 20" 2 "mem s"] assms(6-8) by (simp add: upt_conv_Cons add.commute)
  define u where "u = s\<lparr>PacketPtr := NextPacketPtr s\<rparr>"
  define h where "h = fst (ENC624J600ReadRXBuffer (PacketPtr u) 8 u)"
  define w where "w = (snd (ENC624J600ReadRXBuffer (PacketPtr u) 8 u))\<lparr>NextPacketPtr := unat (join16 (h ! 1) (h ! 0))\<rparr>"
  define v where "v = snd (ENC624J600ReadRXBuffer (p + 8 + 12) 2 w)"
  have w: "PacketPtr w = p" "mem w = mem s" "frames w = frames s" by (simp_all add: w_def u_def assms(4))
  then have v: "PacketPtr v = p" "mem v = mem s" "frames v = frames s" by (simp_all add: v_def)
  have "p + 8 + 12 \<noteq> 0xFFFF" using assms(6) by (simp add: MEM_END_def)
  then have "fst (ENC624J600ReadRXBuffer (p + 8 + 12) 2 w) = [8, 6]" using y w by (simp add: ENC624J600ReadRXBuffer_def)
  then have "frames t = frames (answer_arp v)"
    unfolding assms(9) ENC624J600PacketReceive_def Let_def split_beta u_def [symmetric] h_def [symmetric] w_def [symmetric]
    by (simp add: w v_def)
  also have "\<dots> = frames v @ [map (mem v) [p + 14..<p + 20] @ map (mem v) [6..<26] @
    map (mem v) [p + 14..<p + 20] @ map (mem v) [p + 36..<p + 40]]"
    by (rule answer_arp_frames) (use v assms(5,6) in simp_all)
  finally show ?thesis by (simp only: v t append_assoc)
qed

end
