(* ===== verification/Micaz_Radio.thy ===== *)
theory Micaz_Radio
  imports Prelude "HOL-Library.Monad_Syntax"
begin

text \<open>
  The radio driver of the target \<open>MicaZwireless\<close> (\<open>mac.c\<close>, \<open>phy.c\<close>, \<open>driver.c\<close>): frames of IEEE 802.15.4 through the transceiver
  CC2420, the interrupt that receives them, and the program that counts on the lights of two nodes.

  The transceiver is seen through its SPI port. \<open>spi_log\<close> has the octets written to it, one list for each time it is selected;
  \<open>tx_fifo\<close> is the frame in its buffer. The receive buffer is \<open>rx_fifo\<close>, whose octets are read one by one; \<open>idle\<close>
  is what the port reads when it is empty. Waiting and the pins other than \<open>FIFOP\<close> and \<open>FIFO\<close> are left out. A
  \<open>None\<close> is an access outside an array.
\<close>

section \<open>Model\<close>

definition CC2420_MAX :: nat where "CC2420_MAX = 127"
definition OVERHEAD_DsSs :: u8 where "OVERHEAD_DsSs = 11"
definition MAX_PAYLOAD_SIZE :: nat where "MAX_PAYLOAD_SIZE = 116"
definition ACK_PACKET_SIZE :: u8 where "ACK_PACKET_SIZE = 5"
definition LENGTH_MASK :: u8 where "LENGTH_MASK = 0x7F"
definition FCF_DATA :: u16 where "FCF_DATA = 0x0001"
definition FCF_ACK :: u16 where "FCF_ACK = 0x0002"
definition FCF_INTRAPAN :: u16 where "FCF_INTRAPAN = 0x0040"
definition FCF_ACK_REQUEST :: u16 where "FCF_ACK_REQUEST = 0x0020"
definition FCF_DESTADDR_16BIT :: u16 where "FCF_DESTADDR_16BIT = 0x0800"
definition FCF_DESTADDR_BM :: u16 where "FCF_DESTADDR_BM = 0x0C00"
definition FCF_SOURCEADDR_16BIT :: u16 where "FCF_SOURCEADDR_16BIT = 0x8000"
definition FCF_SOURCEADDR_BM :: u16 where "FCF_SOURCEADDR_BM = 0xC000"
definition FCF_ACK_BM :: u16 where "FCF_ACK_BM = 0x0020"
definition CRC_OK_BM :: u8 where "CRC_OK_BM = 0x80"

lemmas radio_constants = CC2420_MAX_def OVERHEAD_DsSs_def MAX_PAYLOAD_SIZE_def ACK_PACKET_SIZE_def LENGTH_MASK_def
  FCF_DATA_def FCF_ACK_def FCF_INTRAPAN_def FCF_ACK_REQUEST_def FCF_DESTADDR_16BIT_def FCF_DESTADDR_BM_def
  FCF_SOURCEADDR_16BIT_def FCF_SOURCEADDR_BM_def FCF_ACK_BM_def CRC_OK_BM_def

record rx_info =
  seqNumber :: u8
  srcAddr :: u16
  rx_length :: u8
  rx_payload :: "u8 list"
  rx_ackRequest :: bool
  rssi :: u8

record tx_info =
  destAddr :: u16
  tx_length :: u8
  tx_ackRequest :: bool

record lights =
  RLED :: bool
  YLED :: bool
  GLED :: bool

record micaz =
  pRxInfo :: rx_info
  txSeqNumber :: u8
  ackReceived :: bool
  panId :: u16
  myAddr :: u16
  receiveOn :: bool
  pTxBuffer :: "u8 list"
  flag_ReceiveComplete :: bool
  leds :: lights
  selected :: bool
  spi_log :: "u8 list list"
  tx_fifo :: "u8 list"
  rx_fifo :: "u8 list"
  idle :: u8

subsection \<open>Access to the transceiver\<close>

definition spi_transaction :: "u8 list \<Rightarrow> micaz \<Rightarrow> micaz" where
  "spi_transaction os s = s\<lparr>spi_log := spi_log s @ [os], selected := False\<rparr>"

definition WriteStrobeReg_spi :: "u8 \<Rightarrow> micaz \<Rightarrow> micaz" where
  "WriteStrobeReg_spi cmd s = spi_transaction [cmd] s"

definition WriteConfigReg_spi :: "u8 \<Rightarrow> u16 \<Rightarrow> micaz \<Rightarrow> micaz" where
  "WriteConfigReg_spi cmd d s = spi_transaction [cmd, u16_to_u8 (drop_bit 8 d), u16_to_u8 (d AND 0x00FF)] s"

definition WriteRAM_spi :: "u16 \<Rightarrow> u8 list \<Rightarrow> micaz \<Rightarrow> micaz" where
  "WriteRAM_spi cmd d s =
    spi_transaction ([0x80 OR u16_to_u8 (0x007F AND cmd), u16_to_u8 (drop_bit 1 cmd AND 0x00C0)] @ d) s"

text \<open>\<open>n\<close> octets of the array \<open>d\<close>.\<close>

definition Write_TXFIFO :: "u8 list \<Rightarrow> u8 \<Rightarrow> micaz \<Rightarrow> micaz option" where
  "Write_TXFIFO d n s =
    (if unat n \<le> length d
     then Some (spi_transaction (0x3E # take (unat n) d) (s\<lparr>tx_fifo := tx_fifo s @ take (unat n) d\<rparr>)) else None)"

text \<open>\<open>WriteStrobeReg(CC2420_SNOP)\<close> behind the command that reads the receive buffer.\<close>

definition snop :: "micaz \<Rightarrow> u8 \<times> micaz" where
  "snop s = (case rx_fifo s of [] \<Rightarrow> (idle s, s) | c # cs \<Rightarrow> (c, s\<lparr>rx_fifo := cs\<rparr>))"

fun snops :: "nat \<Rightarrow> micaz \<Rightarrow> micaz" where
  "snops 0 s = s"
| "snops (Suc n) s = snops n (snd (snop s))"

text \<open>The strobe \<open>SFLUSHRX\<close> empties the receive buffer, \<open>SFLUSHTX\<close> the other.\<close>

definition flush_rx :: "micaz \<Rightarrow> micaz" where
  "flush_rx s = WriteStrobeReg_spi 0x08 (s\<lparr>rx_fifo := []\<rparr>)"

subsection \<open>Configuration\<close>

definition CC2420_SetChannel :: "u8 \<Rightarrow> micaz \<Rightarrow> micaz" where
  "CC2420_SetChannel channel s = WriteConfigReg_spi 0x18 (0x4165 OR (357 + 5 * (u8_to_u16 channel - 11))) s"

definition CC2420_SetPanId :: "u16 \<Rightarrow> micaz \<Rightarrow> micaz" where
  "CC2420_SetPanId p s = WriteRAM_spi 0x168 [u16_to_u8 (p AND 0x00FF), u16_to_u8 (drop_bit 8 p)] s"

definition CC2420_SetShortAddress :: "u16 \<Rightarrow> micaz \<Rightarrow> micaz" where
  "CC2420_SetShortAddress a s = WriteRAM_spi 0x16A [u16_to_u8 (a AND 0x00FF), u16_to_u8 (drop_bit 8 a)] s"

definition CC2420_ReceiveOn :: "micaz \<Rightarrow> micaz" where
  "CC2420_ReceiveOn s = flush_rx (flush_rx (WriteStrobeReg_spi 0x03 (s\<lparr>receiveOn := True\<rparr>)))"

definition CC2420_ReceiveOff :: "micaz \<Rightarrow> micaz" where
  "CC2420_ReceiveOff s = WriteStrobeReg_spi 0x06 (s\<lparr>receiveOn := False\<rparr>)"

text \<open>One round of the wait for the crystal oscillator.\<close>

definition CC2420_Init :: "micaz \<Rightarrow> micaz" where
  "CC2420_Init s =
    WriteStrobeReg_spi 0x01 (WriteConfigReg_spi 0x19 0x01C4 (WriteConfigReg_spi 0x1C 0x007F
      (WriteConfigReg_spi 0x12 0x0500 (WriteConfigReg_spi 0x11 0x0AE2 (WriteStrobeReg_spi 0x01 s)))))"

definition MAC_Init :: "u16 \<Rightarrow> micaz \<Rightarrow> micaz" where
  "MAC_Init addr s =
    (let s = CC2420_Init s;
         s = CC2420_SetChannel 11 s;
         s = s\<lparr>panId := 0x2420, myAddr := addr, txSeqNumber := 0, receiveOn := False\<rparr>;
         s = CC2420_SetPanId 0x2420 s;
         s = CC2420_SetShortAddress addr s
     in CC2420_ReceiveOn s)"

subsection \<open>Sending\<close>

text \<open>The loop over the payload.\<close>

fun copy_payload :: "nat \<Rightarrow> nat \<Rightarrow> u8 list \<Rightarrow> u8 list \<Rightarrow> u8 list option" where
  "copy_payload 0 i p d = Some d"
| "copy_payload (Suc n) i p d =
    (if i < length p \<and> i + 10 < length d then copy_payload n (i + 1) p (d[i + 10 := p ! i]) else None)"

definition send_header :: "u8 \<Rightarrow> u16 \<Rightarrow> tx_info \<Rightarrow> micaz \<Rightarrow> u8 list" where
  "send_header packetLength fcf tx s =
    [packetLength, u16_to_u8 (fcf AND 0x00FF), u16_to_u8 (drop_bit 8 fcf), txSeqNumber s,
     u16_to_u8 (panId s AND 0x00FF), u16_to_u8 (drop_bit 8 (panId s)),
     u16_to_u8 (destAddr tx AND 0x00FF), u16_to_u8 (drop_bit 8 (destAddr tx)),
     u16_to_u8 (myAddr s AND 0x00FF), u16_to_u8 (drop_bit 8 (myAddr s))]"

definition CC2420_SendPacket :: "tx_info \<Rightarrow> micaz \<Rightarrow> micaz option" where
  "CC2420_SendPacket tx s =
    (let s = WriteStrobeReg_spi 0x09 (s\<lparr>tx_fifo := []\<rparr>);
         packetLength = tx_length tx + OVERHEAD_DsSs;
         fcf = FCF_DATA OR (if tx_ackRequest tx then FCF_ACK_REQUEST else 0) OR FCF_INTRAPAN OR FCF_DESTADDR_16BIT
           OR FCF_SOURCEADDR_16BIT;
         sendData = send_header packetLength fcf tx s @ replicate (CC2420_MAX - 10) 0
     in do {
       sendData \<leftarrow> copy_payload (unat (tx_length tx)) 0 (pTxBuffer s) sendData;
       s \<leftarrow> Write_TXFIFO sendData (packetLength + 1) s;
       let s = spi_transaction [0x04] s;
       let s = s\<lparr>txSeqNumber := txSeqNumber s + 1\<rparr>;
       let s = CC2420_ReceiveOn s;
       Some (s\<lparr>pTxBuffer := replicate MAX_PAYLOAD_SIZE 32\<rparr>)
     })"

subsection \<open>Receiving\<close>

fun read_payload :: "nat \<Rightarrow> nat \<Rightarrow> micaz \<Rightarrow> micaz option" where
  "read_payload 0 j s = Some s"
| "read_payload (Suc n) j s =
    (let (c, s) = snop s
     in if j < length (rx_payload (pRxInfo s)) then
          (let s = s\<lparr>pRxInfo := (pRxInfo s)\<lparr>rx_payload := (rx_payload (pRxInfo s))[j := c]\<rparr>\<rparr>
           in if j > CC2420_MAX then Some s else read_payload n (j + 1) s)
        else None)"

text \<open>The rest of a packet, behind its control field and sequence number.\<close>

definition receive_rest :: "u8 \<Rightarrow> u16 \<Rightarrow> micaz \<Rightarrow> micaz option" where
  "receive_rest len fcf s =
    (let s = s\<lparr>pRxInfo := (pRxInfo s)\<lparr>rx_length := len - OVERHEAD_DsSs\<rparr>\<rparr>;
         (_, s) = snop s;
         (_, s) = snop s;
         s = (if fcf AND FCF_DESTADDR_BM = FCF_DESTADDR_16BIT then snd (snop (snd (snop s))) else s);
         s = (if fcf AND FCF_SOURCEADDR_BM = FCF_SOURCEADDR_16BIT then
                (let (tempL, s) = snop s;
                     (tempH, s) = snop s
                 in s\<lparr>pRxInfo := (pRxInfo s)\<lparr>srcAddr := push_bit 8 (u8_to_u16 tempH) OR u8_to_u16 tempL\<rparr>\<rparr>)
              else s)
     in do {
       s \<leftarrow> read_payload (unat (rx_length (pRxInfo s))) 0 s;
       let (f0, s) = snop s;
       let (f1, s) = snop s;
       Some (s\<lparr>pRxInfo := (pRxInfo s)\<lparr>rssi := f0\<rparr>, flag_ReceiveComplete := True\<rparr>)
     })"

text \<open>The end of the handling of a frame, which the early \<open>return\<close> leaves out.\<close>

definition end_frame :: "micaz \<Rightarrow> micaz" where
  "end_frame s = flush_rx (flush_rx (s\<lparr>selected := False\<rparr>))"

definition receive_frame :: "micaz \<Rightarrow> (bool \<times> micaz) option" where
  "receive_frame s =
    (let s = s\<lparr>selected := True\<rparr>;
         (len, s) = snop s;
         len = len AND LENGTH_MASK
     in if len < ACK_PACKET_SIZE then Some (False, end_frame (snops (unat len) s))
        else
         (let (tempL, s) = snop s;
              (tempH, s) = snop s;
              fcf = push_bit 8 (u8_to_u16 tempH) OR u8_to_u16 tempL;
              (sn, s) = snop s;
              s = s\<lparr>pRxInfo := (pRxInfo s)\<lparr>rx_ackRequest := fcf AND FCF_ACK_BM \<noteq> 0, seqNumber := sn\<rparr>\<rparr>
          in if len = ACK_PACKET_SIZE \<and> fcf = FCF_ACK \<and> sn = txSeqNumber s then
               (let (f0, s) = snop s;
                    (f1, s) = snop s;
                    s = (if f1 AND CRC_OK_BM \<noteq> 0 then s\<lparr>ackReceived := True\<rparr> else s)
                in Some (False, end_frame s))
             else if len < OVERHEAD_DsSs then Some (True, snops (unat len - 3) s)
             else do { s \<leftarrow> receive_rest len fcf s; Some (False, end_frame s) }))"

text \<open>The lights for a number, in the handler and in the program of the sender.\<close>

definition show_number :: "u8 \<Rightarrow> micaz \<Rightarrow> micaz" where
  "show_number n s =
    (if n = 0 then s\<lparr>leds := \<lparr>RLED = False, YLED = False, GLED = False\<rparr>\<rparr>
     else if n = 1 then s\<lparr>leds := \<lparr>RLED = False, YLED = True, GLED = False\<rparr>\<rparr>
     else if n = 2 then s\<lparr>leds := \<lparr>RLED = False, YLED = False, GLED = True\<rparr>\<rparr>
     else if n = 3 then s\<lparr>leds := \<lparr>RLED = False, YLED = True, GLED = True\<rparr>\<rparr>
     else if n = 4 then s\<lparr>leds := \<lparr>RLED = True, YLED = False, GLED = False\<rparr>\<rparr>
     else if n = 5 then s\<lparr>leds := \<lparr>RLED = True, YLED = True, GLED = False\<rparr>\<rparr>
     else if n = 6 then s\<lparr>leds := \<lparr>RLED = True, YLED = False, GLED = True\<rparr>\<rparr>
     else if n = 7 then s\<lparr>leds := \<lparr>RLED = True, YLED = True, GLED = True\<rparr>\<rparr>
     else s)"

text \<open>The interrupt handler.\<close>

definition TIMER2_OVF :: "bool \<Rightarrow> bool \<Rightarrow> micaz \<Rightarrow> micaz option" where
  "TIMER2_OVF FIFOP FIFO s =
    (if FIFOP \<and> \<not> FIFO then Some (flush_rx (flush_rx s))
     else do {
       (returned, s) \<leftarrow> (if FIFO then receive_frame s else Some (False, s));
       if returned then Some s
       else if flag_ReceiveComplete s then
         (if rx_payload (pRxInfo s) = [] then None
          else Some ((show_number (rx_payload (pRxInfo s) ! 0) s)\<lparr>flag_ReceiveComplete := False\<rparr>))
       else Some s
     })"

text \<open>One round of the sender; \<open>i\<close> is its counter.\<close>

definition sender_round :: "nat \<times> micaz \<Rightarrow> (nat \<times> micaz) option" where
  "sender_round = (\<lambda>(i, s).
    (let i = (if i = 8 then 0 else i);
         s = show_number (of_nat i) (s\<lparr>pTxBuffer := (pTxBuffer s)[0 := of_nat i]\<rparr>)
     in do {
       s \<leftarrow> CC2420_SendPacket \<lparr>destAddr = 0x1235, tx_length = 1, tx_ackRequest = False\<rparr> s;
       Some (i + 1, s)
     }))"

section \<open>Sending\<close>

lemma take_Suc_update: "k < length d \<Longrightarrow> take (Suc k) (d[k := x]) = take k d @ [x]"
  by (simp add: take_Suc_conv_app_nth)

lemma copy_payload_all:
  "i + n \<le> length p \<Longrightarrow> i + n + 10 \<le> length d \<Longrightarrow>
   copy_payload n i p d = Some (take (i + 10) d @ take n (drop i p) @ drop (i + n + 10) d)"
proof (induction n arbitrary: i d)
  case (Suc n)
  have "drop i p = p ! i # drop (Suc i) p" using Suc.prems(1) by (simp add: Cons_nth_drop_Suc)
  moreover have "take (Suc i + 10) (d[i + 10 := p ! i]) = take (i + 10) d @ [p ! i]"
    using take_Suc_update [of "i + 10" d] Suc.prems(2) by simp
  ultimately show ?case using Suc.IH [of "Suc i" "d[i + 10 := p ! i]"] Suc.prems by simp
qed simp

text \<open>The frame of a packet: the two last octets stand for the checksum, which the transceiver fills in.\<close>

definition sent_frame :: "u16 \<Rightarrow> u8 list \<Rightarrow> tx_info \<Rightarrow> micaz \<Rightarrow> u8 list" where
  "sent_frame fcf p tx s = send_header (tx_length tx + OVERHEAD_DsSs) fcf tx s @ p @ [0, 0]"

definition data_fcf :: "bool \<Rightarrow> u16" where
  "data_fcf ack = (if ack then 0x8861 else 0x8841)"

lemma data_fcf: "FCF_DATA OR (if a then FCF_ACK_REQUEST else 0) OR FCF_INTRAPAN OR FCF_DESTADDR_16BIT
    OR FCF_SOURCEADDR_16BIT = data_fcf a"
  by (simp add: data_fcf_def radio_constants)

lemma length_send_header [simp]: "length (send_header l fcf tx s) = 10"
  by (simp add: send_header_def)

lemma tx_fifo_simps [simp]:
  "tx_fifo (spi_transaction os s) = tx_fifo s" "tx_fifo (WriteStrobeReg_spi c s) = tx_fifo s"
  "tx_fifo (CC2420_ReceiveOn s) = tx_fifo s"
  by (simp_all add: spi_transaction_def WriteStrobeReg_spi_def CC2420_ReceiveOn_def flush_rx_def)

lemma sends_frame:
  assumes "length (pTxBuffer s) = MAX_PAYLOAD_SIZE" "unat (tx_length tx) \<le> 115"
  shows "\<exists>t. CC2420_SendPacket tx s = Some t \<and> txSeqNumber t = txSeqNumber s + 1 \<and>
    tx_fifo t = sent_frame (data_fcf (tx_ackRequest tx)) (take (unat (tx_length tx)) (pTxBuffer s)) tx s"
proof -
  let ?n = "unat (tx_length tx)" and ?s = "WriteStrobeReg_spi 0x09 (s\<lparr>tx_fifo := []\<rparr>)"
  let ?h = "send_header (tx_length tx + OVERHEAD_DsSs) (data_fcf (tx_ackRequest tx)) tx ?s"
  have h: "?h = send_header (tx_length tx + OVERHEAD_DsSs) (data_fcf (tx_ackRequest tx)) tx s"
    "pTxBuffer ?s = pTxBuffer s" "tx_fifo ?s = []" "txSeqNumber ?s = txSeqNumber s"
    by (simp_all add: send_header_def WriteStrobeReg_spi_def spi_transaction_def)
  have n: "unat (tx_length tx + OVERHEAD_DsSs + 1) = ?n + 12"
    using assms(2) by (simp add: OVERHEAD_DsSs_def unat_add_u8 add.assoc)
  obtain p where p: "take ?n (pTxBuffer s) = p" "length p = ?n" using assms by (simp add: radio_constants)
  have "copy_payload ?n 0 (pTxBuffer s) (?h @ replicate (CC2420_MAX - 10) 0) = Some (?h @ p @ replicate (117 - ?n) 0)"
    using assms p copy_payload_all [of 0 ?n "pTxBuffer s" "?h @ replicate (CC2420_MAX - 10) 0"]
    by (simp add: radio_constants)
  moreover have "replicate (117 - ?n) 0 = [0, 0] @ replicate (115 - ?n) (0 :: u8)"
    using assms(2) by (simp add: Suc_diff_le numeral_eq_Suc)
  ultimately show ?thesis
    using assms(2) n h p unfolding CC2420_SendPacket_def Let_def data_fcf
    by (simp add: Write_TXFIFO_def sent_frame_def radio_constants CC2420_ReceiveOn_def flush_rx_def
        spi_transaction_def WriteStrobeReg_spi_def)
qed

lemma sent_leds: "CC2420_SendPacket tx s = Some t \<Longrightarrow> leds t = leds s"
  by (auto simp: CC2420_SendPacket_def Let_def Write_TXFIFO_def CC2420_ReceiveOn_def flush_rx_def spi_transaction_def
      WriteStrobeReg_spi_def split: Option.bind_splits if_splits)

section \<open>Receiving\<close>

lemma read_payload_all:
  "rx_fifo s = cs @ rest \<Longrightarrow> length cs = n \<Longrightarrow> j + n \<le> length (rx_payload (pRxInfo s)) \<Longrightarrow> j + n \<le> CC2420_MAX \<Longrightarrow>
   read_payload n j s = Some (s\<lparr>rx_fifo := rest, pRxInfo := (pRxInfo s)\<lparr>rx_payload :=
     take j (rx_payload (pRxInfo s)) @ cs @ drop (j + n) (rx_payload (pRxInfo s))\<rparr>\<rparr>)"
proof (induction n arbitrary: j s cs)
  case 0
  then show ?case by (cases s) simp
next
  case (Suc n)
  then obtain c ds where cs: "cs = c # ds" by (cases cs) auto
  let ?p = "rx_payload (pRxInfo s)"
  let ?s = "s\<lparr>rx_fifo := ds @ rest, pRxInfo := (pRxInfo s)\<lparr>rx_payload := ?p[j := c]\<rparr>\<rparr>"
  have "read_payload (Suc n) j s = read_payload n (Suc j) ?s"
    using Suc.prems cs by (simp add: snop_def)
  moreover have "take (Suc j) (?p[j := c]) = take j ?p @ [c]" using Suc.prems(3) by (simp add: take_Suc_conv_app_nth)
  ultimately show ?case using Suc.IH [of ?s ds "Suc j"] Suc.prems cs by simp
qed

lemma join_bytes: "push_bit 8 (u8_to_u16 (u16_to_u8 (drop_bit 8 a))) OR u8_to_u16 (u16_to_u8 (a AND 0xFF)) = (a :: u16)"
proof (rule bit_word_eqI)
  fix n assume "n < LENGTH(16)"
  have m: "(0xFF :: u16) = mask 8" by (simp add: mask_numeral)
  show "bit (push_bit 8 (u8_to_u16 (u16_to_u8 (drop_bit 8 a))) OR u8_to_u16 (u16_to_u8 (a AND 0xFF))) n \<longleftrightarrow> bit a n"
    using \<open>n < LENGTH(16)\<close> unfolding m by (cases "n < 8") (auto simp: bit_simps)
qed

lemma snop_Cons: "rx_fifo s = c # cs \<Longrightarrow> snop s = (c, s\<lparr>rx_fifo := cs\<rparr>)"
  by (simp add: snop_def)

text \<open>What the transceiver gives the receiver: the checksum of the frame has become two octets of status.\<close>

definition on_air :: "u8 list \<Rightarrow> u8 \<Rightarrow> u8 \<Rightarrow> u8 list" where
  "on_air f r c = take (unat (hd f) - 1) f @ [r, c]"

lemma on_air_frame:
  assumes "unat (tx_length tx) = length p" "length p \<le> 115"
  shows "on_air (sent_frame fcf p tx s) r c = send_header (tx_length tx + OVERHEAD_DsSs) fcf tx s @ p @ [r, c]"
proof -
  have "unat (tx_length tx + OVERHEAD_DsSs) = length p + 11"
    using assms by (simp add: OVERHEAD_DsSs_def unat_add_u8)
  moreover have "hd (sent_frame fcf p tx s) = tx_length tx + OVERHEAD_DsSs"
    by (simp add: sent_frame_def send_header_def)
  ultimately show ?thesis by (simp add: on_air_def sent_frame_def)
qed

lemma receive_rest_data:
  assumes "rx_fifo s = [p0, p1, d0, d1, a0, a1] @ p @ [r, c]" "len = of_nat (length p) + OVERHEAD_DsSs" "length p \<le> 116"
    "fcf \<in> {0x8841, 0x8861}" "length (rx_payload (pRxInfo s)) = MAX_PAYLOAD_SIZE"
  shows "receive_rest len fcf s = Some (s\<lparr>rx_fifo := [], flag_ReceiveComplete := True, pRxInfo := (pRxInfo s)\<lparr>
    rx_length := of_nat (length p), srcAddr := push_bit 8 (u8_to_u16 a1) OR u8_to_u16 a0,
    rx_payload := p @ drop (length p) (rx_payload (pRxInfo s)), rssi := r\<rparr>\<rparr>)"
proof -
  let ?i = "(pRxInfo s)\<lparr>rx_length := of_nat (length p), srcAddr := push_bit 8 (u8_to_u16 a1) OR u8_to_u16 a0\<rparr>"
  let ?s = "s\<lparr>rx_fifo := p @ [r, c], pRxInfo := ?i\<rparr>"
  have n: "unat (of_nat (length p) :: u8) = length p" using assms(3) by (simp add: unat_of_nat)
  have l: "len - OVERHEAD_DsSs = of_nat (length p)" using assms(2) by simp
  have f: "fcf AND FCF_DESTADDR_BM = FCF_DESTADDR_16BIT" "fcf AND FCF_SOURCEADDR_BM = FCF_SOURCEADDR_16BIT"
    using assms(4) by (auto simp: radio_constants)
  have "read_payload (length p) 0 ?s = Some (?s\<lparr>rx_fifo := [r, c], pRxInfo := ?i\<lparr>rx_payload :=
      p @ drop (length p) (rx_payload (pRxInfo s))\<rparr>\<rparr>)"
    using assms(3,5) read_payload_all [of ?s p "[r, c]" "length p" 0] by (simp add: radio_constants)
  then show ?thesis unfolding receive_rest_def Let_def l f
    using assms(1) n by (simp add: snop_def)
qed

text \<open>The whole handler, on a frame that a node has sent.\<close>

definition received :: "u8 list \<Rightarrow> u16 \<Rightarrow> u8 \<Rightarrow> u8 \<Rightarrow> rx_info \<Rightarrow> rx_info \<Rightarrow> bool" where
  "received p from sn r old i \<longleftrightarrow> seqNumber i = sn \<and> srcAddr i = from \<and> rx_length i = of_nat (length p) \<and>
     rx_payload i = p @ drop (length p) (rx_payload old) \<and> rssi i = r"

lemma receive_data_frame:
  assumes "rx_fifo s = send_header len fcf tx q @ p @ [r, c]" "len = of_nat (length p) + OVERHEAD_DsSs" "length p \<le> 115"
    "fcf \<in> {0x8841, 0x8861}" "length (rx_payload (pRxInfo s)) = MAX_PAYLOAD_SIZE"
  shows "\<exists>t. receive_frame s = Some (False, end_frame t) \<and>
    received p (myAddr q) (txSeqNumber q) r (pRxInfo s) (pRxInfo t) \<and> flag_ReceiveComplete t \<and>
    rx_ackRequest (pRxInfo t) = (fcf = 0x8861)"
proof -
  have n: "unat len = length p + 11"
    using assms(2,3) by (simp add: OVERHEAD_DsSs_def unat_add_u8 unat_of_nat)
  have m: "len AND LENGTH_MASK = len"
  proof -
    have "LENGTH_MASK = mask 7" by (simp add: LENGTH_MASK_def mask_numeral)
    moreover have "len < 2 ^ 7" using n assms(3) by (simp add: word_less_nat_alt)
    ultimately show ?thesis using less_mask_eq by metis
  qed
  have l: "\<not> len < ACK_PACKET_SIZE" "len \<noteq> ACK_PACKET_SIZE" "\<not> len < OVERHEAD_DsSs"
    using n by (auto simp: radio_constants word_less_nat_alt)
  let ?i = "(pRxInfo s)\<lparr>rx_ackRequest := fcf AND FCF_ACK_BM \<noteq> 0, seqNumber := txSeqNumber q\<rparr>"
  let ?s = "s\<lparr>selected := True, rx_fifo := drop 4 (rx_fifo s), pRxInfo := ?i\<rparr>"
  have "receive_frame s = (case receive_rest len fcf ?s of None \<Rightarrow> None | Some s \<Rightarrow> Some (False, end_frame s))"
    using assms(1) m l join_bytes [of fcf] unfolding receive_frame_def
    by (simp add: snop_def send_header_def Let_def split: option.split)
  moreover have "drop 4 (rx_fifo s) = [u16_to_u8 (panId q AND 0xFF), u16_to_u8 (drop_bit 8 (panId q)),
     u16_to_u8 (destAddr tx AND 0xFF), u16_to_u8 (drop_bit 8 (destAddr tx)),
     u16_to_u8 (myAddr q AND 0xFF), u16_to_u8 (drop_bit 8 (myAddr q))] @ p @ [r, c]"
    using assms(1) by (simp add: send_header_def)
  moreover have "fcf AND FCF_ACK_BM \<noteq> 0 \<longleftrightarrow> fcf = 0x8861" using assms(4) by (auto simp: radio_constants)
  ultimately show ?thesis
    using receive_rest_data [of ?s _ _ _ _ _ _ p r c len fcf] assms(2-5) join_bytes [of "myAddr q"]
    by (auto simp: received_def)
qed

lemma end_frame_simps [simp]:
  "pRxInfo (end_frame s) = pRxInfo s" "flag_ReceiveComplete (end_frame s) = flag_ReceiveComplete s"
  "rx_fifo (end_frame s) = []" "selected (end_frame s) = False"
  by (simp_all add: end_frame_def flush_rx_def WriteStrobeReg_spi_def spi_transaction_def)

lemma show_number_simps [simp]:
  "pRxInfo (show_number n s) = pRxInfo s" "selected (show_number n s) = selected s"
  by (simp_all add: show_number_def)

lemma show_number_bits:
  "n < 8 \<Longrightarrow> leds (show_number n s) = \<lparr>RLED = bit n 2, YLED = bit n 0, GLED = bit n 1\<rparr>"
proof -
  assume "n < 8"
  then have "unat n < 8" by (simp add: word_less_nat_alt)
  then have "unat n \<in> {0, 1, 2, 3, 4, 5, 6, 7}" by auto
  then have "n \<in> {0, 1, 2, 3, 4, 5, 6, 7}" by (auto simp: word_unat_eq_iff)
  then show ?thesis by (auto simp: show_number_def)
qed

text \<open>From the payload of the sender to the one of the receiver.\<close>

lemma packet_transferred:
  assumes "CC2420_SendPacket tx s = Some t" "length (pTxBuffer s) = MAX_PAYLOAD_SIZE"
    "unat (tx_length tx) = length p" "length p \<le> 115" "take (length p) (pTxBuffer s) = p"
    "length (rx_payload (pRxInfo r)) = MAX_PAYLOAD_SIZE" "rx_fifo r = on_air (tx_fifo t) strength c"
  shows "\<exists>v. receive_frame r = Some (False, end_frame v) \<and>
    received p (myAddr s) (txSeqNumber s) strength (pRxInfo r) (pRxInfo v) \<and> flag_ReceiveComplete v \<and>
    rx_ackRequest (pRxInfo v) = tx_ackRequest tx \<and> rx_payload (pRxInfo v) \<noteq> []"
proof -
  have "tx_fifo t = sent_frame (data_fcf (tx_ackRequest tx)) p tx s"
    using sends_frame [OF assms(2), of tx] assms(1,3-5) by auto
  then have "rx_fifo r = send_header (tx_length tx + OVERHEAD_DsSs) (data_fcf (tx_ackRequest tx)) tx s @ p @ [strength, c]"
    using assms(7) on_air_frame [OF assms(3,4)] by simp
  moreover have "tx_length tx = of_nat (length p)" by (simp flip: assms(3))
  moreover have "data_fcf (tx_ackRequest tx) \<in> {0x8841, 0x8861}"
    "(data_fcf (tx_ackRequest tx) = 0x8861) = tx_ackRequest tx" by (simp_all add: data_fcf_def)
  ultimately obtain v where v: "receive_frame r = Some (False, end_frame v)"
    "received p (myAddr s) (txSeqNumber s) strength (pRxInfo r) (pRxInfo v)" "flag_ReceiveComplete v"
    "rx_ackRequest (pRxInfo v) = tx_ackRequest tx"
    using receive_data_frame [of r _ _ tx s p strength c] assms(4,6) by metis
  moreover have "rx_payload (pRxInfo v) \<noteq> []"
    using v(2) assms(4,6) by (auto simp: received_def MAX_PAYLOAD_SIZE_def)
  ultimately show ?thesis by blast
qed

section \<open>Properties\<close>

text \<open>
  C34: A packet that one node sends is received by the other. The frame that \<open>CC2420_SendPacket\<close> writes for a packet of
  at most 115 octets makes the handler of the receiver store the payload, its length, the address of the sender
  and the sequence number, clean up and release the transceiver, whatever the state of the checksum \<open>c\<close> is: it is not tested.
\<close>

theorem radio_packet_received:
  assumes "length (pTxBuffer s) = MAX_PAYLOAD_SIZE" "unat (tx_length tx) = length p" "length p \<le> 115"
    "take (length p) (pTxBuffer s) = p" "length (rx_payload (pRxInfo r)) = MAX_PAYLOAD_SIZE"
    "\<And>t. CC2420_SendPacket tx s = Some t \<Longrightarrow> rx_fifo r = on_air (tx_fifo t) strength c"
  shows "\<exists>t u. CC2420_SendPacket tx s = Some t \<and> txSeqNumber t = txSeqNumber s + 1 \<and>
    TIMER2_OVF fifop True r = Some u \<and> received p (myAddr s) (txSeqNumber s) strength (pRxInfo r) (pRxInfo u) \<and>
    rx_ackRequest (pRxInfo u) = tx_ackRequest tx \<and> \<not> selected u \<and> rx_fifo u = [] \<and> \<not> flag_ReceiveComplete u"
proof -
  obtain t where t: "CC2420_SendPacket tx s = Some t" "txSeqNumber t = txSeqNumber s + 1"
    using sends_frame [OF assms(1), of tx] assms(2,3) by auto
  obtain v where v: "receive_frame r = Some (False, end_frame v)"
    "received p (myAddr s) (txSeqNumber s) strength (pRxInfo r) (pRxInfo v)" "flag_ReceiveComplete v"
    "rx_ackRequest (pRxInfo v) = tx_ackRequest tx" "rx_payload (pRxInfo v) \<noteq> []"
    using packet_transferred [OF t(1) assms(1-5) assms(6) [OF t(1)]] by blast
  let ?u = "(show_number (rx_payload (pRxInfo v) ! 0) (end_frame v))\<lparr>flag_ReceiveComplete := False\<rparr>"
  have "TIMER2_OVF fifop True r = Some ?u" using v(1,3,5) by (simp add: TIMER2_OVF_def)
  moreover have "rx_fifo ?u = []" by (simp add: show_number_def)
  ultimately show ?thesis using t v(2,4) by auto
qed

text \<open>The sender of the program, and the other node with a frame in its buffer.\<close>

definition radio_node :: "u8 list \<Rightarrow> u8 list \<Rightarrow> micaz" where
  "radio_node p f = \<lparr>pRxInfo = \<lparr>seqNumber = 0, srcAddr = 0, rx_length = 0, rx_payload = replicate MAX_PAYLOAD_SIZE 0,
     rx_ackRequest = False, rssi = 0\<rparr>, txSeqNumber = 0, ackReceived = False, panId = 0x2420, myAddr = 0x1234,
     receiveOn = True, pTxBuffer = p @ replicate (MAX_PAYLOAD_SIZE - length p) 32, flag_ReceiveComplete = False,
     leds = \<lparr>RLED = False, YLED = False, GLED = False\<rparr>, selected = False, spi_log = [], tx_fifo = [], rx_fifo = f,
     idle = 0\<rparr>"

theorem radio_packet_received_witness:
  "\<exists>u. TIMER2_OVF True True (radio_node [] [13, 0x41, 0x88, 0, 0x20, 0x24, 0x35, 0x12, 0x34, 0x12, 7, 9, 50, 0]) = Some u \<and>
     srcAddr (pRxInfo u) = 0x1234 \<and> take 2 (rx_payload (pRxInfo u)) = [7, 9]"
proof -
  let ?tx = "\<lparr>destAddr = 0x1235, tx_length = 2, tx_ackRequest = False\<rparr>" and ?s = "radio_node [7, 9] []"
  let ?f = "[13, 0x41, 0x88, 0, 0x20, 0x24, 0x35, 0x12, 0x34, 0x12, 7, 9, 50, 0]"
  have s: "length (pTxBuffer ?s) = MAX_PAYLOAD_SIZE" "take (length [7, 9]) (pTxBuffer ?s) = [7, 9]"
    "length (rx_payload (pRxInfo (radio_node [] ?f))) = MAX_PAYLOAD_SIZE"
    by (simp_all add: radio_node_def MAX_PAYLOAD_SIZE_def)
  have "on_air (sent_frame (data_fcf False) [7, 9] ?tx ?s) 50 0 = ?f"
    by (simp add: on_air_frame send_header_def data_fcf_def radio_node_def OVERHEAD_DsSs_def)
  moreover have "unat (tx_length ?tx) = length [7 :: u8, 9]" by simp
  moreover have "rx_fifo (radio_node [] ?f) = ?f" by (simp add: radio_node_def)
  moreover have "take 2 (pTxBuffer ?s) = [7, 9]" using s(2) by (simp add: numeral_2_eq_2)
  ultimately have "rx_fifo (radio_node [] ?f) = on_air (tx_fifo t) 50 0" if "CC2420_SendPacket ?tx ?s = Some t" for t
    using sends_frame [OF s(1), of ?tx] s(2) that by auto
  moreover have "myAddr ?s = 0x1234" by (simp add: radio_node_def)
  ultimately show ?thesis
    using radio_packet_received [OF s(1) _ _ s(2,3), of ?tx 50 0 True] by (auto simp: received_def)
qed

text \<open>
  The receiver shows the number that the sender shows. After a round of the sender, a receiver whose transceiver
  has got its frame shows the same lights, the bits of the counter.
\<close>

theorem radio_counter_shown:
  assumes "i \<le> 8" "length (pTxBuffer s) = MAX_PAYLOAD_SIZE" "length (rx_payload (pRxInfo r)) = MAX_PAYLOAD_SIZE"
    "\<And>t. sender_round (i, s) = Some t \<Longrightarrow> rx_fifo r = on_air (tx_fifo (snd t)) strength c"
  shows "\<exists>t u. sender_round (i, s) = Some (i mod 8 + 1, t) \<and> TIMER2_OVF fifop True r = Some u \<and> leds u = leds t \<and>
    leds t = \<lparr>RLED = bit (i mod 8) 2, YLED = bit (i mod 8) 0, GLED = bit (i mod 8) 1\<rparr>"
proof -
  let ?j = "i mod 8" and ?tx = "\<lparr>destAddr = 0x1235, tx_length = 1, tx_ackRequest = False\<rparr>"
  let ?s = "show_number (of_nat ?j) (s\<lparr>pTxBuffer := (pTxBuffer s)[0 := of_nat ?j]\<rparr>)"
  have j: "(if i = 8 then 0 else i) = ?j" using assms(1) by auto
  have buf: "length (pTxBuffer ?s) = MAX_PAYLOAD_SIZE" "take (length [of_nat ?j]) (pTxBuffer ?s) = [of_nat ?j]"
    using assms(2) by (cases "pTxBuffer s"; simp add: show_number_def MAX_PAYLOAD_SIZE_def)+
  obtain t where t: "CC2420_SendPacket ?tx ?s = Some t" using sends_frame [OF buf(1), of ?tx] by auto
  then have round: "sender_round (i, s) = Some (?j + 1, t)" by (simp add: sender_round_def Let_def j)
  obtain v where v: "receive_frame r = Some (False, end_frame v)"
    "received [of_nat ?j] (myAddr ?s) (txSeqNumber ?s) strength (pRxInfo r) (pRxInfo v)" "flag_ReceiveComplete v"
    "rx_payload (pRxInfo v) \<noteq> []"
    using packet_transferred [OF t buf(1) _ _ buf(2) assms(3)] assms(4) [OF round] by auto
  let ?u = "(show_number (rx_payload (pRxInfo v) ! 0) (end_frame v))\<lparr>flag_ReceiveComplete := False\<rparr>"
  have "TIMER2_OVF fifop True r = Some ?u" using v(1,3,4) by (simp add: TIMER2_OVF_def)
  moreover have "rx_payload (pRxInfo v) ! 0 = of_nat ?j" using v(2) by (simp add: received_def)
  moreover have "(of_nat ?j :: u8) < 8" by (simp add: word_less_nat_alt unat_of_nat)
  moreover have "bit (of_nat ?j :: u8) k = bit ?j k" if "k < 8" for k using that by (simp add: bit_of_nat_iff)
  moreover have "leds t = leds ?s" using sent_leds [OF t] .
  ultimately show ?thesis using round by (simp add: show_number_bits)
qed

text \<open>The transceiver is left selected by a frame that is too short for a packet.\<close>

lemma short_frame_keeps_selected:
  assumes "rx_fifo s = [5, 0x41, 0x88, sn, a, b]"
  shows "\<exists>u. TIMER2_OVF fifop True s = Some u \<and> selected u"
proof -
  have "snops 2 q = snd (snop (snd (snop q)))" for q by (simp add: numeral_2_eq_2)
  with assms show ?thesis by (simp add: TIMER2_OVF_def receive_frame_def snop_def Let_def radio_constants)
qed

text \<open>A payload that fills its buffer is written to the transceiver with an octet behind the end of the array.\<close>

lemma longest_packet_reads_outside:
  assumes "tx_length tx = 116" "length (pTxBuffer s) = MAX_PAYLOAD_SIZE"
  shows "CC2420_SendPacket tx s = None"
proof -
  have copied: "copy_payload 116 0 (pTxBuffer s) (send_header len fcf tx q @ replicate (CC2420_MAX - 10) 0) =
      Some (send_header len fcf tx q @ pTxBuffer s @ [0])" for len fcf q
    using copy_payload_all [of 0 116 "pTxBuffer s" "send_header len fcf tx q @ replicate (CC2420_MAX - 10) 0"] assms(2)
    by (simp add: radio_constants)
  have p: "pTxBuffer (WriteStrobeReg_spi c q) = pTxBuffer q" for c q
    by (simp add: WriteStrobeReg_spi_def spi_transaction_def)
  have "unat (tx_length tx) = 116" "unat (tx_length tx + OVERHEAD_DsSs + 1) = 128"
    using assms(1) by (simp_all add: OVERHEAD_DsSs_def)
  then show ?thesis using assms(2)
    by (simp add: CC2420_SendPacket_def Let_def Write_TXFIFO_def copied p MAX_PAYLOAD_SIZE_def)
qed

text \<open>
  Of the sixteen channels only two are set right. The frequency is combined with the one of channel 11 by
  \<open>OR\<close>, so that the register has the frequency of the channel for 11 and 13 only.
\<close>

definition frequency :: "u8 list \<Rightarrow> nat" where
  "frequency os = 256 * (unat (os ! 1) mod 4) + unat (os ! 2)"

theorem channels_set_wrong:
  assumes "11 \<le> n" "n \<le> 26"
  shows "\<exists>os. spi_log (CC2420_SetChannel (of_nat n) s) = spi_log s @ [0x18 # os] \<and>
    (frequency (0x18 # os) = 357 + 5 * (n - 11) \<longleftrightarrow> n = 11 \<or> n = 13)"
proof -
  have "n \<in> {11, 12, 13, 14, 15, 16, 17, 18, 19, 20, 21, 22, 23, 24, 25, 26}" using assms by simp arith
  then show ?thesis
    by (auto simp: CC2420_SetChannel_def WriteConfigReg_spi_def spi_transaction_def frequency_def)
qed

theorem channels_set_wrong_witness:
  "\<exists>os. spi_log (CC2420_SetChannel 12 (radio_node [] [])) = [0x18 # os] \<and> frequency (0x18 # os) \<noteq> 362"
  using channels_set_wrong [of 12 "radio_node [] []"] by (auto simp: radio_node_def)

end
