(* ===== verification/Led_Fonts.thy ===== *)
theory Led_Fonts
  imports Prelude
begin

text \<open>
  The fonts of the application \<open>apps/ledmatrix\<close>: eight rows for each character in \<open>scroller.c\<close>, five columns in
  \<open>serial_matrix.c\<close>; thirty-two characters in each part.
\<close>

section \<open>Rows\<close>

definition scroller_font_00 :: "u8 list" where
  "scroller_font_00 =
    [0x00, 0x00, 0x00, 0x00, 0x00, 0x00, 0x00, 0x00, 0x00, 0x00, 0x00, 0x00, 0x00, 0x00, 0x00, 0x00, 0x00, 0x00, 0x00, 0x00, 0x00, 0x00, 0x00, 0x00,
     0x00, 0x00, 0x00, 0x00, 0x00, 0x00, 0x00, 0x00, 0x00, 0x00, 0x00, 0x00, 0x00, 0x00, 0x00, 0x00, 0x00, 0x00, 0x00, 0x00, 0x00, 0x00, 0x00, 0x00,
     0x00, 0x00, 0x00, 0x00, 0x00, 0x00, 0x00, 0x00, 0x00, 0x00, 0x00, 0x00, 0x00, 0x00, 0x00, 0x00, 0x00, 0x00, 0x00, 0x00, 0x00, 0x00, 0x00, 0x00,
     0x00, 0x00, 0x00, 0x00, 0x00, 0x00, 0x00, 0x00, 0x00, 0x00, 0x00, 0x00, 0x00, 0x00, 0x00, 0x00, 0x00, 0x00, 0x00, 0x00, 0x00, 0x00, 0x00, 0x00,
     0x00, 0x00, 0x00, 0x00, 0x00, 0x00, 0x00, 0x00, 0x00, 0x00, 0x00, 0x00, 0x00, 0x00, 0x00, 0x00, 0x00, 0x00, 0x00, 0x00, 0x00, 0x00, 0x00, 0x00,
     0x00, 0x00, 0x00, 0x00, 0x00, 0x00, 0x00, 0x00, 0x00, 0x00, 0x00, 0x00, 0x00, 0x00, 0x00, 0x00, 0x00, 0x00, 0x00, 0x00, 0x00, 0x00, 0x00, 0x00,
     0x00, 0x00, 0x00, 0x00, 0x00, 0x00, 0x00, 0x00, 0x00, 0x00, 0x00, 0x00, 0x00, 0x00, 0x00, 0x00, 0x00, 0x00, 0x00, 0x00, 0x00, 0x00, 0x00, 0x00,
     0x00, 0x00, 0x00, 0x00, 0x00, 0x00, 0x00, 0x00, 0x00, 0x00, 0x00, 0x00, 0x00, 0x00, 0x00, 0x00, 0x00, 0x00, 0x00, 0x00, 0x00, 0x00, 0x00, 0x00,
     0x00, 0x00, 0x00, 0x00, 0x00, 0x00, 0x00, 0x00, 0x00, 0x00, 0x00, 0x00, 0x00, 0x00, 0x00, 0x00, 0x00, 0x00, 0x00, 0x00, 0x00, 0x00, 0x00, 0x00,
     0x00, 0x00, 0x00, 0x00, 0x00, 0x00, 0x00, 0x00, 0x00, 0x00, 0x00, 0x00, 0x00, 0x00, 0x00, 0x00, 0x00, 0x00, 0x00, 0x00, 0x00, 0x00, 0x00, 0x00,
     0x00, 0x00, 0x00, 0x00, 0x00, 0x00, 0x00, 0x00, 0x00, 0x00, 0x00, 0x00, 0x00, 0x00, 0x00, 0x00]"

definition scroller_font_20 :: "u8 list" where
  "scroller_font_20 =
    [0x00, 0x00, 0x00, 0x00, 0x00, 0x00, 0x00, 0x00, 0x18, 0x3C, 0x3C, 0x18, 0x18, 0x00, 0x18, 0x00, 0x36, 0x36, 0x00, 0x00, 0x00, 0x00, 0x00, 0x00,
     0x36, 0x36, 0x7F, 0x36, 0x7F, 0x36, 0x36, 0x00, 0x0C, 0x3E, 0x03, 0x1E, 0x30, 0x1F, 0x0C, 0x00, 0x00, 0x63, 0x33, 0x18, 0x0C, 0x66, 0x63, 0x00,
     0x1C, 0x36, 0x1C, 0x6E, 0x3B, 0x33, 0x6E, 0x00, 0x06, 0x06, 0x03, 0x00, 0x00, 0x00, 0x00, 0x00, 0x18, 0x0C, 0x06, 0x06, 0x06, 0x0C, 0x18, 0x00,
     0x06, 0x0C, 0x18, 0x18, 0x18, 0x0C, 0x06, 0x00, 0x00, 0x66, 0x3C, 0xFF, 0x3C, 0x66, 0x00, 0x00, 0x00, 0x0C, 0x0C, 0x3F, 0x0C, 0x0C, 0x00, 0x00,
     0x00, 0x00, 0x00, 0x00, 0x00, 0x0C, 0x0C, 0x06, 0x00, 0x00, 0x00, 0x3F, 0x00, 0x00, 0x00, 0x00, 0x00, 0x00, 0x00, 0x00, 0x00, 0x0C, 0x0C, 0x00,
     0x60, 0x30, 0x18, 0x0C, 0x06, 0x03, 0x01, 0x00, 0x3E, 0x63, 0x73, 0x7B, 0x6F, 0x67, 0x3E, 0x00, 0x0C, 0x0E, 0x0C, 0x0C, 0x0C, 0x0C, 0x3F, 0x00,
     0x1E, 0x33, 0x30, 0x1C, 0x06, 0x33, 0x3F, 0x00, 0x1E, 0x33, 0x30, 0x1C, 0x30, 0x33, 0x1E, 0x00, 0x38, 0x3C, 0x36, 0x33, 0x7F, 0x30, 0x78, 0x00,
     0x3F, 0x03, 0x1F, 0x30, 0x30, 0x33, 0x1E, 0x00, 0x1C, 0x06, 0x03, 0x1F, 0x33, 0x33, 0x1E, 0x00, 0x3F, 0x33, 0x30, 0x18, 0x0C, 0x0C, 0x0C, 0x00,
     0x1E, 0x33, 0x33, 0x1E, 0x33, 0x33, 0x1E, 0x00, 0x1E, 0x33, 0x33, 0x3E, 0x30, 0x18, 0x0E, 0x00, 0x00, 0x0C, 0x0C, 0x00, 0x00, 0x0C, 0x0C, 0x00,
     0x00, 0x0C, 0x0C, 0x00, 0x00, 0x0C, 0x0C, 0x06, 0x18, 0x0C, 0x06, 0x03, 0x06, 0x0C, 0x18, 0x00, 0x00, 0x00, 0x3F, 0x00, 0x00, 0x3F, 0x00, 0x00,
     0x06, 0x0C, 0x18, 0x30, 0x18, 0x0C, 0x06, 0x00, 0x1E, 0x33, 0x30, 0x18, 0x0C, 0x00, 0x0C, 0x00]"

definition scroller_font_40 :: "u8 list" where
  "scroller_font_40 =
    [0x3E, 0x63, 0x7B, 0x7B, 0x7B, 0x03, 0x1E, 0x00, 0x0C, 0x1E, 0x33, 0x33, 0x3F, 0x33, 0x33, 0x00, 0x3F, 0x66, 0x66, 0x3E, 0x66, 0x66, 0x3F, 0x00,
     0x3C, 0x66, 0x03, 0x03, 0x03, 0x66, 0x3C, 0x00, 0x1F, 0x36, 0x66, 0x66, 0x66, 0x36, 0x1F, 0x00, 0x7F, 0x46, 0x16, 0x1E, 0x16, 0x46, 0x7F, 0x00,
     0x7F, 0x46, 0x16, 0x1E, 0x16, 0x06, 0x0F, 0x00, 0x3C, 0x66, 0x03, 0x03, 0x73, 0x66, 0x7C, 0x00, 0x33, 0x33, 0x33, 0x3F, 0x33, 0x33, 0x33, 0x00,
     0x1E, 0x0C, 0x0C, 0x0C, 0x0C, 0x0C, 0x1E, 0x00, 0x78, 0x30, 0x30, 0x30, 0x33, 0x33, 0x1E, 0x00, 0x67, 0x66, 0x36, 0x1E, 0x36, 0x66, 0x67, 0x00,
     0x0F, 0x06, 0x06, 0x06, 0x46, 0x66, 0x7F, 0x00, 0x63, 0x77, 0x7F, 0x7F, 0x6B, 0x63, 0x63, 0x00, 0x63, 0x67, 0x6F, 0x7B, 0x73, 0x63, 0x63, 0x00,
     0x1C, 0x36, 0x63, 0x63, 0x63, 0x36, 0x1C, 0x00, 0x3F, 0x66, 0x66, 0x3E, 0x06, 0x06, 0x0F, 0x00, 0x1E, 0x33, 0x33, 0x33, 0x3B, 0x1E, 0x38, 0x00,
     0x3F, 0x66, 0x66, 0x3E, 0x36, 0x66, 0x67, 0x00, 0x1E, 0x33, 0x07, 0x0E, 0x38, 0x33, 0x1E, 0x00, 0x3F, 0x2D, 0x0C, 0x0C, 0x0C, 0x0C, 0x1E, 0x00,
     0x33, 0x33, 0x33, 0x33, 0x33, 0x33, 0x3F, 0x00, 0x33, 0x33, 0x33, 0x33, 0x33, 0x1E, 0x0C, 0x00, 0x63, 0x63, 0x63, 0x6B, 0x7F, 0x77, 0x63, 0x00,
     0x63, 0x63, 0x36, 0x1C, 0x1C, 0x36, 0x63, 0x00, 0x33, 0x33, 0x33, 0x1E, 0x0C, 0x0C, 0x1E, 0x00, 0x7F, 0x63, 0x31, 0x18, 0x4C, 0x66, 0x7F, 0x00,
     0x1E, 0x06, 0x06, 0x06, 0x06, 0x06, 0x1E, 0x00, 0x03, 0x06, 0x0C, 0x18, 0x30, 0x60, 0x40, 0x00, 0x1E, 0x18, 0x18, 0x18, 0x18, 0x18, 0x1E, 0x00,
     0x08, 0x1C, 0x36, 0x63, 0x00, 0x00, 0x00, 0x00, 0x00, 0x00, 0x00, 0x00, 0x00, 0x00, 0x00, 0xFF]"

definition scroller_font_60 :: "u8 list" where
  "scroller_font_60 =
    [0x0C, 0x0C, 0x18, 0x00, 0x00, 0x00, 0x00, 0x00, 0x00, 0x00, 0x1E, 0x30, 0x3E, 0x33, 0x6E, 0x00, 0x07, 0x06, 0x06, 0x3E, 0x66, 0x66, 0x3B, 0x00,
     0x00, 0x00, 0x1E, 0x33, 0x03, 0x33, 0x1E, 0x00, 0x38, 0x30, 0x30, 0x3E, 0x33, 0x33, 0x6E, 0x00, 0x00, 0x00, 0x1E, 0x33, 0x3F, 0x03, 0x1E, 0x00,
     0x1C, 0x36, 0x06, 0x0F, 0x06, 0x06, 0x0F, 0x00, 0x00, 0x00, 0x6E, 0x33, 0x33, 0x3E, 0x30, 0x1F, 0x07, 0x06, 0x36, 0x6E, 0x66, 0x66, 0x67, 0x00,
     0x0C, 0x00, 0x0E, 0x0C, 0x0C, 0x0C, 0x1E, 0x00, 0x30, 0x00, 0x30, 0x30, 0x30, 0x33, 0x33, 0x1E, 0x07, 0x06, 0x66, 0x36, 0x1E, 0x36, 0x67, 0x00,
     0x0E, 0x0C, 0x0C, 0x0C, 0x0C, 0x0C, 0x1E, 0x00, 0x00, 0x00, 0x33, 0x7F, 0x7F, 0x6B, 0x63, 0x00, 0x00, 0x00, 0x1F, 0x33, 0x33, 0x33, 0x33, 0x00,
     0x00, 0x00, 0x1E, 0x33, 0x33, 0x33, 0x1E, 0x00, 0x00, 0x00, 0x3B, 0x66, 0x66, 0x3E, 0x06, 0x0F, 0x00, 0x00, 0x6E, 0x33, 0x33, 0x3E, 0x30, 0x78,
     0x00, 0x00, 0x3B, 0x6E, 0x66, 0x06, 0x0F, 0x00, 0x00, 0x00, 0x3E, 0x03, 0x1E, 0x30, 0x1F, 0x00, 0x08, 0x0C, 0x3E, 0x0C, 0x0C, 0x2C, 0x18, 0x00,
     0x00, 0x00, 0x33, 0x33, 0x33, 0x33, 0x6E, 0x00, 0x00, 0x00, 0x33, 0x33, 0x33, 0x1E, 0x0C, 0x00, 0x00, 0x00, 0x63, 0x6B, 0x7F, 0x7F, 0x36, 0x00,
     0x00, 0x00, 0x63, 0x36, 0x1C, 0x36, 0x63, 0x00, 0x00, 0x00, 0x33, 0x33, 0x33, 0x3E, 0x30, 0x1F, 0x00, 0x00, 0x3F, 0x19, 0x0C, 0x26, 0x3F, 0x00,
     0x38, 0x0C, 0x0C, 0x07, 0x0C, 0x0C, 0x38, 0x00, 0x18, 0x18, 0x18, 0x00, 0x18, 0x18, 0x18, 0x00, 0x07, 0x0C, 0x0C, 0x38, 0x0C, 0x0C, 0x07, 0x00,
     0x6E, 0x3B, 0x00, 0x00, 0x00, 0x00, 0x00, 0x00, 0x00, 0x00, 0x00, 0x00, 0x00, 0x00, 0x00, 0x00]"

definition scroller_font_80 :: "u8 list" where
  "scroller_font_80 =
    [0x00, 0x00, 0x00, 0x00, 0x00, 0x00, 0x00, 0x00, 0x00, 0x00, 0x00, 0x00, 0x00, 0x00, 0x00, 0x00, 0x00, 0x00, 0x00, 0x00, 0x00, 0x00, 0x00, 0x00,
     0x00, 0x00, 0x00, 0x00, 0x00, 0x00, 0x00, 0x00, 0x00, 0x00, 0x00, 0x00, 0x00, 0x00, 0x00, 0x00, 0x00, 0x00, 0x00, 0x00, 0x00, 0x00, 0x00, 0x00,
     0x00, 0x00, 0x00, 0x00, 0x00, 0x00, 0x00, 0x00, 0x00, 0x00, 0x00, 0x00, 0x00, 0x00, 0x00, 0x00, 0x00, 0x00, 0x00, 0x00, 0x00, 0x00, 0x00, 0x00,
     0x00, 0x00, 0x00, 0x00, 0x00, 0x00, 0x00, 0x00, 0x00, 0x00, 0x00, 0x00, 0x00, 0x00, 0x00, 0x00, 0x00, 0x00, 0x00, 0x00, 0x00, 0x00, 0x00, 0x00,
     0x00, 0x00, 0x00, 0x00, 0x00, 0x00, 0x00, 0x00, 0x00, 0x00, 0x00, 0x00, 0x00, 0x00, 0x00, 0x00, 0x00, 0x00, 0x00, 0x00, 0x00, 0x00, 0x00, 0x00,
     0x00, 0x00, 0x00, 0x00, 0x00, 0x00, 0x00, 0x00, 0x00, 0x00, 0x00, 0x00, 0x00, 0x00, 0x00, 0x00, 0x00, 0x00, 0x00, 0x00, 0x00, 0x00, 0x00, 0x00,
     0x00, 0x00, 0x00, 0x00, 0x00, 0x00, 0x00, 0x00, 0x00, 0x00, 0x00, 0x00, 0x00, 0x00, 0x00, 0x00, 0x00, 0x00, 0x00, 0x00, 0x00, 0x00, 0x00, 0x00,
     0x00, 0x00, 0x00, 0x00, 0x00, 0x00, 0x00, 0x00, 0x00, 0x00, 0x00, 0x00, 0x00, 0x00, 0x00, 0x00, 0x00, 0x00, 0x00, 0x00, 0x00, 0x00, 0x00, 0x00,
     0x00, 0x00, 0x00, 0x00, 0x00, 0x00, 0x00, 0x00, 0x00, 0x00, 0x00, 0x00, 0x00, 0x00, 0x00, 0x00, 0x00, 0x00, 0x00, 0x00, 0x00, 0x00, 0x00, 0x00,
     0x00, 0x00, 0x00, 0x00, 0x00, 0x00, 0x00, 0x00, 0x00, 0x00, 0x00, 0x00, 0x00, 0x00, 0x00, 0x00, 0x00, 0x00, 0x00, 0x00, 0x00, 0x00, 0x00, 0x00,
     0x00, 0x00, 0x00, 0x00, 0x00, 0x00, 0x00, 0x00, 0x00, 0x00, 0x00, 0x00, 0x00, 0x00, 0x00, 0x00]"

definition scroller_font_A0 :: "u8 list" where
  "scroller_font_A0 =
    [0x00, 0x00, 0x00, 0x00, 0x00, 0x00, 0x00, 0x00, 0x18, 0x18, 0x00, 0x18, 0x18, 0x18, 0x18, 0x00, 0x18, 0x18, 0x7E, 0x03, 0x03, 0x7E, 0x18, 0x18,
     0x1C, 0x36, 0x26, 0x0F, 0x06, 0x67, 0x3F, 0x00, 0x00, 0x00, 0x63, 0x3E, 0x36, 0x3E, 0x63, 0x00, 0x33, 0x33, 0x1E, 0x3F, 0x0C, 0x3F, 0x0C, 0x0C,
     0x18, 0x18, 0x18, 0x00, 0x18, 0x18, 0x18, 0x00, 0x7C, 0xC6, 0x1C, 0x36, 0x36, 0x1C, 0x33, 0x1E, 0x33, 0x00, 0x00, 0x00, 0x00, 0x00, 0x00, 0x00,
     0x3C, 0x42, 0x99, 0x85, 0x85, 0x99, 0x42, 0x3C, 0x3C, 0x36, 0x36, 0x7C, 0x00, 0x00, 0x00, 0x00, 0x00, 0xCC, 0x66, 0x33, 0x66, 0xCC, 0x00, 0x00,
     0x00, 0x00, 0x00, 0x3F, 0x30, 0x30, 0x00, 0x00, 0x00, 0x00, 0x00, 0x00, 0x00, 0x00, 0x00, 0x00, 0x3C, 0x42, 0x9D, 0xA5, 0x9D, 0xA5, 0x42, 0x3C,
     0x7E, 0x00, 0x00, 0x00, 0x00, 0x00, 0x00, 0x00, 0x1C, 0x36, 0x36, 0x1C, 0x00, 0x00, 0x00, 0x00, 0x18, 0x18, 0x7E, 0x18, 0x18, 0x00, 0x7E, 0x00,
     0x1C, 0x30, 0x18, 0x0C, 0x3C, 0x00, 0x00, 0x00, 0x1C, 0x30, 0x18, 0x30, 0x1C, 0x00, 0x00, 0x00, 0x18, 0x0C, 0x00, 0x00, 0x00, 0x00, 0x00, 0x00,
     0x00, 0x00, 0x66, 0x66, 0x66, 0x3E, 0x06, 0x03, 0xFE, 0xDB, 0xDB, 0xDE, 0xD8, 0xD8, 0xD8, 0x00, 0x00, 0x00, 0x00, 0x18, 0x18, 0x00, 0x00, 0x00,
     0x00, 0x00, 0x00, 0x00, 0x00, 0x18, 0x30, 0x1E, 0x08, 0x0C, 0x08, 0x1C, 0x00, 0x00, 0x00, 0x00, 0x1C, 0x36, 0x36, 0x1C, 0x00, 0x00, 0x00, 0x00,
     0x00, 0x33, 0x66, 0xCC, 0x66, 0x33, 0x00, 0x00, 0xC3, 0x63, 0x33, 0xBD, 0xEC, 0xF6, 0xF3, 0x03, 0xC3, 0x63, 0x33, 0x7B, 0xCC, 0x66, 0x33, 0xF0,
     0x03, 0xC4, 0x63, 0xB4, 0xDB, 0xAC, 0xE6, 0x80, 0x0C, 0x00, 0x0C, 0x06, 0x03, 0x33, 0x1E, 0x00]"

definition scroller_font_C0 :: "u8 list" where
  "scroller_font_C0 =
    [0x07, 0x00, 0x1C, 0x36, 0x63, 0x7F, 0x63, 0x00, 0x70, 0x00, 0x1C, 0x36, 0x63, 0x7F, 0x63, 0x00, 0x1C, 0x36, 0x00, 0x3E, 0x63, 0x7F, 0x63, 0x00,
     0x6E, 0x3B, 0x00, 0x3E, 0x63, 0x7F, 0x63, 0x00, 0x63, 0x1C, 0x36, 0x63, 0x7F, 0x63, 0x63, 0x00, 0x0C, 0x0C, 0x00, 0x1E, 0x33, 0x3F, 0x33, 0x00,
     0x7C, 0x36, 0x33, 0x7F, 0x33, 0x33, 0x73, 0x00, 0x1E, 0x33, 0x03, 0x33, 0x1E, 0x18, 0x30, 0x1E, 0x07, 0x00, 0x3F, 0x06, 0x1E, 0x06, 0x3F, 0x00,
     0x38, 0x00, 0x3F, 0x06, 0x1E, 0x06, 0x3F, 0x00, 0x0C, 0x12, 0x3F, 0x06, 0x1E, 0x06, 0x3F, 0x00, 0x36, 0x00, 0x3F, 0x06, 0x1E, 0x06, 0x3F, 0x00,
     0x07, 0x00, 0x1E, 0x0C, 0x0C, 0x0C, 0x1E, 0x00, 0x38, 0x00, 0x1E, 0x0C, 0x0C, 0x0C, 0x1E, 0x00, 0x0C, 0x12, 0x00, 0x1E, 0x0C, 0x0C, 0x1E, 0x00,
     0x33, 0x00, 0x1E, 0x0C, 0x0C, 0x0C, 0x1E, 0x00, 0x3F, 0x66, 0x6F, 0x6F, 0x66, 0x66, 0x3F, 0x00, 0x3F, 0x00, 0x33, 0x37, 0x3F, 0x3B, 0x33, 0x00,
     0x0E, 0x00, 0x18, 0x3C, 0x66, 0x3C, 0x18, 0x00, 0x70, 0x00, 0x18, 0x3C, 0x66, 0x3C, 0x18, 0x00, 0x3C, 0x66, 0x18, 0x3C, 0x66, 0x3C, 0x18, 0x00,
     0x6E, 0x3B, 0x00, 0x3E, 0x63, 0x63, 0x3E, 0x00, 0xC3, 0x18, 0x3C, 0x66, 0x66, 0x3C, 0x18, 0x00, 0x00, 0x36, 0x1C, 0x08, 0x1C, 0x36, 0x00, 0x00,
     0x5C, 0x36, 0x73, 0x7B, 0x6F, 0x36, 0x1D, 0x00, 0x0E, 0x00, 0x66, 0x66, 0x66, 0x66, 0x3C, 0x00, 0x70, 0x00, 0x66, 0x66, 0x66, 0x66, 0x3C, 0x00,
     0x3C, 0x66, 0x00, 0x66, 0x66, 0x66, 0x3C, 0x00, 0x33, 0x00, 0x33, 0x33, 0x33, 0x33, 0x1E, 0x00, 0x70, 0x00, 0x66, 0x66, 0x3C, 0x18, 0x18, 0x00,
     0x0F, 0x06, 0x3E, 0x66, 0x66, 0x3E, 0x06, 0x0F, 0x00, 0x1E, 0x33, 0x1F, 0x33, 0x1F, 0x03, 0x03]"

definition scroller_font_E0 :: "u8 list" where
  "scroller_font_E0 =
    [0x07, 0x00, 0x1E, 0x30, 0x3E, 0x33, 0x7E, 0x00, 0x38, 0x00, 0x1E, 0x30, 0x3E, 0x33, 0x7E, 0x00, 0x7E, 0xC3, 0x3C, 0x60, 0x7C, 0x66, 0xFC, 0x00,
     0x6E, 0x3B, 0x1E, 0x30, 0x3E, 0x33, 0x7E, 0x00, 0x33, 0x00, 0x1E, 0x30, 0x3E, 0x33, 0x7E, 0x00, 0x0C, 0x0C, 0x1E, 0x30, 0x3E, 0x33, 0x7E, 0x00,
     0x00, 0x00, 0xFE, 0x30, 0xFE, 0x33, 0xFE, 0x00, 0x00, 0x00, 0x1E, 0x03, 0x03, 0x1E, 0x30, 0x1C, 0x07, 0x00, 0x1E, 0x33, 0x3F, 0x03, 0x1E, 0x00,
     0x38, 0x00, 0x1E, 0x33, 0x3F, 0x03, 0x1E, 0x00, 0x7E, 0xC3, 0x3C, 0x66, 0x7E, 0x06, 0x3C, 0x00, 0x33, 0x00, 0x1E, 0x33, 0x3F, 0x03, 0x1E, 0x00,
     0x07, 0x00, 0x0E, 0x0C, 0x0C, 0x0C, 0x1E, 0x00, 0x1C, 0x00, 0x0E, 0x0C, 0x0C, 0x0C, 0x1E, 0x00, 0x3E, 0x63, 0x1C, 0x18, 0x18, 0x18, 0x3C, 0x00,
     0x33, 0x00, 0x0E, 0x0C, 0x0C, 0x0C, 0x1E, 0x00, 0x1B, 0x0E, 0x1B, 0x30, 0x3E, 0x33, 0x1E, 0x00, 0x00, 0x1F, 0x00, 0x1F, 0x33, 0x33, 0x33, 0x00,
     0x00, 0x07, 0x00, 0x1E, 0x33, 0x33, 0x1E, 0x00, 0x00, 0x38, 0x00, 0x1E, 0x33, 0x33, 0x1E, 0x00, 0x1E, 0x33, 0x00, 0x1E, 0x33, 0x33, 0x1E, 0x00,
     0x6E, 0x3B, 0x00, 0x1E, 0x33, 0x33, 0x1E, 0x00, 0x00, 0x33, 0x00, 0x1E, 0x33, 0x33, 0x1E, 0x00, 0x18, 0x18, 0x00, 0x7E, 0x00, 0x18, 0x18, 0x00,
     0x00, 0x60, 0x3C, 0x76, 0x7E, 0x6E, 0x3C, 0x06, 0x00, 0x07, 0x00, 0x33, 0x33, 0x33, 0x7E, 0x00, 0x00, 0x38, 0x00, 0x33, 0x33, 0x33, 0x7E, 0x00,
     0x1E, 0x33, 0x00, 0x33, 0x33, 0x33, 0x7E, 0x00, 0x00, 0x33, 0x00, 0x33, 0x33, 0x33, 0x7E, 0x00, 0x00, 0x38, 0x00, 0x33, 0x33, 0x3E, 0x30, 0x1F,
     0x00, 0x00, 0x06, 0x3E, 0x66, 0x3E, 0x06, 0x00, 0x00, 0x33, 0x00, 0x33, 0x33, 0x3E, 0x30, 0x1F]"

definition scroller_font :: "u8 list" where
  "scroller_font = scroller_font_00 @ scroller_font_20 @ scroller_font_40 @ scroller_font_60 @ scroller_font_80 @ scroller_font_A0 @ scroller_font_C0 @ scroller_font_E0"

lemmas scroller_parts = scroller_font_00_def scroller_font_20_def scroller_font_40_def scroller_font_60_def scroller_font_80_def scroller_font_A0_def scroller_font_C0_def scroller_font_E0_def

lemma length_scroller_font [simp]: "length scroller_font = 2048"
  by (simp add: scroller_font_def scroller_parts)

section \<open>Columns\<close>

definition matrix_font_00 :: "u8 list" where
  "matrix_font_00 =
    [0x00, 0x00, 0x00, 0x00, 0x00, 0x00, 0x00, 0x00, 0x00, 0x00, 0x00, 0x00, 0x00, 0x00, 0x00, 0x00, 0x00, 0x00, 0x00, 0x00, 0x00, 0x00, 0x00, 0x00, 0x00,
     0x00, 0x00, 0x00, 0x00, 0x00, 0x00, 0x00, 0x00, 0x00, 0x00, 0x00, 0x00, 0x00, 0x00, 0x00, 0x00, 0x00, 0x00, 0x00, 0x00, 0x00, 0x00, 0x00, 0x00, 0x00,
     0x00, 0x00, 0x00, 0x00, 0x00, 0x00, 0x00, 0x00, 0x00, 0x00, 0x00, 0x00, 0x00, 0x00, 0x00, 0x00, 0x00, 0x00, 0x00, 0x00, 0x00, 0x00, 0x00, 0x00, 0x00,
     0x00, 0x00, 0x00, 0x00, 0x00, 0xFF, 0x00, 0x00, 0x00, 0x00, 0xFF, 0xFF, 0x00, 0x00, 0x00, 0xFF, 0xFF, 0xFF, 0x00, 0x00, 0xFF, 0xFF, 0xFF, 0xFF, 0x00,
     0xFF, 0xFF, 0xFF, 0xFF, 0xFF, 0x00, 0xFF, 0xFF, 0xFF, 0xFF, 0x00, 0x00, 0xFF, 0xFF, 0xFF, 0x00, 0x00, 0x00, 0xFF, 0xFF, 0x00, 0x00, 0x00, 0x00, 0xFF,
     0x03, 0x07, 0x7E, 0x20, 0x1C, 0x60, 0x66, 0x09, 0x09, 0x09, 0x60, 0x6F, 0x0A, 0x0A, 0x08, 0x10, 0x18, 0x1C, 0x18, 0x10, 0x00, 0x3E, 0x1C, 0x08, 0x00,
     0x00, 0x08, 0x1C, 0x3E, 0x00, 0x04, 0x0C, 0x1C, 0x0C, 0x04]"

definition matrix_font_20 :: "u8 list" where
  "matrix_font_20 =
    [0x00, 0x00, 0x00, 0x00, 0x00, 0x00, 0x00, 0x79, 0x00, 0x00, 0x00, 0x70, 0x00, 0x70, 0x00, 0x14, 0x7F, 0x14, 0x7F, 0x14, 0x12, 0x2A, 0x7F, 0x2A, 0x24,
     0x62, 0x64, 0x08, 0x13, 0x23, 0x36, 0x49, 0x55, 0x22, 0x05, 0x00, 0x50, 0x60, 0x00, 0x00, 0x00, 0x1C, 0x22, 0x41, 0x00, 0x00, 0x41, 0x22, 0x1C, 0x00,
     0x14, 0x08, 0x3E, 0x08, 0x14, 0x08, 0x08, 0x3E, 0x08, 0x08, 0x00, 0x00, 0x00, 0x00, 0x00, 0x00, 0x00, 0x00, 0x00, 0x00, 0x00, 0x00, 0x00, 0x00, 0x00,
     0x00, 0x00, 0x00, 0x00, 0x00, 0x3E, 0x45, 0x49, 0x51, 0x3E, 0x00, 0x21, 0x7F, 0x01, 0x00, 0x21, 0x43, 0x45, 0x49, 0x31, 0x42, 0x41, 0x51, 0x69, 0x46,
     0x0C, 0x14, 0x24, 0x7F, 0x04, 0x72, 0x51, 0x51, 0x51, 0x4E, 0x1E, 0x29, 0x49, 0x49, 0x06, 0x40, 0x47, 0x48, 0x50, 0x60, 0x36, 0x49, 0x49, 0x49, 0x36,
     0x30, 0x49, 0x49, 0x4A, 0x3C, 0x00, 0x00, 0x00, 0x00, 0x00, 0x00, 0x00, 0x00, 0x00, 0x00, 0x00, 0x00, 0x00, 0x00, 0x00, 0x00, 0x00, 0x00, 0x00, 0x00,
     0x00, 0x00, 0x00, 0x00, 0x00, 0x00, 0x00, 0x00, 0x00, 0x00]"

definition matrix_font_40 :: "u8 list" where
  "matrix_font_40 =
    [0x00, 0x00, 0x00, 0x00, 0x00, 0x3F, 0x44, 0x44, 0x44, 0x3F, 0x7F, 0x49, 0x49, 0x49, 0x36, 0x3E, 0x41, 0x41, 0x41, 0x22, 0x7F, 0x41, 0x41, 0x22, 0x1C,
     0x7F, 0x49, 0x49, 0x49, 0x41, 0x7F, 0x48, 0x48, 0x48, 0x40, 0x3E, 0x41, 0x49, 0x49, 0x2E, 0x7F, 0x08, 0x08, 0x08, 0x7F, 0x00, 0x41, 0x7F, 0x41, 0x00,
     0x02, 0x01, 0x41, 0x7E, 0x40, 0x7F, 0x08, 0x14, 0x22, 0x41, 0x7F, 0x01, 0x01, 0x01, 0x01, 0x7F, 0x20, 0x18, 0x20, 0x7F, 0x7F, 0x10, 0x08, 0x04, 0x7F,
     0x3E, 0x41, 0x41, 0x21, 0x3E, 0x7F, 0x48, 0x48, 0x48, 0x30, 0x3E, 0x41, 0x45, 0x42, 0x3D, 0x7F, 0x48, 0x4C, 0x4A, 0x31, 0x31, 0x49, 0x49, 0x49, 0x46,
     0x40, 0x40, 0x7F, 0x40, 0x40, 0x7E, 0x01, 0x01, 0x01, 0x7E, 0x7C, 0x02, 0x01, 0x02, 0x7C, 0x7E, 0x01, 0x0E, 0x01, 0x7E, 0x63, 0x14, 0x08, 0x14, 0x63,
     0x70, 0x08, 0x07, 0x08, 0x70, 0x43, 0x45, 0x49, 0x51, 0x61, 0x00, 0x00, 0x00, 0x00, 0x00, 0x00, 0x00, 0x00, 0x00, 0x00, 0x00, 0x00, 0x00, 0x00, 0x00,
     0x00, 0x00, 0x00, 0x00, 0x00, 0x00, 0x00, 0x00, 0x00, 0x00]"

definition matrix_font_60 :: "u8 list" where
  "matrix_font_60 =
    [0x00, 0x00, 0x00, 0x00, 0x00, 0x02, 0x15, 0x15, 0x15, 0x0F, 0x7F, 0x05, 0x09, 0x09, 0x06, 0x0E, 0x11, 0x11, 0x11, 0x02, 0x06, 0x09, 0x09, 0x05, 0x7F,
     0x0E, 0x15, 0x15, 0x15, 0x0C, 0x08, 0x3F, 0x48, 0x40, 0x20, 0x18, 0x25, 0x25, 0x25, 0x3E, 0x7F, 0x08, 0x10, 0x10, 0x0F, 0x00, 0x00, 0x2F, 0x00, 0x00,
     0x02, 0x01, 0x11, 0x5E, 0x00, 0x7F, 0x04, 0x0A, 0x11, 0x00, 0x00, 0x41, 0x7F, 0x01, 0x00, 0x1F, 0x10, 0x0C, 0x10, 0x0F, 0x1F, 0x08, 0x10, 0x10, 0x0F,
     0x0E, 0x11, 0x11, 0x11, 0x0E, 0x1F, 0x14, 0x14, 0x14, 0x08, 0x08, 0x14, 0x14, 0x0C, 0x1F, 0x1F, 0x08, 0x10, 0x10, 0x08, 0x09, 0x15, 0x15, 0x15, 0x02,
     0x10, 0x7E, 0x11, 0x01, 0x02, 0x1E, 0x01, 0x01, 0x02, 0x1F, 0x1C, 0x02, 0x01, 0x02, 0x1C, 0x1E, 0x01, 0x06, 0x01, 0x1E, 0x11, 0x0A, 0x04, 0x0A, 0x11,
     0x18, 0x05, 0x05, 0x05, 0x1E, 0x11, 0x13, 0x15, 0x19, 0x11, 0x00, 0x00, 0x00, 0x00, 0x00, 0x00, 0x00, 0x00, 0x00, 0x00, 0x00, 0x00, 0x00, 0x00, 0x00,
     0x00, 0x00, 0x00, 0x00, 0x00, 0x00, 0x00, 0x00, 0x00, 0x00]"

definition matrix_font_80 :: "u8 list" where
  "matrix_font_80 =
    [0x00, 0x00, 0x00, 0x00, 0x00, 0x00, 0x00, 0x00, 0x00, 0x00, 0x00, 0x00, 0x00, 0x00, 0x00, 0x00, 0x00, 0x00, 0x00, 0x00, 0x00, 0x00, 0x00, 0x00, 0x00,
     0x00, 0x00, 0x00, 0x00, 0x00, 0x00, 0x00, 0x00, 0x00, 0x00, 0x00, 0x00, 0x00, 0x00, 0x00, 0x00, 0x00, 0x00, 0x00, 0x00, 0x00, 0x00, 0x00, 0x00, 0x00,
     0x00, 0x00, 0x00, 0x00, 0x00, 0x00, 0x00, 0x00, 0x00, 0x00, 0x00, 0x00, 0x00, 0x00, 0x00, 0x00, 0x00, 0x00, 0x00, 0x00, 0x00, 0x00, 0x00, 0x00, 0x00,
     0x00, 0x00, 0x00, 0x00, 0x00, 0x00, 0x00, 0x00, 0x00, 0x00, 0x00, 0x00, 0x00, 0x00, 0x00, 0x00, 0x00, 0x00, 0x00, 0x00, 0x00, 0x00, 0x00, 0x00, 0x00,
     0x00, 0x00, 0x00, 0x00, 0x00, 0x00, 0x00, 0x00, 0x00, 0x00, 0x00, 0x00, 0x00, 0x00, 0x00, 0x00, 0x00, 0x00, 0x00, 0x00, 0x00, 0x00, 0x00, 0x00, 0x00,
     0x00, 0x00, 0x00, 0x00, 0x00, 0x00, 0x00, 0x00, 0x00, 0x00, 0x00, 0x00, 0x00, 0x00, 0x00, 0x00, 0x00, 0x00, 0x00, 0x00, 0x00, 0x00, 0x00, 0x00, 0x00,
     0x00, 0x00, 0x00, 0x00, 0x00, 0x00, 0x00, 0x00, 0x00, 0x00]"

definition matrix_font_A0 :: "u8 list" where
  "matrix_font_A0 =
    [0x00, 0x00, 0x00, 0x00, 0x00, 0x00, 0x00, 0x00, 0x00, 0x00, 0x00, 0x00, 0x00, 0x00, 0x00, 0x00, 0x00, 0x00, 0x00, 0x00, 0x00, 0x00, 0x00, 0x00, 0x00,
     0x00, 0x00, 0x00, 0x00, 0x00, 0x00, 0x00, 0x00, 0x00, 0x00, 0x00, 0x00, 0x00, 0x00, 0x00, 0x00, 0x00, 0x00, 0x00, 0x00, 0x00, 0x00, 0x00, 0x00, 0x00,
     0x00, 0x00, 0x00, 0x00, 0x00, 0x00, 0x00, 0x00, 0x00, 0x00, 0x00, 0x00, 0x00, 0x00, 0x00, 0x00, 0x00, 0x00, 0x00, 0x00, 0x00, 0x00, 0x00, 0x00, 0x00,
     0x00, 0x00, 0x00, 0x00, 0x00, 0x00, 0x00, 0x00, 0x00, 0x00, 0x00, 0x00, 0x00, 0x00, 0x00, 0x00, 0x00, 0x00, 0x00, 0x00, 0x00, 0x00, 0x00, 0x00, 0x00,
     0x00, 0x00, 0x00, 0x00, 0x00, 0x00, 0x00, 0x00, 0x00, 0x00, 0x00, 0x00, 0x00, 0x00, 0x00, 0x00, 0x00, 0x00, 0x00, 0x00, 0x00, 0x00, 0x00, 0x00, 0x00,
     0x00, 0x00, 0x00, 0x00, 0x00, 0x00, 0x00, 0x00, 0x00, 0x00, 0x00, 0x00, 0x00, 0x00, 0x00, 0x00, 0x00, 0x00, 0x00, 0x00, 0x00, 0x00, 0x00, 0x00, 0x00,
     0x00, 0x00, 0x00, 0x00, 0x00, 0x00, 0x00, 0x00, 0x00, 0x00]"

definition matrix_font_C0 :: "u8 list" where
  "matrix_font_C0 =
    [0x00, 0x00, 0x00, 0x00, 0x00, 0x00, 0x00, 0x00, 0x00, 0x00, 0x00, 0x00, 0x00, 0x00, 0x00, 0x00, 0x00, 0x00, 0x00, 0x00, 0x00, 0x00, 0x00, 0x00, 0x00,
     0x00, 0x00, 0x00, 0x00, 0x00, 0x00, 0x00, 0x00, 0x00, 0x00, 0x00, 0x00, 0x00, 0x00, 0x00, 0x00, 0x00, 0x00, 0x00, 0x00, 0x00, 0x00, 0x00, 0x00, 0x00,
     0x00, 0x00, 0x00, 0x00, 0x00, 0x00, 0x00, 0x00, 0x00, 0x00, 0x00, 0x00, 0x00, 0x00, 0x00, 0x00, 0x00, 0x00, 0x00, 0x00, 0x00, 0x00, 0x00, 0x00, 0x00,
     0x00, 0x00, 0x00, 0x00, 0x00, 0x00, 0x00, 0x00, 0x00, 0x00, 0x00, 0x00, 0x00, 0x00, 0x00, 0x00, 0x00, 0x00, 0x00, 0x00, 0x00, 0x00, 0x00, 0x00, 0x00,
     0x00, 0x00, 0x00, 0x00, 0x00, 0x00, 0x00, 0x00, 0x00, 0x00, 0x00, 0x00, 0x00, 0x00, 0x00, 0x00, 0x00, 0x00, 0x00, 0x00, 0x00, 0x00, 0x00, 0x00, 0x00,
     0x00, 0x00, 0x00, 0x00, 0x00, 0x00, 0x00, 0x00, 0x00, 0x00, 0x00, 0x00, 0x00, 0x00, 0x00, 0x00, 0x00, 0x00, 0x00, 0x00, 0x00, 0x00, 0x00, 0x00, 0x00,
     0x00, 0x00, 0x00, 0x00, 0x00, 0x00, 0x00, 0x00, 0x00, 0x00]"

definition matrix_font_E0 :: "u8 list" where
  "matrix_font_E0 =
    [0x00, 0x00, 0x00, 0x00, 0x00, 0x00, 0x00, 0x00, 0x00, 0x00, 0x00, 0x00, 0x00, 0x00, 0x00, 0x00, 0x00, 0x00, 0x00, 0x00, 0x00, 0x00, 0x00, 0x00, 0x00,
     0x00, 0x00, 0x00, 0x00, 0x00, 0x00, 0x00, 0x00, 0x00, 0x00, 0x00, 0x00, 0x00, 0x00, 0x00, 0x00, 0x00, 0x00, 0x00, 0x00, 0x00, 0x00, 0x00, 0x00, 0x00,
     0x00, 0x00, 0x00, 0x00, 0x00, 0x00, 0x00, 0x00, 0x00, 0x00, 0x00, 0x00, 0x00, 0x00, 0x00, 0x00, 0x00, 0x00, 0x00, 0x00, 0x00, 0x00, 0x00, 0x00, 0x00,
     0x00, 0x00, 0x00, 0x00, 0x00, 0x00, 0x00, 0x00, 0x00, 0x00, 0x00, 0x00, 0x00, 0x00, 0x00, 0x00, 0x00, 0x00, 0x00, 0x00, 0x00, 0x00, 0x00, 0x00, 0x00,
     0x00, 0x00, 0x00, 0x00, 0x00, 0x00, 0x00, 0x00, 0x00, 0x00, 0x00, 0x00, 0x00, 0x00, 0x00, 0x00, 0x00, 0x00, 0x00, 0x00, 0x00, 0x00, 0x00, 0x00, 0x00,
     0x00, 0x00, 0x00, 0x00, 0x00, 0x00, 0x00, 0x00, 0x00, 0x00, 0x00, 0x00, 0x00, 0x00, 0x00, 0x00, 0x00, 0x00, 0x00, 0x00, 0x00, 0x00, 0x00, 0x00, 0x00,
     0x00, 0x00, 0x00, 0x00, 0x00, 0xFF, 0xFF, 0xFF, 0xFF, 0xFF]"

definition matrix_font :: "u8 list" where
  "matrix_font = matrix_font_00 @ matrix_font_20 @ matrix_font_40 @ matrix_font_60 @ matrix_font_80 @ matrix_font_A0 @ matrix_font_C0 @ matrix_font_E0"

lemmas matrix_parts = matrix_font_00_def matrix_font_20_def matrix_font_40_def matrix_font_60_def matrix_font_80_def matrix_font_A0_def matrix_font_C0_def matrix_font_E0_def

lemma length_matrix_font [simp]: "length matrix_font = 1280"
  by (simp add: matrix_font_def matrix_parts)

text \<open>No column is the mark that ends a command on the serial line.\<close>

lemma matrix_font_marks: "0xC0 \<notin> set matrix_font"
  by (simp add: matrix_font_def matrix_parts)

end
