(* ===== verification/Led_Matrix.thy ===== *)
theory Led_Matrix
  imports Led_Fonts "HOL-Library.Monad_Syntax"
begin

text \<open>
  The application \<open>apps/ledmatrix\<close>: a text that scrolls over a matrix of eight by eight lights (\<open>scroller.c\<close>, \<open>led_color.c\<close>) and
  over a display of ten columns at the end of a serial line (\<open>serial_matrix.c\<close>), and the generators that set its text and its
  color (\<open>led_text.c\<close>, \<open>led_color.c\<close>, \<open>led_common.c\<close>). It runs on the mbed, whose \<open>char\<close> is unsigned.

  A string is the list of its characters before the end mark; \<open>None\<close> is an access outside an array or a
  division by zero. What goes to the lights and to the serial line is collected in \<open>spi_out\<close> and \<open>serial_out\<close>.
\<close>

section \<open>Model\<close>

subsection \<open>Strings\<close>

definition htoi :: "u8 \<Rightarrow> u8" where
  "htoi hexa =
    (if 48 \<le> hexa \<and> hexa \<le> 57 then hexa - 48
     else if 97 \<le> hexa \<and> hexa \<le> 102 then hexa - 97 + 10
     else if 65 \<le> hexa \<and> hexa \<le> 70 then hexa - 65 + 10 else 0)"

text \<open>What \<open>strcpy\<close> copies: it decodes the escapes of a URL, and stops at one that is not complete.\<close>

fun url_decode :: "u8 list \<Rightarrow> u8 list" where
  "url_decode [] = []"
| "url_decode (c # cs) =
    (if c = 37 then
       (case cs of
          [] \<Rightarrow> []
        | d # ds \<Rightarrow>
           if d = 37 then d # url_decode ds
           else (case ds of [] \<Rightarrow> [] | e # es \<Rightarrow> (htoi d * 16 + htoi e) # url_decode es))
     else c # url_decode cs)"

definition c_str :: "u8 list \<Rightarrow> u8 list" where
  "c_str b = takeWhile (\<lambda>c. c \<noteq> 0) b"

text \<open>This \<open>strlen\<close> counts the end mark.\<close>

definition led_strlen :: "u8 list \<Rightarrow> nat" where
  "led_strlen b = length (c_str b) + 1"

definition led_strcpy :: "u8 list \<Rightarrow> u8 list \<Rightarrow> u8 list option" where
  "led_strcpy dst src =
    (let d = url_decode src @ [0]
     in if length d \<le> length dst then Some (d @ drop (length d) dst) else None)"

subsection \<open>The serial display\<close>

definition DISPLAY_WIDTH :: nat where "DISPLAY_WIDTH = 10"
definition MSG_FONT_SIZE :: nat where "MSG_FONT_SIZE = 3072"
definition COMMAND_END :: u8 where "COMMAND_END = 0xC0"

record matrix =
  msize :: nat
  current_pos :: nat
  msg_affichage :: "u8 list"
  msg_font :: "u8 list"
  mbuffer :: "u8 list"

definition init_buffer :: "nat \<Rightarrow> u8 list" where
  "init_buffer n = replicate n 0"

definition put_at :: "nat \<Rightarrow> u8 \<Rightarrow> u8 list \<Rightarrow> u8 list option" where
  "put_at i c xs = (if i < length xs then Some (xs[i := c]) else None)"

text \<open>The columns of one character of the message, and all of them.\<close>

definition convert_char :: "u8 list \<Rightarrow> nat \<Rightarrow> u8 list \<Rightarrow> u8 list option" where
  "convert_char msg i f =
    do { f \<leftarrow> fold_opt (\<lambda>j. put_at (6 * i + j) (matrix_font ! (unat (msg ! i) * 5 + j))) [0..<5] f;
         put_at (6 * i + 6) 0 f }"

definition convert_msg :: "u8 list \<Rightarrow> u8 list \<Rightarrow> nat \<Rightarrow> u8 list option" where
  "convert_msg msg f n = fold_opt (convert_char msg) [0..<n] f"

definition matrix_display :: "u8 list \<Rightarrow> matrix \<Rightarrow> matrix option" where
  "matrix_display msg m =
    (let n = length msg;
         m = m\<lparr>msize := n, current_pos := 0, mbuffer := init_buffer DISPLAY_WIDTH\<rparr>;
         m = m\<lparr>msg_affichage := (init_buffer (DISPLAY_WIDTH + 2))[0 := 100, DISPLAY_WIDTH + 1 := COMMAND_END]\<rparr>;
         m = (if msize m \<ge> MSG_FONT_SIZE then m\<lparr>msize := MSG_FONT_SIZE - 1\<rparr> else m)
     in do { f \<leftarrow> convert_msg msg (msg_font m) (msize m); Some (m\<lparr>msg_font := f\<rparr>) })"

text \<open>A step of the display, with the command it writes on the serial line.\<close>

definition display_step :: "matrix \<Rightarrow> (u8 list \<times> matrix) option" where
  "display_step m =
    (let m = m\<lparr>mbuffer := fold (\<lambda>j b. b[j := b ! (j + 1)]) [0..<DISPLAY_WIDTH - 1] (mbuffer m)\<rparr>
     in if current_pos m < length (msg_font m) then
          (let m = m\<lparr>mbuffer := (mbuffer m)[DISPLAY_WIDTH - 1 := msg_font m ! current_pos m]\<rparr>;
               m = m\<lparr>msg_affichage := fold (\<lambda>j a. a[j + 1 := mbuffer m ! j]) [0..<DISPLAY_WIDTH] (msg_affichage m)\<rparr>
           in if msize m = 0 then None
              else Some (msg_affichage m, m\<lparr>current_pos := (current_pos m + 1) mod (6 * msize m)\<rparr>))
        else None)"

subsection \<open>The matrix of lights\<close>

definition GET_BIT :: "u8 \<Rightarrow> nat \<Rightarrow> bool" where
  "GET_BIT c b = bit c b"

text \<open>The inner loop of \<open>display_char\<close>, on the columns \<open>js\<close> of a row.\<close>

definition display_row :: "nat \<Rightarrow> nat \<Rightarrow> u8 \<Rightarrow> u8 \<Rightarrow> nat \<Rightarrow> nat list \<Rightarrow> u8 list \<Rightarrow> u8 list option" where
  "display_row char_start led_column row col i js b =
    fold_opt (\<lambda>j b. if GET_BIT row (j + char_start - led_column) then put_at (8 * j + i) col b else Some b) js b"

definition display_char :: "u8 list \<Rightarrow> u8 \<Rightarrow> int \<Rightarrow> u8 \<Rightarrow> u8 list option" where
  "display_char b c led_column col =
    (let (char_start, led_stop, led_column) =
       (if led_column < 0 then (nat (- led_column), nat (8 + led_column), 0) else (0, 8, nat led_column))
     in fold_opt (\<lambda>i. display_row char_start led_column (scroller_font ! (8 * unat c + i)) col i [led_column..<led_stop])
          [0..<8] b)"

text \<open>\<open>text\<close> is the array, \<open>position\<close> is not negative.\<close>

definition display_text :: "u8 list \<Rightarrow> u8 list \<Rightarrow> nat \<Rightarrow> u8 \<Rightarrow> u8 list option" where
  "display_text b text position col =
    (let letter1 = position div 8;
         letter2 = letter1 + 1;
         position_in_letter1 = position mod 8;
         position_in_letter2 = 8 - position_in_letter1;
         text_len = led_strlen text;
         letter2 = (if letter2 \<ge> text_len then 0 else letter2)
     in if letter1 < length text then
          do { b \<leftarrow> display_char b (text ! letter1) (- int position_in_letter1) col;
               if position_in_letter1 \<noteq> 0 then display_char b (text ! letter2) (int position_in_letter2) col
               else Some b }
        else None)"

record led =
  led_text :: "u8 list"
  led_color :: u8
  color_text :: "u8 list"
  led_position :: nat
  text_size :: nat
  back_buffer :: "u8 list"
  led_matrix :: matrix
  spi_out :: "u8 list list"
  serial_out :: "u8 list list"

definition str_to_color :: "u8 list \<Rightarrow> u8" where
  "str_to_color s =
    (let r = drop_bit 5 (htoi (s ! 0) * 16 + htoi (s ! 1)) AND 7;
         g = drop_bit 5 (htoi (s ! 2) * 16 + htoi (s ! 3)) AND 7;
         b = drop_bit 6 (htoi (s ! 4) * 16 + htoi (s ! 5)) AND 3
     in push_bit 5 r OR push_bit 2 g OR b)"

definition led_matrix_display_buffer :: "u8 list \<Rightarrow> led \<Rightarrow> led" where
  "led_matrix_display_buffer b s = s\<lparr>spi_out := spi_out s @ [take 64 b]\<rparr>"

definition do_display :: "led \<Rightarrow> led option" where
  "do_display s =
    (let s = s\<lparr>back_buffer := replicate 64 0\<rparr>
     in do { b \<leftarrow> display_text (back_buffer s) (led_text s) (led_position s) (led_color s);
             let s = led_matrix_display_buffer b (s\<lparr>back_buffer := b\<rparr>);
             let s = s\<lparr>led_position := led_position s + 1\<rparr>;
             Some (if led_position s = text_size s * 8 then s\<lparr>led_position := 0\<rparr> else s) })"

definition serial_step :: "led \<Rightarrow> led option" where
  "serial_step s =
    do { (a, m) \<leftarrow> display_step (led_matrix s); Some (s\<lparr>led_matrix := m, serial_out := serial_out s @ [a]\<rparr>) }"

subsection \<open>The generators\<close>

definition DEFAULT_TEXT :: "u8 list" where
  "DEFAULT_TEXT = map of_char ''CRIStAL CNRS UMR 9189''"

definition init_led :: "led \<Rightarrow> led option" where
  "init_led s =
    (let s = s\<lparr>led_color := str_to_color (map of_char ''FFFFFF'')\<rparr>
     in do {
       c \<leftarrow> led_strcpy (color_text s) (map of_char ''FFFFFF'');
       t \<leftarrow> led_strcpy (led_text s) DEFAULT_TEXT;
       s \<leftarrow> do_display (s\<lparr>color_text := c, led_position := 0, led_text := t, text_size := led_strlen t\<rparr>);
       m \<leftarrow> matrix_display DEFAULT_TEXT (led_matrix s);
       Some (s\<lparr>led_matrix := m\<rparr>)
     })"

definition get_led_color :: "u8 list \<Rightarrow> led \<Rightarrow> led option" where
  "get_led_color arg s =
    (let s = s\<lparr>led_color := str_to_color arg\<rparr>
     in do { c \<leftarrow> led_strcpy (color_text s) (c_str arg); Some (s\<lparr>color_text := c\<rparr>) })"

definition get_led_text :: "u8 list \<Rightarrow> led \<Rightarrow> led option" where
  "get_led_text arg s =
    do { t \<leftarrow> led_strcpy (led_text s) arg;
         let s = s\<lparr>led_text := t, text_size := led_strlen t\<rparr>;
         m \<leftarrow> matrix_display (c_str t) (led_matrix s);
         Some (s\<lparr>led_matrix := m, led_position := 0\<rparr>) }"

definition get_led_get_color :: "led \<Rightarrow> u8 list" where
  "get_led_get_color s = c_str (color_text s)"

definition get_led_get_text :: "led \<Rightarrow> u8 list" where
  "get_led_get_text s = c_str (led_text s)"

section \<open>The columns of a message\<close>

text \<open>The column that \<open>convert_msg\<close> leaves at \<open>6 * i + 5\<close> is never written: it is 0 from the start.\<close>

definition gaps :: "u8 list \<Rightarrow> bool" where
  "gaps f \<longleftrightarrow> length f = MSG_FONT_SIZE \<and> (\<forall>k < MSG_FONT_SIZE. k mod 6 = 5 \<longrightarrow> f ! k = 0)"

definition column :: "u8 list \<Rightarrow> nat \<Rightarrow> u8" where
  "column msg k = (if k mod 6 < 5 then matrix_font ! (unat (msg ! (k div 6)) * 5 + k mod 6) else 0)"

lemma convert_char_columns:
  assumes "6 * i + 6 < length f"
  shows "\<exists>g. convert_char msg i f = Some g \<and> length g = length f \<and>
    (\<forall>k < length f. g ! k = (if k div 6 = i \<and> k mod 6 < 5 then column msg k else if k = 6 * i + 6 then 0 else f ! k))"
proof -
  let ?c = "\<lambda>j. matrix_font ! (unat (msg ! i) * 5 + j)"
  let ?g = "f[6 * i := ?c 0, 6 * i + 1 := ?c 1, 6 * i + 2 := ?c 2, 6 * i + 3 := ?c 3, 6 * i + 4 := ?c 4, 6 * i + 6 := 0]"
  have upt: "[0..<5] = [0, 1, 2, 3, 4 :: nat]" by (simp add: upt_rec)
  have "convert_char msg i f = Some ?g"
    using assms unfolding convert_char_def upt by (simp add: put_at_def)
  moreover have "?g ! k = (if k div 6 = i \<and> k mod 6 < 5 then column msg k else if k = 6 * i + 6 then 0 else f ! k)"
    if "k < length f" for k
  proof -
    consider c where "k = 6 * i + c" "c < 5" | "\<not> (k div 6 = i \<and> k mod 6 < 5)" by (metis mult_div_mod_eq)
    then show ?thesis
    proof cases
      case 1
      then have "c \<in> {0, 1, 2, 3, 4}" by auto
      then have "?g ! (6 * i + c) = ?c c" using that 1(1) by (auto simp: nth_list_update)
      then show ?thesis using 1 by (simp add: column_def)
    next
      case 2
      then have ne: "6 * i + c \<noteq> k" if "c < 5" for c using that by auto
      have "?g ! k = (f[6 * i + 6 := 0]) ! k"
        using ne [of 0] ne [of 1] ne [of 2] ne [of 3] ne [of 4] that by (cases "6 * i + 6 = k") simp_all
      also have "\<dots> = (if k = 6 * i + 6 then 0 else f ! k)" using that by (simp add: nth_list_update)
      finally have "?g ! k = (if k = 6 * i + 6 then 0 else f ! k)" .
      then show ?thesis by (simp only: 2 if_False)
    qed
  qed
  ultimately show ?thesis by auto
qed

lemma convert_msg_Suc: "convert_msg msg f (Suc n) = Option.bind (convert_msg msg f n) (convert_char msg n)"
  by (simp add: convert_msg_def fold_opt_snoc)

lemma convert_msg_columns:
  assumes "gaps f" "6 * n < MSG_FONT_SIZE"
  shows "\<exists>g. convert_msg msg f n = Some g \<and> gaps g \<and> (\<forall>k < 6 * n. g ! k = column msg k)"
  using assms(2)
proof (induction n)
  case 0
  then show ?case using assms(1) by (simp add: convert_msg_def)
next
  case (Suc n)
  then obtain g where g: "convert_msg msg f n = Some g" "gaps g" "\<forall>k < 6 * n. g ! k = column msg k" by auto
  then have "6 * n + 6 < length g" using Suc.prems by (simp add: gaps_def)
  from convert_char_columns [OF this] obtain h where h: "convert_char msg n g = Some h" "length h = length g"
    "\<forall>k < length g. h ! k = (if k div 6 = n \<and> k mod 6 < 5 then column msg k else if k = 6 * n + 6 then 0 else g ! k)"
    by blast
  have "convert_msg msg f (Suc n) = Some h" using g(1) h(1) by (simp add: convert_msg_Suc)
  moreover have "gaps h" using g(2) h(2,3) by (auto simp: gaps_def)
  moreover have "h ! k = column msg k" if "k < 6 * Suc n" for k
  proof (cases "k < 6 * n")
    case True
    then show ?thesis using g(2,3) h(3) Suc.prems by (auto simp: gaps_def)
  next
    case False
    then have "k div 6 = n" "k \<noteq> 6 * n + 6" "k < length g" using that Suc.prems g(2) by (auto simp: gaps_def)
    then show ?thesis using h(3) g(2) by (auto simp: gaps_def column_def)
  qed
  ultimately show ?case by blast
qed

section \<open>The steps of the serial display\<close>

text \<open>The ten columns of the display after \<open>k\<close> steps, of the \<open>n\<close> columns of a message.\<close>

definition window :: "u8 list \<Rightarrow> nat \<Rightarrow> nat \<Rightarrow> u8 list" where
  "window msg n k = map (\<lambda>j. if k + j < DISPLAY_WIDTH then 0 else column msg ((k + j - DISPLAY_WIDTH) mod n)) [0..<DISPLAY_WIDTH]"

definition shows_msg :: "u8 list \<Rightarrow> nat \<Rightarrow> nat \<Rightarrow> matrix \<Rightarrow> bool" where
  "shows_msg msg n k m \<longleftrightarrow> mbuffer m = window msg n k \<and> current_pos m = k mod n \<and> 6 * msize m = n \<and> 0 < n \<and>
     n \<le> length (msg_font m) \<and> (\<forall>k < n. msg_font m ! k = column msg k) \<and> length (msg_affichage m) = DISPLAY_WIDTH + 2 \<and>
     msg_affichage m ! 0 = 100 \<and> msg_affichage m ! 11 = COMMAND_END"

lemma window_Suc: "window msg n (Suc k) = tl (window msg n k) @ [column msg (k mod n)]"
proof (rule nth_equalityI)
  fix j assume "j < length (window msg n (Suc k))"
  then have "j < 9 \<or> j = 9" by (auto simp: window_def DISPLAY_WIDTH_def)
  then show "window msg n (Suc k) ! j = (tl (window msg n k) @ [column msg (k mod n)]) ! j"
    by (auto simp: window_def DISPLAY_WIDTH_def nth_append nth_tl)
qed (simp add: window_def DISPLAY_WIDTH_def)

lemma ten_cases: "length b = 10 \<Longrightarrow> \<exists>b0 b1 b2 b3 b4 b5 b6 b7 b8 b9. b = [b0, b1, b2, b3, b4, b5, b6, b7, b8, b9]"
  by (simp add: numeral_eq_Suc length_Suc_conv) blast

lemma shift_buffer: "length b = 10 \<Longrightarrow> fold (\<lambda>j b. b[j := b ! (j + 1)]) [0..<9] b = tl b @ [last b]"
  by (drule ten_cases) (auto simp: upt_rec numeral_eq_Suc)

lemma fill_command:
  assumes "length b = 10" "length a = 12" "a ! 0 = 100" "a ! 11 = e"
  shows "fold (\<lambda>j a. a[j + 1 := b ! j]) [0..<10] a = 100 # b @ [e]"
proof -
  obtain a0 a1 r where "a = a0 # a1 @ [r]" "length a1 = 10"
    using assms(2) by (cases a; cases "tl a" rule: rev_cases) auto
  then obtain x0 x1 x2 x3 x4 x5 x6 x7 x8 x9 where "a = [a0, x0, x1, x2, x3, x4, x5, x6, x7, x8, x9, r]"
    using ten_cases [of a1] by auto
  then show ?thesis using assms ten_cases [of b] by (auto simp: upt_rec numeral_eq_Suc)
qed

lemma display_step_shows:
  assumes "shows_msg msg n k m"
  shows "\<exists>m'. display_step m = Some (100 # window msg n (Suc k) @ [COMMAND_END], m') \<and> shows_msg msg n (Suc k) m'"
proof -
  note m = assms [unfolded shows_msg_def]
  have w: "length (window msg n k) = 10" by (simp add: window_def DISPLAY_WIDTH_def)
  have pos: "current_pos m < length (msg_font m)" "msg_font m ! current_pos m = column msg (k mod n)"
    using m by (auto intro: less_le_trans [OF mod_less_divisor])
  let ?b = "window msg n (Suc k)"
  have b: "(tl (window msg n k) @ [last (window msg n k)])[9 := column msg (k mod n)] = ?b"
    using w by (simp add: window_Suc list_update_append)
  have "length ?b = 10" by (simp add: window_def DISPLAY_WIDTH_def)
  from fill_command [OF this, of "msg_affichage m" COMMAND_END] have a:
    "fold (\<lambda>j a. a[j + 1 := ?b ! j]) [0..<10] (msg_affichage m) = 100 # ?b @ [COMMAND_END]"
    using m by (simp add: DISPLAY_WIDTH_def)
  let ?m = "m\<lparr>mbuffer := ?b, msg_affichage := 100 # ?b @ [COMMAND_END], current_pos := (current_pos m + 1) mod (6 * msize m)\<rparr>"
  have "display_step m = Some (100 # ?b @ [COMMAND_END], ?m)"
    using m pos shift_buffer [OF w] a b by (simp add: display_step_def DISPLAY_WIDTH_def Let_def)
  moreover have "shows_msg msg n (Suc k) ?m"
    using m \<open>length ?b = 10\<close> by (simp add: shows_msg_def DISPLAY_WIDTH_def mod_Suc_eq nth_append)
  ultimately show ?thesis by blast
qed

lemma matrix_display_shows:
  assumes "gaps (msg_font m)" "0 < length msg" "length msg < 512"
  shows "\<exists>m'. matrix_display msg m = Some m' \<and> shows_msg msg (6 * length msg) 0 m' \<and> gaps (msg_font m')"
proof -
  obtain f where f: "convert_msg msg (msg_font m) (length msg) = Some f" "gaps f" "\<forall>k < 6 * length msg. f ! k = column msg k"
    using convert_msg_columns [OF assms(1), of "length msg" msg] assms(3) by (auto simp: MSG_FONT_SIZE_def)
  have "window msg n 0 = replicate DISPLAY_WIDTH 0" for n
    by (simp add: window_def list_eq_iff_nth_eq)
  then show ?thesis using f assms(2,3)
    by (auto simp: matrix_display_def Let_def shows_msg_def gaps_def MSG_FONT_SIZE_def init_buffer_def DISPLAY_WIDTH_def)
qed

section \<open>The picture of a text\<close>

lemma div_mod_8: "x = 8 * a + r \<Longrightarrow> r < 8 \<Longrightarrow> x div 8 = a \<and> x mod 8 = (r :: nat)"
  by simp

lemma pair_8: "k < 8 \<Longrightarrow> i < 8 \<Longrightarrow> 8 * j + k = 8 * j' + i \<longleftrightarrow> j = j' \<and> k = (i :: nat)"
  by (metis div_mod_8)

lemma shifted_column:
  assumes "p < 8" "j < (8 :: nat)"
  shows "8 - p \<le> j \<Longrightarrow> (8 * l + p + j) div 8 = l + 1 \<and> (8 * l + p + j) mod 8 = j - (8 - p)"
    "\<not> 8 - p \<le> j \<Longrightarrow> (8 * l + p + j) div 8 = l \<and> (8 * l + p + j) mod 8 = j + p"
  using assms by (intro div_mod_8; arith)+

lemma display_row_pixels:
  "\<forall>j \<in> set js. 8 * j + i < length b \<Longrightarrow>
   \<exists>b'. display_row s0 l row col i js b = Some b' \<and> length b' = length b \<and>
     (\<forall>x < length b. b' ! x = (if \<exists>j \<in> set js. x = 8 * j + i \<and> bit row (j + s0 - l) then col else b ! x))"
proof (induction js arbitrary: b)
  case (Cons j js)
  let ?b = "if bit row (j + s0 - l) then b[8 * j + i := col] else b"
  have "\<forall>j \<in> set js. 8 * j + i < length ?b" using Cons.prems by simp
  from Cons.IH [OF this] obtain b' where b': "display_row s0 l row col i js ?b = Some b'" "length b' = length ?b"
    "\<forall>x < length ?b. b' ! x = (if \<exists>j \<in> set js. x = 8 * j + i \<and> bit row (j + s0 - l) then col else ?b ! x)"
    by blast
  have "display_row s0 l row col i (j # js) b = Some b'"
    using b'(1) Cons.prems by (auto simp: display_row_def GET_BIT_def put_at_def split: if_splits)
  moreover have "b' ! x = (if \<exists>j \<in> set (j # js). x = 8 * j + i \<and> bit row (j + s0 - l) then col else b ! x)"
    if "x < length b" for x
    using b'(3) that by (auto simp: nth_list_update)
  ultimately show ?case using b'(2) by auto
qed (simp add: display_row_def)

lemma display_rows_pixels:
  "length b = 64 \<Longrightarrow> \<forall>i \<in> set is. i < 8 \<Longrightarrow> \<forall>j \<in> set js. j < 8 \<Longrightarrow>
   \<exists>b'. fold_opt (\<lambda>i. display_row s0 l (row i) col i js) is b = Some b' \<and> length b' = 64 \<and>
     (\<forall>j < 8. \<forall>i < 8. b' ! (8 * j + i) =
       (if i \<in> set is \<and> j \<in> set js \<and> bit (row i) (j + s0 - l) then col else b ! (8 * j + i)))"
proof (induction "is" arbitrary: b)
  case (Cons i "is")
  have "\<forall>j \<in> set js. 8 * j + i < length b" using Cons.prems by fastforce
  from display_row_pixels [OF this, of s0 l "row i" col] obtain b1 where
    b1: "display_row s0 l (row i) col i js b = Some b1" "length b1 = 64"
    "\<forall>x < 64. b1 ! x = (if \<exists>j \<in> set js. x = 8 * j + i \<and> bit (row i) (j + s0 - l) then col else b ! x)"
    using Cons.prems(1) by auto
  with Cons.IH [of b1] Cons.prems obtain b2 where
    b2: "fold_opt (\<lambda>i. display_row s0 l (row i) col i js) is b1 = Some b2" "length b2 = 64"
    "\<forall>j < 8. \<forall>k < 8. b2 ! (8 * j + k) =
       (if k \<in> set is \<and> j \<in> set js \<and> bit (row k) (j + s0 - l) then col else b1 ! (8 * j + k))" by auto
  have "b2 ! (8 * j + k) =
      (if k \<in> set (i # is) \<and> j \<in> set js \<and> bit (row k) (j + s0 - l) then col else b ! (8 * j + k))"
    if jk: "j < 8" "k < 8" for j k
  proof -
    have "8 * j + k < 64" using jk by simp
    moreover have "i < 8" using Cons.prems(2) by simp
    then have "8 * j + k = 8 * j' + i \<longleftrightarrow> j' = j \<and> i = k" for j'
      using jk(2) by (auto simp: pair_8)
    ultimately have "b1 ! (8 * j + k) = (if i = k \<and> j \<in> set js \<and> bit (row i) (j + s0 - l) then col else b ! (8 * j + k))"
      using b1(3) by auto
    then show ?thesis using b2(3) jk by auto
  qed
  with b1(1) b2(1,2) show ?case by (auto split: option.split)
qed simp

definition glyph_bit :: "u8 \<Rightarrow> nat \<Rightarrow> nat \<Rightarrow> bool" where
  "glyph_bit c i k = bit (scroller_font ! (8 * unat c + i)) k"

lemma display_char_left:
  assumes "length b = 64" "p < 8"
  shows "\<exists>b'. display_char b c (- int p) col = Some b' \<and> length b' = 64 \<and>
    (\<forall>j < 8. \<forall>i < 8. b' ! (8 * j + i) = (if j < 8 - p \<and> glyph_bit c i (j + p) then col else b ! (8 * j + i)))"
proof -
  have "display_char b c (- int p) col =
      fold_opt (\<lambda>i. display_row p 0 (scroller_font ! (8 * unat c + i)) col i [0..<8 - p]) [0..<8] b"
    using assms(2) by (auto simp: display_char_def nat_diff_distrib' of_nat_diff)
  moreover have "\<forall>i \<in> set [0..<8]. i < 8" "\<forall>j \<in> set [0..<8 - p]. j < 8" by auto
  ultimately show ?thesis
    using display_rows_pixels [OF assms(1), of "[0..<8]" "[0..<8 - p]" p 0 "\<lambda>i. scroller_font ! (8 * unat c + i)" col]
    by (simp add: glyph_bit_def)
qed

lemma display_char_right:
  assumes "length b = 64" "q \<le> 8"
  shows "\<exists>b'. display_char b c (int q) col = Some b' \<and> length b' = 64 \<and>
    (\<forall>j < 8. \<forall>i < 8. b' ! (8 * j + i) = (if q \<le> j \<and> glyph_bit c i (j - q) then col else b ! (8 * j + i)))"
proof -
  have "display_char b c (int q) col =
      fold_opt (\<lambda>i. display_row 0 q (scroller_font ! (8 * unat c + i)) col i [q..<8]) [0..<8] b"
    by (simp add: display_char_def)
  with display_rows_pixels [OF assms(1), of "[0..<8]" "[q..<8]" 0 q "\<lambda>i. scroller_font ! (8 * unat c + i)" col]
  show ?thesis by (auto simp: glyph_bit_def)
qed

text \<open>The matrix when the text has moved by \<open>pos\<close> columns, around its end.\<close>

definition picture :: "u8 list \<Rightarrow> u8 \<Rightarrow> nat \<Rightarrow> u8 list" where
  "picture t col pos =
    map (\<lambda>x. let q = pos + x div 8 in if glyph_bit (t ! (q div 8 mod length t)) (x mod 8) (q mod 8) then col else 0) [0..<64]"

text \<open>The lights show the end mark as a character.\<close>

definition marked :: "u8 list \<Rightarrow> u8 list" where
  "marked t = t @ [0]"

lemma nth_c_str:
  "k < length (marked (c_str text)) \<Longrightarrow> length (c_str text) < length text \<Longrightarrow> text ! k = marked (c_str text) ! k \<and> k < length text"
  using nth_length_takeWhile [of "\<lambda>c. c \<noteq> 0" "text"] takeWhile_nth [of k "\<lambda>c. c \<noteq> 0" "text"]
  unfolding c_str_def marked_def by (cases "k = length (takeWhile (\<lambda>c. c \<noteq> 0) text)") (auto simp: nth_append)

lemma display_text_picture:
  assumes "pos < 8 * length (marked (c_str text))" "length (c_str text) < length text"
  shows "display_text (replicate 64 0) text pos col = Some (picture (marked (c_str text)) col pos)"
proof -
  let ?t = "marked (c_str text)" and ?l = "pos div 8" and ?p = "pos mod 8"
  let ?m = "if ?l + 1 \<ge> length ?t then 0 else ?l + 1"
  have l: "?l < length ?t" using assms(1) by auto
  then have m: "?m < length ?t" "?m = (?l + 1) mod length ?t" by (auto simp: mod_Suc)
  note tl = nth_c_str [OF l assms(2)] and tm = nth_c_str [OF m(1) assms(2)]
  obtain b1 where b1: "display_char (replicate 64 0) (?t ! ?l) (- int ?p) col = Some b1" "length b1 = 64"
    "\<forall>j < 8. \<forall>i < 8. b1 ! (8 * j + i) = (if j < 8 - ?p \<and> glyph_bit (?t ! ?l) i (j + ?p) then col else 0)"
    using display_char_left [of "replicate 64 0" ?p "?t ! ?l" col] by auto
  obtain b2 where b2: "(if ?p \<noteq> 0 then display_char b1 (?t ! ?m) (int (8 - ?p)) col else Some b1) = Some b2" "length b2 = 64"
    "\<forall>j < 8. \<forall>i < 8. b2 ! (8 * j + i) =
       (if 8 - ?p \<le> j then (if glyph_bit (?t ! ?m) i (j - (8 - ?p)) then col else 0) else b1 ! (8 * j + i))"
  proof (cases "?p = 0")
    case True
    then show ?thesis using that [of b1] b1(2,3) by auto
  next
    case False
    from display_char_right [OF b1(2), of "8 - ?p" "?t ! ?m" col] obtain b2 where
      "display_char b1 (?t ! ?m) (int (8 - ?p)) col = Some b2" "length b2 = 64"
      "\<forall>j < 8. \<forall>i < 8. b2 ! (8 * j + i) = (if 8 - ?p \<le> j \<and> glyph_bit (?t ! ?m) i (j - (8 - ?p)) then col else b1 ! (8 * j + i))"
      by auto
    then show ?thesis using that [of b2] False b1(3) by auto
  qed
  have "b2 = picture ?t col pos"
  proof (rule nth_equalityI)
    fix x assume "x < length b2"
    let ?j = "x div 8" and ?i = "x mod 8"
    have p: "?p < 8" by simp
    have j: "?j < 8" "x = 8 * ?j + ?i" using \<open>x < length b2\<close> b2(2) by auto
    have "b2 ! x = (if glyph_bit (?t ! ((pos + ?j) div 8 mod length ?t)) ?i ((pos + ?j) mod 8) then col else 0)"
    proof (cases "8 - ?p \<le> ?j")
      case True
      then have "(pos + ?j) div 8 = ?l + 1 \<and> (pos + ?j) mod 8 = ?j - (8 - ?p)"
        using shifted_column(1) [OF p j(1) True, of ?l] by simp
      then show ?thesis using b2(3) [rule_format, OF j(1), of ?i] j(2) m(2) True by simp
    next
      case False
      then have "(pos + ?j) div 8 = ?l \<and> (pos + ?j) mod 8 = ?j + ?p"
        using shifted_column(2) [OF p j(1) False, of ?l] by simp
      then show ?thesis using b2(3) [rule_format, OF j(1), of ?i] b1(3) [rule_format, OF j(1), of ?i] j(2) l False by simp
    qed
    then show "b2 ! x = picture ?t col pos ! x" using \<open>x < length b2\<close> b2(2) by (simp add: picture_def Let_def)
  qed (simp add: b2(2) picture_def)
  with b1(1) b2(1) tl tm show ?thesis by (simp add: display_text_def led_strlen_def marked_def Let_def split: if_splits)
qed

section \<open>Texts\<close>

lemma c_str_end: "0 \<notin> set t \<Longrightarrow> c_str (t @ 0 # r) = t"
  by (induction t) (simp_all add: c_str_def)

definition hex_digit :: "u8 \<Rightarrow> u8" where
  "hex_digit d = (if d < 10 then 48 + d else 55 + d)"

lemma htoi_hex_digit: "d < 16 \<Longrightarrow> htoi (hex_digit d) = d"
  by (auto simp: htoi_def hex_digit_def word_le_nat_alt word_less_nat_alt unat_add_u8)

definition escapes :: "u8 \<Rightarrow> u8 list set" where
  "escapes c = {[37, hex_digit (c div 16), hex_digit (c mod 16)], if c = 37 then [37, 37] else [c]}"

lemma url_decode_escape:
  assumes "e \<in> escapes c"
  shows "url_decode (e @ es) = c # url_decode es"
proof -
  have "c div 16 * 16 + c mod 16 = c" by (rule div_mult_mod_eq)
  moreover have d: "c div 16 < 16" "c mod 16 < 16"
    using unat_u8_lt [of c] by (simp_all add: word_less_nat_alt unat_div unat_mod word_mod_less_divisor)
  moreover have "hex_digit (c div 16) \<noteq> 37"
  proof
    assume "hex_digit (c div 16) = 37"
    moreover from this have "c div 16 = 0" using htoi_hex_digit [OF d(1)] by (simp add: htoi_def)
    ultimately show False by (simp add: hex_digit_def)
  qed
  ultimately show ?thesis using assms htoi_hex_digit by (auto simp: escapes_def)
qed

lemma url_decode_escapes: "list_all2 (\<lambda>c e. e \<in> escapes c) t es \<Longrightarrow> url_decode (concat es) = t"
  by (induction t es rule: list_all2_induct) (simp_all add: url_decode_escape)

section \<open>Properties\<close>

text \<open>The two timers: \<open>True\<close> is a step of the lights, \<open>False\<close> one of the serial display.\<close>

definition led_steps :: "bool list \<Rightarrow> led \<Rightarrow> led option" where
  "led_steps es = fold_opt (\<lambda>e. if e then do_display else serial_step) es"

definition scrolls :: "u8 list \<Rightarrow> u8 \<Rightarrow> nat \<Rightarrow> nat \<Rightarrow> led \<Rightarrow> bool" where
  "scrolls t col k l s \<longleftrightarrow> c_str (led_text s) = t \<and> led_color s = col \<and> text_size s = length (marked t) \<and> length t < length (led_text s) \<and> t \<noteq> [] \<and>
     led_position s = k mod (8 * length (marked t)) \<and> shows_msg t (6 * length t) l (led_matrix s)"

lemma do_display_scrolls:
  assumes "scrolls t col k l s"
  shows "\<exists>u. do_display s = Some u \<and> scrolls t col (Suc k) l u \<and> serial_out u = serial_out s \<and>
    spi_out u = spi_out s @ [picture (marked t) col (k mod (8 * length (marked t)))]"
proof -
  have "0 < length (marked t)" by (simp add: marked_def)
  then have "k mod (8 * length (marked t)) < 8 * length (marked t)" by simp
  then have "display_text (replicate 64 0) (led_text s) (led_position s) (led_color s) =
      Some (picture (marked t) col (k mod (8 * length (marked t))))"
    using assms display_text_picture [of "led_position s" "led_text s" col] by (simp add: scrolls_def)
  then show ?thesis using assms \<open>k mod (8 * length (marked t)) < _\<close>
    by (auto simp: do_display_def Let_def led_matrix_display_buffer_def scrolls_def mod_Suc mult.commute [of _ 8]
        picture_def)
qed

lemma serial_step_scrolls:
  assumes "scrolls t col k l s"
  shows "\<exists>u. serial_step s = Some u \<and> scrolls t col k (Suc l) u \<and> spi_out u = spi_out s \<and>
    serial_out u = serial_out s @ [100 # window t (6 * length t) (Suc l) @ [COMMAND_END]]"
proof -
  obtain m where "display_step (led_matrix s) = Some (100 # window t (6 * length t) (Suc l) @ [COMMAND_END], m)"
    "shows_msg t (6 * length t) (Suc l) m"
    using display_step_shows [of t "6 * length t" l "led_matrix s"] assms by (auto simp: scrolls_def)
  then show ?thesis using assms by (auto simp: serial_step_def scrolls_def)
qed

lemma upt_front: "[k..<Suc k + n] = k # [Suc k..<Suc k + n]" "k + (n + Suc 0) = Suc k + n"
  by (simp_all add: upt_conv_Cons del: upt_Suc)

lemma led_steps_scroll:
  "scrolls t col k l s \<Longrightarrow>
   \<exists>u. led_steps es s = Some u \<and> scrolls t col (k + count_list es True) (l + count_list es False) u \<and>
     spi_out u = spi_out s @ map (\<lambda>i. picture (marked t) col (i mod (8 * length (marked t)))) [k..<k + count_list es True] \<and>
     serial_out u = serial_out s @
       map (\<lambda>i. 100 # window t (6 * length t) (Suc i) @ [COMMAND_END]) [l..<l + count_list es False]"
proof (induction es arbitrary: k l s)
  case Nil
  then show ?case by (simp add: led_steps_def)
next
  case (Cons e es)
  show ?case
  proof (cases e)
    case True
    obtain v where v: "do_display s = Some v" "scrolls t col (Suc k) l v" "serial_out v = serial_out s"
      "spi_out v = spi_out s @ [picture (marked t) col (k mod (8 * length (marked t)))]"
      using do_display_scrolls [OF Cons.prems] by blast
    with Cons.IH [OF v(2)] True show ?thesis by (auto simp: led_steps_def upt_front simp del: upt_Suc add_Suc_right add_Suc)
  next
    case False
    obtain v where v: "serial_step s = Some v" "scrolls t col k (Suc l) v" "spi_out v = spi_out s"
      "serial_out v = serial_out s @ [100 # window t (6 * length t) (Suc l) @ [COMMAND_END]]"
      using serial_step_scrolls [OF Cons.prems] by blast
    with Cons.IH [OF v(2)] False show ?thesis by (auto simp: led_steps_def upt_front simp del: upt_Suc add_Suc_right add_Suc)
  qed
qed

lemma window_marks: "COMMAND_END \<notin> set (window t n k)"
proof -
  have "column t j \<noteq> COMMAND_END" for j
  proof (cases "j mod 6 < 5")
    case True
    then have "unat (t ! (j div 6)) * 5 + j mod 6 < length matrix_font"
      using unat_u8_lt [of "t ! (j div 6)"] by simp
    then have "column t j \<in> set matrix_font" using True by (simp add: column_def)
    then show ?thesis using matrix_font_marks by (auto simp: COMMAND_END_def)
  qed (simp add: column_def COMMAND_END_def)
  moreover have "COMMAND_END \<noteq> 0" by (simp add: COMMAND_END_def)
  moreover have "x = 0 \<or> (\<exists>j. x = column t j)" if "x \<in> set (window t n k)" for x
    using that by (auto simp: window_def)
  ultimately show ?thesis by metis
qed

text \<open>
  C35: A text that is set scrolls over both displays. After the request for a text, which may be escaped, the timers send
  in any order the pictures of the text to the lights, moved by one column each time and around its end, where
  the end mark stands as a blank, and
  to the serial line the commands with ten columns of its other font, whose end mark is nowhere else.
\<close>

theorem text_scrolls:
  assumes "list_all2 (\<lambda>c e. e \<in> escapes c) t es" "t \<noteq> []" "0 \<notin> set t" "length t < 128"
    "length (led_text s) = 128" "gaps (msg_font (led_matrix s))"
  shows "\<exists>u v. get_led_text (concat es) s = Some u \<and> get_led_get_text u = t \<and> led_steps steps u = Some v \<and>
    spi_out v = spi_out s @ map (\<lambda>i. picture (marked t) (led_color s) (i mod (8 * length (marked t)))) [0..<count_list steps True] \<and>
    serial_out v = serial_out s @
      map (\<lambda>i. 100 # window t (6 * length t) (Suc i) @ [COMMAND_END]) [0..<count_list steps False] \<and>
    (\<forall>i. COMMAND_END \<notin> set (window t (6 * length t) i))"
proof -
  let ?a = "t @ 0 # drop (length t + 1) (led_text s)"
  have a: "led_strcpy (led_text s) (concat es) = Some ?a" "c_str ?a = t"
    using url_decode_escapes [OF assms(1)] assms(3-5) by (simp_all add: led_strcpy_def c_str_end)
  obtain m where m: "matrix_display t (led_matrix s) = Some m" "shows_msg t (6 * length t) 0 m"
    using matrix_display_shows [OF assms(6), of t] assms(2,4) by auto
  let ?u = "s\<lparr>led_text := ?a, text_size := length (marked t), led_matrix := m, led_position := 0\<rparr>"
  have u: "get_led_text (concat es) s = Some ?u" "get_led_get_text ?u = t"
    using a m(1) by (simp_all add: get_led_text_def get_led_get_text_def Let_def led_strlen_def marked_def)
  have "scrolls t (led_color s) 0 0 ?u" using a(2) m(2) assms(2) by (simp add: scrolls_def)
  from led_steps_scroll [OF this, of steps] show ?thesis using u window_marks by auto
qed

text \<open>A text without characters makes the next step of the serial display divide by zero.\<close>

lemma empty_text_divides_by_zero:
  assumes "length (led_text s) = 128" "get_led_text [] s = Some u"
  shows "serial_step u = None"
  using assms
  by (auto simp: get_led_text_def led_strcpy_def c_str_def matrix_display_def convert_msg_def MSG_FONT_SIZE_def Let_def
      serial_step_def display_step_def)

text \<open>A text of 512 characters would be written behind the array of the columns, which the test of the size allows.\<close>

lemma put_at_length: "fold_opt (\<lambda>j. put_at (a j) (c j)) js f = Some g \<Longrightarrow> length g = length f"
  by (induction js arbitrary: f) (auto simp: put_at_def split: if_splits)

lemma long_message_outside:
  assumes "gaps (msg_font m)" "length msg = 512"
  shows "matrix_display msg m = None"
proof -
  obtain g where g: "convert_msg msg (msg_font m) 511 = Some g" "gaps g"
    using convert_msg_columns [OF assms(1), of 511 msg] by (auto simp: MSG_FONT_SIZE_def)
  have "convert_char msg 511 g = None"
    using g(2) by (auto simp: convert_char_def put_at_def [of "3072"] gaps_def MSG_FONT_SIZE_def dest: put_at_length
        split: Option.bind_splits)
  then have "convert_msg msg (msg_font m) 512 = None"
    using g(1) convert_msg_Suc [of msg "msg_font m" 511] by simp
  then show ?thesis using assms(2) by (simp add: matrix_display_def Let_def MSG_FONT_SIZE_def)
qed

definition led_start :: led where
  "led_start = \<lparr>led_text = replicate 128 0, led_color = 0xFF, color_text = replicate 10 0, led_position = 0, text_size = 0,
     back_buffer = replicate 64 0,
     led_matrix = \<lparr>msize = 0, current_pos = 0, msg_affichage = replicate 12 0, msg_font = replicate MSG_FONT_SIZE 0,
       mbuffer = replicate 10 0\<rparr>, spi_out = [], serial_out = []\<rparr>"

theorem text_scrolls_witness:
  "\<exists>u v. get_led_text [0x25, 0x34, 0x31, 0x42] led_start = Some u \<and> led_steps [True, False, True] u = Some v \<and>
     spi_out v = [picture [0x41, 0x42, 0] 0xFF 0, picture [0x41, 0x42, 0] 0xFF 1] \<and>
     serial_out v = [100 # window [0x41, 0x42] 12 1 @ [0xC0]]"
proof -
  have "list_all2 (\<lambda>c e. e \<in> escapes c) [0x41, 0x42] [[0x25, 0x34, 0x31], [0x42]]"
    by (simp add: escapes_def hex_digit_def)
  moreover have "length (led_text led_start) = 128" "gaps (msg_font (led_matrix led_start))" "led_color led_start = 0xFF"
    "spi_out led_start = []" "serial_out led_start = []"
    by (simp_all add: led_start_def gaps_def)
  ultimately show ?thesis
    using text_scrolls [of "[0x41, 0x42]" "[[0x25, 0x34, 0x31], [0x42]]" led_start "[True, False, True]"]
    by (auto simp: COMMAND_END_def marked_def)
qed

end
